(* ===== verification/Busyncr_Prelude.thy ===== *)
theory Busyncr_Prelude
  imports Main "HOL-Library.Word" "HOL-Library.AList" "HOL-Library.List_Lexorder"
begin

text \<open>
  Shared vocabulary of the BusyNCR development: the machine types the Rust sources use, the
  result type, little- and big-endian byte codecs, the pieces of the Rust standard library
  that several components call (\<open>chunks_exact\<close>, saturating integer operations,
  \<open>Duration\<close>, UTF-8 validation), and the generic lemmas about them.

  \<^item> \<open>u8\<close>, \<open>u32\<close>, \<open>u64\<close>, \<open>u128\<close> are words of that width; \<open>i64\<close> is a 64-bit word
    read with \<open>sint\<close>; \<open>[u8; 32]\<close> is a 256-bit word whose byte image is big-endian.
  \<^item> A Rust \<open>String\<close> is its list of UTF-8 bytes.
  \<^item> \<open>Result<A, E>\<close> is the sum \<open>E + A\<close>, with \<open>Err\<close> and \<open>Ok\<close> for its two sides.
\<close>

unbundle bit_operations_syntax

named_theorems codec_simps \<open>lengths and round trips of the byte codecs\<close>

section \<open>Types\<close>

type_synonym byte = "8 word"
type_synonym bytes = "byte list"
type_synonym u32 = "32 word"
type_synonym u64 = "64 word"
type_synonym i64 = "64 word"
type_synonym hash32 = "256 word"
type_synonym ulid = "128 word"

abbreviation Ok :: "'a \<Rightarrow> 'e + 'a" where "Ok \<equiv> Inr"
abbreviation Err :: "'e \<Rightarrow> 'e + 'a" where "Err \<equiv> Inl"

text \<open>The \<open>?\<close> operator: continue with the value, or return the error.\<close>

definition and_then :: "'e + 'a \<Rightarrow> ('a \<Rightarrow> 'e + 'b) \<Rightarrow> 'e + 'b" where
  "and_then r f = (case r of Err e \<Rightarrow> Err e | Ok x \<Rightarrow> f x)"

definition map_err :: "('e \<Rightarrow> 'f) \<Rightarrow> 'e + 'a \<Rightarrow> 'f + 'a" where
  "map_err f r = (case r of Err e \<Rightarrow> Err (f e) | Ok x \<Rightarrow> Ok x)"

lemma and_then_simps [simp]:
  "and_then (Ok x) f = f x" "and_then (Err e) f = Err e"
  by (simp_all add: and_then_def)

lemma and_then_Ok_iff: "and_then r f = Ok y \<longleftrightarrow> (\<exists>x. r = Ok x \<and> f x = Ok y)"
  by (cases r) auto

lemma map_err_simps [simp]:
  "map_err f (Ok x) = Ok x" "map_err f (Err e) = Err (f e)"
  by (simp_all add: map_err_def)

lemma map_err_Ok_iff [simp]: "map_err f r = Ok y \<longleftrightarrow> r = Ok y"
  by (cases r) auto

text \<open>\<open>iter().map(f).collect::<Result<Vec<_>, _>>()\<close>: the first error wins.\<close>

fun collect_results :: "('a \<Rightarrow> 'e + 'b) \<Rightarrow> 'a list \<Rightarrow> 'e + 'b list" where
  "collect_results f [] = Ok []"
| "collect_results f (x # xs) =
     and_then (f x) (\<lambda>y. and_then (collect_results f xs) (\<lambda>ys. Ok (y # ys)))"

lemma collect_results_Ok_map:
  "(\<And>x. x \<in> set xs \<Longrightarrow> f x = Ok (g x)) \<Longrightarrow> collect_results f xs = Ok (map g xs)"
  by (induction xs) auto

lemma collect_results_Ok_length: "collect_results f xs = Ok ys \<Longrightarrow> length ys = length xs"
  by (induction xs arbitrary: ys) (auto simp: and_then_Ok_iff)

section \<open>Byte codecs\<close>

text \<open>\<open>to_le_bytes\<close> and \<open>from_le_bytes\<close> for a value of \<open>n\<close> bytes.\<close>

fun le_bytes :: "nat \<Rightarrow> 'a::len word \<Rightarrow> bytes" where
  "le_bytes 0 w = []"
| "le_bytes (Suc n) w = ucast w # le_bytes n (drop_bit 8 w)"

fun of_le_bytes :: "bytes \<Rightarrow> 'a::len word" where
  "of_le_bytes [] = 0"
| "of_le_bytes (b # bs) = ucast b OR push_bit 8 (of_le_bytes bs)"

text \<open>The byte array of a hash or a ULID: most significant byte first.\<close>

definition be_bytes :: "nat \<Rightarrow> 'a::len word \<Rightarrow> bytes" where
  "be_bytes n w = rev (le_bytes n w)"

definition of_be_bytes :: "bytes \<Rightarrow> 'a::len word" where
  "of_be_bytes bs = of_le_bytes (rev bs)"

lemma length_le_bytes [simp]: "length (le_bytes n w) = n"
  by (induction n arbitrary: w) auto

lemma length_be_bytes [simp]: "length (be_bytes n w) = n"
  by (simp add: be_bytes_def)

lemma of_le_bytes_le_bytes: "(of_le_bytes (le_bytes n w) :: 'a::len word) = take_bit (8 * n) w"
proof (induction n arbitrary: w)
  case 0
  then show ?case by simp
next
  case (Suc n)
  show ?case by (simp add: Suc) (auto simp: bit_eq_iff bit_simps not_less)
qed

lemma le_bytes_inverse [codec_simps]:
  "LENGTH('a::len) \<le> 8 * n \<Longrightarrow> of_le_bytes (le_bytes n w) = (w :: 'a word)"
  by (simp add: of_le_bytes_le_bytes take_bit_word_eq_self)

lemma be_bytes_inverse [codec_simps]:
  "LENGTH('a::len) \<le> 8 * n \<Longrightarrow> of_be_bytes (be_bytes n w) = (w :: 'a word)"
  by (simp add: of_be_bytes_def be_bytes_def le_bytes_inverse)

lemma bit_of_le_bytes_bound:
  "bit (of_le_bytes bs :: 'a::len word) k \<Longrightarrow> k < 8 * length bs"
proof (induction bs arbitrary: k)
  case Nil then show ?case by simp
next
  case (Cons b bs)
  from Cons.prems show ?case
  by (auto simp: bit_simps not_less dest: bit_imp_le_length Cons.IH)
qed

lemma drop_bit_of_le_bytes_Cons:
  "8 * Suc (length bs) \<le> LENGTH('a::len) \<Longrightarrow>
     drop_bit 8 (of_le_bytes (b # bs) :: 'a word) = of_le_bytes bs"
  by (auto simp: bit_eq_iff bit_simps not_less dest: bit_imp_le_length bit_of_le_bytes_bound)
lemma le_bytes_of_le_bytes [codec_simps]:
  "8 * length bs \<le> LENGTH('a::len) \<Longrightarrow> le_bytes (length bs) (of_le_bytes bs :: 'a word) = bs"
proof (induction bs)
  case Nil
  then show ?case by simp
next
  case (Cons b bs)
  have "ucast (of_le_bytes (b # bs) :: 'a word) = b"
    using Cons.prems by (auto simp: bit_eq_iff bit_simps not_less dest: bit_imp_le_length)
  moreover have "drop_bit 8 (of_le_bytes (b # bs) :: 'a word) = of_le_bytes bs"
    using Cons.prems by (intro drop_bit_of_le_bytes_Cons) simp
  ultimately show ?case using Cons by simp
qed

lemma be_bytes_of_be_bytes [codec_simps]:
  "8 * length bs \<le> LENGTH('a::len) \<Longrightarrow> be_bytes (length bs) (of_be_bytes bs :: 'a word) = bs"
  using le_bytes_of_le_bytes [of "rev bs", where 'a = 'a]
  by (simp add: of_be_bytes_def be_bytes_def)

lemma be_bytes_inject [simp]:
  "LENGTH('a::len) \<le> 8 * n \<Longrightarrow> be_bytes n v = be_bytes n w \<longleftrightarrow> v = (w :: 'a word)"
  by (metis be_bytes_inverse)

text \<open>Big-endian images of one width compare as the numbers do, which is what makes an ordered
  byte-keyed table iterate in numeric order.\<close>

lemma be_bytes_Suc: "be_bytes (Suc n) w = be_bytes n (drop_bit 8 w) @ [ucast w]"
  by (simp add: be_bytes_def)

lemma list_less_snoc:
  fixes a b :: "'a::linorder"
  shows "length xs = length ys \<Longrightarrow> xs @ [a] < ys @ [b] \<longleftrightarrow> xs < ys \<or> xs = ys \<and> a < b"
  by (induction xs ys rule: list_induct2) auto

lemma mod_256_Suc: "(x::nat) mod 2 ^ (8 * Suc n) = 256 * (x div 256 mod 2 ^ (8 * n)) + x mod 256"
  using mod_mult2_eq [of x 256 "2 ^ (8 * n)"] by (simp add: mult.commute power_add)

lemma digit_compare:
  assumes "a < (256::nat)" and "b < 256"
  shows "256 * x + a < 256 * y + b \<longleftrightarrow> x < y \<or> x = y \<and> a < b"
    and "256 * x + a = 256 * y + b \<longleftrightarrow> x = y \<and> a = b"
  using assms by (cases x y rule: linorder_cases; auto)+

lemma be_bytes_compare:
  fixes v w :: "'a::len word"
  shows "(be_bytes n v < be_bytes n w \<longleftrightarrow> unat v mod 2 ^ (8 * n) < unat w mod 2 ^ (8 * n)) \<and>
         (be_bytes n v = be_bytes n w \<longleftrightarrow> unat v mod 2 ^ (8 * n) = unat w mod 2 ^ (8 * n))"
proof (induction n arbitrary: v w)
  case 0
  then show ?case by (simp add: be_bytes_def)
next
  case (Suc n)
  have shift: "unat (drop_bit 8 u) = unat u div 256" for u :: "'a word"
    by (simp only: unat_drop_bit_eq) (simp add: drop_bit_eq_div)
  have low: "(ucast u :: byte) < ucast u' \<longleftrightarrow> unat u mod 256 < unat u' mod 256"
    "(ucast u :: byte) = ucast u' \<longleftrightarrow> unat u mod 256 = unat u' mod 256" for u u' :: "'a word"
    by (simp_all add: word_less_nat_alt word_unat_eq_iff unsigned_ucast_eq take_bit_eq_mod)
  have m: "unat u mod 256 < 256" for u :: "'a word" by simp
  show ?case
    using Suc [of "drop_bit 8 v" "drop_bit 8 w"] m [of v] m [of w]
    by (simp add: be_bytes_Suc list_less_snoc mod_256_Suc shift low digit_compare
             del: mult_Suc_right)
qed

lemma be_bytes_less [simp]:
  fixes v w :: "'a::len word"
  assumes "LENGTH('a) \<le> 8 * n"
  shows "be_bytes n v < be_bytes n w \<longleftrightarrow> v < w"
proof -
  have "unat u mod 2 ^ (8 * n) = unat u" for u :: "'a word"
  proof -
    have "unat u < 2 ^ LENGTH('a)" by (rule unsigned_less)
    also have "\<dots> \<le> 2 ^ (8 * n)" using assms by (intro power_increasing) auto
    finally show ?thesis by simp
  qed
  then show ?thesis using be_bytes_compare [of n v w] by (simp add: word_less_nat_alt)
qed

section \<open>Rust standard library\<close>

subsection \<open>Slices\<close>

text \<open>\<open>slice.chunks_exact(n)\<close>; the code calls it with a non-zero constant.\<close>

fun chunks_exact :: "nat \<Rightarrow> 'a list \<Rightarrow> 'a list list" where
  "chunks_exact n xs =
     (if n = 0 \<or> length xs < n then [] else take n xs # chunks_exact n (drop n xs))"

declare chunks_exact.simps [simp del]

lemma chunks_exact_concat:
  assumes "0 < n" and "\<And>x. x \<in> set xs \<Longrightarrow> length x = n"
  shows "chunks_exact n (concat xs) = xs"
  using assms(2)
proof (induction xs)
  case Nil
  then show ?case using assms(1) by (simp add: chunks_exact.simps)
next
  case (Cons x xs)
  then show ?case using assms(1) by (simp add: chunks_exact.simps [of n "x @ concat xs"])
qed

lemma chunks_exact_length: "x \<in> set (chunks_exact n xs) \<Longrightarrow> length x = n"
proof (induction n xs rule: chunks_exact.induct)
  case (1 n xs)
  then show ?case by (subst (asm) (2) chunks_exact.simps) (auto split: if_splits)
qed

subsection \<open>Fixed-width codecs\<close>

text \<open>
  The contract every identifier and record of the wire formats meets: an encoding into a fixed
  number of bytes that decodes both ways. Concatenated encodings split back with
  \<open>chunks_exact\<close>. \<open>ordered_codec\<close> adds that byte order is value order, which is what makes a table
  keyed by the encoding iterate in value order.
\<close>

locale fixed_codec =
  fixes enc :: "'a \<Rightarrow> bytes" and dec :: "bytes \<Rightarrow> 'a" and width :: nat
  assumes width_pos: "0 < width"
    and length_enc: "length (enc x) = width"
    and dec_enc: "dec (enc x) = x"
    and enc_dec: "length bs = width \<Longrightarrow> enc (dec bs) = bs"
begin

lemma enc_inject: "enc x = enc y \<longleftrightarrow> x = y"
  by (metis dec_enc)

lemma enc_surj: "length bs = width \<longleftrightarrow> (\<exists>x. bs = enc x)"
  using enc_dec length_enc by metis

lemma map_dec_chunks: "map dec (chunks_exact width (concat (map enc xs))) = xs"
proof -
  have "chunks_exact width (concat (map enc xs)) = map enc xs"
    by (rule chunks_exact_concat) (auto simp: width_pos length_enc)
  then show ?thesis by (simp add: dec_enc comp_def)
qed

lemma dec_inject: "length a = width \<Longrightarrow> length b = width \<Longrightarrow> dec a = dec b \<longleftrightarrow> a = b"
  by (metis enc_dec)

lemma distinct_map_dec: "distinct ks \<Longrightarrow> distinct (map dec (filter (\<lambda>k. length k = width) ks))"
  by (auto simp: distinct_map inj_on_def dec_inject)

lemma set_map_dec: "set (map dec (filter (\<lambda>k. length k = width) ks)) = {x. enc x \<in> set ks}"
  by (auto simp: enc_dec length_enc image_iff) (metis dec_enc length_enc)

end

locale ordered_codec = fixed_codec enc dec width
  for enc :: "'a::linorder \<Rightarrow> bytes" and dec :: "bytes \<Rightarrow> 'a" and width :: nat +
  assumes enc_less: "enc x < enc y \<longleftrightarrow> x < y"
begin

lemma dec_less: "length a = width \<Longrightarrow> length b = width \<Longrightarrow> dec a < dec b \<longleftrightarrow> a < b"
  by (metis enc_dec enc_less)

lemma sorted_map_dec:
  "sorted_wrt (<) ks \<Longrightarrow> sorted_wrt (<) (map dec (filter (\<lambda>k. length k = width) ks))"
  by (induction ks) (auto simp: dec_less)

end

subsection \<open>Integers\<close>

definition i64_sat :: "int \<Rightarrow> i64" where
  "i64_sat x = word_of_int (max (- (2 ^ 63)) (min (2 ^ 63 - 1) x))"

definition i64_saturating_sub :: "i64 \<Rightarrow> i64 \<Rightarrow> i64" where
  "i64_saturating_sub a b = i64_sat (sint a - sint b)"

text \<open>\<open>i64::try_from(n).unwrap_or(i64::MAX)\<close> for an unsigned \<open>n\<close>.\<close>

definition i64_try_from_or_max :: "nat \<Rightarrow> i64" where
  "i64_try_from_or_max n = i64_sat (int n)"

text \<open>\<open>a.max(b)\<close> on \<open>i64\<close>, and \<open>div_euclid\<close>; the code only divides by a value that is at
  least one, where the Euclidean quotient is the floor.\<close>

definition i64_max :: "i64 \<Rightarrow> i64 \<Rightarrow> i64" where
  "i64_max a b = (if sint b < sint a then a else b)"

definition i64_div_euclid :: "i64 \<Rightarrow> i64 \<Rightarrow> i64" where
  "i64_div_euclid a b =
     word_of_int (if 0 < sint b then sint a div sint b else - (sint a div (- sint b)))"

definition u64_saturating_add :: "u64 \<Rightarrow> u64 \<Rightarrow> u64" where
  "u64_saturating_add a b = (if uint a + uint b < 2 ^ 64 then a + b else - 1)"

definition u64_saturating_sub :: "u64 \<Rightarrow> u64 \<Rightarrow> u64" where
  "u64_saturating_sub a b = (if a < b then 0 else a - b)"

lemma sint_range_i64: "- (2 ^ 63) \<le> sint (w :: i64)" "sint (w :: i64) < 2 ^ 63"
  using sint_greater_eq [of w] sint_less [of w] by simp_all

lemma sint_inject_i64: "sint (a :: i64) = sint b \<longleftrightarrow> a = b"
  by (auto dest: signed_word_eqI)

lemma sint_i64_sat [simp]: "sint (i64_sat x) = max (- (2 ^ 63)) (min (2 ^ 63 - 1) x)"
  by (simp add: i64_sat_def sint_sbintrunc' signed_take_bit_int_eq_self)

lemma sint_i64_saturating_sub:
  "sint (i64_saturating_sub a b) = max (- (2 ^ 63)) (min (2 ^ 63 - 1) (sint a - sint b))"
  by (simp add: i64_saturating_sub_def)

lemma sint_i64_max [simp]: "sint (i64_max a b) = max (sint a) (sint b)"
  by (simp add: i64_max_def)

lemma unat_u64_saturating_add: "unat (u64_saturating_add a b) = min (2 ^ 64 - 1) (unat a + unat b)"
proof -
  have "uint a + uint b < 2 ^ 64 \<longleftrightarrow> unat a + unat b < 2 ^ 64"
    using of_nat_less_iff [of "unat a + unat b" "2 ^ 64", where 'a = int] by simp
  then show ?thesis
    by (auto simp: u64_saturating_add_def unat_word_ariths unsigned_minus_1_eq_mask mask_eq_exp_minus_1)
qed

lemma unat_u64_saturating_sub: "unat (u64_saturating_sub a b) = unat a - unat b"
  by (simp add: u64_saturating_sub_def word_less_nat_alt unat_sub_if_size)

subsection \<open>Duration\<close>

text \<open>A \<open>Duration\<close> is its number of nanoseconds, at most \<open>DURATION_MAX\<close>.\<close>

type_synonym duration = nat

definition DURATION_MAX :: duration where
  "DURATION_MAX = (2 ^ 64 - 1) * 10 ^ 9 + 999999999"

definition from_secs :: "nat \<Rightarrow> duration" where "from_secs s = s * 10 ^ 9"
definition from_millis :: "nat \<Rightarrow> duration" where "from_millis m = m * 10 ^ 6"
definition as_millis :: "duration \<Rightarrow> nat" where "as_millis d = d div 10 ^ 6"

lemma as_millis_from_millis [simp]: "as_millis (from_millis m) = m"
  by (simp add: as_millis_def from_millis_def)

subsection \<open>UTF-8\<close>

text \<open>\<open>std::str::from_utf8\<close> succeeds exactly on the well-formed byte sequences of the Unicode
  standard (shortest forms only, no surrogates, at most U+10FFFF).\<close>

definition in_range :: "byte \<Rightarrow> byte \<Rightarrow> byte \<Rightarrow> bool" where
  "in_range lo hi b \<longleftrightarrow> lo \<le> b \<and> b \<le> hi"

fun utf8_valid :: "bytes \<Rightarrow> bool" where
  "utf8_valid [] = True"
| "utf8_valid (b # bs) =
     (if b < 0x80 then utf8_valid bs
      else (case bs of [] \<Rightarrow> False
        | c1 # bs1 \<Rightarrow>
          if in_range 0xC2 0xDF b then in_range 0x80 0xBF c1 \<and> utf8_valid bs1
          else (case bs1 of [] \<Rightarrow> False
            | c2 # bs2 \<Rightarrow>
              if b = 0xE0 then in_range 0xA0 0xBF c1 \<and> in_range 0x80 0xBF c2 \<and> utf8_valid bs2
              else if b = 0xED then in_range 0x80 0x9F c1 \<and> in_range 0x80 0xBF c2 \<and> utf8_valid bs2
              else if in_range 0xE1 0xEF b
                then in_range 0x80 0xBF c1 \<and> in_range 0x80 0xBF c2 \<and> utf8_valid bs2
              else (case bs2 of [] \<Rightarrow> False
                | c3 # bs3 \<Rightarrow>
                  (b = 0xF0 \<and> in_range 0x90 0xBF c1 \<or> b = 0xF4 \<and> in_range 0x80 0x8F c1 \<or>
                   in_range 0xF1 0xF3 b \<and> in_range 0x80 0xBF c1)
                  \<and> in_range 0x80 0xBF c2 \<and> in_range 0x80 0xBF c3 \<and> utf8_valid bs3))))"

lemma utf8_valid_ascii: "(\<And>b. b \<in> set bs \<Longrightarrow> b < 0x80) \<Longrightarrow> utf8_valid bs"
  by (induction bs) auto

lemma utf8_valid_append:
  assumes "utf8_valid b"
  shows "utf8_valid a \<Longrightarrow> utf8_valid (a @ b)"
proof (induction "length a" arbitrary: a rule: less_induct)
  case less
  note IH = less.hyps
  show ?case
  proof (cases a)
    case Nil
    then show ?thesis using assms by simp
  next
    case a: (Cons x bs)
    show ?thesis
    proof (cases "x < 0x80")
      case True
      then show ?thesis using IH [of bs] less.prems a by simp
    next
      case big: False
      then obtain c1 bs1 where bs: "bs = c1 # bs1" using less.prems a by (cases bs) auto
      show ?thesis
      proof (cases "in_range 0xC2 0xDF x")
        case True
        then show ?thesis using IH [of bs1] less.prems a big bs by simp
      next
        case three: False
        then obtain c2 bs2 where bs1: "bs1 = c2 # bs2" using less.prems a big bs by (cases bs1) auto
        show ?thesis
        proof (cases "x = 0xE0 \<or> x = 0xED \<or> in_range 0xE1 0xEF x")
          case True
          then show ?thesis using IH [of bs2] less.prems a big bs bs1 three by (simp split: if_splits)
        next
          case False
          then obtain c3 bs3 where bs2: "bs2 = c3 # bs3" using less.prems a big bs bs1 three by (cases bs2) auto
          then show ?thesis using IH [of bs3] less.prems a big bs bs1 three False by simp
        qed
      qed
    qed
  qed
qed

section \<open>Lists and association lists\<close>

lemma map_of_AList_update [simp]: "map_of (AList.update k v al) = (map_of al)(k \<mapsto> v)"
  by (simp add: update_conv')

lemma map_of_AList_delete [simp]: "map_of (AList.delete k al) = (map_of al)(k := None)"
  by (simp add: delete_conv')

lemma count_list_concat_sum: "count_list (concat xss) x = sum_list (map (\<lambda>xs. count_list xs x) xss)"
  by (induction xss) (auto simp: count_list_append)

section \<open>Transition systems\<close>

inductive reachable :: "('s \<Rightarrow> bool) \<Rightarrow> ('s \<Rightarrow> 's \<Rightarrow> bool) \<Rightarrow> 's \<Rightarrow> bool" for init step where
  reachable_init: "init s \<Longrightarrow> reachable init step s"
| reachable_step: "reachable init step s \<Longrightarrow> step s s' \<Longrightarrow> reachable init step s'"

text \<open>The contract of an inductive invariant: it holds initially and every step keeps it.\<close>

locale inductive_invariant =
  fixes init :: "'s \<Rightarrow> bool" and step :: "'s \<Rightarrow> 's \<Rightarrow> bool" and I :: "'s \<Rightarrow> bool"
  assumes inv_init: "init s \<Longrightarrow> I s"
    and inv_step: "I s \<Longrightarrow> step s s' \<Longrightarrow> I s'"
begin

lemma reachable_inv: "reachable init step s \<Longrightarrow> I s"
  by (induction rule: reachable.induct) (auto intro: inv_init inv_step)

end

end
