(* ===== verification/Chunking.thy ===== *)
theory Chunking
  imports Busyncr_Prelude
begin

text \<open>
  Chunk identity and the chunker of \<open>crates/busyncr-core/src/chunking.rs\<close>, and the index record
  of \<open>crates/busyncr-core/src/index.rs\<close>.

  A \<open>ChunkId\<close> is its 32 bytes, a 256-bit word. BLAKE3 (keyed and plain) and the FastCDC cut
  points are third-party code: the hash functions, the cut list of \<open>FastCDC::new\<close>, the items of
  \<open>StreamCDC\<close> and the size limits of that crate are arguments of the definitions.
\<close>

section \<open>Chunk identity\<close>

type_synonym chunk_id = hash32

definition CHUNK_ID_LEN :: nat where "CHUNK_ID_LEN = 32"

definition chunk_id_as_bytes :: "chunk_id \<Rightarrow> bytes" where
  "chunk_id_as_bytes cid = be_bytes CHUNK_ID_LEN cid"

definition chunk_id_from_bytes :: "bytes \<Rightarrow> chunk_id" where
  "chunk_id_from_bytes bs = of_be_bytes bs"

text \<open>\<open>let bytes: [u8; 32] = raw.try_into()\<close>: fails on any other length.\<close>

definition chunk_id_try_from :: "bytes \<Rightarrow> chunk_id option" where
  "chunk_id_try_from bs = (if length bs = CHUNK_ID_LEN then Some (chunk_id_from_bytes bs) else None)"

text \<open>\<open>ChunkId::of\<close> and \<open>ChunkId::keyed\<close> over the two BLAKE3 functions.\<close>

definition chunk_id_of :: "(bytes \<Rightarrow> hash32) \<Rightarrow> bytes \<Rightarrow> chunk_id" where
  "chunk_id_of blake3 content = blake3 content"

definition chunk_id_keyed :: "(hash32 \<Rightarrow> bytes \<Rightarrow> hash32) \<Rightarrow> hash32 \<Rightarrow> bytes \<Rightarrow> chunk_id" where
  "chunk_id_keyed keyed_hash key content = keyed_hash key content"

text \<open>\<open>Display\<close>: two lower-case hex digits per byte.\<close>

definition hex_digit :: "nat \<Rightarrow> byte" where
  "hex_digit n = (if n < 10 then word_of_nat (48 + n) else word_of_nat (87 + n))"

definition hex_byte :: "byte \<Rightarrow> bytes" where
  "hex_byte b = [hex_digit (unat b div 16), hex_digit (unat b mod 16)]"

definition chunk_id_to_string :: "chunk_id \<Rightarrow> bytes" where
  "chunk_id_to_string cid = concat (map hex_byte (chunk_id_as_bytes cid))"

text \<open>\<open>FromStr\<close> works on the characters of the string, given here as their code points.\<close>

datatype chunk_id_parse_error = BadLength nat | BadChar nat

definition to_digit16 :: "nat \<Rightarrow> nat option" where
  "to_digit16 c =
     (if 48 \<le> c \<and> c \<le> 57 then Some (c - 48)
      else if 97 \<le> c \<and> c \<le> 102 then Some (c - 87)
      else if 65 \<le> c \<and> c \<le> 70 then Some (c - 55) else None)"

fun draw_digits :: "nat \<Rightarrow> byte \<Rightarrow> nat list \<Rightarrow> chunk_id_parse_error + (byte \<times> nat list)" where
  "draw_digits 0 value chars = Ok (value, chars)"
| "draw_digits (Suc k) value [] = Err (BadLength 64)"
| "draw_digits (Suc k) value (c # chars) =
     (case to_digit16 c of
        None \<Rightarrow> Err (BadChar c)
      | Some digit \<Rightarrow> draw_digits k (push_bit 4 value OR word_of_nat digit) chars)"

fun parse_hex_bytes :: "nat \<Rightarrow> nat list \<Rightarrow> chunk_id_parse_error + bytes" where
  "parse_hex_bytes 0 chars = Ok []"
| "parse_hex_bytes (Suc n) chars =
     and_then (draw_digits 2 0 chars) (\<lambda>(value, rest).
       and_then (parse_hex_bytes n rest) (\<lambda>bs. Ok (value # bs)))"

definition chunk_id_from_str :: "nat list \<Rightarrow> chunk_id_parse_error + chunk_id" where
  "chunk_id_from_str chars =
     (if length chars \<noteq> 64 then Err (BadLength (length chars))
      else and_then (parse_hex_bytes 32 chars) (\<lambda>bs. Ok (chunk_id_from_bytes bs)))"

section \<open>Chunker configuration\<close>

record cdc_limits =
  MIN_SIZE_FLOOR :: nat
  MIN_SIZE_CEILING :: nat
  TARGET_SIZE_FLOOR :: nat
  TARGET_SIZE_CEILING :: nat
  MAX_SIZE_FLOOR :: nat
  MAX_SIZE_CEILING :: nat

text \<open>The message of \<open>InvalidConfig\<close> is represented by which check failed and the values it
  reports.\<close>

datatype chunking_error =
    InvalidMin nat | InvalidTarget nat | InvalidMax nat | InvalidOrder nat nat nat
  | ChunkingIo | ChunkingInternal bytes

record chunker_config =
  min_size :: nat
  target_size :: nat
  max_size :: nat

definition chunker_config_new ::
  "cdc_limits \<Rightarrow> nat \<Rightarrow> nat \<Rightarrow> nat \<Rightarrow> chunking_error + chunker_config" where
  "chunker_config_new L mn tgt mx =
     (if \<not> (MIN_SIZE_FLOOR L \<le> mn \<and> mn \<le> MIN_SIZE_CEILING L) then Err (InvalidMin mn)
      else if \<not> (TARGET_SIZE_FLOOR L \<le> tgt \<and> tgt \<le> TARGET_SIZE_CEILING L) then Err (InvalidTarget tgt)
      else if \<not> (MAX_SIZE_FLOOR L \<le> mx \<and> mx \<le> MAX_SIZE_CEILING L) then Err (InvalidMax mx)
      else if \<not> (mn \<le> tgt \<and> tgt \<le> mx) then Err (InvalidOrder mn tgt mx)
      else Ok \<lparr>min_size = mn, target_size = tgt, max_size = mx\<rparr>)"

definition usize_saturating_mul :: "nat \<Rightarrow> nat \<Rightarrow> nat" where
  "usize_saturating_mul a b = min (a * b) (2 ^ 64 - 1)"

definition chunker_config_with_target ::
  "cdc_limits \<Rightarrow> nat \<Rightarrow> chunking_error + chunker_config" where
  "chunker_config_with_target L tgt =
     chunker_config_new L (tgt div 4) tgt (usize_saturating_mul tgt 4)"

definition DEFAULT_TARGET_SIZE :: nat where "DEFAULT_TARGET_SIZE = 1024 * 1024"

definition chunker_config_default :: chunker_config where
  "chunker_config_default =
     \<lparr>min_size = DEFAULT_TARGET_SIZE div 4, target_size = DEFAULT_TARGET_SIZE,
      max_size = DEFAULT_TARGET_SIZE * 4\<rparr>"

section \<open>Chunks\<close>

record chunk =
  chunk_ident :: chunk_id
  chunk_offset :: u64
  chunk_data :: bytes

definition chunk_byte_len :: "chunk \<Rightarrow> nat" where
  "chunk_byte_len c = length (chunk_data c)"

text \<open>\<open>chunk_bytes\<close> and \<open>chunk_bytes_keyed\<close>: the hash is \<open>h\<close>, the cut points are those of FastCDC
  for the configuration. A cut outside the slice would panic (\<open>None\<close>).\<close>

type_synonym cdc_cuts = "nat \<Rightarrow> nat \<Rightarrow> nat \<Rightarrow> bytes \<Rightarrow> (nat \<times> nat) list"

fun chunks_of_cuts :: "(bytes \<Rightarrow> hash32) \<Rightarrow> bytes \<Rightarrow> (nat \<times> nat) list \<Rightarrow> chunk list option" where
  "chunks_of_cuts h data [] = Some []"
| "chunks_of_cuts h data ((off, len) # cuts) =
     (if length data < off + len then None
      else
        let bs = take len (drop off data);
            c = \<lparr>chunk_ident = h bs, chunk_offset = word_of_nat off, chunk_data = bs\<rparr>
        in map_option (\<lambda>cs. c # cs) (chunks_of_cuts h data cuts))"

definition chunk_bytes ::
  "cdc_cuts \<Rightarrow> (bytes \<Rightarrow> hash32) \<Rightarrow> bytes \<Rightarrow> chunker_config \<Rightarrow> chunk list option" where
  "chunk_bytes cdc blake3 data cfg =
     chunks_of_cuts (chunk_id_of blake3) data
       (cdc (min_size cfg) (target_size cfg) (max_size cfg) data)"

definition chunk_bytes_keyed ::
  "cdc_cuts \<Rightarrow> (hash32 \<Rightarrow> bytes \<Rightarrow> hash32) \<Rightarrow> bytes \<Rightarrow> chunker_config \<Rightarrow> hash32 \<Rightarrow> chunk list option" where
  "chunk_bytes_keyed cdc keyed_hash data cfg id_key =
     chunks_of_cuts (chunk_id_keyed keyed_hash id_key) data
       (cdc (min_size cfg) (target_size cfg) (max_size cfg) data)"

text \<open>The streaming path: \<open>next\<close> on the items \<open>StreamCDC\<close> produces, iterated until it returns
  \<open>None\<close> (end of the items, or an \<open>Empty\<close> error).\<close>

datatype cdc_item = CdcChunk u64 bytes | CdcEmpty | CdcIoError | CdcOther bytes

definition chunk_id_with_key ::
  "(bytes \<Rightarrow> hash32) \<Rightarrow> (hash32 \<Rightarrow> bytes \<Rightarrow> hash32) \<Rightarrow> hash32 option \<Rightarrow> bytes \<Rightarrow> chunk_id" where
  "chunk_id_with_key blake3 keyed_hash id_key data =
     (case id_key of
        Some key \<Rightarrow> chunk_id_keyed keyed_hash key data
      | None \<Rightarrow> chunk_id_of blake3 data)"

fun chunk_stream_next ::
  "(bytes \<Rightarrow> chunk_id) \<Rightarrow> cdc_item list \<Rightarrow> ((chunking_error + chunk) \<times> cdc_item list) option" where
  "chunk_stream_next ident [] = None"
| "chunk_stream_next ident (CdcChunk off data # items) =
     Some (Ok \<lparr>chunk_ident = ident data, chunk_offset = off, chunk_data = data\<rparr>, items)"
| "chunk_stream_next ident (CdcEmpty # items) = None"
| "chunk_stream_next ident (CdcIoError # items) = Some (Err ChunkingIo, items)"
| "chunk_stream_next ident (CdcOther msg # items) = Some (Err (ChunkingInternal msg), items)"

lemma chunk_stream_next_shrinks:
  "chunk_stream_next ident items = Some (r, items') \<Longrightarrow> length items' < length items"
  by (induction ident items rule: chunk_stream_next.induct) auto

function chunk_stream :: "(bytes \<Rightarrow> chunk_id) \<Rightarrow> cdc_item list \<Rightarrow> (chunking_error + chunk) list" where
  "chunk_stream ident items =
     (case chunk_stream_next ident items of
        None \<Rightarrow> []
      | Some (r, items') \<Rightarrow> r # chunk_stream ident items')"
  by pat_completeness auto
termination
  by (relation "measure (\<lambda>(ident, items). length items)") (auto dest: chunk_stream_next_shrinks)

declare chunk_stream.simps [simp del]

lemma chunk_stream_simps [simp]:
  "chunk_stream ident [] = []" "chunk_stream ident (CdcEmpty # items) = []"
  "chunk_stream ident (CdcChunk off data # items) =
     Ok \<lparr>chunk_ident = ident data, chunk_offset = off, chunk_data = data\<rparr> # chunk_stream ident items"
  "chunk_stream ident (CdcIoError # items) = Err ChunkingIo # chunk_stream ident items"
  "chunk_stream ident (CdcOther msg # items) = Err (ChunkingInternal msg) # chunk_stream ident items"
  by (subst chunk_stream.simps, simp)+

lemma chunk_stream_ident: "Ok c \<in> set (chunk_stream ident items) \<Longrightarrow> chunk_ident c = ident (chunk_data c)"
proof (induction items)
  case (Cons item items)
  then show ?case by (cases item) auto
qed simp

type_synonym 'r cdc_stream = "'r \<Rightarrow> nat \<Rightarrow> nat \<Rightarrow> nat \<Rightarrow> cdc_item list"

definition chunk_reader ::
  "'r cdc_stream \<Rightarrow> (bytes \<Rightarrow> hash32) \<Rightarrow> (hash32 \<Rightarrow> bytes \<Rightarrow> hash32) \<Rightarrow> 'r \<Rightarrow> chunker_config
     \<Rightarrow> (chunking_error + chunk) list" where
  "chunk_reader cdc blake3 keyed_hash source cfg =
     chunk_stream (chunk_id_with_key blake3 keyed_hash None)
       (cdc source (min_size cfg) (target_size cfg) (max_size cfg))"

definition chunk_reader_keyed ::
  "'r cdc_stream \<Rightarrow> (bytes \<Rightarrow> hash32) \<Rightarrow> (hash32 \<Rightarrow> bytes \<Rightarrow> hash32) \<Rightarrow> 'r \<Rightarrow> chunker_config
     \<Rightarrow> hash32 \<Rightarrow> (chunking_error + chunk) list" where
  "chunk_reader_keyed cdc blake3 keyed_hash source cfg id_key =
     chunk_stream (chunk_id_with_key blake3 keyed_hash (Some id_key))
       (cdc source (min_size cfg) (target_size cfg) (max_size cfg))"

section \<open>The index record\<close>

record index_entry =
  chunk_len :: u64
  refcount :: u64

definition VALUE_SIZE :: nat where "VALUE_SIZE = 16"
definition WIRE_SIZE :: nat where "WIRE_SIZE = CHUNK_ID_LEN + VALUE_SIZE"

definition to_wire_value :: "index_entry \<Rightarrow> bytes" where
  "to_wire_value e = le_bytes 8 (chunk_len e) @ le_bytes 8 (refcount e)"

definition from_wire_value :: "bytes \<Rightarrow> index_entry" where
  "from_wire_value bs =
     \<lparr>chunk_len = of_le_bytes (take 8 bs), refcount = of_le_bytes (drop 8 bs)\<rparr>"

section \<open>Identity codecs\<close>

lemma length_chunk_id_as_bytes [simp]: "length (chunk_id_as_bytes cid) = 32"
  by (simp add: chunk_id_as_bytes_def CHUNK_ID_LEN_def)

lemma chunk_id_as_bytes_inverse [simp]: "chunk_id_from_bytes (chunk_id_as_bytes cid) = cid"
  by (simp add: chunk_id_from_bytes_def chunk_id_as_bytes_def CHUNK_ID_LEN_def be_bytes_inverse)

lemma chunk_id_as_bytes_inject [simp]: "chunk_id_as_bytes a = chunk_id_as_bytes b \<longleftrightarrow> a = b"
  by (metis chunk_id_as_bytes_inverse)

lemma chunk_id_as_bytes_less [simp]: "chunk_id_as_bytes a < chunk_id_as_bytes b \<longleftrightarrow> a < b"
  by (simp add: chunk_id_as_bytes_def CHUNK_ID_LEN_def)

lemma chunk_id_from_bytes_inverse: "length bs = 32 \<Longrightarrow> chunk_id_as_bytes (chunk_id_from_bytes bs) = bs"
  using be_bytes_of_be_bytes [of bs, where 'a = 256]
  by (simp add: chunk_id_from_bytes_def chunk_id_as_bytes_def CHUNK_ID_LEN_def)

interpretation cid: ordered_codec chunk_id_as_bytes chunk_id_from_bytes 32
  by unfold_locales (simp_all add: chunk_id_from_bytes_inverse)

lemma chunk_id_try_from_as_bytes [simp]: "chunk_id_try_from (chunk_id_as_bytes cid) = Some cid"
  by (simp add: chunk_id_try_from_def CHUNK_ID_LEN_def)

lemma chunk_id_try_from_Some_iff: "chunk_id_try_from bs = Some cid \<longleftrightarrow> bs = chunk_id_as_bytes cid"
  by (auto simp: chunk_id_try_from_def CHUNK_ID_LEN_def chunk_id_from_bytes_inverse)

lemma unat_hex_digit: "n < 16 \<Longrightarrow> unat (hex_digit n) = (if n < 10 then 48 + n else 87 + n)"
  by (simp add: hex_digit_def unat_of_nat del: of_nat_add)

lemma to_digit16_hex_digit: "n < 16 \<Longrightarrow> to_digit16 (unat (hex_digit n)) = Some n"
  by (auto simp: unat_hex_digit to_digit16_def)

lemma nibble_bounds: "unat (b :: byte) div 16 < 16" "unat b mod 16 < 16"
  using unsigned_less [of b, where 'a = nat] by (simp_all add: less_mult_imp_div_less)

lemma join_nibbles:
  "push_bit 4 (push_bit 4 0 OR word_of_nat (unat b div 16)) OR word_of_nat (unat b mod 16) = (b :: byte)"
proof -
  have "unat (drop_bit 4 b) = unat b div 16"
    by (simp only: unat_drop_bit_eq) (simp add: drop_bit_eq_div)
  then have "word_of_nat (unat b div 16) = drop_bit 4 b" by (metis of_nat_unat ucast_id)
  moreover have "unat (take_bit 4 b) = unat b mod 16"
    by (simp only: unsigned_take_bit_eq) (simp add: take_bit_eq_mod)
  then have "word_of_nat (unat b mod 16) = take_bit 4 b" by (metis of_nat_unat ucast_id)
  ultimately show ?thesis by (simp add: bit_eq_iff) (auto simp: bit_simps)
qed

lemma draw_two_digits: "draw_digits 2 0 (map unat (hex_byte b) @ rest) = Ok (b, rest)"
  using nibble_bounds [of b] join_nibbles [of b]
  by (simp add: hex_byte_def numeral_2_eq_2 to_digit16_hex_digit)

lemma parse_hex_concat:
  "parse_hex_bytes (length bs) (map unat (concat (map hex_byte bs))) = Ok bs"
  by (induction bs) (simp_all add: draw_two_digits)

lemma length_chunk_id_to_string [simp]: "length (chunk_id_to_string cid) = 64"
proof -
  have "length (concat (map hex_byte bs)) = 2 * length bs" for bs
    by (induction bs) (auto simp: hex_byte_def)
  then show ?thesis by (simp add: chunk_id_to_string_def)
qed

lemma chunk_id_from_str_to_string: "chunk_id_from_str (map unat (chunk_id_to_string cid)) = Ok cid"
  using parse_hex_concat [of "chunk_id_as_bytes cid"]
  by (simp add: chunk_id_from_str_def) (simp add: chunk_id_to_string_def)

lemma chunk_id_to_string_inject [simp]: "chunk_id_to_string a = chunk_id_to_string b \<longleftrightarrow> a = b"
  by (metis Inr_inject chunk_id_from_str_to_string)

text \<open>A chunk ID prints to 64 characters that parse back to the same ID, and a string of any
  other length is rejected with its length.\<close>

theorem chunk_id_string_roundtrip:
  "length (chunk_id_to_string cid) = 64 \<and>
   chunk_id_from_str (map unat (chunk_id_to_string cid)) = Ok cid \<and>
   (length chars = 64 \<or> chunk_id_from_str chars = Err (BadLength (length chars)))"
  using chunk_id_from_str_to_string by (simp add: chunk_id_from_str_def)

section \<open>Chunker\<close>

text \<open>\<open>ChunkerConfig::new\<close> accepts exactly the ordered sizes inside the limits; every
  accepted configuration satisfies \<open>min <= target <= max\<close>.\<close>

theorem chunker_config_new_Ok_iff:
  "chunker_config_new L mn tgt mx = Ok cfg \<longleftrightarrow>
     mn \<in> {MIN_SIZE_FLOOR L .. MIN_SIZE_CEILING L} \<and> tgt \<in> {TARGET_SIZE_FLOOR L .. TARGET_SIZE_CEILING L} \<and>
     mx \<in> {MAX_SIZE_FLOOR L .. MAX_SIZE_CEILING L} \<and> mn \<le> tgt \<and> tgt \<le> mx \<and>
     cfg = \<lparr>min_size = mn, target_size = tgt, max_size = mx\<rparr>"
  by (auto simp: chunker_config_new_def split: if_splits)

text \<open>What FastCDC promises of its cut list: the cuts tile the input.\<close>

fun cuts_tile :: "nat \<Rightarrow> nat \<Rightarrow> (nat \<times> nat) list \<Rightarrow> bool" where
  "cuts_tile pos n [] = (pos = n)"
| "cuts_tile pos n ((off, len) # cuts) = (off = pos \<and> pos + len \<le> n \<and> cuts_tile (pos + len) n cuts)"

lemma cuts_tile_le: "cuts_tile pos n cuts \<Longrightarrow> pos \<le> n"
  by (induction pos n cuts rule: cuts_tile.induct) auto

lemma chunks_of_cuts_tile:
  "cuts_tile pos (length data) cuts \<Longrightarrow>
     \<exists>cs. chunks_of_cuts h data cuts = Some cs \<and> concat (map chunk_data cs) = drop pos data \<and>
          map chunk_ident cs = map (h \<circ> chunk_data) cs"
proof (induction pos "length data" cuts rule: cuts_tile.induct)
  case (2 pos off len cuts)
  then obtain cs where cs: "chunks_of_cuts h data cuts = Some cs"
    "concat (map chunk_data cs) = drop (pos + len) data" "map chunk_ident cs = map (h \<circ> chunk_data) cs"
    by auto
  moreover have "take len (drop pos data) @ drop (pos + len) data = drop pos data"
    by (metis add.commute append_take_drop_id drop_drop)
  ultimately show ?case using 2 by (auto simp: Let_def)
qed simp

lemma chunks_of_cuts_relabel:
  "chunks_of_cuts h data cuts = Some cs \<Longrightarrow>
     chunks_of_cuts h' data cuts = Some (map (\<lambda>c. c\<lparr>chunk_ident := h' (chunk_data c)\<rparr>) cs)"
  by (induction h data cuts arbitrary: cs rule: chunks_of_cuts.induct)
    (auto simp: Let_def split: if_splits)

text \<open>With cut points that tile the input, the keyed and the unkeyed chunker both succeed,
  cut at the same places, reassemble to the input, and label each chunk with the hash of its own
  bytes.\<close>

theorem chunk_bytes_reassemble:
  assumes "cuts_tile 0 (length data) (cdc (min_size cfg) (target_size cfg) (max_size cfg) data)"
  shows "\<exists>cs ks. chunk_bytes cdc blake3 data cfg = Some cs \<and>
     chunk_bytes_keyed cdc keyed_hash data cfg key = Some ks \<and>
     concat (map chunk_data cs) = data \<and> map chunk_data ks = map chunk_data cs \<and>
     map chunk_ident cs = map (blake3 \<circ> chunk_data) cs \<and>
     map chunk_ident ks = map (keyed_hash key \<circ> chunk_data) ks"
proof -
  obtain cs where cs: "chunk_bytes cdc blake3 data cfg = Some cs" "concat (map chunk_data cs) = data"
    "map chunk_ident cs = map (blake3 \<circ> chunk_data) cs"
    using chunks_of_cuts_tile [OF assms, of "chunk_id_of blake3"]
    by (auto simp: chunk_bytes_def chunk_id_of_def comp_def)
  then have "chunk_bytes_keyed cdc keyed_hash data cfg key =
      Some (map (\<lambda>c. c\<lparr>chunk_ident := keyed_hash key (chunk_data c)\<rparr>) cs)"
    using chunks_of_cuts_relabel [of "chunk_id_of blake3" data _ cs "chunk_id_keyed keyed_hash key"]
    by (simp add: chunk_bytes_def chunk_bytes_keyed_def chunk_id_keyed_def)
  then show ?thesis using cs by (auto simp: comp_def)
qed

section \<open>Index record codec\<close>

lemma length_to_wire_value [simp]: "length (to_wire_value e) = 16"
  by (simp add: to_wire_value_def)

lemma from_wire_value_to_wire_value [simp]: "from_wire_value (to_wire_value e) = e"
  by (simp add: from_wire_value_def to_wire_value_def le_bytes_inverse)

lemma to_wire_value_from_wire_value:
  "length bs = 16 \<Longrightarrow> to_wire_value (from_wire_value bs) = bs"
  using le_bytes_of_le_bytes [of "take 8 bs", where 'a = 64]
    le_bytes_of_le_bytes [of "drop 8 bs", where 'a = 64]
  by (simp add: to_wire_value_def from_wire_value_def)

interpretation entry: fixed_codec to_wire_value from_wire_value 16
  by unfold_locales (simp_all add: to_wire_value_from_wire_value)

text \<open>Index records occupy exactly \<open>WIRE_SIZE\<close> bytes with their key, and decoding inverts
  encoding in both directions.\<close>

theorem index_entry_roundtrip:
  "length (chunk_id_as_bytes cid @ to_wire_value e) = WIRE_SIZE \<and>
   from_wire_value (to_wire_value e) = e \<and>
   (length bs = 16 \<longrightarrow> to_wire_value (from_wire_value bs) = bs)"
  by (simp add: entry.enc_dec WIRE_SIZE_def VALUE_SIZE_def CHUNK_ID_LEN_def)

section \<open>Witnesses\<close>

theorem index_entry_roundtrip_witness:
  "length (replicate 16 7 :: bytes) = 16 \<and>
   to_wire_value (from_wire_value (replicate 16 7)) = replicate 16 7"
  using index_entry_roundtrip [of 0 undefined "replicate 16 7"] by simp

text \<open>A chunker that cuts four bytes after two.\<close>

theorem chunk_bytes_reassemble_witness:
  "cuts_tile 0 (length ([1, 2, 3, 4] :: bytes)) [(0, 2), (2, 2)] \<and>
   (\<exists>cs ks. chunk_bytes (\<lambda>_ _ _ _. [(0, 2), (2, 2)]) (\<lambda>bs. word_of_nat (length bs)) [1, 2, 3, 4]
       chunker_config_default = Some cs \<and>
     chunk_bytes_keyed (\<lambda>_ _ _ _. [(0, 2), (2, 2)]) (\<lambda>k bs. k) [1, 2, 3, 4]
       chunker_config_default 9 = Some ks \<and>
     concat (map chunk_data cs) = [1, 2, 3, 4] \<and> map chunk_data ks = map chunk_data cs)"
proof -
  have h: "cuts_tile 0 (length ([1, 2, 3, 4] :: bytes)) [(0, 2), (2, 2)]" by simp
  show ?thesis
    using h chunk_bytes_reassemble [of "[1, 2, 3, 4]" "\<lambda>_ _ _ _. [(0, 2), (2, 2)]"
        chunker_config_default "\<lambda>bs. word_of_nat (length bs)" "\<lambda>k bs. k" 9]
    by blast
qed

end
