(* ===== verification/Manifest.thy ===== *)
theory Manifest
  imports Chunking
begin

text \<open>
  Snapshot manifests and their canonical wire format, \<open>crates/busyncr-core/src/manifest.rs\<close>:
  \<open>encode\<close>, \<open>decode\<close>, \<open>encoded_len\<close> and \<open>chunk_refs\<close>. Paths are the UTF-8 bytes of the Rust
  \<open>String\<close>; a \<open>&mut &[u8]\<close> cursor becomes an argument and a returned rest. The lemmas give the
  two round trips, so that the format is canonical: a byte string decodes to at most one
  manifest, and re-encoding that manifest gives the same bytes.
\<close>

section \<open>Data\<close>

definition MANIFEST_HEADER_BYTES :: nat where "MANIFEST_HEADER_BYTES = 16 + 8 + 4"
definition MANIFEST_FILE_FIXED_BYTES :: nat where "MANIFEST_FILE_FIXED_BYTES = 4 + 8 + 8 + 4 + 4 + 4"

text \<open>\<open>InvalidPath\<close> keeps the entry index; the wrapped \<open>Utf8Error\<close> is not represented.\<close>

datatype manifest_error =
    TooLarge string nat nat
  | Truncated string nat
  | TrailingBytes nat
  | InvalidPath nat

record file_entry =
  fe_path :: bytes
  fe_size :: u64
  fe_mtime_secs :: i64
  fe_mtime_nanos :: u32
  fe_mode :: u32
  fe_chunks :: "chunk_id list"

record manifest =
  snapshot_id :: ulid
  created_at :: i64
  files :: "file_entry list"

definition ulid_to_bytes :: "ulid \<Rightarrow> bytes" where "ulid_to_bytes u = be_bytes 16 u"
definition ulid_from_bytes :: "bytes \<Rightarrow> ulid" where "ulid_from_bytes bs = of_be_bytes bs"

section \<open>Cursor helpers\<close>

text \<open>\<open>take::<N>\<close> and \<open>take_slice\<close> advance the cursor or report how many bytes are missing; both
  have the same body, the first at a constant width.\<close>

definition take_bytes :: "nat \<Rightarrow> string \<Rightarrow> bytes \<Rightarrow> manifest_error + (bytes \<times> bytes)" where
  "take_bytes n what input =
     (if length input < n then Err (Truncated what (n - length input))
      else Ok (take n input, drop n input))"

definition fit_u32 :: "nat \<Rightarrow> string \<Rightarrow> manifest_error + u32" where
  "fit_u32 value what =
     (if value < 2 ^ 32 then Ok (word_of_nat value) else Err (TooLarge what value (2 ^ 32 - 1)))"

section \<open>Encoding\<close>

definition encoded_len :: "manifest \<Rightarrow> nat" where
  "encoded_len m =
     MANIFEST_HEADER_BYTES +
     sum_list (map (\<lambda>f. MANIFEST_FILE_FIXED_BYTES + length (fe_path f)
                         + CHUNK_ID_LEN * length (fe_chunks f)) (files m))"

definition chunk_refs :: "manifest \<Rightarrow> chunk_id list" where
  "chunk_refs m = concat (map fe_chunks (files m))"

definition encode_file :: "file_entry \<Rightarrow> manifest_error + bytes" where
  "encode_file f =
     and_then (fit_u32 (length (fe_path f)) ''path length'') (\<lambda>path_len.
     and_then (fit_u32 (length (fe_chunks f)) ''chunk count'') (\<lambda>chunk_count.
       Ok (le_bytes 4 path_len @ fe_path f @ le_bytes 8 (fe_size f) @ le_bytes 8 (fe_mtime_secs f) @
           le_bytes 4 (fe_mtime_nanos f) @ le_bytes 4 (fe_mode f) @ le_bytes 4 chunk_count @
           concat (map chunk_id_as_bytes (fe_chunks f)))))"

fun encode_files :: "file_entry list \<Rightarrow> manifest_error + bytes" where
  "encode_files [] = Ok []"
| "encode_files (f # fs) =
     and_then (encode_file f) (\<lambda>bs. and_then (encode_files fs) (\<lambda>rest. Ok (bs @ rest)))"

definition encode :: "manifest \<Rightarrow> manifest_error + bytes" where
  "encode m =
     and_then (fit_u32 (length (files m)) ''file count'') (\<lambda>file_count.
     and_then (encode_files (files m)) (\<lambda>body.
       Ok (ulid_to_bytes (snapshot_id m) @ le_bytes 8 (created_at m) @ le_bytes 4 file_count @ body)))"

section \<open>Decoding\<close>

definition take_u32 :: "string \<Rightarrow> bytes \<Rightarrow> manifest_error + (u32 \<times> bytes)" where
  "take_u32 what input = and_then (take_bytes 4 what input) (\<lambda>(bs, rest). Ok (of_le_bytes bs, rest))"

definition take_u64 :: "string \<Rightarrow> bytes \<Rightarrow> manifest_error + (u64 \<times> bytes)" where
  "take_u64 what input = and_then (take_bytes 8 what input) (\<lambda>(bs, rest). Ok (of_le_bytes bs, rest))"

fun decode_chunk_ids :: "nat \<Rightarrow> bytes \<Rightarrow> manifest_error + (chunk_id list \<times> bytes)" where
  "decode_chunk_ids 0 input = Ok ([], input)"
| "decode_chunk_ids (Suc n) input =
     and_then (take_bytes CHUNK_ID_LEN ''chunk id'' input) (\<lambda>(bs, rest).
     and_then (decode_chunk_ids n rest) (\<lambda>(ids, rest').
       Ok (chunk_id_from_bytes bs # ids, rest')))"

definition decode_file :: "nat \<Rightarrow> bytes \<Rightarrow> manifest_error + (file_entry \<times> bytes)" where
  "decode_file index input =
     and_then (take_u32 ''path length'' input) (\<lambda>(path_len, input).
     and_then (take_bytes (unat path_len) ''path bytes'' input) (\<lambda>(path, input).
     if \<not> utf8_valid path then Err (InvalidPath index)
     else
     and_then (take_u64 ''file size'' input) (\<lambda>(size, input).
     and_then (take_u64 ''mtime seconds'' input) (\<lambda>(mtime_secs, input).
     and_then (take_u32 ''mtime nanos'' input) (\<lambda>(mtime_nanos, input).
     and_then (take_u32 ''mode'' input) (\<lambda>(mode, input).
     and_then (take_u32 ''chunk count'' input) (\<lambda>(chunk_count, input).
     and_then (decode_chunk_ids (unat chunk_count) input) (\<lambda>(chunks, input).
       Ok (\<lparr>fe_path = path, fe_size = size, fe_mtime_secs = mtime_secs,
            fe_mtime_nanos = mtime_nanos, fe_mode = mode, fe_chunks = chunks\<rparr>, input)))))))))"

fun decode_files :: "nat \<Rightarrow> nat \<Rightarrow> bytes \<Rightarrow> manifest_error + (file_entry list \<times> bytes)" where
  "decode_files 0 index input = Ok ([], input)"
| "decode_files (Suc n) index input =
     and_then (decode_file index input) (\<lambda>(f, rest).
     and_then (decode_files n (Suc index) rest) (\<lambda>(fs, rest'). Ok (f # fs, rest')))"

definition decode :: "bytes \<Rightarrow> manifest_error + manifest" where
  "decode bs =
     and_then (take_bytes 16 ''snapshot id'' bs) (\<lambda>(ulid, input).
     and_then (take_u64 ''created_at'' input) (\<lambda>(created, input).
     and_then (take_u32 ''file count'' input) (\<lambda>(file_count, input).
     and_then (decode_files (unat file_count) 0 input) (\<lambda>(fs, input).
       if input \<noteq> [] then Err (TrailingBytes (length input))
       else Ok \<lparr>snapshot_id = ulid_from_bytes ulid, created_at = created, files = fs\<rparr>))))"

text \<open>A manifest as the type system sees it: every path is a Rust \<open>String\<close>.\<close>

definition wf_manifest :: "manifest \<Rightarrow> bool" where
  "wf_manifest m \<longleftrightarrow> list_all (\<lambda>f. utf8_valid (fe_path f)) (files m)"

section \<open>Round trips\<close>

lemma length_ulid_to_bytes [simp]: "length (ulid_to_bytes u) = 16"
  by (simp add: ulid_to_bytes_def)

lemma ulid_to_bytes_inverse [simp]: "ulid_from_bytes (ulid_to_bytes u) = u"
  by (simp add: ulid_to_bytes_def ulid_from_bytes_def be_bytes_inverse)

lemma ulid_to_bytes_inject [simp]: "ulid_to_bytes a = ulid_to_bytes b \<longleftrightarrow> a = b"
  by (metis ulid_to_bytes_inverse)

lemma ulid_to_bytes_less [simp]: "ulid_to_bytes a < ulid_to_bytes b \<longleftrightarrow> a < b"
  by (simp add: ulid_to_bytes_def)

lemma ulid_from_bytes_inverse: "length bs = 16 \<Longrightarrow> ulid_to_bytes (ulid_from_bytes bs) = bs"
  using be_bytes_of_be_bytes [of bs, where 'a = 128] by (simp add: ulid_to_bytes_def ulid_from_bytes_def)

interpretation uid: ordered_codec ulid_to_bytes ulid_from_bytes 16
  by unfold_locales (simp_all add: ulid_from_bytes_inverse)

lemma take_bytes_append [simp]: "length bs = n \<Longrightarrow> take_bytes n what (bs @ rest) = Ok (bs, rest)"
  by (auto simp: take_bytes_def)

lemma take_bytes_Ok: "take_bytes n what input = Ok (bs, rest) \<Longrightarrow> input = bs @ rest \<and> length bs = n"
  by (auto simp: take_bytes_def split: if_splits)

lemma take_u32_append [simp]: "take_u32 what (le_bytes 4 w @ rest) = Ok (w, rest)"
  by (simp add: take_u32_def le_bytes_inverse)

lemma take_u64_append [simp]: "take_u64 what (le_bytes 8 w @ rest) = Ok (w, rest)"
  by (simp add: take_u64_def le_bytes_inverse)

lemma le_bytes_4 [simp]: "length bs = 4 \<Longrightarrow> le_bytes 4 (of_le_bytes bs :: u32) = bs"
  using le_bytes_of_le_bytes [of bs, where 'a = 32] by simp

lemma le_bytes_8 [simp]: "length bs = 8 \<Longrightarrow> le_bytes 8 (of_le_bytes bs :: u64) = bs"
  using le_bytes_of_le_bytes [of bs, where 'a = 64] by simp

lemma take_u32_Ok: "take_u32 what input = Ok (w, rest) \<Longrightarrow> input = le_bytes 4 w @ rest"
  by (auto simp: take_u32_def and_then_Ok_iff dest!: take_bytes_Ok)

lemma take_u64_Ok: "take_u64 what input = Ok (w, rest) \<Longrightarrow> input = le_bytes 8 w @ rest"
  by (auto simp: take_u64_def and_then_Ok_iff dest!: take_bytes_Ok)

lemma unat_u32_bound: "unat (w :: u32) < 2 ^ 32"
  using unsigned_less [of w, where 'a = nat] by simp

lemma fit_u32_Ok_iff: "fit_u32 n what = Ok w \<longleftrightarrow> n = unat w"
  using unat_u32_bound [of w] by (auto simp: fit_u32_def unat_of_nat)

lemma fit_u32_unat [simp]: "fit_u32 (unat w) what = Ok w"
  by (simp add: fit_u32_Ok_iff)

lemma decode_chunk_ids_concat:
  "decode_chunk_ids (length ids) (concat (map chunk_id_as_bytes ids) @ rest) = Ok (ids, rest)"
  by (induction ids) (simp_all add: CHUNK_ID_LEN_def)

lemma decode_chunk_ids_Ok:
  "decode_chunk_ids n input = Ok (ids, rest) \<Longrightarrow>
     input = concat (map chunk_id_as_bytes ids) @ rest \<and> length ids = n"
proof (induction n arbitrary: input ids)
  case (Suc n)
  then show ?case
    by (fastforce simp: and_then_Ok_iff CHUNK_ID_LEN_def chunk_id_from_bytes_inverse dest!: take_bytes_Ok)
qed simp

lemma decode_encode_file:
  assumes "encode_file f = Ok bs" "utf8_valid (fe_path f)"
  shows "decode_file index (bs @ rest) = Ok (f, rest)"
proof -
  obtain n k :: u32 where nk: "length (fe_path f) = unat n" "length (fe_chunks f) = unat k"
    and bs: "bs = le_bytes 4 n @ fe_path f @ le_bytes 8 (fe_size f) @ le_bytes 8 (fe_mtime_secs f) @
       le_bytes 4 (fe_mtime_nanos f) @ le_bytes 4 (fe_mode f) @ le_bytes 4 k @
       concat (map chunk_id_as_bytes (fe_chunks f))"
    using assms(1) by (auto simp: encode_file_def and_then_Ok_iff fit_u32_Ok_iff)
  show ?thesis
    using nk assms(2) decode_chunk_ids_concat [of "fe_chunks f" rest]
    by (simp add: bs decode_file_def)
qed

lemma decode_encode_files:
  "encode_files fs = Ok bs \<Longrightarrow> list_all (\<lambda>f. utf8_valid (fe_path f)) fs \<Longrightarrow>
     decode_files (length fs) index (bs @ rest) = Ok (fs, rest)"
proof (induction fs arbitrary: bs index)
  case (Cons f fs)
  then obtain b1 b2 where b: "encode_file f = Ok b1" "encode_files fs = Ok b2" "bs = b1 @ b2"
    by (auto simp: and_then_Ok_iff)
  then show ?case
    using Cons decode_encode_file [OF b(1), of index "b2 @ rest"] by simp
qed simp

lemma decode_encode_append:
  assumes "encode m = Ok bs" "wf_manifest m"
  shows "decode (bs @ extra) = (if extra \<noteq> [] then Err (TrailingBytes (length extra)) else Ok m)"
proof -
  obtain n :: u32 and body where b: "length (files m) = unat n" "encode_files (files m) = Ok body"
    "bs = ulid_to_bytes (snapshot_id m) @ le_bytes 8 (created_at m) @ le_bytes 4 n @ body"
    using assms(1) by (auto simp: encode_def and_then_Ok_iff fit_u32_Ok_iff)
  show ?thesis
    using decode_encode_files [OF b(2), of 0 extra] assms(2) b(1)
    by (simp add: b(3) decode_def wf_manifest_def)
qed

lemma encode_decode_file:
  assumes "decode_file index input = Ok (f, rest)"
  shows "\<exists>bs. encode_file f = Ok bs \<and> input = bs @ rest \<and> utf8_valid (fe_path f)"
  using assms
  by (auto simp: decode_file_def encode_file_def and_then_Ok_iff if_splits
      dest!: take_u32_Ok take_u64_Ok take_bytes_Ok decode_chunk_ids_Ok split: if_splits)

lemma encode_decode_files:
  "decode_files n index input = Ok (fs, rest) \<Longrightarrow>
     \<exists>bs. encode_files fs = Ok bs \<and> input = bs @ rest \<and> length fs = n \<and>
          list_all (\<lambda>f. utf8_valid (fe_path f)) fs"
proof (induction n arbitrary: index input fs)
  case (Suc n)
  then obtain f fs' mid where d: "decode_file index input = Ok (f, mid)"
    "decode_files n (Suc index) mid = Ok (fs', rest)" "fs = f # fs'"
    by (auto simp: and_then_Ok_iff)
  show ?case using Suc.IH [OF d(2)] encode_decode_file [OF d(1)] by (auto simp: d(3))
qed simp

lemma encode_decode:
  assumes "decode bs = Ok m"
  shows "encode m = Ok bs \<and> wf_manifest m"
  using assms
  by (auto simp: decode_def encode_def wf_manifest_def and_then_Ok_iff ulid_from_bytes_inverse
      dest!: take_u32_Ok take_u64_Ok take_bytes_Ok encode_decode_files split: if_splits)

text \<open>C17: Decoding an encoded manifest gives it back, and any bytes after it are rejected with their
  count.\<close>

theorem manifest_decode_encode:
  assumes "encode m = Ok bs" "wf_manifest m"
  shows "decode bs = Ok m \<and> decode (bs @ b # extra) = Err (TrailingBytes (Suc (length extra)))"
  using decode_encode_append [OF assms, of "[]"] decode_encode_append [OF assms, of "b # extra"] by simp

text \<open>The wire format is canonical: bytes that decode are the encoding of the manifest they decode
  to, so two different byte strings never decode to the same manifest.\<close>

theorem manifest_encode_decode:
  assumes "decode bs = Ok m"
  shows "encode m = Ok bs \<and> wf_manifest m \<and> (decode bs' = Ok m \<longrightarrow> bs' = bs)"
  using encode_decode [OF assms] encode_decode [of bs' m] by auto

text \<open>No proper prefix of an encoded manifest decodes, so truncation is always detected.\<close>

theorem manifest_truncation_detected:
  assumes "encode m = Ok bs" "wf_manifest m" "k < length bs"
  shows "\<exists>e. decode (take k bs) = Err e"
proof (cases "decode (take k bs)")
  case (Inr m')
  have "drop k bs \<noteq> []" using assms(3) by simp
  then have "\<exists>e. decode (take k bs @ drop k bs) = Err e"
    using encode_decode [OF Inr] decode_encode_append [of m' "take k bs" "drop k bs"] by auto
  then show ?thesis using decode_encode_append [OF assms(1,2), of "[]"] by simp
qed simp

lemma length_encode_file:
  "encode_file f = Ok bs \<Longrightarrow>
     length bs = MANIFEST_FILE_FIXED_BYTES + length (fe_path f) + CHUNK_ID_LEN * length (fe_chunks f)"
  by (auto simp: encode_file_def and_then_Ok_iff MANIFEST_FILE_FIXED_BYTES_def CHUNK_ID_LEN_def
      length_concat comp_def sum_list_triv)

lemma length_encode_files:
  "encode_files fs = Ok bs \<Longrightarrow>
     length bs = sum_list (map (\<lambda>f. MANIFEST_FILE_FIXED_BYTES + length (fe_path f)
                         + CHUNK_ID_LEN * length (fe_chunks f)) fs)"
  by (induction fs arbitrary: bs) (auto simp: and_then_Ok_iff length_encode_file)

text \<open>\<open>encoded_len\<close> is the exact length of the encoding, and encoding fails exactly when a file
  count, path length or chunk count does not fit 32 bits.\<close>

theorem manifest_encoded_len:
  "(encode m = Ok bs \<longrightarrow> length bs = encoded_len m) \<and>
   ((\<exists>bs. encode m = Ok bs) \<longleftrightarrow>
      length (files m) < 2 ^ 32 \<and>
      list_all (\<lambda>f. length (fe_path f) < 2 ^ 32 \<and> length (fe_chunks f) < 2 ^ 32) (files m))"
proof (intro conjI impI)
  assume "encode m = Ok bs"
  then show "length bs = encoded_len m"
    by (auto simp: encode_def and_then_Ok_iff encoded_len_def MANIFEST_HEADER_BYTES_def length_encode_files)
next
  have ok: "(\<exists>w. fit_u32 n what = Ok w) \<longleftrightarrow> n < 2 ^ 32" for n what by (simp add: fit_u32_def)
  have "(\<exists>bs. encode_file f = Ok bs) \<longleftrightarrow> length (fe_path f) < 2 ^ 32 \<and> length (fe_chunks f) < 2 ^ 32" for f
    using ok [of "length (fe_path f)" "''path length''"] ok [of "length (fe_chunks f)" "''chunk count''"]
    by (auto simp: encode_file_def and_then_Ok_iff)
  then have "(\<exists>bs. encode_files fs = Ok bs) \<longleftrightarrow>
      list_all (\<lambda>f. length (fe_path f) < 2 ^ 32 \<and> length (fe_chunks f) < 2 ^ 32) fs" for fs
    by (induction fs) (auto simp: and_then_Ok_iff)
  then show "(\<exists>bs. encode m = Ok bs) \<longleftrightarrow> length (files m) < 2 ^ 32 \<and>
      list_all (\<lambda>f. length (fe_path f) < 2 ^ 32 \<and> length (fe_chunks f) < 2 ^ 32) (files m)"
    using ok [of "length (files m)" "''file count''"]
    by (auto simp: encode_def and_then_Ok_iff)
qed

section \<open>Witnesses\<close>

definition small_manifest :: manifest where
  "small_manifest = \<lparr>snapshot_id = 7, created_at = - 5,
     files = [\<lparr>fe_path = [0x61, 0xC3, 0xA9], fe_size = 2, fe_mtime_secs = 1, fe_mtime_nanos = 3,
               fe_mode = 0x1A4, fe_chunks = [11, 12]\<rparr>]\<rparr>"

lemma small_manifest_wf: "wf_manifest small_manifest"
  by code_simp

lemma small_manifest_encodes: "\<exists>bs. encode small_manifest = Ok bs \<and> length bs = 127"
  by (simp add: small_manifest_def encode_def encode_file_def fit_u32_def)

theorem manifest_decode_encode_witness:
  "\<exists>bs. encode small_manifest = Ok bs \<and> wf_manifest small_manifest \<and> decode bs = Ok small_manifest \<and>
        decode (bs @ [0]) = Err (TrailingBytes 1)"
proof -
  obtain bs where bs: "encode small_manifest = Ok bs" using small_manifest_encodes by blast
  show ?thesis using bs small_manifest_wf manifest_decode_encode [OF bs small_manifest_wf, of 0 "[]"] by auto
qed

theorem manifest_encode_decode_witness:
  "\<exists>bs. decode bs = Ok small_manifest \<and> encode small_manifest = Ok bs"
proof -
  obtain bs where bs: "encode small_manifest = Ok bs" using small_manifest_encodes by blast
  then have "decode bs = Ok small_manifest"
    using decode_encode_append [OF bs small_manifest_wf, of "[]"] by simp
  then show ?thesis using manifest_encode_decode [of bs small_manifest] by blast
qed

theorem manifest_truncation_detected_witness:
  "\<exists>bs e. encode small_manifest = Ok bs \<and> 50 < length bs \<and> decode (take 50 bs) = Err e"
  using small_manifest_encodes manifest_truncation_detected [OF _ small_manifest_wf, of _ 50] by auto

theorem manifest_encoded_len_witness:
  "\<exists>bs. encode small_manifest = Ok bs \<and> length bs = encoded_len small_manifest"
  using small_manifest_encodes manifest_encoded_len [of small_manifest] by blast

end
