(* ===== verification/Crypto.thy ===== *)
theory Crypto
  imports Manifest
begin

text \<open>
  Client-side encryption and the keyfile of \<open>crates/busyncr-core/src/crypto.rs\<close>.

  XChaCha20-Poly1305 (\<open>aead\<close>), Argon2id (\<open>kdf\<close>) and the caller's random generator (\<open>fill\<close>) are
  third-party code and arguments of the definitions. What the code relies on of the cipher is the
  predicate \<open>aead_laws\<close>: decryption with the same key, nonce and associated data inverts
  encryption, and a ciphertext is the plaintext plus a 16-byte tag.
\<close>

section \<open>Parameters\<close>

record aead =
  aead_encrypt :: "hash32 \<Rightarrow> bytes \<Rightarrow> bytes \<Rightarrow> bytes \<Rightarrow> bytes option"
  aead_decrypt :: "hash32 \<Rightarrow> bytes \<Rightarrow> bytes \<Rightarrow> bytes \<Rightarrow> bytes option"

type_synonym 'r fill_bytes = "nat \<Rightarrow> 'r \<Rightarrow> bytes \<times> 'r"

definition aead_laws :: "aead \<Rightarrow> bool" where
  "aead_laws A \<longleftrightarrow>
     (\<forall>k n a m c. aead_encrypt A k n a m = Some c \<longrightarrow>
        aead_decrypt A k n a c = Some m \<and> length c = length m + 16)"

definition fill_laws :: "'r fill_bytes \<Rightarrow> bool" where
  "fill_laws fill \<longleftrightarrow> (\<forall>n r. length (fst (fill n r)) = n)"

section \<open>Constants and data\<close>

definition DATA_KEY_LEN :: nat where "DATA_KEY_LEN = 32"
definition CHUNK_ID_KEY_LEN :: nat where "CHUNK_ID_KEY_LEN = 32"
definition NONCE_LEN :: nat where "NONCE_LEN = 24"
definition TAG_LEN :: nat where "TAG_LEN = 16"
definition BLOB_OVERHEAD :: nat where "BLOB_OVERHEAD = NONCE_LEN + TAG_LEN"

definition KEYFILE_MAGIC :: bytes where
  "KEYFILE_MAGIC = [0x42, 0x55, 0x53, 0x59, 0x4E, 0x43, 0x52, 0x4B]"
definition KEYFILE_VERSION :: byte where "KEYFILE_VERSION = 2"
definition KEYFILE_SALT_LEN :: nat where "KEYFILE_SALT_LEN = 16"
definition KEYFILE_PAYLOAD_LEN :: nat where "KEYFILE_PAYLOAD_LEN = DATA_KEY_LEN + CHUNK_ID_KEY_LEN"
definition KEYFILE_HEADER_LEN :: nat where
  "KEYFILE_HEADER_LEN = 8 + 1 + 4 + 4 + 4 + KEYFILE_SALT_LEN"
definition KEYFILE_LEN :: nat where
  "KEYFILE_LEN = KEYFILE_HEADER_LEN + NONCE_LEN + KEYFILE_PAYLOAD_LEN + TAG_LEN"

lemmas crypto_lens = DATA_KEY_LEN_def CHUNK_ID_KEY_LEN_def NONCE_LEN_def TAG_LEN_def BLOB_OVERHEAD_def
  KEYFILE_SALT_LEN_def KEYFILE_PAYLOAD_LEN_def KEYFILE_HEADER_LEN_def KEYFILE_LEN_def

datatype crypto_error =
    Encrypt | Decrypt | BlobTooShort nat | KeyfileFormat string | KeyfileVersion byte
  | Kdf bytes | KeyfileUnlock

text \<open>\<open>DataKey\<close> and \<open>ChunkIdKey\<close> are 32-byte arrays.\<close>

type_synonym data_key = hash32
type_synonym chunk_id_key = hash32

definition key_as_bytes :: "hash32 \<Rightarrow> bytes" where "key_as_bytes k = be_bytes 32 k"
definition key_from_bytes :: "bytes \<Rightarrow> hash32" where "key_from_bytes bs = of_be_bytes bs"

definition data_key_generate :: "'r fill_bytes \<Rightarrow> 'r \<Rightarrow> data_key \<times> 'r" where
  "data_key_generate fill rng =
     (let (bs, rng') = fill DATA_KEY_LEN rng in (key_from_bytes bs, rng'))"

definition chunk_id_key_generate :: "'r fill_bytes \<Rightarrow> 'r \<Rightarrow> chunk_id_key \<times> 'r" where
  "chunk_id_key_generate fill rng =
     (let (bs, rng') = fill CHUNK_ID_KEY_LEN rng in (key_from_bytes bs, rng'))"

record kdf_params =
  m_cost_kib :: u32
  t_cost :: u32
  p_cost :: u32

definition kdf_params_default :: kdf_params where
  "kdf_params_default = \<lparr>m_cost_kib = 64 * 1024, t_cost = 3, p_cost = 1\<rparr>"

text \<open>Argon2id with the given parameters: an error message, or the 32 bytes it derives.\<close>

type_synonym argon2id = "kdf_params \<Rightarrow> bytes \<Rightarrow> bytes \<Rightarrow> bytes + hash32"

section \<open>Sealing\<close>

definition seal :: "aead \<Rightarrow> 'r fill_bytes \<Rightarrow> data_key \<Rightarrow> bytes \<Rightarrow> bytes \<Rightarrow> 'r
    \<Rightarrow> (crypto_error + bytes) \<times> 'r" where
  "seal A fill key aad plaintext rng =
     (let (nonce, rng') = fill NONCE_LEN rng
      in case aead_encrypt A key nonce aad plaintext of
           None \<Rightarrow> (Err Encrypt, rng')
         | Some ciphertext \<Rightarrow> (Ok (nonce @ ciphertext), rng'))"

definition open_blob :: "aead \<Rightarrow> data_key \<Rightarrow> bytes \<Rightarrow> bytes \<Rightarrow> crypto_error + bytes" where
  "open_blob A key aad blob =
     (if length blob < BLOB_OVERHEAD then Err (BlobTooShort (length blob))
      else case aead_decrypt A key (take NONCE_LEN blob) aad (drop NONCE_LEN blob) of
             None \<Rightarrow> Err Decrypt
           | Some m \<Rightarrow> Ok m)"

definition encrypt_chunk :: "aead \<Rightarrow> 'r fill_bytes \<Rightarrow> data_key \<Rightarrow> chunk_id \<Rightarrow> bytes \<Rightarrow> 'r
    \<Rightarrow> (crypto_error + bytes) \<times> 'r" where
  "encrypt_chunk A fill key cid plaintext rng = seal A fill key (chunk_id_as_bytes cid) plaintext rng"

definition decrypt_chunk :: "aead \<Rightarrow> data_key \<Rightarrow> chunk_id \<Rightarrow> bytes \<Rightarrow> crypto_error + bytes" where
  "decrypt_chunk A key cid blob = open_blob A key (chunk_id_as_bytes cid) blob"

definition encrypt_manifest :: "aead \<Rightarrow> 'r fill_bytes \<Rightarrow> data_key \<Rightarrow> ulid \<Rightarrow> bytes \<Rightarrow> 'r
    \<Rightarrow> (crypto_error + bytes) \<times> 'r" where
  "encrypt_manifest A fill key snap plaintext rng = seal A fill key (ulid_to_bytes snap) plaintext rng"

definition decrypt_manifest :: "aead \<Rightarrow> data_key \<Rightarrow> ulid \<Rightarrow> bytes \<Rightarrow> crypto_error + bytes" where
  "decrypt_manifest A key snap blob = open_blob A key (ulid_to_bytes snap) blob"

section \<open>Keyfile\<close>

definition derive_kek :: "argon2id \<Rightarrow> bytes \<Rightarrow> bytes \<Rightarrow> kdf_params \<Rightarrow> crypto_error + data_key" where
  "derive_kek kdf passphrase salt params = map_err Kdf (kdf params passphrase salt)"

definition keyfile_header :: "kdf_params \<Rightarrow> bytes \<Rightarrow> bytes" where
  "keyfile_header params salt =
     KEYFILE_MAGIC @ [KEYFILE_VERSION] @ le_bytes 4 (m_cost_kib params) @ le_bytes 4 (t_cost params) @
     le_bytes 4 (p_cost params) @ salt"

definition export_keyfile :: "aead \<Rightarrow> argon2id \<Rightarrow> 'r fill_bytes \<Rightarrow> data_key \<Rightarrow> chunk_id_key \<Rightarrow> bytes
    \<Rightarrow> kdf_params \<Rightarrow> 'r \<Rightarrow> (crypto_error + bytes) \<times> 'r" where
  "export_keyfile A kdf fill data_key chunk_id_key passphrase params rng =
     (let (salt, rng1) = fill KEYFILE_SALT_LEN rng
      in case derive_kek kdf passphrase salt params of
           Err e \<Rightarrow> (Err e, rng1)
         | Ok kek \<Rightarrow>
            (let header = keyfile_header params salt;
                 payload = key_as_bytes data_key @ key_as_bytes chunk_id_key
             in case seal A fill kek header payload rng1 of
                  (Err e, rng2) \<Rightarrow> (Err e, rng2)
                | (Ok sealed, rng2) \<Rightarrow> (Ok (header @ sealed), rng2)))"

definition read_u32 :: "bytes \<Rightarrow> nat \<Rightarrow> crypto_error + u32" where
  "read_u32 bs offset =
     (if length bs < offset + 4 then Err (KeyfileFormat ''file too short'')
      else Ok (of_le_bytes (take 4 (drop offset bs))))"

definition import_keyfile :: "aead \<Rightarrow> argon2id \<Rightarrow> bytes \<Rightarrow> bytes
    \<Rightarrow> crypto_error + (data_key \<times> chunk_id_key)" where
  "import_keyfile A kdf bs passphrase =
     (if length bs < 9 then Err (KeyfileFormat ''file too short'')
      else if take 8 bs \<noteq> KEYFILE_MAGIC then Err (KeyfileFormat ''bad magic bytes'')
      else if bs ! 8 \<noteq> KEYFILE_VERSION then Err (KeyfileVersion (bs ! 8))
      else if length bs \<noteq> KEYFILE_LEN then Err (KeyfileFormat ''wrong length for version 2'')
      else
        and_then (read_u32 bs 9) (\<lambda>m.
        and_then (read_u32 bs 13) (\<lambda>t.
        and_then (read_u32 bs 17) (\<lambda>p.
        let params = \<lparr>m_cost_kib = m, t_cost = t, p_cost = p\<rparr>;
            salt = take KEYFILE_SALT_LEN (drop 21 bs);
            header = take KEYFILE_HEADER_LEN bs;
            sealed = drop KEYFILE_HEADER_LEN bs
        in and_then (derive_kek kdf passphrase salt params) (\<lambda>kek.
           and_then
             (map_err (\<lambda>e. case e of Decrypt \<Rightarrow> KeyfileUnlock | BlobTooShort _ \<Rightarrow> KeyfileUnlock
                             | other \<Rightarrow> other)
                (open_blob A kek header sealed)) (\<lambda>payload.
           if length payload \<noteq> KEYFILE_PAYLOAD_LEN
           then Err (KeyfileFormat ''sealed payload is not a 64-byte data key + chunk-ID key'')
           else Ok (key_from_bytes (take DATA_KEY_LEN payload),
                    key_from_bytes (drop DATA_KEY_LEN payload))))))))"

section \<open>Sealed blobs\<close>

lemma aead_lawsD:
  "aead_laws A \<Longrightarrow> aead_encrypt A k n a m = Some c \<Longrightarrow>
     aead_decrypt A k n a c = Some m \<and> length c = length m + 16"
  by (auto simp: aead_laws_def)

lemma fill_lawsD: "fill_laws fill \<Longrightarrow> fill n r = (bs, r') \<Longrightarrow> length bs = n"
  by (metis fill_laws_def fst_conv)

lemma seal_open:
  assumes "aead_laws A" "fill_laws fill" "seal A fill key aad m rng = (Ok blob, rng')"
  shows "open_blob A key aad blob = Ok m \<and> length blob = length m + BLOB_OVERHEAD"
  using assms(3) fill_lawsD [OF assms(2)]
  by (auto simp: seal_def open_blob_def crypto_lens Let_def split: prod.splits option.splits
      dest!: aead_lawsD [OF assms(1)])

text \<open>A chunk blob opens under the chunk ID and key it was sealed for, to the exact plaintext, and is
  longer than it by the fixed overhead.\<close>

theorem chunk_seal_roundtrip:
  assumes "aead_laws A" "fill_laws fill" "encrypt_chunk A fill key cid m rng = (Ok blob, rng')"
  shows "decrypt_chunk A key cid blob = Ok m \<and> length blob = length m + BLOB_OVERHEAD"
  using seal_open [OF assms(1,2)] assms(3) by (simp add: encrypt_chunk_def decrypt_chunk_def)

lemma manifest_seal_open:
  assumes "aead_laws A" "fill_laws fill" "encrypt_manifest A fill key snap m rng = (Ok blob, rng')"
  shows "decrypt_manifest A key snap blob = Ok m \<and> length blob = length m + BLOB_OVERHEAD"
  using seal_open [OF assms(1,2)] assms(3) by (simp add: encrypt_manifest_def decrypt_manifest_def)

section \<open>Keyfile round trip\<close>

lemma key_bytes [simp]: "length (key_as_bytes k) = 32" "key_from_bytes (key_as_bytes k) = k"
  by (simp_all add: key_as_bytes_def key_from_bytes_def be_bytes_inverse)

lemma keyfile_header_layout:
  fixes params :: kdf_params and salt :: bytes
  assumes "length salt = 16"
  defines "h \<equiv> keyfile_header params salt"
  shows "length h = KEYFILE_HEADER_LEN" "take 8 (h @ rest) = KEYFILE_MAGIC"
    "(h @ rest) ! 8 = KEYFILE_VERSION"
    "take 4 (drop 9 (h @ rest)) = le_bytes 4 (m_cost_kib params)"
    "take 4 (drop 13 (h @ rest)) = le_bytes 4 (t_cost params)"
    "take 4 (drop 17 (h @ rest)) = le_bytes 4 (p_cost params)"
    "take 16 (drop 21 (h @ rest)) = salt"
  using assms(1) by (simp_all add: h_def keyfile_header_def KEYFILE_MAGIC_def crypto_lens nth_append)

lemma export_keyfile_Ok:
  assumes "fill_laws fill" "export_keyfile A kdf fill dk ck pass params rng = (Ok kf, rng')"
  shows "\<exists>salt kek sealed rng1. length salt = 16 \<and> derive_kek kdf pass salt params = Ok kek \<and>
    seal A fill kek (keyfile_header params salt) (key_as_bytes dk @ key_as_bytes ck) rng1 = (Ok sealed, rng') \<and>
    kf = keyfile_header params salt @ sealed"
proof -
  obtain salt rng1 where f: "fill 16 rng = (salt, rng1)" by (cases "fill 16 rng")
  show ?thesis
    using assms(2) f fill_lawsD [OF assms(1) f]
    by (auto simp: export_keyfile_def Let_def KEYFILE_SALT_LEN_def split: prod.splits sum.splits)
qed

text \<open>Importing an exported keyfile with the same passphrase recovers both keys, and the kf has the
  documented length.\<close>

theorem keyfile_roundtrip:
  assumes "aead_laws A" "fill_laws fill"
    and "export_keyfile A kdf fill dk ck pass params rng = (Ok kf, rng')"
  shows "import_keyfile A kdf kf pass = Ok (dk, ck) \<and> length kf = KEYFILE_LEN"
proof -
  obtain salt kek sealed rng1 where s: "length salt = 16" "derive_kek kdf pass salt params = Ok kek"
    "seal A fill kek (keyfile_header params salt) (key_as_bytes dk @ key_as_bytes ck) rng1 = (Ok sealed, rng')"
    and kf: "kf = keyfile_header params salt @ sealed"
    using export_keyfile_Ok [OF assms(2,3)] by blast
  note lay = keyfile_header_layout [OF s(1), where params = params]
  have op: "open_blob A kek (keyfile_header params salt) sealed = Ok (key_as_bytes dk @ key_as_bytes ck)"
    and len: "length sealed = 64 + BLOB_OVERHEAD"
    using seal_open [OF assms(1,2) s(3)] by simp_all
  have flen: "length kf = KEYFILE_LEN" using len lay(1) by (simp add: kf crypto_lens)
  have "read_u32 kf 9 = Ok (m_cost_kib params)" "read_u32 kf 13 = Ok (t_cost params)"
    "read_u32 kf 17 = Ok (p_cost params)"
    using flen lay(4-6) [of sealed] by (simp_all only: read_u32_def kf) (simp_all add: crypto_lens le_bytes_inverse)
  moreover have "take KEYFILE_HEADER_LEN kf = keyfile_header params salt"
    "drop KEYFILE_HEADER_LEN kf = sealed" using lay(1) by (simp_all add: kf)
  moreover have "take KEYFILE_SALT_LEN (drop 21 kf) = salt"
    using lay(7) by (simp add: kf KEYFILE_SALT_LEN_def)
  moreover have "take 8 kf = KEYFILE_MAGIC" "kf ! 8 = KEYFILE_VERSION" "\<not> length kf < 9"
    using lay flen by (simp_all add: kf) (simp add: crypto_lens)
  moreover obtain m t p where "params = \<lparr>m_cost_kib = m, t_cost = t, p_cost = p\<rparr>" by (cases params)
  ultimately show ?thesis
    using s(2) op flen by (simp add: import_keyfile_def Let_def) (simp add: crypto_lens)
qed

text \<open>A keyfile that imports has the magic, version 2 and the exact length, and its payload was
  authenticated together with the whole header; a version other than 2 is reported as such.\<close>

theorem import_keyfile_authenticated:
  "(import_keyfile A kdf bs pass = Ok (dk, ck) \<longrightarrow>
      length bs = KEYFILE_LEN \<and> take 9 bs = KEYFILE_MAGIC @ [KEYFILE_VERSION] \<and>
      (\<exists>kek payload. aead_decrypt A kek (take NONCE_LEN (drop KEYFILE_HEADER_LEN bs))
           (take KEYFILE_HEADER_LEN bs) (drop (KEYFILE_HEADER_LEN + NONCE_LEN) bs) = Some payload \<and>
         length payload = KEYFILE_PAYLOAD_LEN \<and>
         dk = key_from_bytes (take DATA_KEY_LEN payload) \<and> ck = key_from_bytes (drop DATA_KEY_LEN payload))) \<and>
   (9 \<le> length bs \<and> take 8 bs = KEYFILE_MAGIC \<and> bs ! 8 \<noteq> KEYFILE_VERSION \<longrightarrow>
      import_keyfile A kdf bs pass = Err (KeyfileVersion (bs ! 8)))"
proof (intro conjI impI)
  assume "9 \<le> length bs \<and> take 8 bs = KEYFILE_MAGIC \<and> bs ! 8 \<noteq> KEYFILE_VERSION"
  then show "import_keyfile A kdf bs pass = Err (KeyfileVersion (bs ! 8))"
    by (simp add: import_keyfile_def)
next
  assume ok: "import_keyfile A kdf bs pass = Ok (dk, ck)"
  then show "length bs = KEYFILE_LEN"
    by (auto simp: import_keyfile_def split: if_splits)
  have g: "9 \<le> length bs" "take 8 bs = KEYFILE_MAGIC" "bs ! 8 = KEYFILE_VERSION"
    using ok by (auto simp: import_keyfile_def split: if_splits)
  then show "take 9 bs = KEYFILE_MAGIC @ [KEYFILE_VERSION]"
    using take_Suc_conv_app_nth [of 8 bs] by simp
  show "\<exists>kek payload. aead_decrypt A kek (take NONCE_LEN (drop KEYFILE_HEADER_LEN bs))
           (take KEYFILE_HEADER_LEN bs) (drop (KEYFILE_HEADER_LEN + NONCE_LEN) bs) = Some payload \<and>
         length payload = KEYFILE_PAYLOAD_LEN \<and>
         dk = key_from_bytes (take DATA_KEY_LEN payload) \<and> ck = key_from_bytes (drop DATA_KEY_LEN payload)"
    using ok
    by (auto simp: import_keyfile_def Let_def and_then_Ok_iff open_blob_def add.commute
        split: if_splits option.splits)
qed

section \<open>Witnesses\<close>

text \<open>A cipher that appends a zero tag and a generator that yields zero bytes satisfy the laws.\<close>

definition tag_aead :: aead where
  "tag_aead = \<lparr>aead_encrypt = \<lambda>k n a m. Some (m @ replicate 16 0),
               aead_decrypt = \<lambda>k n a c. Some (take (length c - 16) c)\<rparr>"

definition zero_fill :: "unit fill_bytes" where
  "zero_fill n r = (replicate n 0, r)"

lemma tag_aead_laws: "aead_laws tag_aead" "fill_laws zero_fill"
  by (simp_all add: aead_laws_def fill_laws_def tag_aead_def zero_fill_def)

theorem chunk_seal_roundtrip_witness:
  "\<exists>blob. encrypt_chunk tag_aead zero_fill 1 2 [3, 4] () = (Ok blob, ()) \<and>
     decrypt_chunk tag_aead 1 2 blob = Ok [3, 4] \<and> length blob = 42"
proof -
  have e: "encrypt_chunk tag_aead zero_fill 1 2 [3, 4] () = (Ok (replicate 24 0 @ [3, 4] @ replicate 16 0), ())"
    by (simp add: encrypt_chunk_def seal_def tag_aead_def zero_fill_def crypto_lens)
  show ?thesis using e chunk_seal_roundtrip [OF tag_aead_laws e] by (auto simp: crypto_lens)
qed

theorem keyfile_roundtrip_witness:
  "\<exists>kf. export_keyfile tag_aead (\<lambda>_ _ _. Ok 5) zero_fill 1 2 [] kdf_params_default () = (Ok kf, ()) \<and>
     import_keyfile tag_aead (\<lambda>_ _ _. Ok 5) kf [] = Ok (1, 2) \<and> length kf = 141"
proof -
  obtain kf where e: "export_keyfile tag_aead (\<lambda>_ _ _. Ok 5) zero_fill 1 2 [] kdf_params_default () = (Ok kf, ())"
    by (simp add: export_keyfile_def seal_def tag_aead_def zero_fill_def derive_kek_def Let_def)
  show ?thesis using e keyfile_roundtrip [OF tag_aead_laws e] by (auto simp: crypto_lens)
qed

theorem import_keyfile_authenticated_witness:
  "import_keyfile tag_aead (\<lambda>_ _ _. Ok 5) (KEYFILE_MAGIC @ [1]) [] = Err (KeyfileVersion 1)"
  using import_keyfile_authenticated [of tag_aead "\<lambda>_ _ _. Ok 5" "KEYFILE_MAGIC @ [1]" "[]" 0 0]
  by (simp add: KEYFILE_MAGIC_def KEYFILE_VERSION_def)

end
