(* ===== verification/Identity.thy ===== *)
theory Identity
  imports Crypto
begin

text \<open>
  The daemon's identity, \<open>crates/busyncr-daemon/src/identity.rs\<close>: the internal CA, one-time enrollment
  tokens and the registry of enrolled clients, all files of one directory.

  \<^item> The directory is the listing of its top-level files, of \<open>tokens/\<close> and of \<open>clients/\<close>, each from
    file name to content; names and texts are their UTF-8 bytes.
  \<^item> rcgen (key pairs and certificates), the TOML codec and BLAKE3 are third-party code: arguments.
    A certificate operation that fails is \<open>Cert\<close>; what it is given is modelled, what it produces is not.
  \<^item> Every file system call is an \<open>id_site\<close> that can fail.
\<close>

section \<open>Files\<close>

datatype id_dir = IdRoot | TOKENS_DIR | CLIENTS_DIR

type_synonym id_path = "id_dir \<times> bytes"
type_synonym file_list = "(bytes \<times> bytes) list"

record id_disk =
  root_files :: file_list
  token_files :: file_list
  client_files :: file_list

datatype id_site = IdCreateDir id_dir | IdCreate id_path | IdWrite id_path | IdChmod id_path
  | IdRename id_path | IdRemove id_path | IdRead id_path | IdReadDir id_dir | IdStat id_path

record id_faults =
  id_fails :: "id_site \<Rightarrow> bool"
  id_partial :: nat

definition id_no_faults :: id_faults where "id_no_faults = \<lparr>id_fails = (\<lambda>_. False), id_partial = 0\<rparr>"

datatype identity_error =
    IdIo id_path
  | Cert
  | CsrRejected bytes
  | BadName
  | NameTaken bytes
  | RegistryParse id_path
  | RegistryEncode

definition dir_files :: "id_disk \<Rightarrow> id_dir \<Rightarrow> file_list" where
  "dir_files d dir = (case dir of IdRoot \<Rightarrow> root_files d | TOKENS_DIR \<Rightarrow> token_files d | CLIENTS_DIR \<Rightarrow> client_files d)"

definition set_dir_files :: "id_disk \<Rightarrow> id_dir \<Rightarrow> file_list \<Rightarrow> id_disk" where
  "set_dir_files d dir fs = (case dir of IdRoot \<Rightarrow> d\<lparr>root_files := fs\<rparr> | TOKENS_DIR \<Rightarrow> d\<lparr>token_files := fs\<rparr>
     | CLIENTS_DIR \<Rightarrow> d\<lparr>client_files := fs\<rparr>)"

definition ID_TMP_PREFIX :: bytes where \<comment> \<open>\<open>.tmp-\<close>\<close>
  "ID_TMP_PREFIX = [0x2E, 0x74, 0x6D, 0x70, 0x2D]"

text \<open>\<open>write_atomic\<close>: a failure leaves the temporary file as far as it was written.\<close>

definition write_atomic :: "id_faults \<Rightarrow> id_disk \<Rightarrow> id_path \<Rightarrow> bytes \<Rightarrow> bool \<Rightarrow> id_disk \<times> (identity_error + unit)" where
  "write_atomic F d path data restrict =
     (let dir = fst path;
          tmp = ID_TMP_PREFIX @ (if utf8_valid (snd path) then snd path else [0x69, 0x64]);
          fs = dir_files d dir
      in if id_fails F (IdCreate (dir, tmp)) then (d, Err (IdIo path))
         else if id_fails F (IdWrite (dir, tmp))
         then (set_dir_files d dir (AList.update tmp (take (id_partial F) data) fs), Err (IdIo path))
         else if restrict \<and> id_fails F (IdChmod (dir, tmp)) \<or> id_fails F (IdRename path)
         then (set_dir_files d dir (AList.update tmp data fs), Err (IdIo path))
         else (set_dir_files d dir (AList.update (snd path) data (AList.delete tmp fs)), Ok ()))"

text \<open>\<open>read_to_string\<close>: an absent file and text that is not UTF-8 are I/O errors.\<close>

definition read_string :: "id_faults \<Rightarrow> id_disk \<Rightarrow> id_path \<Rightarrow> identity_error + bytes" where
  "read_string F d path =
     (case map_of (dir_files d (fst path)) (snd path) of
        None \<Rightarrow> Err (IdIo path)
      | Some body \<Rightarrow> if id_fails F (IdRead path) \<or> \<not> utf8_valid body then Err (IdIo path) else Ok body)"

section \<open>Text codecs\<close>

definition hex :: "bytes \<Rightarrow> bytes" where
  "hex bs = concat (map hex_byte bs)"

definition BASE64_ALPHABET :: "byte list" where
  "BASE64_ALPHABET = map word_of_nat ([65..<91] @ [97..<123] @ [48..<58] @ [43, 47])"

definition base64_rev :: "byte \<Rightarrow> byte" where
  "base64_rev c = (case map_of (zip BASE64_ALPHABET (map word_of_nat [0..<64])) c of None \<Rightarrow> 255 | Some i \<Rightarrow> i)"

text \<open>\<open>u8::is_ascii_whitespace\<close>.\<close>

definition is_ascii_whitespace :: "byte \<Rightarrow> bool" where
  "is_ascii_whitespace b = (b \<in> {0x20, 0x09, 0x0A, 0x0C, 0x0D})"

fun base64_acc :: "u32 \<Rightarrow> bytes \<Rightarrow> u32 option" where
  "base64_acc acc [] = Some acc"
| "base64_acc acc (c # cs) =
     (let v = base64_rev c in if v = 255 then None else base64_acc (or (push_bit 6 acc) (ucast v)) cs)"

definition base64_group :: "bytes \<Rightarrow> bytes option" where
  "base64_group chunk =
     (if length chunk = 1 then None
      else case base64_acc 0 chunk of
          None \<Rightarrow> None
        | Some acc \<Rightarrow>
           Some (take (length chunk - 1) (drop 1 (be_bytes 4 (push_bit (6 * (4 - length chunk)) acc)))))"

text \<open>The loop over \<open>chunks(4)\<close>.\<close>

fun base64_groups :: "bytes \<Rightarrow> bytes option" where
  "base64_groups bs =
     (if bs = [] then Some []
      else case base64_group (take 4 bs) of
          None \<Rightarrow> None
        | Some out \<Rightarrow> map_option (\<lambda>rest. out @ rest) (base64_groups (drop 4 bs)))"

declare base64_groups.simps [simp del]

definition base64_decode :: "bytes \<Rightarrow> bytes option" where
  "base64_decode s =
     (let raw = filter (\<lambda>b. \<not> is_ascii_whitespace b) s;
          pad = length (takeWhile (\<lambda>b. b = 0x3D) (rev raw))
      in if pad \<le> 2 then base64_groups (take (length raw - pad) raw) else None)"

text \<open>\<open>str::trim\<close>: the encodings of the Unicode white space characters.\<close>

definition ws_chars :: "bytes list" where
  "ws_chars = map (\<lambda>b. [word_of_nat b]) ([9..<14] @ [32]) @ [[0xC2, 0x85], [0xC2, 0xA0], [0xE1, 0x9A, 0x80]] @
     map (\<lambda>b. [0xE2, 0x80, word_of_nat b]) ([128..<139] @ [168, 169, 175]) @ [[0xE2, 0x81, 0x9F], [0xE3, 0x80, 0x80]]"

function trim_with :: "bytes list \<Rightarrow> bytes \<Rightarrow> bytes" where
  "trim_with ws bs =
     (case find (\<lambda>w. w \<noteq> [] \<and> w = take (length w) bs) ws of None \<Rightarrow> bs | Some w \<Rightarrow> trim_with ws (drop (length w) bs))"
  by pat_completeness auto
termination
proof (relation "measure (\<lambda>(ws, bs). length bs)")
  fix ws and bs w :: bytes
  assume "find (\<lambda>w. w \<noteq> [] \<and> w = take (length w) bs) ws = Some w"
  then have "w \<noteq> []" "w = take (length w) bs" by (auto simp: find_Some_iff)
  then have "bs \<noteq> []" by (metis take_Nil)
  then show "((ws, drop (length w) bs), ws, bs) \<in> measure (\<lambda>(ws, bs). length bs)" using \<open>w \<noteq> []\<close> by simp
qed simp

declare trim_with.simps [simp del]

definition trim :: "bytes \<Rightarrow> bytes" where
  "trim s = rev (trim_with (map rev ws_chars) (rev (trim_with ws_chars s)))"

text \<open>\<open>str::lines\<close>: lines end at a line feed, with a carriage return before it dropped; a final empty line is
  not produced.\<close>

fun split_lf :: "bytes \<Rightarrow> bytes \<Rightarrow> bytes list" where
  "split_lf line [] = (if line = [] then [] else [line])"
| "split_lf line (b # bs) =
     (if b = 0x0A
      then (if line \<noteq> [] \<and> last line = 0x0D then butlast line else line) # split_lf [] bs
      else split_lf (line @ [b]) bs)"

definition pem_to_der :: "bytes \<Rightarrow> bytes option" where
  "pem_to_der pem =
     base64_decode (trim (concat (filter (\<lambda>l. take 5 l \<noteq> replicate 5 0x2D) (split_lf [] pem))))"

section \<open>Certificates\<close>

datatype dn_value = Utf8String bytes | PrintableString bytes | OtherDn
datatype is_ca = NoCa | ExplicitNoCa | CaUnconstrained
datatype key_usage = KeyCertSign | CrlSign | DigitalSignature | OtherKeyUsage nat
datatype ext_key_usage = ServerAuth | ClientAuth | OtherExtKeyUsage nat

record cert_params =
  subject_alt_names :: "bytes list"
  dn_common_name :: "dn_value option"
  cp_is_ca :: is_ca
  cp_key_usages :: "key_usage list"
  cp_ext_key_usages :: "ext_key_usage list"

record csr =
  csr_params :: cert_params
  csr_public_key :: bytes

record cert =
  cert_pem :: bytes
  cert_der :: bytes

text \<open>Rcgen: key pairs are their PEM text; \<open>'r\<close> is the source of randomness behind key generation and
  signatures; an issuer is a CA certificate and its key.\<close>

record 'r rcgen =
  keypair_generate :: "'r \<Rightarrow> (unit + bytes) \<times> 'r"
  keypair_from_pem :: "bytes \<Rightarrow> unit + bytes"
  cert_params_new :: "bytes list \<Rightarrow> unit + cert_params"
  self_signed :: "cert_params \<Rightarrow> bytes \<Rightarrow> 'r \<Rightarrow> (unit + cert) \<times> 'r"
  issuer_from_ca_cert_pem :: "bytes \<Rightarrow> bytes \<Rightarrow> unit + (bytes \<times> bytes)"
  params_signed_by :: "cert_params \<Rightarrow> bytes \<Rightarrow> (bytes \<times> bytes) \<Rightarrow> 'r \<Rightarrow> (unit + cert) \<times> 'r"
  serialize_request :: "cert_params \<Rightarrow> bytes \<Rightarrow> 'r \<Rightarrow> (unit + bytes) \<times> 'r"
  csr_from_pem :: "bytes \<Rightarrow> bytes + csr"
  csr_signed_by :: "csr \<Rightarrow> (bytes \<times> bytes) \<Rightarrow> 'r \<Rightarrow> (unit + cert) \<times> 'r"

definition MAX_NAME_LEN :: nat where "MAX_NAME_LEN = 64"
definition TOKEN_LEN :: nat where "TOKEN_LEN = 32"

text \<open>\<open>char::is_control\<close> on UTF-8: the ASCII controls and U+0080 to U+009F.\<close>

fun has_control :: "bytes \<Rightarrow> bool" where
  "has_control [] = False"
| "has_control (b # bs) =
     (b < 0x20 \<or> b = 0x7F \<or> b = 0xC2 \<and> bs \<noteq> [] \<and> 0x80 \<le> hd bs \<and> hd bs \<le> 0x9F \<or> has_control bs)"

definition common_name :: "cert_params \<Rightarrow> bytes option" where
  "common_name params =
     (case dn_common_name params of
        None \<Rightarrow> None
      | Some dn \<Rightarrow>
         (case (case dn of Utf8String s \<Rightarrow> Some s | PrintableString s \<Rightarrow> Some s | OtherDn \<Rightarrow> None) of
            None \<Rightarrow> None
          | Some nm \<Rightarrow> if nm \<noteq> [] \<and> length nm \<le> MAX_NAME_LEN \<and> \<not> has_control nm then Some nm else None))"


section \<open>The registry\<close>

record client_record =
  cr_name :: bytes
  cr_fingerprint :: bytes
  cr_revoked :: bool

record toml =
  toml_to_string :: "client_record \<Rightarrow> unit + bytes"
  toml_from_str :: "bytes \<Rightarrow> unit + client_record"

definition toml_laws :: "toml \<Rightarrow> bool" where
  "toml_laws T \<longleftrightarrow> (\<forall>r body. toml_to_string T r = Ok body \<longrightarrow> toml_from_str T body = Ok r \<and> utf8_valid body)"

datatype client_status = Unknown | Active | Revoked

record issued_cert =
  ic_cert_pem :: bytes
  ic_name :: bytes
  ic_fingerprint :: bytes

record daemon_identity =
  ca_cert_pem :: bytes
  ca_cert_der :: bytes
  ca_key_pem :: bytes
  server_cert_pem :: bytes
  server_key_pem :: bytes

definition TOML_EXT :: bytes where "TOML_EXT = [0x2E, 0x74, 0x6F, 0x6D, 0x6C]" \<comment> \<open>\<open>.toml\<close>\<close>

definition token_path :: "(bytes \<Rightarrow> hash32) \<Rightarrow> bytes \<Rightarrow> id_path" where
  "token_path H token = (TOKENS_DIR, hex (be_bytes 32 (H token)))"

definition is_ascii_alphanumeric :: "byte \<Rightarrow> bool" where
  "is_ascii_alphanumeric b \<longleftrightarrow> 0x30 \<le> b \<and> b \<le> 0x39 \<or> 0x41 \<le> b \<and> b \<le> 0x5A \<or> 0x61 \<le> b \<and> b \<le> 0x7A"

definition client_path :: "bytes \<Rightarrow> id_path" where
  "client_path fingerprint = (CLIENTS_DIR, filter is_ascii_alphanumeric fingerprint @ TOML_EXT)"

text \<open>\<open>path.extension() == Some("toml")\<close>: the name ends in \<open>.toml\<close> and does not only consist of it.\<close>

definition has_toml_ext :: "bytes \<Rightarrow> bool" where
  "has_toml_ext nm \<longleftrightarrow> length TOML_EXT < length nm \<and> drop (length nm - length TOML_EXT) nm = TOML_EXT"

definition parse_record :: "toml \<Rightarrow> id_path \<Rightarrow> bytes \<Rightarrow> identity_error + client_record" where
  "parse_record T path body = map_err (\<lambda>_. RegistryParse path) (toml_from_str T body)"

fun read_registry_entries :: "toml \<Rightarrow> id_faults \<Rightarrow> id_disk \<Rightarrow> file_list \<Rightarrow> identity_error + (id_path \<times> client_record) list" where
  "read_registry_entries T F d [] = Ok []"
| "read_registry_entries T F d ((nm, _) # rest) =
     (if \<not> has_toml_ext nm then read_registry_entries T F d rest
      else and_then (read_string F d (CLIENTS_DIR, nm)) (\<lambda>body.
           and_then (parse_record T (CLIENTS_DIR, nm) body) (\<lambda>record.
           and_then (read_registry_entries T F d rest) (\<lambda>out. Ok (((CLIENTS_DIR, nm), record) # out)))))"

definition read_registry :: "toml \<Rightarrow> id_faults \<Rightarrow> id_disk \<Rightarrow> identity_error + (id_path \<times> client_record) list" where
  "read_registry T F d =
     (if id_fails F (IdReadDir CLIENTS_DIR) then Err (IdIo (CLIENTS_DIR, []))
      else read_registry_entries T F d (client_files d))"

definition active_client_named :: "toml \<Rightarrow> id_faults \<Rightarrow> id_disk \<Rightarrow> bytes \<Rightarrow> identity_error + bytes option" where
  "active_client_named T F d nm =
     and_then (read_registry T F d) (\<lambda>reg.
       Ok (map_option (\<lambda>(_, r). cr_fingerprint r) (find (\<lambda>(_, r). cr_name r = nm \<and> \<not> cr_revoked r) reg)))"

definition client_record_of :: "toml \<Rightarrow> id_faults \<Rightarrow> id_disk \<Rightarrow> bytes \<Rightarrow> identity_error + client_record option" where
  "client_record_of T F d fingerprint =
     (let path = client_path fingerprint
      in if map_of (client_files d) (snd path) = None \<and> \<not> id_fails F (IdRead path) then Ok None
         else and_then (read_string F d path) (\<lambda>body. and_then (parse_record T path body) (\<lambda>r. Ok (Some r))))"

definition client_status :: "toml \<Rightarrow> id_faults \<Rightarrow> id_disk \<Rightarrow> bytes \<Rightarrow> identity_error + client_status" where
  "client_status T F d fingerprint =
     and_then (client_record_of T F d fingerprint) (\<lambda>o'. Ok (case o' of None \<Rightarrow> Unknown
       | Some r \<Rightarrow> if cr_revoked r then Revoked else Active))"

definition client_name :: "toml \<Rightarrow> id_faults \<Rightarrow> id_disk \<Rightarrow> bytes \<Rightarrow> identity_error + bytes option" where
  "client_name T F d fingerprint =
     and_then (client_record_of T F d fingerprint) (\<lambda>o'. Ok (map_option cr_name o'))"

fun revoke_loop :: "toml \<Rightarrow> id_faults \<Rightarrow> bytes \<Rightarrow> (id_path \<times> client_record) list \<Rightarrow> id_disk
    \<Rightarrow> id_disk \<times> (identity_error + nat)" where
  "revoke_loop T F nm [] d = (d, Ok 0)"
| "revoke_loop T F nm ((path, record) # rest) d =
     (if cr_name record = nm \<and> \<not> cr_revoked record then
        (case toml_to_string T (record\<lparr>cr_revoked := True\<rparr>) of
           Err _ \<Rightarrow> (d, Err RegistryEncode)
         | Ok body \<Rightarrow>
            (case write_atomic F d path body False of
               (d', Err e) \<Rightarrow> (d', Err e)
             | (d', Ok _) \<Rightarrow>
                (case revoke_loop T F nm rest d' of (d'', r) \<Rightarrow> (d'', and_then r (\<lambda>n. Ok (Suc n))))))
      else revoke_loop T F nm rest d)"

definition revoke :: "toml \<Rightarrow> id_faults \<Rightarrow> id_disk \<Rightarrow> bytes \<Rightarrow> id_disk \<times> (identity_error + nat)" where
  "revoke T F d nm =
     (case read_registry T F d of Err e \<Rightarrow> (d, Err e) | Ok reg \<Rightarrow> revoke_loop T F nm reg d)"

section \<open>Tokens and enrollment\<close>

definition mint_token :: "(bytes \<Rightarrow> hash32) \<Rightarrow> 'r fill_bytes \<Rightarrow> id_faults \<Rightarrow> id_disk \<Rightarrow> 'r
    \<Rightarrow> (id_disk \<times> (identity_error + bytes)) \<times> 'r" where
  "mint_token H fill F d rng =
     (let (raw, rng') = fill TOKEN_LEN rng; token = hex raw
      in (case write_atomic F d (token_path H token) [] False of
            (d', Err e) \<Rightarrow> (d', Err e) | (d', Ok _) \<Rightarrow> (d', Ok token), rng'))"

definition consume_token :: "(bytes \<Rightarrow> hash32) \<Rightarrow> id_faults \<Rightarrow> id_disk \<Rightarrow> bytes \<Rightarrow> id_disk \<times> (identity_error + bool)" where
  "consume_token H F d token =
     (let path = token_path H token
      in if id_fails F (IdRemove path) then (d, Err (IdIo path))
         else if map_of (token_files d) (snd path) = None then (d, Ok False)
         else (d\<lparr>token_files := AList.delete (snd path) (token_files d)\<rparr>, Ok True))"

text \<open>The certificate profile the daemon enforces on a request.\<close>

definition client_profile :: "cert_params \<Rightarrow> cert_params" where
  "client_profile p = p\<lparr>cp_is_ca := ExplicitNoCa, cp_key_usages := [DigitalSignature],
     cp_ext_key_usages := [ClientAuth], subject_alt_names := []\<rparr>"

definition enroll_client :: "'r rcgen \<Rightarrow> toml \<Rightarrow> (bytes \<Rightarrow> hash32) \<Rightarrow> id_faults \<Rightarrow> daemon_identity \<Rightarrow> id_disk \<Rightarrow> bytes
    \<Rightarrow> 'r \<Rightarrow> (id_disk \<times> (identity_error + issued_cert)) \<times> 'r" where
  "enroll_client G T H F ident d csr_pem rng =
     (case csr_from_pem G csr_pem of
        Err msg \<Rightarrow> ((d, Err (CsrRejected msg)), rng)
      | Ok csr \<Rightarrow>
     (case common_name (csr_params csr) of
        None \<Rightarrow> ((d, Err BadName), rng)
      | Some nm \<Rightarrow>
     (case active_client_named T F d nm of
        Err e \<Rightarrow> ((d, Err e), rng)
      | Ok (Some _) \<Rightarrow> ((d, Err (NameTaken nm)), rng)
      | Ok None \<Rightarrow>
     (case and_then (keypair_from_pem G (ca_key_pem ident)) (issuer_from_ca_cert_pem G (ca_cert_pem ident)) of
        Err _ \<Rightarrow> ((d, Err Cert), rng)
      | Ok issuer \<Rightarrow>
     (case csr_signed_by G (csr\<lparr>csr_params := client_profile (csr_params csr)\<rparr>) issuer rng of
        (Err _, rng') \<Rightarrow> ((d, Err Cert), rng')
      | (Ok c, rng') \<Rightarrow>
         (let fingerprint = hex (be_bytes 32 (H (cert_der c)));
              record = \<lparr>cr_name = nm, cr_fingerprint = fingerprint, cr_revoked = False\<rparr>
          in case toml_to_string T record of
               Err _ \<Rightarrow> ((d, Err RegistryEncode), rng')
             | Ok body \<Rightarrow>
                (case write_atomic F d (client_path fingerprint) body False of
                   (d', Err e) \<Rightarrow> ((d', Err e), rng')
                 | (d', Ok _) \<Rightarrow>
                    ((d', Ok \<lparr>ic_cert_pem = cert_pem c, ic_name = nm, ic_fingerprint = fingerprint\<rparr>), rng'))))))))"

section \<open>Bootstrap\<close>

definition ascii :: "string \<Rightarrow> bytes" where "ascii s = map of_char s"

definition CA_CERT_FILE :: id_path where "CA_CERT_FILE = (IdRoot, ascii ''ca-cert.pem'')"
definition CA_KEY_FILE :: id_path where "CA_KEY_FILE = (IdRoot, ascii ''ca-key.pem'')"
definition SERVER_CERT_FILE :: id_path where "SERVER_CERT_FILE = (IdRoot, ascii ''server-cert.pem'')"
definition SERVER_KEY_FILE :: id_path where "SERVER_KEY_FILE = (IdRoot, ascii ''server-key.pem'')"
definition TLS_SERVER_NAME :: bytes where "TLS_SERVER_NAME = ascii ''busyncr-daemon''"

text \<open>\<open>Path::is_file\<close>: a failing \<open>stat\<close> answers no.\<close>

definition is_file :: "id_faults \<Rightarrow> id_disk \<Rightarrow> id_path \<Rightarrow> bool" where
  "is_file F d path \<longleftrightarrow> map_of (dir_files d (fst path)) (snd path) \<noteq> None \<and> \<not> id_fails F (IdStat path)"

definition id_create_dir_all :: "id_faults \<Rightarrow> id_dir \<Rightarrow> identity_error + unit" where
  "id_create_dir_all F dir = (if id_fails F (IdCreateDir dir) then Err (IdIo (dir, [])) else Ok ())"

definition ca_params :: "cert_params \<Rightarrow> cert_params" where
  "ca_params p = p\<lparr>dn_common_name := Some (Utf8String (ascii ''BusyNCR internal CA'')),
     cp_is_ca := CaUnconstrained, cp_key_usages := [KeyCertSign, CrlSign, DigitalSignature]\<rparr>"

definition server_sans :: "bytes list" where
  "server_sans = [TLS_SERVER_NAME, ascii ''localhost'', ascii ''127.0.0.1'', ascii ''::1'']"

definition server_params :: "cert_params \<Rightarrow> cert_params" where
  "server_params p = p\<lparr>dn_common_name := Some (Utf8String TLS_SERVER_NAME),
     cp_is_ca := ExplicitNoCa, cp_key_usages := [DigitalSignature], cp_ext_key_usages := [ServerAuth]\<rparr>"

text \<open>The two halves of \<open>open_or_init\<close> share one shape: reload both files of a pair, or write what \<open>mk\<close>
  generates, the certificate before the key.\<close>

definition load_pair :: "id_faults \<Rightarrow> id_disk \<Rightarrow> id_path \<Rightarrow> id_path \<Rightarrow> identity_error + (bytes \<times> bytes)" where
  "load_pair F d cert_path key_path =
     and_then (read_string F d cert_path) (\<lambda>c. and_then (read_string F d key_path) (\<lambda>k. Ok (c, k)))"

definition store_pair :: "id_faults \<Rightarrow> id_disk \<Rightarrow> id_path \<Rightarrow> id_path \<Rightarrow> bytes \<times> bytes
    \<Rightarrow> id_disk \<times> (identity_error + (bytes \<times> bytes))" where
  "store_pair F d cert_path key_path pair =
     (case write_atomic F d cert_path (fst pair) False of
        (d1, Err e) \<Rightarrow> (d1, Err e)
      | (d1, Ok _) \<Rightarrow>
         (case write_atomic F d1 key_path (snd pair) True of
            (d2, Err e) \<Rightarrow> (d2, Err e)
          | (d2, Ok _) \<Rightarrow> (d2, Ok pair)))"

definition load_or_make :: "id_faults \<Rightarrow> id_path \<Rightarrow> id_path \<Rightarrow> ('r \<Rightarrow> (unit + (bytes \<times> bytes)) \<times> 'r) \<Rightarrow> id_disk \<Rightarrow> 'r
    \<Rightarrow> (id_disk \<times> (identity_error + (bytes \<times> bytes))) \<times> 'r" where
  "load_or_make F cert_path key_path mk d rng =
     (if is_file F d cert_path \<and> is_file F d key_path then ((d, load_pair F d cert_path key_path), rng)
      else case mk rng of
          (Err _, rng') \<Rightarrow> ((d, Err Cert), rng')
        | (Ok pair, rng') \<Rightarrow> (store_pair F d cert_path key_path pair, rng'))"

definition make_ca :: "'r rcgen \<Rightarrow> 'r \<Rightarrow> (unit + (bytes \<times> bytes)) \<times> 'r" where
  "make_ca G rng =
     (case keypair_generate G rng of
        (Err _, rng1) \<Rightarrow> (Err (), rng1)
      | (Ok key, rng1) \<Rightarrow>
     (case cert_params_new G [] of
        Err _ \<Rightarrow> (Err (), rng1)
      | Ok p \<Rightarrow>
     (case self_signed G (ca_params p) key rng1 of
        (Err _, rng2) \<Rightarrow> (Err (), rng2)
      | (Ok c, rng2) \<Rightarrow> (Ok (cert_pem c, key), rng2))))"

definition make_server :: "'r rcgen \<Rightarrow> bytes \<Rightarrow> bytes \<Rightarrow> 'r \<Rightarrow> (unit + (bytes \<times> bytes)) \<times> 'r" where
  "make_server G ca_cert ca_key rng =
     (case and_then (keypair_from_pem G ca_key) (issuer_from_ca_cert_pem G ca_cert) of
        Err _ \<Rightarrow> (Err (), rng)
      | Ok issuer \<Rightarrow>
     (case keypair_generate G rng of
        (Err _, rng1) \<Rightarrow> (Err (), rng1)
      | (Ok key, rng1) \<Rightarrow>
     (case cert_params_new G server_sans of
        Err _ \<Rightarrow> (Err (), rng1)
      | Ok p \<Rightarrow>
     (case params_signed_by G (server_params p) key issuer rng1 of
        (Err _, rng2) \<Rightarrow> (Err (), rng2)
      | (Ok c, rng2) \<Rightarrow> (Ok (cert_pem c, key), rng2)))))"

definition open_or_init :: "'r rcgen \<Rightarrow> id_faults \<Rightarrow> id_disk \<Rightarrow> 'r
    \<Rightarrow> (id_disk \<times> (identity_error + daemon_identity)) \<times> 'r" where
  "open_or_init G F d rng =
     (case and_then (id_create_dir_all F IdRoot) (\<lambda>_. and_then (id_create_dir_all F TOKENS_DIR)
             (\<lambda>_. id_create_dir_all F CLIENTS_DIR)) of
        Err e \<Rightarrow> ((d, Err e), rng)
      | Ok _ \<Rightarrow>
     (case load_or_make F CA_CERT_FILE CA_KEY_FILE (make_ca G) d rng of
        ((d1, Err e), rng1) \<Rightarrow> ((d1, Err e), rng1)
      | ((d1, Ok ca), rng1) \<Rightarrow>
     (case pem_to_der (fst ca) of
        None \<Rightarrow> ((d1, Err (CsrRejected (ascii ''stored CA certificate is not valid PEM''))), rng1)
      | Some der \<Rightarrow>
     (case load_or_make F SERVER_CERT_FILE SERVER_KEY_FILE (make_server G (fst ca) (snd ca)) d1 rng1 of
        ((d2, Err e), rng2) \<Rightarrow> ((d2, Err e), rng2)
      | ((d2, Ok server), rng2) \<Rightarrow>
         ((d2, Ok \<lparr>ca_cert_pem = fst ca, ca_cert_der = der, ca_key_pem = snd ca,
                  server_cert_pem = fst server, server_key_pem = snd server\<rparr>), rng2)))))"

definition ca_fingerprint :: "(bytes \<Rightarrow> hash32) \<Rightarrow> daemon_identity \<Rightarrow> bytes" where
  "ca_fingerprint H ident = hex (be_bytes 32 (H (ca_cert_der ident)))"

end
