(* ===== verification/Identity_Codec.thy ===== *)
theory Identity_Codec
  imports Identity
begin

text \<open>
  The base64 decoder of \<open>identity.rs\<close> against the encoding of RFC 4648.
\<close>

section \<open>Base64\<close>

text \<open>The encoding of RFC 4648, section 4, as the reference the decoder is measured against.\<close>

definition base64_char :: "u32 \<Rightarrow> byte" where
  "base64_char v = BASE64_ALPHABET ! unat (take_bit 6 v)"

fun base64_encode :: "bytes \<Rightarrow> bytes" where
  "base64_encode (a # b # c # rest) =
     (let v = push_bit 16 (ucast a) OR push_bit 8 (ucast b) OR ucast c :: u32
      in [base64_char (drop_bit 18 v), base64_char (drop_bit 12 v), base64_char (drop_bit 6 v), base64_char v]
         @ base64_encode rest)"
| "base64_encode [a, b] =
     (let v = push_bit 16 (ucast a) OR push_bit 8 (ucast b) :: u32
      in [base64_char (drop_bit 18 v), base64_char (drop_bit 12 v), base64_char (drop_bit 6 v), 0x3D])"
| "base64_encode [a] =
     (let v = push_bit 16 (ucast a) :: u32
      in [base64_char (drop_bit 18 v), base64_char (drop_bit 12 v), 0x3D, 0x3D])"
| "base64_encode [] = []"

lemma alphabet_props:
  assumes "i < 64"
  shows "base64_rev (BASE64_ALPHABET ! i) = word_of_nat i" "BASE64_ALPHABET ! i \<noteq> 0x3D"
    "\<not> is_ascii_whitespace (BASE64_ALPHABET ! i)"
proof -
  have "list_all (\<lambda>i. base64_rev (BASE64_ALPHABET ! i) = word_of_nat i \<and> BASE64_ALPHABET ! i \<noteq> 0x3D \<and>
     \<not> is_ascii_whitespace (BASE64_ALPHABET ! i)) [0..<64]" by code_simp
  then show "base64_rev (BASE64_ALPHABET ! i) = word_of_nat i" "BASE64_ALPHABET ! i \<noteq> 0x3D"
    "\<not> is_ascii_whitespace (BASE64_ALPHABET ! i)" using assms by (auto simp: list_all_iff)
qed

lemma base64_char_props [simp]:
  "base64_rev (base64_char v) = ucast (take_bit 6 v)" "base64_char v \<noteq> 0x3D" "\<not> is_ascii_whitespace (base64_char v)"
proof -
  have *: "unat (take_bit 6 v) < 64" using take_bit_nat_less_exp [of 6 "unat v"] by (simp add: unsigned_take_bit_eq)
  show "base64_char v \<noteq> 0x3D" "\<not> is_ascii_whitespace (base64_char v)"
    using alphabet_props(2,3) [OF *] by (simp_all add: base64_char_def)
  show "base64_rev (base64_char v) = ucast (take_bit 6 v)"
    using alphabet_props(1) [OF *] by (simp add: base64_char_def)
qed

lemma ucast_take6_neq: "(ucast (take_bit 6 (v :: u32)) :: byte) \<noteq> 255"
proof
  assume "(ucast (take_bit 6 v) :: byte) = 255"
  then have "bit (ucast (take_bit 6 v) :: byte) 7 = bit (255 :: byte) 7" by simp
  moreover have "bit (255 :: byte) 7" by (simp add: bit_iff_odd)
  ultimately show False by (simp add: bit_simps)
qed

lemma base64_acc_char [simp]:
  "base64_acc acc (base64_char v # cs) = base64_acc (push_bit 6 acc OR take_bit 6 v) cs"
proof -
  have "(ucast (ucast (take_bit 6 v) :: byte) :: u32) = take_bit 6 v"
    by (rule bit_word_eqI) (auto simp: bit_simps)
  then show ?thesis by (simp add: Let_def ucast_take6_neq)
qed

declare base64_acc.simps(2) [simp del]

lemma base64_acc_bits:
  fixes v :: u32
  shows "push_bit 6 (take_bit 6 (drop_bit 18 v)) OR take_bit 6 (drop_bit 12 v) = take_bit 12 (drop_bit 12 v)"
    and "push_bit 6 (take_bit 12 (drop_bit 12 v)) OR take_bit 6 (drop_bit 6 v) = take_bit 18 (drop_bit 6 v)"
    and "push_bit 6 (take_bit 18 (drop_bit 6 v)) OR take_bit 6 v = take_bit 24 v"
proof -
  have split: "push_bit 6 (take_bit k (drop_bit 6 w)) OR take_bit 6 w = take_bit (k + 6) w" if "k + 6 \<le> 32" for k and w :: u32
  proof (rule bit_word_eqI)
    fix n
    assume "n < LENGTH(32)"
    then show "bit (push_bit 6 (take_bit k (drop_bit 6 w)) OR take_bit 6 w) n \<longleftrightarrow> bit (take_bit (k + 6) w) n"
      by (cases "n < 6") (auto simp: bit_simps)
  qed
  show "push_bit 6 (take_bit 6 (drop_bit 18 v)) OR take_bit 6 (drop_bit 12 v) = take_bit 12 (drop_bit 12 v)"
    "push_bit 6 (take_bit 12 (drop_bit 12 v)) OR take_bit 6 (drop_bit 6 v) = take_bit 18 (drop_bit 6 v)"
    "push_bit 6 (take_bit 18 (drop_bit 6 v)) OR take_bit 6 v = take_bit 24 v"
    using split [of 6 "drop_bit 12 v"] split [of 12 "drop_bit 6 v"] split [of 18 v] by (simp_all add: drop_bit_drop_bit)
qed

lemma be_bytes_4: "be_bytes 4 (w :: u32) = [ucast (drop_bit 24 w), ucast (drop_bit 16 w), ucast (drop_bit 8 w), ucast w]"
proof -
  have "le_bytes (Suc (Suc (Suc (Suc 0)))) w = [ucast w, ucast (drop_bit 8 w), ucast (drop_bit 16 w), ucast (drop_bit 24 w)]"
    by (simp add: drop_bit_drop_bit)
  moreover have "(4 :: nat) = Suc (Suc (Suc (Suc 0)))" by simp
  ultimately show ?thesis by (simp only: be_bytes_def rev.simps append.simps)
qed

lemma base64_group_four:
  "base64_group [base64_char (drop_bit 18 v), base64_char (drop_bit 12 v), base64_char (drop_bit 6 v), base64_char v]
     = Some [ucast (drop_bit 16 v), ucast (drop_bit 8 v), ucast v]"
proof -
  have "ucast (drop_bit 16 (take_bit 24 v)) = (ucast (drop_bit 16 v) :: byte)"
    "ucast (drop_bit 8 (take_bit 24 v)) = (ucast (drop_bit 8 v) :: byte)"
    "ucast (take_bit 24 v) = (ucast v :: byte)"
    by (rule bit_word_eqI, auto simp: bit_simps)+
  then show ?thesis by (simp add: base64_group_def base64_acc_bits be_bytes_4)
qed

lemma base64_group_three:
  "base64_group [base64_char (drop_bit 18 v), base64_char (drop_bit 12 v), base64_char (drop_bit 6 v)]
     = Some [ucast (drop_bit 16 v), ucast (drop_bit 8 v)]"
proof -
  have "ucast (drop_bit 16 (push_bit 6 (take_bit 18 (drop_bit 6 v)))) = (ucast (drop_bit 16 v) :: byte)"
    "ucast (drop_bit 8 (push_bit 6 (take_bit 18 (drop_bit 6 v)))) = (ucast (drop_bit 8 v) :: byte)"
    by (rule bit_word_eqI, auto simp: bit_simps)+
  then show ?thesis by (simp add: base64_group_def base64_acc_bits be_bytes_4)
qed

lemma base64_group_two:
  "base64_group [base64_char (drop_bit 18 v), base64_char (drop_bit 12 v)] = Some [ucast (drop_bit 16 v)]"
proof -
  have "ucast (drop_bit 16 (push_bit 12 (take_bit 12 (drop_bit 12 v)))) = (ucast (drop_bit 16 v) :: byte)"
    by (rule bit_word_eqI, auto simp: bit_simps)
  then show ?thesis by (simp add: base64_group_def base64_acc_bits be_bytes_4)
qed

lemma base64_groups_step:
  "base64_group [a, b, c, d] = Some out \<Longrightarrow>
     base64_groups (a # b # c # d # rest) = map_option (\<lambda>r. out @ r) (base64_groups rest)"
  by (subst base64_groups.simps) simp

lemma base64_groups_last:
  assumes "base64_group bs = Some out" and "bs \<noteq> []" and "length bs \<le> 4"
  shows "base64_groups bs = Some out"
  using assms by (subst base64_groups.simps) (simp add: base64_groups.simps [of "[]"])

text \<open>An encoded text is characters of the alphabet and at most two padding signs, and the groups of the
  characters decode to the bytes.\<close>

lemma base64_encode_shape:
  "\<exists>body pad. base64_encode bs = body @ replicate pad 0x3D \<and> pad \<le> 2 \<and>
     (\<forall>b \<in> set body. b \<noteq> 0x3D \<and> \<not> is_ascii_whitespace b) \<and> base64_groups body = Some bs"
proof (induction bs rule: base64_encode.induct)
  case (1 a b c rest)
  then obtain body pad where ih: "base64_encode rest = body @ replicate pad 0x3D" "pad \<le> 2"
    "\<forall>b \<in> set body. b \<noteq> 0x3D \<and> \<not> is_ascii_whitespace b" "base64_groups body = Some rest" by blast
  define v where "v = (push_bit 16 (ucast a) OR push_bit 8 (ucast b) OR ucast c :: u32)"
  have "ucast (drop_bit 16 v) = a" "ucast (drop_bit 8 v) = b" "ucast v = c"
    by (rule bit_word_eqI, auto simp: v_def bit_simps dest: bit_imp_le_length)+
  then have "base64_groups (base64_char (drop_bit 18 v) # base64_char (drop_bit 12 v) # base64_char (drop_bit 6 v)
      # base64_char v # body) = Some (a # b # c # rest)"
    using ih(4) base64_groups_step [OF base64_group_four] by simp
  moreover have "base64_encode (a # b # c # rest) = (base64_char (drop_bit 18 v) # base64_char (drop_bit 12 v)
      # base64_char (drop_bit 6 v) # base64_char v # body) @ replicate pad 0x3D"
    using ih(1) by (simp add: v_def [symmetric] Let_def)
  ultimately show ?case using ih(2,3) base64_char_props(2,3)
    by (intro exI [of _ "base64_char (drop_bit 18 v) # base64_char (drop_bit 12 v) # base64_char (drop_bit 6 v)
      # base64_char v # body"] exI [of _ pad]) auto
next
  case (2 a b)
  define v where "v = (push_bit 16 (ucast a) OR push_bit 8 (ucast b) :: u32)"
  let ?body = "[base64_char (drop_bit 18 v), base64_char (drop_bit 12 v), base64_char (drop_bit 6 v)]"
  have "ucast (drop_bit 16 v) = a" "ucast (drop_bit 8 v) = b"
    by (rule bit_word_eqI, auto simp: v_def bit_simps dest: bit_imp_le_length)+
  then have "base64_groups ?body = Some [a, b]" using base64_groups_last [OF base64_group_three] by simp
  then show ?case by (intro exI [of _ ?body] exI [of _ 1]) (simp add: v_def [symmetric] Let_def)
next
  case (3 a)
  define v where "v = (push_bit 16 (ucast a) :: u32)"
  let ?body = "[base64_char (drop_bit 18 v), base64_char (drop_bit 12 v)]"
  have "ucast (drop_bit 16 v) = a"
    by (rule bit_word_eqI, auto simp: v_def bit_simps dest: bit_imp_le_length)
  then have "base64_groups ?body = Some [a]" using base64_groups_last [OF base64_group_two] by simp
  then show ?case
    by (intro exI [of _ ?body] exI [of _ 2]) (simp add: v_def [symmetric] Let_def numeral_2_eq_2)
next
  case 4
  then show ?case by (auto simp: base64_groups.simps)
qed

lemma takeWhile_rev_replicate:
  "x \<notin> set body \<Longrightarrow> takeWhile (\<lambda>b. b = x) (rev (body @ replicate n x)) = replicate n x"
  by (cases body rule: rev_cases) (auto simp: takeWhile_append takeWhile_replicate)

text \<open>The hand-written base64 decoder inverts the standard encoding of every byte string, also when the
  text is broken by white space.\<close>

theorem base64_roundtrip:
  assumes "filter (\<lambda>b. \<not> is_ascii_whitespace b) s = base64_encode bs"
  shows "base64_decode s = Some bs"
proof -
  obtain body pad where b: "base64_encode bs = body @ replicate pad 0x3D" "pad \<le> 2"
    "\<forall>b \<in> set body. b \<noteq> 0x3D \<and> \<not> is_ascii_whitespace b" "base64_groups body = Some bs"
    using base64_encode_shape by blast
  have "takeWhile (\<lambda>b. b = 0x3D) (rev (body @ replicate pad 0x3D)) = replicate pad 0x3D"
    using b(3) by (intro takeWhile_rev_replicate) auto
  then show ?thesis using assms b(1,2,4) by (simp add: base64_decode_def Let_def)
qed

theorem base64_roundtrip_witness:
  "base64_decode (ascii ''aGVs'' @ [0x0A] @ ascii ''bG8='') = Some (ascii ''hello'')"
  by (rule base64_roundtrip) code_simp

end
