(* ===== verification/Retention.thy ===== *)
theory Retention
  imports Busyncr_Prelude "HOL-Library.Multiset"
begin

text \<open>
  The retention grid of \<open>crates/busyncr-core/src/retention.rs\<close>: tiers, policies and their
  validation, and \<open>plan\<close>, the pure function that decides which snapshots survive. The model
  keeps the code's single pass over the snapshots with a hash map of the best snapshot per
  (tier, cell); the lemmas show that this pass computes the declarative \<open>survives\<close> relation
  ("newest of its cell, the later entry on a tie") and derive from it the partition,
  one-survivor-per-cell, idempotence and newest-is-kept properties.
\<close>

section \<open>Tiers and policies\<close>

datatype retention_error = NoTiers | ZeroCell nat | Unordered nat

record tier =
  max_age :: duration
  tier_cell :: duration

record retention_policy =
  tiers :: "tier list"

definition tier_new :: "duration \<Rightarrow> duration \<Rightarrow> tier" where
  "tier_new a c = \<lparr>max_age = a, tier_cell = c\<rparr>"

definition cell_ms :: "tier \<Rightarrow> i64" where
  "cell_ms t = i64_max (i64_try_from_or_max (as_millis (tier_cell t))) 1"

definition THREE_HOURS :: duration where "THREE_HOURS = from_secs (3 * 60 * 60)"
definition ONE_DAY :: duration where "ONE_DAY = from_secs (24 * 60 * 60)"
definition FOUR_DAYS :: duration where "FOUR_DAYS = from_secs (4 * 24 * 60 * 60)"
definition SIXTEEN_DAYS :: duration where "SIXTEEN_DAYS = from_secs (16 * 24 * 60 * 60)"

definition default_grid :: retention_policy where
  "default_grid = \<lparr>tiers =
     [tier_new ONE_DAY THREE_HOURS, tier_new FOUR_DAYS ONE_DAY,
      tier_new SIXTEEN_DAYS FOUR_DAYS, tier_new DURATION_MAX SIXTEEN_DAYS]\<rparr>"

text \<open>The validation loop of \<open>from_tiers\<close>, at \<open>index\<close> of the whole list \<open>ts\<close>.\<close>

fun from_tiers_loop :: "tier list \<Rightarrow> nat \<Rightarrow> tier list \<Rightarrow> retention_error + unit" where
  "from_tiers_loop ts index [] = Ok ()"
| "from_tiers_loop ts index (t # rest) =
     (if tier_cell t = 0 then Err (ZeroCell index)
      else if 0 < index \<and> max_age t < max_age (ts ! (index - 1)) then Err (Unordered index)
      else from_tiers_loop ts (Suc index) rest)"

definition from_tiers :: "tier list \<Rightarrow> retention_error + retention_policy" where
  "from_tiers ts =
     (if ts = [] then Err NoTiers
      else and_then (from_tiers_loop ts 0 ts) (\<lambda>_. Ok \<lparr>tiers = ts\<rparr>))"

text \<open>\<open>tier_for\<close> indexes the last tier when no tier is old enough; with no tiers at all that
  index underflows and the code panics, which is \<open>None\<close> here.\<close>

fun tier_for_loop :: "nat \<Rightarrow> tier list \<Rightarrow> duration \<Rightarrow> (nat \<times> tier) option" where
  "tier_for_loop index [] age = None"
| "tier_for_loop index (t # rest) age =
     (if age < max_age t then Some (index, t) else tier_for_loop (Suc index) rest age)"

definition tier_for :: "retention_policy \<Rightarrow> duration \<Rightarrow> (nat \<times> tier) option" where
  "tier_for p age =
     (case tier_for_loop 0 (tiers p) age of
        Some r \<Rightarrow> Some r
      | None \<Rightarrow> (if tiers p = [] then None else Some (length (tiers p) - 1, last (tiers p))))"

section \<open>The plan\<close>

record 'a retention_plan =
  plan_keep :: "'a list"
  plan_drop :: "'a list"

text \<open>The body of the first loop of \<open>plan\<close> up to its hash-map key.\<close>

definition snapshot_cell :: "i64 \<Rightarrow> retention_policy \<Rightarrow> i64 \<Rightarrow> (nat \<times> i64) option" where
  "snapshot_cell now_ms p time_ms =
     (let age_ms = i64_max (i64_saturating_sub now_ms time_ms) 0;
          age = from_millis (unat age_ms)
      in case tier_for p age of
           None \<Rightarrow> None
         | Some (tier_index, t) \<Rightarrow> Some (tier_index, i64_div_euclid time_ms (cell_ms t)))"

type_synonym best_map = "((nat \<times> i64) \<times> (i64 \<times> nat)) list"

definition plan_step ::
  "i64 \<Rightarrow> retention_policy \<Rightarrow> best_map \<Rightarrow> nat \<Rightarrow> i64 \<Rightarrow> best_map" where
  "plan_step now_ms p best idx time_ms =
     (case snapshot_cell now_ms p time_ms of
        None \<Rightarrow> best
      | Some key \<Rightarrow>
         (case map_of best key of
            Some (best_time, _) \<Rightarrow>
              if sint best_time > sint time_ms then best
              else AList.update key (time_ms, idx) best
          | None \<Rightarrow> AList.update key (time_ms, idx) best))"

fun plan_best ::
  "i64 \<Rightarrow> retention_policy \<Rightarrow> nat \<Rightarrow> (i64 \<times> 'a) list \<Rightarrow> best_map \<Rightarrow> best_map" where
  "plan_best now_ms p idx [] best = best"
| "plan_best now_ms p idx ((time_ms, _) # rest) best =
     plan_best now_ms p (Suc idx) rest (plan_step now_ms p best idx time_ms)"

definition plan :: "i64 \<Rightarrow> (i64 \<times> 'a) list \<Rightarrow> retention_policy \<Rightarrow> 'a retention_plan" where
  "plan now_ms snapshots p =
     (if tiers p = [] then \<lparr>plan_keep = map snd snapshots, plan_drop = []\<rparr>
      else
        let best = plan_best now_ms p 0 snapshots [];
            survivors = map (\<lambda>(_, (_, idx)). idx) best
        in \<lparr>plan_keep =
               map (\<lambda>(_, (_, id)). id)
                 (filter (\<lambda>(idx, _). idx \<in> set survivors) (enumerate 0 snapshots)),
             plan_drop =
               map (\<lambda>(_, (_, id)). id)
                 (filter (\<lambda>(idx, _). idx \<notin> set survivors) (enumerate 0 snapshots))\<rparr>)"

section \<open>The reference definition\<close>

text \<open>Entry \<open>j\<close> beats entry \<open>i\<close> when it is newer, or as new and later in the input.\<close>

definition beats :: "(i64 \<times> 'a) list \<Rightarrow> nat \<Rightarrow> nat \<Rightarrow> bool" where
  "beats xs j i \<longleftrightarrow>
     sint (fst (xs ! i)) < sint (fst (xs ! j)) \<or> fst (xs ! i) = fst (xs ! j) \<and> i < j"

definition same_cell :: "i64 \<Rightarrow> retention_policy \<Rightarrow> (i64 \<times> 'a) list \<Rightarrow> nat \<Rightarrow> nat \<Rightarrow> bool" where
  "same_cell now_ms p xs i j \<longleftrightarrow>
     snapshot_cell now_ms p (fst (xs ! i)) = snapshot_cell now_ms p (fst (xs ! j))"

definition survives :: "i64 \<Rightarrow> retention_policy \<Rightarrow> (i64 \<times> 'a) list \<Rightarrow> nat \<Rightarrow> bool" where
  "survives now_ms p xs i \<longleftrightarrow>
     i < length xs \<and> (\<forall>j < length xs. same_cell now_ms p xs i j \<longrightarrow> \<not> beats xs j i)"

lemmas retention_eval = plan_def plan_step_def snapshot_cell_def tier_for_def default_grid_def tier_new_def
  cell_ms_def THREE_HOURS_def ONE_DAY_def FOUR_DAYS_def SIXTEEN_DAYS_def DURATION_MAX_def
  from_secs_def from_millis_def as_millis_def i64_max_def i64_saturating_sub_def i64_sat_def
  i64_try_from_or_max_def i64_div_euclid_def Let_def enumerate_eq_zip

section \<open>The pass computes the reference definition\<close>

lemma tier_for_Some: "tiers p \<noteq> [] \<Longrightarrow> \<exists>r. tier_for p age = Some r"
  by (auto simp: tier_for_def split: option.splits)

lemma snapshot_cell_Some: "tiers p \<noteq> [] \<Longrightarrow> \<exists>k. snapshot_cell now p t = Some k"
  using tier_for_Some [of p] by (auto simp: snapshot_cell_def Let_def split: option.splits)

lemma plan_best_snoc:
  "plan_best now p idx (xs @ [x]) b =
     plan_step now p (plan_best now p idx xs b) (idx + length xs) (fst x)"
  by (induction now p idx xs b rule: plan_best.induct) (cases x, auto)

text \<open>What the hash map holds for an occupied cell: its unbeaten entry.\<close>

definition best_entry ::
  "i64 \<Rightarrow> retention_policy \<Rightarrow> (i64 \<times> 'a) list \<Rightarrow> nat \<times> i64 \<Rightarrow> nat \<Rightarrow> bool" where
  "best_entry now p xs k i \<longleftrightarrow>
     survives now p xs i \<and> snapshot_cell now p (fst (xs ! i)) = Some k"

lemma beats_linear: "i \<noteq> j \<Longrightarrow> beats xs i j \<or> beats xs j i"
  by (auto simp: beats_def not_less order.order_iff_strict sint_inject_i64)

lemma best_entry_unique: "best_entry now p xs k i \<Longrightarrow> best_entry now p xs k j \<Longrightarrow> i = j"
  using beats_linear [of i j xs] by (auto simp: best_entry_def survives_def same_cell_def)

lemma best_entry_snoc_other:
  assumes "snapshot_cell now p (fst x) \<noteq> Some k"
  shows "best_entry now p (xs @ [x]) k i \<longleftrightarrow> best_entry now p xs k i"
  using assms
  by (auto simp: best_entry_def survives_def same_cell_def beats_def nth_append less_Suc_eq)

lemma best_entry_snoc_new:
  assumes "snapshot_cell now p (fst x) = Some k"
    and "\<And>j. j < length xs \<Longrightarrow> snapshot_cell now p (fst (xs ! j)) = Some k \<Longrightarrow>
               \<not> sint (fst x) < sint (fst (xs ! j))"
  shows "best_entry now p (xs @ [x]) k (length xs)"
  using assms
  by (auto simp: best_entry_def survives_def same_cell_def beats_def nth_append less_Suc_eq
      simp del: not_less)

lemma best_entry_snoc_old:
  assumes "best_entry now p xs k i" and "sint (fst x) < sint (fst (xs ! i))"
  shows "best_entry now p (xs @ [x]) k i"
  using assms
  by (auto simp: best_entry_def survives_def same_cell_def beats_def nth_append less_Suc_eq)

lemma best_entry_max:
  assumes "best_entry now p xs k i" "j < length xs" "snapshot_cell now p (fst (xs ! j)) = Some k"
  shows "sint (fst (xs ! j)) \<le> sint (fst (xs ! i))"
  using assms by (auto simp: best_entry_def survives_def same_cell_def beats_def not_less)

text \<open>The loop invariant of the pass, slot by slot of the hash map.\<close>

definition slot_ok ::
  "i64 \<Rightarrow> retention_policy \<Rightarrow> (i64 \<times> 'a) list \<Rightarrow> nat \<times> i64 \<Rightarrow> (i64 \<times> nat) option \<Rightarrow> bool" where
  "slot_ok now p xs k slot \<longleftrightarrow>
     (case slot of
        Some (t, i) \<Rightarrow> best_entry now p xs k i \<and> t = fst (xs ! i)
      | None \<Rightarrow> \<forall>j < length xs. snapshot_cell now p (fst (xs ! j)) \<noteq> Some k)"

definition best_inv :: "i64 \<Rightarrow> retention_policy \<Rightarrow> (i64 \<times> 'a) list \<Rightarrow> best_map \<Rightarrow> bool" where
  "best_inv now p xs best \<longleftrightarrow>
     distinct (map fst best) \<and> (\<forall>k. slot_ok now p xs k (map_of best k))"

lemma best_entry_bound: "best_entry now p xs k i \<Longrightarrow> i < length xs"
  by (simp add: best_entry_def survives_def)

lemma slot_ok_snoc_other:
  "snapshot_cell now p (fst x) \<noteq> Some k \<Longrightarrow> slot_ok now p xs k slot \<Longrightarrow>
     slot_ok now p (xs @ [x]) k slot"
  by (auto simp: slot_ok_def best_entry_snoc_other nth_append less_Suc_eq
      split: option.splits dest: best_entry_bound)

lemma best_inv_slot: "best_inv now p xs best \<Longrightarrow> slot_ok now p xs k (map_of best k)"
  unfolding best_inv_def by (erule conjE) (erule spec)

lemma best_inv_snoc:
  assumes "best_inv now p xs best" "snapshot_cell now p (fst x) = Some k"
    and "distinct (map fst best')" "\<And>k'. k' \<noteq> k \<Longrightarrow> map_of best' k' = map_of best k'"
    and "slot_ok now p (xs @ [x]) k (map_of best' k)"
  shows "best_inv now p (xs @ [x]) best'"
  unfolding best_inv_def
proof (intro conjI allI)
  fix k'
  show "slot_ok now p (xs @ [x]) k' (map_of best' k')"
  proof (cases "k' = k")
    case False
    then have "slot_ok now p (xs @ [x]) k' (map_of best k')"
      using assms(2) by (intro slot_ok_snoc_other best_inv_slot [OF assms(1)]) simp
    then show ?thesis using assms(4) [OF False] by simp
  qed (use assms(5) in simp)
qed (rule assms)

lemma best_inv_update:
  assumes "best_inv now p xs best" "snapshot_cell now p (fst x) = Some k"
    and "best_entry now p (xs @ [x]) k (length xs)"
  shows "best_inv now p (xs @ [x]) (AList.update k (fst x, length xs) best)"
  using assms
  by (intro best_inv_snoc [OF assms(1,2)]) (auto simp: best_inv_def distinct_update slot_ok_def)

lemma best_inv_keep:
  assumes "best_inv now p xs best" "snapshot_cell now p (fst x) = Some k"
    and "map_of best k = Some (t, i)" "sint (fst x) < sint t"
    and "best_entry now p xs k i" "t = fst (xs ! i)"
  shows "best_inv now p (xs @ [x]) best"
  using assms best_entry_bound [OF assms(5)]
  by (intro best_inv_snoc [OF assms(1,2)])
    (auto simp: best_inv_def slot_ok_def nth_append intro: best_entry_snoc_old)

lemma best_inv_Some:
  "best_inv now p xs best \<Longrightarrow> map_of best k = Some (t, i) \<Longrightarrow>
     best_entry now p xs k i \<and> t = fst (xs ! i)"
  by (drule best_inv_slot [where k = k]) (simp add: slot_ok_def)

lemma best_inv_None:
  "best_inv now p xs best \<Longrightarrow> map_of best k = None \<Longrightarrow> j < length xs \<Longrightarrow>
     snapshot_cell now p (fst (xs ! j)) \<noteq> Some k"
  by (drule best_inv_slot [where k = k]) (simp add: slot_ok_def)

lemma best_inv_plan_step:
  assumes inv: "best_inv now p xs best" and ne: "tiers p \<noteq> []"
  shows "best_inv now p (xs @ [x]) (plan_step now p best (length xs) (fst x))"
proof -
  obtain k where k: "snapshot_cell now p (fst x) = Some k"
    using snapshot_cell_Some [OF ne] by blast
  show ?thesis
  proof (cases "map_of best k")
    case None
    then have "best_entry now p (xs @ [x]) k (length xs)"
      using best_inv_None [OF inv None] by (auto intro: best_entry_snoc_new [OF k])
    then show ?thesis using k None best_inv_update [OF inv k] by (simp add: plan_step_def)
  next
    case (Some v)
    obtain t i where v: "v = (t, i)" by (cases v)
    have e: "best_entry now p xs k i" "t = fst (xs ! i)"
      using best_inv_Some [OF inv Some [unfolded v]] by auto
    show ?thesis
    proof (cases "sint (fst x) < sint t")
      case True
      then show ?thesis
        using k Some v best_inv_keep [OF inv k Some [unfolded v] True e] by (simp add: plan_step_def)
    next
      case False
      then have "best_entry now p (xs @ [x]) k (length xs)"
        using best_entry_max [OF e(1)] e(2) by (fastforce intro: best_entry_snoc_new [OF k])
      then show ?thesis
        using k Some v False best_inv_update [OF inv k] by (simp add: plan_step_def)
    qed
  qed
qed

lemma best_inv_plan_best: "tiers p \<noteq> [] \<Longrightarrow> best_inv now p xs (plan_best now p 0 xs [])"
proof (induction xs rule: rev_induct)
  case Nil
  then show ?case by (simp add: best_inv_def slot_ok_def)
next
  case (snoc x xs)
  then show ?case using best_inv_plan_step [of now p xs] by (simp add: plan_best_snoc)
qed

lemma survivors_iff:
  assumes "tiers p \<noteq> []"
  shows "i \<in> (\<lambda>(_, (_, idx)). idx) ` set (plan_best now p 0 xs []) \<longleftrightarrow> survives now p xs i"
proof -
  let ?b = "plan_best now p 0 xs []"
  have inv: "best_inv now p xs ?b" using assms by (rule best_inv_plan_best)
  then have d: "distinct (map fst ?b)" by (simp add: best_inv_def)
  show ?thesis
  proof
    assume "i \<in> (\<lambda>(_, (_, idx)). idx) ` set ?b"
    then obtain k t where "(k, (t, i)) \<in> set ?b" by auto
    then have "map_of ?b k = Some (t, i)" using d by simp
    then show "survives now p xs i" using best_inv_Some [OF inv] by (simp add: best_entry_def)
  next
    assume s: "survives now p xs i"
    obtain k where k: "snapshot_cell now p (fst (xs ! i)) = Some k"
      using snapshot_cell_Some [OF assms] by blast
    have "i < length xs" using s by (simp add: survives_def)
    then obtain t j where tj: "map_of ?b k = Some (t, j)"
      using best_inv_None [OF inv] k by (cases "map_of ?b k") auto
    then have "best_entry now p xs k j" using best_inv_Some [OF inv] by blast
    moreover have "best_entry now p xs k i" using s k by (simp add: best_entry_def)
    ultimately have "i = j" by (rule best_entry_unique [rotated])
    then show "i \<in> (\<lambda>(_, (_, idx)). idx) ` set ?b" using map_of_SomeD [OF tj] by force
  qed
qed

text \<open>The indexed input, split by the reference definition.\<close>

lemma plan_eq:
  "plan now xs p =
     (if tiers p = [] then \<lparr>plan_keep = map snd xs, plan_drop = []\<rparr>
      else \<lparr>plan_keep = map (snd \<circ> (!) xs) (filter (survives now p xs) [0..<length xs]),
            plan_drop = map (snd \<circ> (!) xs) (filter (Not \<circ> survives now p xs) [0..<length xs])\<rparr>)"
proof (cases "tiers p = []")
  case False
  have e: "map (\<lambda>(_, (_, id)). id) (filter (\<lambda>(idx, _). P idx) (enumerate 0 xs)) =
      map (snd \<circ> (!) xs) (filter P [0..<length xs])" for P
    by (induction xs rule: rev_induct)
      (auto simp: enumerate_append_eq nth_append intro!: map_cong split: prod.splits)
  show ?thesis
    using False survivors_iff [OF False, where now = now and xs = xs]
    by (simp add: plan_def Let_def e comp_def)
qed (simp add: plan_def)


section \<open>Properties of the plan\<close>

lemma mset_map_filter_split:
  "mset (map f (filter P xs)) + mset (map f (filter (Not \<circ> P) xs)) = mset (map f xs)"
  by (induction xs) auto

lemma map_snd_nth: "map (snd \<circ> (!) xs) [0..<length xs] = map snd xs"
  by (metis map_map map_nth)

lemma filter_nth_conv:
  assumes "\<And>i. i < length xs \<Longrightarrow> P (xs ! i) = Q i"
  shows "filter P xs = map ((!) xs) (filter Q [0..<length xs])"
proof -
  have "filter P xs = filter P (map ((!) xs) [0..<length xs])" by (simp add: map_nth)
  also have "\<dots> = map ((!) xs) (filter (P \<circ> (!) xs) [0..<length xs])" by (simp add: filter_map)
  also have "filter (P \<circ> (!) xs) [0..<length xs] = filter Q [0..<length xs]"
    using assms by (intro filter_cong) auto
  finally show ?thesis .
qed

lemma survives_mem_keep:
  "tiers p \<noteq> [] \<Longrightarrow> survives now p xs i \<Longrightarrow> snd (xs ! i) \<in> set (plan_keep (plan now xs p))"
  by (auto simp: plan_eq survives_def)

lemma distinct_ids_inj:
  "distinct (map snd xs) \<Longrightarrow> i < length xs \<Longrightarrow> j < length xs \<Longrightarrow> snd (xs ! i) = snd (xs ! j) \<Longrightarrow> i = j"
  by (metis length_map nth_eq_iff_index_eq nth_map)

lemma mem_keep_iff:
  assumes "tiers p \<noteq> []" "distinct (map snd xs)" "i < length xs"
  shows "snd (xs ! i) \<in> set (plan_keep (plan now xs p)) \<longleftrightarrow> survives now p xs i"
  using assms distinct_ids_inj [OF assms(2,3)] by (auto simp: plan_eq)

lemma mem_drop_iff:
  assumes "tiers p \<noteq> []" "distinct (map snd xs)" "i < length xs"
  shows "snd (xs ! i) \<in> set (plan_drop (plan now xs p)) \<longleftrightarrow> \<not> survives now p xs i"
  using assms distinct_ids_inj [OF assms(2,3)] by (auto simp: plan_eq)

lemma cell_has_survivor:
  assumes "tiers p \<noteq> []" "i < length xs"
  shows "\<exists>j. survives now p xs j \<and> same_cell now p xs i j"
proof -
  obtain k where k: "snapshot_cell now p (fst (xs ! i)) = Some k"
    using snapshot_cell_Some [OF assms(1)] by blast
  note inv = best_inv_plan_best [OF assms(1), of now xs]
  obtain t j where "map_of (plan_best now p 0 xs []) k = Some (t, j)"
    using best_inv_None [OF inv _ assms(2), where k = k] k by (cases "map_of (plan_best now p 0 xs []) k") auto
  then have "best_entry now p xs k j" using best_inv_Some [OF inv] by blast
  then show ?thesis using k by (auto simp: best_entry_def same_cell_def)
qed

lemma survivor_beats:
  assumes "survives now p xs j" "same_cell now p xs i j" "i < length xs" "i \<noteq> j"
  shows "beats xs j i"
  using assms beats_linear [of i j xs] by (auto simp: survives_def same_cell_def)

lemma survivors_distinct_cells:
  "survives now p xs i \<Longrightarrow> survives now p xs j \<Longrightarrow> same_cell now p xs i j \<Longrightarrow> i = j"
  using beats_linear [of i j xs] by (auto simp: survives_def same_cell_def)

lemma survivors_all_survive:
  assumes "a < length (filter (survives now p xs) [0..<length xs])"
  shows "survives now p (map ((!) xs) (filter (survives now p xs) [0..<length xs])) a"
proof -
  let ?is = "filter (survives now p xs) [0..<length xs]"
  have "\<not> beats (map ((!) xs) ?is) b a"
    if b: "b < length ?is" and c: "same_cell now p (map ((!) xs) ?is) a b" for b
  proof -
    have "?is ! a \<in> set ?is" "?is ! b \<in> set ?is" using assms b nth_mem by blast+
    then have "survives now p xs (?is ! a)" "survives now p xs (?is ! b)" by auto
    moreover have "same_cell now p xs (?is ! a) (?is ! b)" using assms b c by (simp add: same_cell_def)
    ultimately have "?is ! a = ?is ! b" by (rule survivors_distinct_cells)
    then have "a = b" using assms b by (simp add: nth_eq_iff_index_eq)
    then show ?thesis by (simp add: beats_def)
  qed
  then show ?thesis using assms by (simp add: survives_def)
qed

lemma plan_all_survive:
  assumes "tiers p \<noteq> []" "\<And>a. a < length ys \<Longrightarrow> survives now p ys a"
  shows "plan now ys p = \<lparr>plan_keep = map snd ys, plan_drop = []\<rparr>"
proof -
  have "filter (survives now p ys) [0..<length ys] = [0..<length ys]"
    "filter (Not \<circ> survives now p ys) [0..<length ys] = []"
    using assms(2) by (auto simp: filter_id_conv filter_empty_conv)
  then show ?thesis using assms(1) by (simp add: plan_eq map_snd_nth)
qed

lemma plan_mset:
  "mset (plan_keep (plan now xs p)) + mset (plan_drop (plan now xs p)) = mset (map snd xs)"
proof (cases "tiers p = []")
  case False
  then have "mset (plan_keep (plan now xs p)) + mset (plan_drop (plan now xs p)) =
      mset (map (snd \<circ> (!) xs) [0..<length xs])"
    by (simp only: plan_eq if_False retention_plan.simps mset_map_filter_split)
  then show ?thesis by (simp add: map_snd_nth)
qed (simp add: plan_eq)

text \<open>C9: \<open>plan\<close> keeps, in input order, exactly the snapshots that survive the grid (no snapshot of
  the same tier and cell is newer, or equally new and later in the input), and drops the rest.\<close>

theorem plan_implements_grid:
  assumes "tiers p \<noteq> []"
  shows "plan now xs p =
    \<lparr>plan_keep = map (\<lambda>i. snd (xs ! i)) (filter (survives now p xs) [0..<length xs]),
     plan_drop = map (\<lambda>i. snd (xs ! i)) (filter (\<lambda>i. \<not> survives now p xs i) [0..<length xs])\<rparr>"
  using assms by (simp add: plan_eq comp_def)

text \<open>The grid invariant. With distinct identities, every dropped snapshot shares its tier
  and cell with a kept snapshot that beats it, and no two kept snapshots share a cell.\<close>

theorem plan_one_survivor_per_cell:
  assumes "tiers p \<noteq> []" "distinct (map snd xs)" "i < length xs"
  shows "(snd (xs ! i) \<in> set (plan_drop (plan now xs p)) \<longrightarrow>
           (\<exists>j < length xs. snd (xs ! j) \<in> set (plan_keep (plan now xs p)) \<and>
              same_cell now p xs i j \<and> beats xs j i)) \<and>
         (snd (xs ! i) \<in> set (plan_keep (plan now xs p)) \<longrightarrow>
           (\<forall>j < length xs. snd (xs ! j) \<in> set (plan_keep (plan now xs p)) \<and>
              same_cell now p xs i j \<longrightarrow> j = i))"
proof (intro conjI impI allI)
  assume "snd (xs ! i) \<in> set (plan_drop (plan now xs p))"
  then have d: "\<not> survives now p xs i" using assms by (simp add: mem_drop_iff)
  obtain j where j: "survives now p xs j" "same_cell now p xs i j"
    using cell_has_survivor [OF assms(1,3)] by blast
  then have "j < length xs" "i \<noteq> j" using d by (auto simp: survives_def)
  then show "\<exists>j < length xs. snd (xs ! j) \<in> set (plan_keep (plan now xs p)) \<and>
      same_cell now p xs i j \<and> beats xs j i"
    using j assms survives_mem_keep [OF assms(1) j(1)] survivor_beats [OF j assms(3)] by blast
next
  fix j
  assume "snd (xs ! i) \<in> set (plan_keep (plan now xs p))" "j < length xs"
    "snd (xs ! j) \<in> set (plan_keep (plan now xs p)) \<and> same_cell now p xs i j"
  then show "j = i" using assms survivors_distinct_cells [of now p xs i j] by (simp add: mem_keep_iff)
qed

text \<open>Every snapshot is either kept or dropped, exactly once.\<close>

theorem plan_partitions:
  "mset (plan_keep (plan now xs p)) + mset (plan_drop (plan now xs p)) = mset (map snd xs)"
  by (rule plan_mset)

text \<open>Planning the survivors again, at the same instant, keeps all of them.\<close>

theorem plan_idempotent:
  assumes "distinct (map snd xs)"
  shows "plan now (filter (\<lambda>(_, id). id \<in> set (plan_keep (plan now xs p))) xs) p =
           \<lparr>plan_keep = plan_keep (plan now xs p), plan_drop = []\<rparr>"
proof (cases "tiers p = []")
  case True
  then show ?thesis by (simp add: plan_eq case_prod_beta filter_True)
next
  case False
  let ?is = "filter (survives now p xs) [0..<length xs]"
  have ys: "filter (\<lambda>(_, id). id \<in> set (plan_keep (plan now xs p))) xs = map ((!) xs) ?is"
    using mem_keep_iff [OF False assms] by (intro filter_nth_conv) (simp add: case_prod_beta)
  have all: "plan now (map ((!) xs) ?is) p =
      \<lparr>plan_keep = map snd (map ((!) xs) ?is), plan_drop = []\<rparr>"
    by (rule plan_all_survive [OF False]) (simp add: survivors_all_survive)
  have "plan_keep (plan now xs p) = map snd (map ((!) xs) ?is)"
    using False by (simp add: plan_eq)
  then show ?thesis unfolding ys all by simp
qed

text \<open>The newest snapshot is always kept.\<close>

theorem plan_keeps_newest:
  assumes "i < length xs" "\<forall>j < length xs. j \<noteq> i \<longrightarrow> beats xs i j"
  shows "snd (xs ! i) \<in> set (plan_keep (plan now xs p))"
proof (cases "tiers p = []")
  case True
  then show ?thesis using assms(1) by (simp add: plan_eq)
next
  case False
  have "\<not> beats xs j i" if "j < length xs" for j
    using assms(2) that by (cases "j = i") (auto simp: beats_def)
  then have "survives now p xs i" using assms(1) by (simp add: survives_def)
  then show ?thesis using survives_mem_keep [OF False] by blast
qed

lemma from_tiers_loop_Ok:
  "rest = drop n ts \<Longrightarrow> from_tiers_loop ts n rest = Ok () \<longleftrightarrow>
     (\<forall>i. n \<le> i \<and> i < length ts \<longrightarrow>
        tier_cell (ts ! i) \<noteq> 0 \<and> (0 < i \<longrightarrow> max_age (ts ! (i - 1)) \<le> max_age (ts ! i)))"
proof (induction ts n rest rule: from_tiers_loop.induct)
  case (1 ts n)
  then show ?case by auto
next
  case (2 ts n t rest)
  then have n: "n < length ts" "ts ! n = t" "rest = drop (Suc n) ts"
    by (metis drop_eq_Nil list.distinct(1) not_le_imp_less)
      (metis 2(2) hd_drop_conv_nth list.sel(1) drop_eq_Nil list.distinct(1) not_le_imp_less,
       metis 2(2) drop_Suc list.sel(3) tl_drop)
  have split: "(\<forall>i. n \<le> i \<and> i < length ts \<longrightarrow> P i) \<longleftrightarrow> P n \<and> (\<forall>i. Suc n \<le> i \<and> i < length ts \<longrightarrow> P i)" for P
    using n(1) by (metis Suc_leD le_antisym not_less_eq_eq order_refl)
  show ?case
    using 2(1) n by (subst split) (auto simp: not_less)
qed

lemma sorted_max_age_iff:
  "sorted (map max_age ts) \<longleftrightarrow>
     (\<forall>i < length ts. 0 < i \<longrightarrow> max_age (ts ! (i - 1)) \<le> max_age (ts ! i))"
  by (auto simp: sorted_iff_nth_Suc) (metis Suc_pred diff_Suc_1 zero_less_Suc)+

text \<open>A policy is built exactly from the non-empty tier lists with no zero cell and with
  non-decreasing \<open>max_age\<close>, and then holds those tiers.\<close>

theorem from_tiers_Ok_iff:
  "from_tiers ts = Ok p \<longleftrightarrow>
     ts \<noteq> [] \<and> list_all (\<lambda>t. tier_cell t \<noteq> 0) ts \<and> sorted (map max_age ts) \<and>
     p = \<lparr>tiers = ts\<rparr>"
proof -
  have "from_tiers ts = Ok p \<longleftrightarrow> ts \<noteq> [] \<and> from_tiers_loop ts 0 ts = Ok () \<and> p = \<lparr>tiers = ts\<rparr>"
    by (auto simp: from_tiers_def and_then_Ok_iff)
  then show ?thesis
    by (auto simp: from_tiers_loop_Ok [where n = 0] sorted_max_age_iff list_all_length)
qed

lemma cell_ms_pos: "1 \<le> sint (cell_ms t)"
  by (simp add: cell_ms_def)

lemma tier_for_loop_Some:
  "tier_for_loop n ts age = Some (i, t) \<Longrightarrow>
     n \<le> i \<and> i < n + length ts \<and> t = ts ! (i - n) \<and> age < max_age t \<and>
     (\<forall>j < i - n. max_age (ts ! j) \<le> age)"
proof (induction n ts age rule: tier_for_loop.induct)
  case (2 n u rest age)
  then show ?case by (auto simp: nth_Cons' split: if_splits)
qed simp

lemma tier_for_loop_None: "tier_for_loop n ts age = None \<Longrightarrow> t \<in> set ts \<Longrightarrow> max_age t \<le> age"
  by (induction n ts age rule: tier_for_loop.induct) (auto split: if_splits)

lemma tier_for_correct:
  "tier_for p age = Some (i, t) \<Longrightarrow>
     i < length (tiers p) \<and> t = tiers p ! i \<and> (\<forall>j < i. max_age (tiers p ! j) \<le> age) \<and>
     (age < max_age t \<or> i = length (tiers p) - 1)"
proof (cases "tier_for_loop 0 (tiers p) age")
  case None
  then have "max_age (tiers p ! j) \<le> age" if "j < length (tiers p)" for j
    using that by (auto intro: tier_for_loop_None nth_mem)
  moreover assume "tier_for p age = Some (i, t)"
  ultimately show ?thesis using None by (auto simp: tier_for_def last_conv_nth split: if_splits)
next
  case (Some r)
  moreover assume "tier_for p age = Some (i, t)"
  ultimately show ?thesis using tier_for_loop_Some [of 0 "tiers p" age i t] by (auto simp: tier_for_def)
qed

lemma sint_i64_div_euclid:
  assumes "1 \<le> sint b"
  shows "sint (i64_div_euclid a b) = sint a div sint b"
proof -
  have "min 0 (sint a) \<le> sint a div sint b" "sint a div sint b \<le> max 0 (sint a)"
    using assms zdiv_mono2_neg [of "sint a" 1 "sint b"] zdiv_mono2 [of "sint a" 1 "sint b"]
      pos_imp_zdiv_nonneg_iff [of "sint b" "sint a"] pos_imp_zdiv_neg_iff [of "sint b" "sint a"]
    by (cases "sint a < 0"; simp)+
  then have "- (2 ^ 63) \<le> sint a div sint b" "sint a div sint b < 2 ^ 63"
    using sint_range_i64 [of a] by linarith+
  then show ?thesis
    using assms by (simp add: i64_div_euclid_def sint_sbintrunc' signed_take_bit_int_eq_self)
qed

lemma uint_eq_sint: "0 \<le> sint (w :: i64) \<Longrightarrow> uint w = sint w"
  using uint_word_of_int [of "sint w", where 'a = 64] sint_range_i64(2) [of w] by simp

lemma unat_age:
  "unat (i64_max (i64_saturating_sub now t) 0) = nat (max 0 (min (2 ^ 63 - 1) (sint now - sint t)))"
proof -
  let ?w = "i64_max (i64_saturating_sub now t) 0"
  have s: "sint ?w = max 0 (min (2 ^ 63 - 1) (sint now - sint t))"
    by (simp add: sint_i64_saturating_sub)
  then have "uint ?w = max 0 (min (2 ^ 63 - 1) (sint now - sint t))"
    using uint_eq_sint [of ?w] by simp
  then show ?thesis by (metis nat_uint_eq)
qed

text \<open>The cell of a snapshot. The tier is the first whose \<open>max_age\<close> exceeds the snapshot's age
  (zero for a snapshot from the future, saturated at the \<open>i64\<close> range), or the last one; the cell
  index is the exact floor of the time by the cell width, which is never zero, so the arithmetic
  neither divides by zero nor overflows.\<close>

theorem snapshot_cell_correct:
  assumes "snapshot_cell now p t = Some (i, c)"
  defines "age \<equiv> from_millis (nat (max 0 (min (2 ^ 63 - 1) (sint now - sint t))))"
  shows "i < length (tiers p) \<and> (\<forall>j < i. max_age (tiers p ! j) \<le> age) \<and>
    (age < max_age (tiers p ! i) \<or> i = length (tiers p) - 1) \<and>
    1 \<le> sint (cell_ms (tiers p ! i)) \<and> sint c = sint t div sint (cell_ms (tiers p ! i))"
  using assms tier_for_correct [of p age]
  by (auto simp: snapshot_cell_def Let_def unat_age cell_ms_pos sint_i64_div_euclid
      split: option.splits)

section \<open>Witnesses\<close>

text \<open>Two snapshots an hour apart in one three-hour cell of the default grid.\<close>

definition two_snaps :: "(i64 \<times> nat) list" where
  "two_snaps = [(3600000, 1), (7200000, 2)]"

lemma default_grid_ne: "tiers default_grid \<noteq> []"
  by (simp add: default_grid_def)

lemma two_snaps_plan:
  "plan 7200000 two_snaps default_grid = \<lparr>plan_keep = [2], plan_drop = [1]\<rparr>"
  by (simp add: two_snaps_def retention_eval)

lemma two_snaps_facts:
  "distinct (map snd two_snaps)" "length two_snaps = 2" "snd (two_snaps ! 0) = 1"
  "snd (two_snaps ! 1) = 2" "beats two_snaps 1 0"
  by (simp_all add: two_snaps_def beats_def)

theorem plan_implements_grid_witness:
  "tiers default_grid \<noteq> [] \<and>
   \<lparr>plan_keep = [2], plan_drop = [1]\<rparr> =
     \<lparr>plan_keep = map (\<lambda>i. snd (two_snaps ! i))
        (filter (survives 7200000 default_grid two_snaps) [0..<length two_snaps]),
      plan_drop = map (\<lambda>i. snd (two_snaps ! i))
        (filter (\<lambda>i. \<not> survives 7200000 default_grid two_snaps i) [0..<length two_snaps])\<rparr>"
  using plan_implements_grid [OF default_grid_ne, of 7200000 two_snaps] default_grid_ne two_snaps_plan
  by simp

theorem plan_one_survivor_per_cell_witness:
  "snd (two_snaps ! 0) \<in> set (plan_drop (plan 7200000 two_snaps default_grid)) \<and>
   (\<exists>j < length two_snaps. snd (two_snaps ! j) \<in> set (plan_keep (plan 7200000 two_snaps default_grid)) \<and>
      same_cell 7200000 default_grid two_snaps 0 j \<and> beats two_snaps j 0)"
  using plan_one_survivor_per_cell [OF default_grid_ne two_snaps_facts(1), of 0 7200000]
  by (simp add: two_snaps_facts two_snaps_plan)

theorem plan_idempotent_witness:
  "distinct (map snd two_snaps) \<and>
   plan 7200000 (filter (\<lambda>(_, id). id \<in> set (plan_keep (plan 7200000 two_snaps default_grid))) two_snaps)
     default_grid = \<lparr>plan_keep = [2], plan_drop = []\<rparr>"
  using plan_idempotent [OF two_snaps_facts(1), of 7200000 default_grid]
  by (simp add: two_snaps_facts two_snaps_plan)

theorem plan_keeps_newest_witness:
  "length two_snaps = 2 \<and> beats two_snaps 1 0 \<and>
   snd (two_snaps ! 1) \<in> set (plan_keep (plan 7200000 two_snaps default_grid))"
proof -
  have h: "\<forall>j < length two_snaps. j \<noteq> 1 \<longrightarrow> beats two_snaps 1 j"
    using two_snaps_facts by (auto simp: less_2_cases_iff)
  show ?thesis using h plan_keeps_newest [OF _ h, of 7200000 default_grid] two_snaps_facts by simp
qed

theorem snapshot_cell_correct_witness:
  "snapshot_cell 7200000 default_grid 3600000 = Some (0, 0) \<and>
   sint (0 :: i64) = sint (3600000 :: i64) div sint (cell_ms (tiers default_grid ! 0))"
proof -
  have h: "snapshot_cell 7200000 default_grid 3600000 = Some (0, 0)" by (simp add: retention_eval)
  show ?thesis using h snapshot_cell_correct [OF h] by simp
qed

end
