(* ===== verification/Store.thy ===== *)
theory Store
  imports Manifest Retention "HOL-Library.RBT"
begin

text \<open>
  The daemon's content-addressed chunk store, \<open>crates/busyncr-daemon/src/store.rs\<close>: the redb index
  (six tables), the object files, and every operation of \<open>ChunkStore\<close>.

  \<^item> redb is third-party code: its tables are a type \<open>'t\<close> with the operations of the record
    \<open>redb\<close>, an argument of every definition. What the code relies on is \<open>redb_laws\<close>: a table is a
    finite map from byte keys to byte values that iterates in ascending key order. String keys
    and values are their UTF-8 bytes.
  \<^item> A write transaction works on a copy of the \<open>db\<close> record; commit installs the copy, and an early
    return drops it.
  \<^item> The directory \<open>objects/\<close> is the listing of its files, each named by shard and file name.
    Plain files directly under \<open>objects/\<close>, which no operation touches, are not represented.
  \<^item> Every place where redb or the file system can fail is an \<open>io_site\<close>; the argument \<open>F\<close> says
    which of them fail in this call, so each \<open>?\<close> of the source is a branch here. A failed write
    leaves \<open>partial_write\<close> bytes in the temporary file.
  \<^item> BLAKE3 is the argument \<open>H\<close>; a ULID's timestamp is the argument \<open>ts\<close>; the iteration order of a
    \<open>HashMap\<close> is the argument \<open>ho\<close>; the random part of a temporary file name is \<open>tmp\<close>.
\<close>

section \<open>redb\<close>

record 't redb =
  kv_empty :: 't
  kv_get :: "'t \<Rightarrow> bytes \<Rightarrow> bytes option"
  kv_insert :: "'t \<Rightarrow> bytes \<Rightarrow> bytes \<Rightarrow> 't"
  kv_remove :: "'t \<Rightarrow> bytes \<Rightarrow> 't"
  kv_iter :: "'t \<Rightarrow> (bytes \<times> bytes) list"

definition redb_laws :: "'t redb \<Rightarrow> bool" where
  "redb_laws K \<longleftrightarrow>
     kv_get K (kv_empty K) = Map.empty \<and>
     (\<forall>t k v. kv_get K (kv_insert K t k v) = (kv_get K t)(k \<mapsto> v)) \<and>
     (\<forall>t k. kv_get K (kv_remove K t k) = (kv_get K t)(k := None)) \<and>
     (\<forall>t. map_of (kv_iter K t) = kv_get K t) \<and>
     (\<forall>t. sorted_wrt (<) (map fst (kv_iter K t)))"

section \<open>State\<close>

datatype store_table = CHUNKS | SNAPSHOTS | SNAPSHOT_REFS | GC_MARKS | SNAPSHOT_OWNER | STATUS_META

record 't db =
  chunks_t :: 't
  snapshots_t :: 't
  snapshot_refs_t :: 't
  gc_marks_t :: 't
  snapshot_owner_t :: 't
  status_meta_t :: 't

type_synonym obj_path = "bytes \<times> bytes"
type_synonym obj_dir = "(obj_path \<times> bytes) list"

record 't store =
  index_db :: "'t db"
  objects :: obj_dir

definition LAST_PRUNE_KEY :: bytes where \<comment> \<open>\<open>last_prune\<close>\<close>
  "LAST_PRUNE_KEY = [0x6C, 0x61, 0x73, 0x74, 0x5F, 0x70, 0x72, 0x75, 0x6E, 0x65]"
definition LAST_GC_KEY :: bytes where \<comment> \<open>\<open>last_gc\<close>\<close>
  "LAST_GC_KEY = [0x6C, 0x61, 0x73, 0x74, 0x5F, 0x67, 0x63]"
definition OBJECT_HEADER_LEN :: nat where "OBJECT_HEADER_LEN = 32"
definition TMP_PREFIX :: bytes where \<comment> \<open>\<open>.tmp-\<close>\<close>
  "TMP_PREFIX = [0x2E, 0x74, 0x6D, 0x70, 0x2D]"

datatype integrity_error =
    HashMismatch chunk_id chunk_id
  | LengthMismatch chunk_id u64 u64
  | MissingBlob chunk_id

text \<open>The I/O path of \<open>Io\<close> is relative to \<open>objects/\<close>: its components.\<close>

datatype store_error =
    Integrity integrity_error
  | ChunkNotFound chunk_id
  | SnapshotNotFound ulid
  | SnapshotExists ulid
  | UnknownChunkRef ulid chunk_id
  | StillReferenced chunk_id u64
  | ManifestErr manifest_error
  | Io "bytes list"
  | Index

datatype io_site =
    DbCreate | BeginWrite | BeginRead | Commit | OpenTable store_table
  | TableGet store_table bytes | TableInsert store_table bytes | TableRemove store_table bytes
  | TableIter store_table
  | CreateDir "bytes list" | CreateFile obj_path | WriteFile obj_path | RenameFile obj_path
  | RemoveFile obj_path | ReadFile obj_path | ReadDir "bytes list"

record faults =
  fails :: "io_site \<Rightarrow> bool"
  partial_write :: nat

definition no_faults :: faults where "no_faults = \<lparr>fails = (\<lambda>_. False), partial_write = 0\<rparr>"

text \<open>A run of redb calls, each followed by \<open>?\<close>: they all return \<open>StoreError::Index\<close>.\<close>

definition any_fails :: "faults \<Rightarrow> io_site list \<Rightarrow> bool" where
  "any_fails F sites = list_ex (fails F) sites"

section \<open>Record codecs\<close>

datatype prune_mode = Auto | Manual

definition prune_mode_to_byte :: "prune_mode \<Rightarrow> byte" where
  "prune_mode_to_byte m = (case m of Auto \<Rightarrow> 0 | Manual \<Rightarrow> 1)"

definition prune_mode_from_byte :: "byte \<Rightarrow> prune_mode" where
  "prune_mode_from_byte b = (if b = 0 then Auto else Manual)"

record prune_event =
  pe_at_ms :: i64
  pe_mode :: prune_mode

definition ulid_time_ms :: "(ulid \<Rightarrow> u64) \<Rightarrow> ulid \<Rightarrow> i64" where
  "ulid_time_ms ts u = i64_try_from_or_max (unat (ts u))"

definition chunk_id_from_key :: "bytes \<Rightarrow> chunk_id option" where
  "chunk_id_from_key raw = chunk_id_try_from raw"

definition decode_mark :: "bytes \<Rightarrow> i64" where
  "decode_mark raw = of_le_bytes (if length raw = 8 then raw else replicate 8 0)"

definition encode_prune_event :: "i64 \<Rightarrow> prune_mode \<Rightarrow> bytes" where
  "encode_prune_event now_ms mode = le_bytes 8 now_ms @ [prune_mode_to_byte mode]"

definition decode_prune_event :: "bytes \<Rightarrow> prune_event option" where
  "decode_prune_event raw =
     (if length raw = 9
      then Some \<lparr>pe_at_ms = of_le_bytes (take 8 raw), pe_mode = prune_mode_from_byte (raw ! 8)\<rparr>
      else None)"

definition decode_gc_event :: "bytes \<Rightarrow> i64 option" where
  "decode_gc_event raw = (if length raw = 8 then Some (of_le_bytes raw) else None)"

definition decode_entry :: "bytes \<Rightarrow> index_entry" where
  "decode_entry raw = from_wire_value (if length raw = 16 then raw else replicate 16 0)"

section \<open>Opening the store\<close>

definition object_path :: "chunk_id \<Rightarrow> obj_path" where
  "object_path cid = (take 2 (chunk_id_to_string cid), chunk_id_to_string cid)"

definition is_tmp_name :: "bytes \<Rightarrow> bool" where
  "is_tmp_name nm \<longleftrightarrow> utf8_valid nm \<and> take (length TMP_PREFIX) nm = TMP_PREFIX"

fun sweep_entries :: "faults \<Rightarrow> obj_dir \<Rightarrow> obj_dir \<Rightarrow> obj_dir \<times> (store_error + unit)" where
  "sweep_entries F [] objs = (objs, Ok ())"
| "sweep_entries F (((shard, nm), _) # rest) objs =
     (if fails F (ReadDir [shard]) then (objs, Err (Io [shard]))
      else if is_tmp_name nm then
        (if fails F (RemoveFile (shard, nm)) then (objs, Err (Io [shard, nm]))
         else sweep_entries F rest (AList.delete (shard, nm) objs))
      else sweep_entries F rest objs)"

definition sweep_tmp_files :: "faults \<Rightarrow> 't store \<Rightarrow> 't store \<times> (store_error + unit)" where
  "sweep_tmp_files F s =
     (if fails F (ReadDir []) then (s, Err (Io []))
      else case sweep_entries F (objects s) (objects s) of (objs, r) \<Rightarrow> (s\<lparr>objects := objs\<rparr>, r))"

definition empty_store :: "'t redb \<Rightarrow> 't store" where
  "empty_store K = \<lparr>index_db = \<lparr>chunks_t = kv_empty K, snapshots_t = kv_empty K,
     snapshot_refs_t = kv_empty K, gc_marks_t = kv_empty K, snapshot_owner_t = kv_empty K,
     status_meta_t = kv_empty K\<rparr>, objects = []\<rparr>"

text \<open>\<open>disk\<close> is what the root directory holds, \<open>None\<close> for a fresh one.\<close>

definition store_open :: "'t redb \<Rightarrow> faults \<Rightarrow> 't store option \<Rightarrow> 't store \<times> (store_error + unit)" where
  "store_open K F disk =
     (let s = (case disk of None \<Rightarrow> empty_store K | Some s \<Rightarrow> s)
      in if fails F (CreateDir []) then (s, Err (Io []))
         else if any_fails F [DbCreate, BeginWrite, OpenTable CHUNKS, OpenTable SNAPSHOTS,
             OpenTable SNAPSHOT_REFS, OpenTable GC_MARKS, OpenTable SNAPSHOT_OWNER,
             OpenTable STATUS_META, Commit]
         then (s, Err Index)
         else sweep_tmp_files F s)"

section \<open>Chunks\<close>

text \<open>\<open>let _ = fs::remove_file(&tmp)\<close>: the result is ignored.\<close>

definition remove_ignored :: "faults \<Rightarrow> obj_path \<Rightarrow> obj_dir \<Rightarrow> obj_dir" where
  "remove_ignored F p objs = (if fails F (RemoveFile p) then objs else AList.delete p objs)"

definition write_object :: "(bytes \<Rightarrow> hash32) \<Rightarrow> faults \<Rightarrow> bytes \<Rightarrow> obj_dir \<Rightarrow> chunk_id \<Rightarrow> bytes
    \<Rightarrow> obj_dir \<times> (store_error + unit)" where
  "write_object H F tmp objs cid data =
     (let final_path = object_path cid;
          shard = fst final_path;
          tmp_path = (shard, TMP_PREFIX @ tmp);
          content = be_bytes 32 (H data) @ data
      in if fails F (CreateDir [shard]) then (objs, Err (Io [shard]))
         else if fails F (CreateFile tmp_path) then (objs, Err (Io [shard, snd tmp_path]))
         else if fails F (WriteFile tmp_path) then
           (remove_ignored F tmp_path
              (AList.update tmp_path (take (partial_write F) content) objs),
            Err (Io [shard, snd tmp_path]))
         else
           let objs1 = AList.update tmp_path content objs
           in if \<not> fails F (RenameFile tmp_path)
              then (AList.update final_path content (AList.delete tmp_path objs1), Ok ())
              else if map_of objs1 final_path \<noteq> None
              then (remove_ignored F tmp_path objs1, Ok ())
              else (remove_ignored F tmp_path objs1, Err (Io [shard, snd final_path])))"

definition put_chunk :: "'t redb \<Rightarrow> (bytes \<Rightarrow> hash32) \<Rightarrow> faults \<Rightarrow> bytes \<Rightarrow> 't store \<Rightarrow> chunk_id \<Rightarrow> bytes
    \<Rightarrow> 't store \<times> (store_error + bool)" where
  "put_chunk K H F tmp s cid data =
     (let key = chunk_id_as_bytes cid; d = index_db s
      in if any_fails F [BeginWrite, OpenTable CHUNKS, TableGet CHUNKS key] then (s, Err Index)
         else if kv_get K (chunks_t d) key \<noteq> None then
           (if fails F Commit then (s, Err Index) else (s, Ok False))
         else case write_object H F tmp (objects s) cid data of
             (objs, Err e) \<Rightarrow> (s\<lparr>objects := objs\<rparr>, Err e)
           | (objs, Ok _) \<Rightarrow>
              (let entry = \<lparr>chunk_len = word_of_nat (length data), refcount = 0\<rparr>
               in if any_fails F [TableInsert CHUNKS key, Commit]
                  then (s\<lparr>objects := objs\<rparr>, Err Index)
                  else (s\<lparr>objects := objs,
                          index_db := d\<lparr>chunks_t := kv_insert K (chunks_t d) key (to_wire_value entry)\<rparr>\<rparr>,
                        Ok True)))"

definition chunk_entry :: "'t redb \<Rightarrow> faults \<Rightarrow> 't store \<Rightarrow> chunk_id \<Rightarrow> store_error + index_entry option" where
  "chunk_entry K F s cid =
     (if any_fails F [BeginRead, OpenTable CHUNKS, TableGet CHUNKS (chunk_id_as_bytes cid)]
      then Err Index
      else Ok (map_option decode_entry (kv_get K (chunks_t (index_db s)) (chunk_id_as_bytes cid))))"

definition has_chunk :: "'t redb \<Rightarrow> faults \<Rightarrow> 't store \<Rightarrow> chunk_id \<Rightarrow> store_error + bool" where
  "has_chunk K F s cid = and_then (chunk_entry K F s cid) (\<lambda>e. Ok (e \<noteq> None))"

definition get_chunk :: "'t redb \<Rightarrow> (bytes \<Rightarrow> hash32) \<Rightarrow> faults \<Rightarrow> 't store \<Rightarrow> chunk_id
    \<Rightarrow> store_error + bytes" where
  "get_chunk K H F s cid =
     and_then (chunk_entry K F s cid) (\<lambda>oe.
     case oe of None \<Rightarrow> Err (ChunkNotFound cid)
     | Some entry \<Rightarrow>
       if fails F (ReadFile (object_path cid))
       then Err (Io [fst (object_path cid), snd (object_path cid)])
       else case map_of (objects s) (object_path cid) of
         None \<Rightarrow> Err (Integrity (MissingBlob cid))
       | Some raw \<Rightarrow>
         if length raw < OBJECT_HEADER_LEN
         then Err (Integrity (LengthMismatch cid (chunk_len entry)
                (u64_saturating_sub (word_of_nat (length raw)) (word_of_nat OBJECT_HEADER_LEN))))
         else
           let header = take OBJECT_HEADER_LEN raw; data = drop OBJECT_HEADER_LEN raw
           in if word_of_nat (length data) \<noteq> chunk_len entry
              then Err (Integrity (LengthMismatch cid (chunk_len entry) (word_of_nat (length data))))
              else if be_bytes 32 (H data) \<noteq> header
              then Err (Integrity (HashMismatch cid (H data)))
              else Ok data)"

section \<open>Snapshots\<close>

fun bump_refs :: "'t redb \<Rightarrow> faults \<Rightarrow> ulid \<Rightarrow> 't \<Rightarrow> chunk_id list \<Rightarrow> store_error + 't" where
  "bump_refs K F snapshot t [] = Ok t"
| "bump_refs K F snapshot t (chunk # refs) =
     (let key = chunk_id_as_bytes chunk
      in if fails F (TableGet CHUNKS key) then Err Index
         else case kv_get K t key of
             None \<Rightarrow> Err (UnknownChunkRef snapshot chunk)
           | Some raw \<Rightarrow>
              (let entry = decode_entry raw;
                   bumped = \<lparr>chunk_len = chunk_len entry,
                             refcount = u64_saturating_add (refcount entry) 1\<rparr>
               in if fails F (TableInsert CHUNKS key) then Err Index
                  else bump_refs K F snapshot (kv_insert K t key (to_wire_value bumped)) refs))"

definition put_snapshot_as :: "'t redb \<Rightarrow> faults \<Rightarrow> 't store \<Rightarrow> ulid \<Rightarrow> bytes \<Rightarrow> chunk_id list
    \<Rightarrow> bytes option \<Rightarrow> 't store \<times> (store_error + unit)" where
  "put_snapshot_as K F s snapshot blob refs owner =
     (let key = ulid_to_bytes snapshot; d = index_db s
      in if any_fails F [BeginWrite, OpenTable SNAPSHOTS, TableGet SNAPSHOTS key] then (s, Err Index)
         else if kv_get K (snapshots_t d) key \<noteq> None then (s, Err (SnapshotExists snapshot))
         else if fails F (OpenTable CHUNKS) then (s, Err Index)
         else case bump_refs K F snapshot (chunks_t d) refs of
             Err e \<Rightarrow> (s, Err e)
           | Ok chunks' \<Rightarrow>
              (let ref_bytes = concat (map chunk_id_as_bytes refs)
               in if any_fails F ([OpenTable SNAPSHOT_REFS, TableInsert SNAPSHOT_REFS key,
                     TableInsert SNAPSHOTS key] @
                     (if owner = None then []
                      else [OpenTable SNAPSHOT_OWNER, TableInsert SNAPSHOT_OWNER key]) @ [Commit])
                  then (s, Err Index)
                  else
                    (s\<lparr>index_db := d\<lparr>chunks_t := chunks',
                        snapshot_refs_t := kv_insert K (snapshot_refs_t d) key ref_bytes,
                        snapshots_t := kv_insert K (snapshots_t d) key blob,
                        snapshot_owner_t := (case owner of
                            None \<Rightarrow> snapshot_owner_t d
                          | Some o' \<Rightarrow> kv_insert K (snapshot_owner_t d) key o')\<rparr>\<rparr>, Ok ())))"

definition put_snapshot :: "'t redb \<Rightarrow> faults \<Rightarrow> 't store \<Rightarrow> ulid \<Rightarrow> bytes \<Rightarrow> chunk_id list
    \<Rightarrow> 't store \<times> (store_error + unit)" where
  "put_snapshot K F s snapshot blob refs = put_snapshot_as K F s snapshot blob refs None"

definition put_manifest :: "'t redb \<Rightarrow> faults \<Rightarrow> 't store \<Rightarrow> manifest \<Rightarrow> 't store \<times> (store_error + unit)" where
  "put_manifest K F s m =
     (case encode m of
        Err e \<Rightarrow> (s, Err (ManifestErr e))
      | Ok blob \<Rightarrow> put_snapshot K F s (snapshot_id m) blob (chunk_refs m))"

definition get_manifest_blob :: "'t redb \<Rightarrow> faults \<Rightarrow> 't store \<Rightarrow> ulid \<Rightarrow> store_error + bytes" where
  "get_manifest_blob K F s snapshot =
     (if any_fails F [BeginRead, OpenTable SNAPSHOTS, TableGet SNAPSHOTS (ulid_to_bytes snapshot)]
      then Err Index
      else case kv_get K (snapshots_t (index_db s)) (ulid_to_bytes snapshot) of
             None \<Rightarrow> Err (SnapshotNotFound snapshot)
           | Some blob \<Rightarrow> Ok blob)"

definition get_manifest :: "'t redb \<Rightarrow> faults \<Rightarrow> 't store \<Rightarrow> ulid \<Rightarrow> store_error + manifest" where
  "get_manifest K F s snapshot =
     and_then (get_manifest_blob K F s snapshot) (\<lambda>blob. map_err ManifestErr (decode blob))"

definition list_snapshots :: "'t redb \<Rightarrow> faults \<Rightarrow> 't store \<Rightarrow> store_error + ulid list" where
  "list_snapshots K F s =
     (if any_fails F [BeginRead, OpenTable SNAPSHOTS, TableIter SNAPSHOTS] then Err Index
      else Ok (map ulid_from_bytes
                 (filter (\<lambda>raw. length raw = 16) (map fst (kv_iter K (snapshots_t (index_db s)))))))"

fun drop_refs :: "'t redb \<Rightarrow> faults \<Rightarrow> 't \<Rightarrow> chunk_id list \<Rightarrow> store_error + 't" where
  "drop_refs K F t [] = Ok t"
| "drop_refs K F t (chunk # refs) =
     (let key = chunk_id_as_bytes chunk
      in if fails F (TableGet CHUNKS key) then Err Index
         else case kv_get K t key of
             None \<Rightarrow> drop_refs K F t refs
           | Some raw \<Rightarrow>
              (let entry = decode_entry raw;
                   dropped = \<lparr>chunk_len = chunk_len entry,
                              refcount = u64_saturating_sub (refcount entry) 1\<rparr>
               in if fails F (TableInsert CHUNKS key) then Err Index
                  else drop_refs K F (kv_insert K t key (to_wire_value dropped)) refs))"

definition refs_of_bytes :: "bytes \<Rightarrow> chunk_id list" where
  "refs_of_bytes ref_bytes = map chunk_id_from_bytes (chunks_exact CHUNK_ID_LEN ref_bytes)"

definition delete_snapshot :: "'t redb \<Rightarrow> faults \<Rightarrow> 't store \<Rightarrow> ulid \<Rightarrow> 't store \<times> (store_error + unit)" where
  "delete_snapshot K F s snapshot =
     (let key = ulid_to_bytes snapshot; d = index_db s
      in if any_fails F [BeginWrite, OpenTable SNAPSHOTS, TableRemove SNAPSHOTS key] then (s, Err Index)
         else if kv_get K (snapshots_t d) key = None then (s, Err (SnapshotNotFound snapshot))
         else if any_fails F [OpenTable SNAPSHOT_OWNER, TableRemove SNAPSHOT_OWNER key,
             OpenTable SNAPSHOT_REFS, TableRemove SNAPSHOT_REFS key, OpenTable CHUNKS]
         then (s, Err Index)
         else
           let ref_bytes = (case kv_get K (snapshot_refs_t d) key of None \<Rightarrow> [] | Some bs \<Rightarrow> bs)
           in case drop_refs K F (chunks_t d) (refs_of_bytes ref_bytes) of
                Err e \<Rightarrow> (s, Err e)
              | Ok chunks' \<Rightarrow>
                 (if fails F Commit then (s, Err Index)
                  else (s\<lparr>index_db := d\<lparr>chunks_t := chunks',
                          snapshots_t := kv_remove K (snapshots_t d) key,
                          snapshot_refs_t := kv_remove K (snapshot_refs_t d) key,
                          snapshot_owner_t := kv_remove K (snapshot_owner_t d) key\<rparr>\<rparr>, Ok ())))"

section \<open>Chunk deletion\<close>

definition zero_ref_chunks :: "'t redb \<Rightarrow> faults \<Rightarrow> 't store \<Rightarrow> store_error + chunk_id list" where
  "zero_ref_chunks K F s =
     (if any_fails F [BeginRead, OpenTable CHUNKS, TableIter CHUNKS] then Err Index
      else Ok (map (chunk_id_from_bytes \<circ> fst)
                 (filter (\<lambda>(raw, value). length raw = CHUNK_ID_LEN \<and> refcount (decode_entry value) = 0)
                    (kv_iter K (chunks_t (index_db s))))))"

definition delete_chunk :: "'t redb \<Rightarrow> faults \<Rightarrow> 't store \<Rightarrow> chunk_id \<Rightarrow> 't store \<times> (store_error + unit)" where
  "delete_chunk K F s cid =
     (let key = chunk_id_as_bytes cid; d = index_db s; p = object_path cid
      in if any_fails F [BeginWrite, OpenTable CHUNKS, TableGet CHUNKS key] then (s, Err Index)
         else case kv_get K (chunks_t d) key of
             None \<Rightarrow> (s, Err (ChunkNotFound cid))
           | Some raw \<Rightarrow>
              if 0 < refcount (decode_entry raw)
              then (s, Err (StillReferenced cid (refcount (decode_entry raw))))
              else if any_fails F [TableRemove CHUNKS key, Commit] then (s, Err Index)
              else
                let s' = s\<lparr>index_db := d\<lparr>chunks_t := kv_remove K (chunks_t d) key\<rparr>\<rparr>
                in if fails F (RemoveFile p) then (s', Err (Io [fst p, snd p]))
                   else (s'\<lparr>objects := AList.delete p (objects s')\<rparr>, Ok ()))"

section \<open>Prune\<close>

record prune_outcome =
  po_kept :: "ulid list"
  po_dropped :: "ulid list"
  po_mode :: prune_mode

definition record_prune :: "'t redb \<Rightarrow> faults \<Rightarrow> 't store \<Rightarrow> i64 \<Rightarrow> prune_mode
    \<Rightarrow> 't store \<times> (store_error + unit)" where
  "record_prune K F s now_ms mode =
     (let d = index_db s
      in if any_fails F [BeginWrite, OpenTable STATUS_META, TableInsert STATUS_META LAST_PRUNE_KEY, Commit]
         then (s, Err Index)
         else (s\<lparr>index_db := d\<lparr>status_meta_t :=
                 kv_insert K (status_meta_t d) LAST_PRUNE_KEY (encode_prune_event now_ms mode)\<rparr>\<rparr>, Ok ()))"

text \<open>Each deletion is a transaction of its own, with its own faults \<open>Fd u\<close>.\<close>

fun prune_loop :: "'t redb \<Rightarrow> (ulid \<Rightarrow> faults) \<Rightarrow> 't store \<Rightarrow> ulid list \<Rightarrow> 't store \<times> (store_error + unit)" where
  "prune_loop K Fd s [] = (s, Ok ())"
| "prune_loop K Fd s (u # us) =
     (case delete_snapshot K (Fd u) s u of
        (s', Ok _) \<Rightarrow> prune_loop K Fd s' us
      | (s', Err (SnapshotNotFound _)) \<Rightarrow> prune_loop K Fd s' us
      | (s', Err e) \<Rightarrow> (s', Err e))"

definition prune :: "'t redb \<Rightarrow> (ulid \<Rightarrow> u64) \<Rightarrow> faults \<Rightarrow> (ulid \<Rightarrow> faults) \<Rightarrow> 't store \<Rightarrow> i64
    \<Rightarrow> retention_policy \<Rightarrow> prune_mode \<Rightarrow> 't store \<times> (store_error + prune_outcome)" where
  "prune K ts F Fd s now_ms policy mode =
     (case list_snapshots K F s of
        Err e \<Rightarrow> (s, Err e)
      | Ok snapshots \<Rightarrow>
         (let p = plan now_ms (map (\<lambda>u. (ulid_time_ms ts u, u)) snapshots) policy
          in case prune_loop K Fd s (plan_drop p) of
               (s', Err e) \<Rightarrow> (s', Err e)
             | (s', Ok _) \<Rightarrow>
                (case record_prune K F s' now_ms mode of
                   (s'', Err e) \<Rightarrow> (s'', Err e)
                 | (s'', Ok _) \<Rightarrow>
                    (s'', Ok \<lparr>po_kept = plan_keep p, po_dropped = plan_drop p, po_mode = mode\<rparr>))))"

section \<open>Garbage collection\<close>

record gc_outcome =
  go_reclaimed :: "chunk_id list"
  go_bytes_reclaimed :: u64
  go_pending :: nat

definition gc_entries :: "'t redb \<Rightarrow> 't \<Rightarrow> (chunk_id \<times> index_entry) list" where
  "gc_entries K t =
     List.map_filter (\<lambda>(k, v). map_option (\<lambda>cid. (cid, decode_entry v)) (chunk_id_from_key k)) (kv_iter K t)"

definition gc_marks :: "'t redb \<Rightarrow> 't \<Rightarrow> (chunk_id \<times> i64) list" where
  "gc_marks K t =
     List.map_filter (\<lambda>(k, v). map_option (\<lambda>cid. (cid, decode_mark v)) (chunk_id_from_key k)) (kv_iter K t)"

text \<open>The loop that reconciles existing marks: chunks to delete, marks to remove, chunks pending.\<close>

fun gc_reconcile :: "i64 \<Rightarrow> i64 \<Rightarrow> (chunk_id \<rightharpoonup> index_entry) \<Rightarrow> (chunk_id \<rightharpoonup> i64) \<Rightarrow> chunk_id list
    \<Rightarrow> (chunk_id \<times> u64) list \<times> chunk_id list \<times> nat" where
  "gc_reconcile now_ms grace_ms entries existing [] = ([], [], 0)"
| "gc_reconcile now_ms grace_ms entries existing (cid # cids) =
     (let (del, rm, pending) = gc_reconcile now_ms grace_ms entries existing cids
      in case existing cid of
           None \<Rightarrow> (del, rm, pending)
         | Some marked_at \<Rightarrow>
            (case entries cid of
               Some entry \<Rightarrow>
                 if refcount entry = 0 then
                   (if sint grace_ms \<le> sint (i64_saturating_sub now_ms marked_at)
                    then ((cid, chunk_len entry) # del, cid # rm, pending)
                    else (del, rm, Suc pending))
                 else (del, cid # rm, pending)
             | None \<Rightarrow> (del, cid # rm, pending)))"

definition gc_new_marks :: "(chunk_id \<rightharpoonup> index_entry) \<Rightarrow> (chunk_id \<rightharpoonup> i64) \<Rightarrow> chunk_id list \<Rightarrow> chunk_id list" where
  "gc_new_marks entries existing cids =
     filter (\<lambda>cid. (case entries cid of Some e \<Rightarrow> refcount e = 0 | None \<Rightarrow> False) \<and> existing cid = None) cids"

fun kv_remove_all :: "'t redb \<Rightarrow> 't \<Rightarrow> bytes list \<Rightarrow> 't" where
  "kv_remove_all K t [] = t"
| "kv_remove_all K t (k # ks) = kv_remove_all K (kv_remove K t k) ks"

fun kv_insert_all :: "'t redb \<Rightarrow> 't \<Rightarrow> bytes list \<Rightarrow> bytes \<Rightarrow> 't" where
  "kv_insert_all K t [] v = t"
| "kv_insert_all K t (k # ks) v = kv_insert_all K (kv_insert K t k v) ks v"

text \<open>The write transaction of \<open>gc\<close>: the chunks whose index entries it removed, and how many chunks
  stay marked.\<close>

definition gc_txn :: "'t redb \<Rightarrow> (chunk_id list \<Rightarrow> chunk_id list) \<Rightarrow> faults \<Rightarrow> 't store \<Rightarrow> i64 \<Rightarrow> duration
    \<Rightarrow> 't store \<times> (store_error + (chunk_id \<times> u64) list \<times> nat)" where
  "gc_txn K ho F s now_ms grace =
     (let grace_ms = i64_try_from_or_max (as_millis grace);
          d = index_db s
      in if any_fails F [BeginWrite, OpenTable CHUNKS, OpenTable GC_MARKS, TableIter CHUNKS, TableIter GC_MARKS]
         then (s, Err Index)
         else
           let es = gc_entries K (chunks_t d);
               ms = gc_marks K (gc_marks_t d);
               (to_delete, marks_to_remove, pending) =
                 gc_reconcile now_ms grace_ms (map_of es) (map_of ms) (ho (map fst ms));
               marks_to_insert = gc_new_marks (map_of es) (map_of ms) (ho (map fst es));
               del_keys = map (chunk_id_as_bytes \<circ> fst) to_delete;
               rm_keys = map chunk_id_as_bytes marks_to_remove;
               ins_keys = map chunk_id_as_bytes marks_to_insert
           in if any_fails F (map (TableRemove CHUNKS) del_keys @ map (TableRemove GC_MARKS) rm_keys @
                  map (TableInsert GC_MARKS) ins_keys @
                  [OpenTable STATUS_META, TableInsert STATUS_META LAST_GC_KEY, Commit])
              then (s, Err Index)
              else
                (s\<lparr>index_db := d\<lparr>chunks_t := kv_remove_all K (chunks_t d) del_keys,
                    gc_marks_t := kv_insert_all K (kv_remove_all K (gc_marks_t d) rm_keys) ins_keys
                                    (le_bytes 8 now_ms),
                    status_meta_t := kv_insert K (status_meta_t d) LAST_GC_KEY (le_bytes 8 now_ms)\<rparr>\<rparr>,
                 Ok (to_delete, pending + length marks_to_insert)))"

text \<open>The unlink loop after the commit.\<close>

fun gc_unlink :: "faults \<Rightarrow> obj_dir \<Rightarrow> (chunk_id \<times> u64) list
    \<Rightarrow> obj_dir \<times> (store_error + chunk_id list \<times> u64)" where
  "gc_unlink F objs [] = (objs, Ok ([], 0))"
| "gc_unlink F objs ((cid, len) # rest) =
     (let p = object_path cid
      in if fails F (RemoveFile p) then (objs, Err (Io [fst p, snd p]))
         else case gc_unlink F (AList.delete p objs) rest of
             (objs', Err e) \<Rightarrow> (objs', Err e)
           | (objs', Ok (cids, nbytes)) \<Rightarrow> (objs', Ok (cid # cids, len + nbytes)))"

definition gc :: "'t redb \<Rightarrow> (chunk_id list \<Rightarrow> chunk_id list) \<Rightarrow> faults \<Rightarrow> 't store \<Rightarrow> i64 \<Rightarrow> duration
    \<Rightarrow> 't store \<times> (store_error + gc_outcome)" where
  "gc K ho F s now_ms grace =
     (case gc_txn K ho F s now_ms grace of
        (s', Err e) \<Rightarrow> (s', Err e)
      | (s', Ok (reclaimed, pending)) \<Rightarrow>
         (case gc_unlink F (objects s') reclaimed of
            (objs, Err e) \<Rightarrow> (s'\<lparr>objects := objs\<rparr>, Err e)
          | (objs, Ok (cids, nbytes)) \<Rightarrow>
             (s'\<lparr>objects := objs\<rparr>,
              Ok \<lparr>go_reclaimed = cids, go_bytes_reclaimed = nbytes, go_pending = pending\<rparr>)))"

section \<open>Status\<close>

record daemon_status =
  snapshots_total :: u64
  snapshots_by_client :: "bytes \<rightharpoonup> u64"
  chunks_unique :: u64
  store_bytes :: u64
  zero_ref_count :: u64
  last_prune :: "prune_event option"
  last_gc :: "i64 option"

text \<open>The loop body \<open>*snapshots_by_client.entry(owner).or_insert(0) += 1\<close>; the \<open>BTreeMap\<close> is its lookup
  function.\<close>

fun count_owner :: "'t redb \<Rightarrow> 't \<Rightarrow> bytes list \<Rightarrow> (bytes \<rightharpoonup> u64) \<Rightarrow> (bytes \<rightharpoonup> u64)" where
  "count_owner K owners [] acc = acc"
| "count_owner K owners (key # keys) acc =
     (let owner = (case kv_get K owners key of None \<Rightarrow> [] | Some o' \<Rightarrow> o');
          n = (case acc owner of None \<Rightarrow> 0 | Some n \<Rightarrow> n)
      in count_owner K owners keys (acc(owner \<mapsto> n + 1)))"

definition status :: "'t redb \<Rightarrow> faults \<Rightarrow> 't store \<Rightarrow> store_error + daemon_status" where
  "status K F s =
     (let d = index_db s;
          keys = map fst (kv_iter K (snapshots_t d));
          entries = map (decode_entry \<circ> snd) (kv_iter K (chunks_t d))
      in if any_fails F ([BeginRead, OpenTable SNAPSHOTS, OpenTable SNAPSHOT_OWNER, TableIter SNAPSHOTS] @
             map (TableGet SNAPSHOT_OWNER) keys @
             [OpenTable CHUNKS, TableIter CHUNKS, OpenTable STATUS_META,
              TableGet STATUS_META LAST_PRUNE_KEY, TableGet STATUS_META LAST_GC_KEY])
         then Err Index
         else Ok \<lparr>snapshots_total = word_of_nat (length keys),
                  snapshots_by_client = count_owner K (snapshot_owner_t d) keys Map.empty,
                  chunks_unique = word_of_nat (length entries),
                  store_bytes = sum_list (map chunk_len entries),
                  zero_ref_count = word_of_nat (length (filter (\<lambda>e. refcount e = 0) entries)),
                  last_prune = Option.bind (kv_get K (status_meta_t d) LAST_PRUNE_KEY) decode_prune_event,
                  last_gc = Option.bind (kv_get K (status_meta_t d) LAST_GC_KEY) decode_gc_event\<rparr>)"

section \<open>Table laws\<close>

lemma kv_get_empty [simp]: "redb_laws K \<Longrightarrow> kv_get K (kv_empty K) = Map.empty"
  and kv_get_insert [simp]: "redb_laws K \<Longrightarrow> kv_get K (kv_insert K t k v) = (kv_get K t)(k \<mapsto> v)"
  and kv_get_remove [simp]: "redb_laws K \<Longrightarrow> kv_get K (kv_remove K t k) = (kv_get K t)(k := None)"
  and map_of_kv_iter: "redb_laws K \<Longrightarrow> map_of (kv_iter K t) = kv_get K t"
  and sorted_kv_iter: "redb_laws K \<Longrightarrow> sorted_wrt (<) (map fst (kv_iter K t))"
  by (simp_all add: redb_laws_def)

lemma distinct_kv_iter: "redb_laws K \<Longrightarrow> distinct (map fst (kv_iter K t))"
  using sorted_kv_iter [of K t] by (simp add: strict_sorted_iff)

lemma mem_kv_iter: "redb_laws K \<Longrightarrow> (k, v) \<in> set (kv_iter K t) \<longleftrightarrow> kv_get K t k = Some v"
  using map_of_eq_Some_iff [OF distinct_kv_iter, of K t k v] by (simp add: map_of_kv_iter)

lemma keys_kv_iter: "redb_laws K \<Longrightarrow> set (map fst (kv_iter K t)) = dom (kv_get K t)"
  by (metis dom_map_of_conv_image_fst map_of_kv_iter set_map)

lemma mset_kv_iterI:
  assumes "redb_laws K" and "distinct (map fst xs)" and "map_of xs = kv_get K t"
  shows "mset (kv_iter K t) = mset xs"
proof -
  have "set (kv_iter K t) = set xs"
    using assms map_of_eq_Some_iff [of xs] by (auto simp: mem_kv_iter)
  moreover have "distinct (kv_iter K t)" "distinct xs"
    using assms distinct_kv_iter [of K t] by (auto simp: distinct_map)
  ultimately show ?thesis using set_eq_iff_mset_eq_distinct by blast
qed

lemma mset_kv_iter_insert:
  assumes "redb_laws K" and "kv_get K t k = None"
  shows "mset (kv_iter K (kv_insert K t k v)) = add_mset (k, v) (mset (kv_iter K t))"
proof -
  have "k \<notin> set (map fst (kv_iter K t))" using assms by (auto simp: keys_kv_iter simp del: set_map)
  then show ?thesis
    using mset_kv_iterI [of K "(k, v) # kv_iter K t" "kv_insert K t k v"] assms
    by (simp add: distinct_kv_iter map_of_kv_iter)
qed

lemma mset_kv_iter_remove:
  assumes "redb_laws K" and "kv_get K t k = Some v"
  shows "mset (kv_iter K t) = add_mset (k, v) (mset (kv_iter K (kv_remove K t k)))"
proof -
  have "k \<notin> set (map fst (kv_iter K (kv_remove K t k)))"
    using assms by (auto simp: keys_kv_iter simp del: set_map)
  then show ?thesis
    using mset_kv_iterI [of K "(k, v) # kv_iter K (kv_remove K t k)" t] assms
    by (simp add: distinct_kv_iter map_of_kv_iter fun_upd_idem)
qed

lemma kv_get_remove_all [simp]:
  "redb_laws K \<Longrightarrow> kv_get K (kv_remove_all K t ks) k = (if k \<in> set ks then None else kv_get K t k)"
  by (induction ks arbitrary: t) auto

lemma kv_get_insert_all [simp]:
  "redb_laws K \<Longrightarrow> kv_get K (kv_insert_all K t ks v) k = (if k \<in> set ks then Some v else kv_get K t k)"
  by (induction ks arbitrary: t) auto

section \<open>Object paths\<close>

lemma hex_digit_not_dot: "n < 16 \<Longrightarrow> hex_digit n \<noteq> 0x2E"
  using unat_hex_digit [of n] by (auto split: if_splits)

lemma hd_chunk_id_to_string: "hd (chunk_id_to_string cid) \<noteq> 0x2E"
proof -
  obtain b bs where "chunk_id_as_bytes cid = b # bs"
    by (cases "chunk_id_as_bytes cid") (use length_chunk_id_as_bytes [of cid] in simp_all)
  then show ?thesis
    by (simp add: chunk_id_to_string_def hex_byte_def hex_digit_not_dot nibble_bounds)
qed

lemma object_path_inject [simp]: "object_path a = object_path b \<longleftrightarrow> a = b"
  by (auto simp: object_path_def)

lemma chunk_name_not_tmp: "\<not> is_tmp_name (chunk_id_to_string cid)"
proof
  assume "is_tmp_name (chunk_id_to_string cid)"
  then have "take 5 (chunk_id_to_string cid) = [0x2E, 0x74, 0x6D, 0x70, 0x2D]"
    by (simp add: is_tmp_name_def TMP_PREFIX_def eval_nat_numeral)
  then show False using hd_chunk_id_to_string [of cid] hd_take [of 5 "chunk_id_to_string cid"] by simp
qed

lemma object_path_ne_tmp [simp]: "object_path cid \<noteq> (shard, TMP_PREFIX @ tmp)"
proof
  assume "object_path cid = (shard, TMP_PREFIX @ tmp)"
  then have "hd (chunk_id_to_string cid) = 0x2E"
    by (simp add: object_path_def TMP_PREFIX_def)
  then show False using hd_chunk_id_to_string by blast
qed

section \<open>Chunk storage\<close>

text \<open>The path of the temporary file \<open>write_object\<close> uses.\<close>

abbreviation tmp_object :: "bytes \<Rightarrow> chunk_id \<Rightarrow> obj_path" where
  "tmp_object tmp cid \<equiv> (fst (object_path cid), TMP_PREFIX @ tmp)"

definition object_content :: "(bytes \<Rightarrow> hash32) \<Rightarrow> bytes \<Rightarrow> bytes" where
  "object_content H data = be_bytes 32 (H data) @ data"

lemma object_path_ne_tmp' [simp]: "tmp_object tmp c \<noteq> object_path cid"
  using object_path_ne_tmp [of cid] by metis

lemma write_object_other:
  "write_object H F tmp objs cid data = (objs', r) \<Longrightarrow> c \<noteq> cid \<Longrightarrow>
   map_of objs' (object_path c) = map_of objs (object_path c)"
  by (auto simp: write_object_def Let_def remove_ignored_def split: if_splits)

lemma write_object_Ok:
  "write_object H F tmp objs cid data = (objs', Ok u) \<Longrightarrow> \<not> fails F (RenameFile (tmp_object tmp cid)) \<Longrightarrow>
   map_of objs' (object_path cid) = Some (object_content H data)"
  by (auto simp: write_object_def Let_def object_content_def split: if_splits)

lemma write_object_Ok_keeps:
  "write_object H F tmp objs cid data = (objs', Ok u) \<Longrightarrow> fails F (RenameFile (tmp_object tmp cid)) \<Longrightarrow>
   map_of objs' (object_path cid) = map_of objs (object_path cid) \<and> map_of objs (object_path cid) \<noteq> None"
  by (auto simp: write_object_def Let_def remove_ignored_def split: if_splits)

text \<open>The chunk index as a map from chunk IDs to entries.\<close>

definition chunk_view :: "'t redb \<Rightarrow> 't \<Rightarrow> chunk_id \<rightharpoonup> index_entry" where
  "chunk_view K t cid = map_option decode_entry (kv_get K t (chunk_id_as_bytes cid))"

lemma decode_entry_wire [simp]: "decode_entry (to_wire_value e) = e"
  by (simp add: decode_entry_def)

lemma chunk_view_insert [simp]:
  "redb_laws K \<Longrightarrow>
   chunk_view K (kv_insert K t (chunk_id_as_bytes cid) (to_wire_value e)) = (chunk_view K t)(cid \<mapsto> e)"
  by (auto simp: chunk_view_def fun_eq_iff)

lemma chunk_view_None_iff: "chunk_view K t cid = None \<longleftrightarrow> kv_get K t (chunk_id_as_bytes cid) = None"
  by (simp add: chunk_view_def)

text \<open>The read side of a chunk: what \<open>get_chunk\<close> computes from the index entry and the file.\<close>

definition read_object :: "(bytes \<Rightarrow> hash32) \<Rightarrow> chunk_id \<Rightarrow> index_entry option \<Rightarrow> bytes option \<Rightarrow> store_error + bytes" where
  "read_object H cid oe oraw =
     (case oe of None \<Rightarrow> Err (ChunkNotFound cid)
      | Some e \<Rightarrow>
         (case oraw of None \<Rightarrow> Err (Integrity (MissingBlob cid))
          | Some raw \<Rightarrow>
             if length raw < 32 then Err (Integrity (LengthMismatch cid (chunk_len e)
                (u64_saturating_sub (word_of_nat (length raw)) 32)))
             else if word_of_nat (length (drop 32 raw)) \<noteq> chunk_len e
             then Err (Integrity (LengthMismatch cid (chunk_len e) (word_of_nat (length (drop 32 raw)))))
             else if be_bytes 32 (H (drop 32 raw)) \<noteq> take 32 raw
             then Err (Integrity (HashMismatch cid (H (drop 32 raw))))
             else Ok (drop 32 raw)))"

definition get_chunk_faulty :: "faults \<Rightarrow> chunk_id \<Rightarrow> bool" where
  "get_chunk_faulty F cid =
     any_fails F [BeginRead, OpenTable CHUNKS, TableGet CHUNKS (chunk_id_as_bytes cid), ReadFile (object_path cid)]"

lemma get_chunk_eq:
  "\<not> get_chunk_faulty F cid \<Longrightarrow>
   get_chunk K H F s cid =
     read_object H cid (chunk_view K (chunks_t (index_db s)) cid) (map_of (objects s) (object_path cid))"
  by (simp add: get_chunk_def get_chunk_faulty_def any_fails_def chunk_entry_def chunk_view_def
      read_object_def OBJECT_HEADER_LEN_def Let_def split: option.splits)

lemma get_chunk_cong:
  assumes "chunk_view K (chunks_t (index_db s')) c = chunk_view K (chunks_t (index_db s)) c"
    and "chunk_view K (chunks_t (index_db s)) c = None \<or>
      map_of (objects s') (object_path c) = map_of (objects s) (object_path c)"
  shows "get_chunk K H F s' c = get_chunk K H F s c"
proof -
  have "chunk_entry K F s' c = chunk_entry K F s c"
    using assms(1) by (simp add: chunk_entry_def chunk_view_def)
  moreover have "chunk_entry K F s c = Err Index \<or>
      chunk_entry K F s c = Ok (chunk_view K (chunks_t (index_db s)) c)"
    by (simp add: chunk_entry_def chunk_view_def)
  ultimately show ?thesis using assms(2) by (auto simp: get_chunk_def split: option.split)
qed

lemma read_object_content [simp]:
  "chunk_len e = word_of_nat (length data) \<Longrightarrow>
   read_object H cid (Some e) (Some (object_content H data)) = Ok data"
  by (simp add: read_object_def object_content_def)

lemma read_object_Ok:
  "read_object H cid (Some e) (Some raw) = Ok d \<Longrightarrow>
   raw = object_content H d \<and> chunk_len e = word_of_nat (length d)"
  by (auto simp: read_object_def object_content_def split: if_splits)

lemma no_faults_simps [simp]: "\<not> any_fails no_faults sites" "\<not> fails no_faults site"
  "\<not> get_chunk_faulty no_faults cid"
  by (induction sites) (simp_all add: any_fails_def no_faults_def get_chunk_faulty_def)

lemma put_chunk_cases:
  assumes "put_chunk K H F tmp s cid data = (s', r)"
  obtains (unchanged) "s' = s" "r = Err Index \<or> r = Ok False \<and> chunk_view K (chunks_t (index_db s)) cid \<noteq> None"
  | (failed) objs r' e where "chunk_view K (chunks_t (index_db s)) cid = None"
      "write_object H F tmp (objects s) cid data = (objs, r')" "s' = s\<lparr>objects := objs\<rparr>" "r = Err e"
  | (stored) objs u where "chunk_view K (chunks_t (index_db s)) cid = None"
      "write_object H F tmp (objects s) cid data = (objs, Ok u)" "r = Ok True"
      "s' = s\<lparr>objects := objs, index_db := (index_db s)\<lparr>chunks_t :=
         kv_insert K (chunks_t (index_db s)) (chunk_id_as_bytes cid)
           (to_wire_value \<lparr>chunk_len = word_of_nat (length data), refcount = 0\<rparr>)\<rparr>\<rparr>"
proof (cases "chunk_view K (chunks_t (index_db s)) cid = None")
  case False
  with assms show thesis
    by (intro unchanged) (auto simp: put_chunk_def Let_def chunk_view_None_iff split: if_splits)
next
  case True
  obtain objs r' where w: "write_object H F tmp (objects s) cid data = (objs, r')" by force
  show thesis
  proof (cases "any_fails F [BeginWrite, OpenTable CHUNKS, TableGet CHUNKS (chunk_id_as_bytes cid)]")
    case fault: True
    with assms show thesis by (intro unchanged) (auto simp: put_chunk_def Let_def)
  next
    case False
    with assms True w show thesis
      by (cases r') (auto simp: put_chunk_def Let_def chunk_view_None_iff
          split: if_splits intro: failed stored)
  qed
qed

text \<open>A stored chunk reads back. When \<open>put_chunk\<close> reports a new chunk, whatever faults occurred on
  the way short of a failing rename, \<open>get_chunk\<close> returns exactly the bytes given, the entry has their
  length and no references, and every other chunk reads as before.\<close>

theorem put_chunk_get_chunk:
  assumes "redb_laws K"
    and "put_chunk K H F tmp s cid data = (s', Ok True)"
    and "\<not> fails F (RenameFile (tmp_object tmp cid))"
  shows "get_chunk K H no_faults s' cid = Ok data \<and>
    chunk_entry K no_faults s' cid = Ok (Some \<lparr>chunk_len = word_of_nat (length data), refcount = 0\<rparr>) \<and>
    (\<forall>c F'. c \<noteq> cid \<longrightarrow> get_chunk K H F' s' c = get_chunk K H F' s c)"
  using assms(2)
proof (cases rule: put_chunk_cases)
  case (stored objs u)
  then show ?thesis using assms write_object_Ok write_object_other
    by (auto simp: get_chunk_eq chunk_entry_def intro!: get_chunk_cong disjI2)
qed simp_all

text \<open>Storing a chunk never damages what is stored. Under any faults, a chunk already indexed has
  the same entry and reads the same afterwards; unless a new chunk is reported the index is unchanged;
  and \<open>Ok False\<close> (deduplication) changes nothing at all and means that the chunk was indexed.\<close>

theorem put_chunk_preserves:
  assumes "redb_laws K"
    and "put_chunk K H F tmp s cid data = (s', r)"
  shows "(has_chunk K no_faults s c = Ok True \<longrightarrow>
      chunk_entry K F' s' c = chunk_entry K F' s c \<and> get_chunk K H F' s' c = get_chunk K H F' s c) \<and>
    (r \<noteq> Ok True \<longrightarrow> index_db s' = index_db s) \<and>
    (r = Ok False \<longrightarrow> s' = s \<and> has_chunk K no_faults s cid = Ok True)"
proof -
  have has: "has_chunk K no_faults s c = Ok True \<longleftrightarrow> chunk_view K (chunks_t (index_db s)) c \<noteq> None" for c
    by (simp add: has_chunk_def chunk_entry_def chunk_view_def)
  from assms(2) show ?thesis
  proof (cases rule: put_chunk_cases)
    case unchanged
    then show ?thesis by (auto simp: has)
  next
    case (failed objs r' e)
    then have "map_of objs (object_path c) = map_of (objects s) (object_path c)"
      if "chunk_view K (chunks_t (index_db s)) c \<noteq> None"
      using that write_object_other [OF failed(2), of c] by (cases "c = cid") auto
    then show ?thesis using failed
      by (auto simp: has chunk_entry_def intro!: get_chunk_cong disjI2)
  next
    case (stored objs u)
    then show ?thesis using assms(1) write_object_other [OF stored(2)]
      by (auto simp: has chunk_entry_def chunk_view_def intro!: get_chunk_cong disjI2)
  qed
qed

text \<open>C19: Corruption is never silent. Let a chunk have been stored and its object file then replaced by
  any bytes \<open>raw\<close>, or removed. A fault-free read returns data only if \<open>raw\<close> is exactly the hash of that
  data followed by it, at the stored length; every other content is an integrity error naming the
  chunk. So a changed body under the original header is returned only at a hash collision.\<close>

theorem get_chunk_detects_corruption:
  assumes "redb_laws K"
    and "put_chunk K H F tmp s cid data = (s1, Ok True)"
    and "index_db s2 = index_db s1"
    and "get_chunk K H no_faults s2 cid = r"
  shows "(case r of
      Ok d \<Rightarrow> map_of (objects s2) (object_path cid) = Some (be_bytes 32 (H d) @ d) \<and>
             (word_of_nat (length d) :: u64) = word_of_nat (length data)
    | Err e \<Rightarrow> \<exists>i. e = Integrity i \<and>
        (\<nexists>d. length d = length data \<and>
             map_of (objects s2) (object_path cid) = Some (be_bytes 32 (H d) @ d)))"
  using assms(2)
proof (cases rule: put_chunk_cases)
  case (stored objs u)
  define e where "e = \<lparr>chunk_len = word_of_nat (length data) :: u64, refcount = 0\<rparr>"
  have "chunk_view K (chunks_t (index_db s2)) cid = Some e"
    using stored assms(1,3) by (simp add: e_def)
  then have r: "r = read_object H cid (Some e) (map_of (objects s2) (object_path cid))"
    using assms(4) by (simp add: get_chunk_eq)
  show ?thesis
  proof (cases r)
    case (Inr d)
    then obtain raw where "map_of (objects s2) (object_path cid) = Some raw"
      using r by (cases "map_of (objects s2) (object_path cid)") (simp_all add: read_object_def)
    moreover from this have "raw = object_content H d \<and> chunk_len e = word_of_nat (length d)"
      using r Inr by (intro read_object_Ok) simp
    ultimately show ?thesis by (simp add: Inr object_content_def e_def)
  next
    case (Inl err)
    then have "\<exists>i. err = Integrity i"
      using r by (auto simp: read_object_def split: option.splits if_splits)
    moreover have "map_of (objects s2) (object_path cid) \<noteq> Some (object_content H d)"
      if "length d = length data" for d
      using Inl r that by (auto simp: e_def)
    ultimately show ?thesis using Inl by (auto simp: object_content_def)
  qed
qed simp_all

section \<open>Witnesses\<close>

text \<open>A table implementation that meets the laws: the library's red-black trees.\<close>

definition rbt_redb :: "(bytes, bytes) RBT.rbt redb" where
  "rbt_redb = \<lparr>kv_empty = RBT.empty, kv_get = RBT.lookup, kv_insert = (\<lambda>t k v. RBT.insert k v t),
     kv_remove = (\<lambda>t k. RBT.delete k t), kv_iter = RBT.entries\<rparr>"

lemma rbt_redb_laws: "redb_laws rbt_redb"
  using RBT.sorted_entries RBT.distinct_entries
  by (auto simp: redb_laws_def rbt_redb_def RBT.map_of_entries strict_sorted_iff)

definition zero_hash :: "bytes \<Rightarrow> hash32" where "zero_hash _ = 0"

definition demo_put :: "(bytes, bytes) RBT.rbt store \<times> (store_error + bool)" where
  "demo_put = put_chunk rbt_redb zero_hash no_faults [0x41] (empty_store rbt_redb) 7 [1, 2, 3]"

lemma demo_put_eq: "put_chunk rbt_redb zero_hash no_faults [0x41] (empty_store rbt_redb) 7 [1, 2, 3] = (fst demo_put, Ok True)"
proof -
  have "snd demo_put = Ok True" by code_simp
  then show ?thesis unfolding demo_put_def by (metis prod.collapse)
qed

definition demo_put2 :: "(bytes, bytes) RBT.rbt store \<times> (store_error + bool)" where
  "demo_put2 = put_chunk rbt_redb zero_hash no_faults [0x42] (fst demo_put) 8 [9]"

theorem put_chunk_get_chunk_witness: "get_chunk rbt_redb zero_hash no_faults (fst demo_put) 7 = Ok [1, 2, 3]"
  using put_chunk_get_chunk [OF rbt_redb_laws demo_put_eq] by simp

theorem put_chunk_preserves_witness:
  "get_chunk rbt_redb zero_hash no_faults (fst demo_put2) 7 = Ok [1, 2, 3]"
proof -
  have has: "has_chunk rbt_redb no_faults (fst demo_put) 7 = Ok True"
    and get: "get_chunk rbt_redb zero_hash no_faults (fst demo_put) 7 = Ok [1, 2, 3]" by code_simp+
  show ?thesis
    using put_chunk_preserves [OF rbt_redb_laws, of zero_hash no_faults "[0x42]" "fst demo_put" 8 "[9]"
        "fst demo_put2" "snd demo_put2" 7] has get
    by (simp add: demo_put2_def)
qed

text \<open>The stored object, then its body changed and then removed.\<close>

theorem get_chunk_detects_corruption_witness:
  "get_chunk rbt_redb zero_hash no_faults ((fst demo_put)\<lparr>objects := []\<rparr>) 7 = Err (Integrity (MissingBlob 7)) \<and>
   get_chunk rbt_redb zero_hash no_faults ((fst demo_put)\<lparr>objects := [(object_path 7, [1, 2])]\<rparr>) 7 \<noteq> Ok [1, 2, 3]"
proof -
  have "get_chunk rbt_redb zero_hash no_faults ((fst demo_put)\<lparr>objects := []\<rparr>) 7 = Err (Integrity (MissingBlob 7))"
    by code_simp
  moreover have "get_chunk rbt_redb zero_hash no_faults ((fst demo_put)\<lparr>objects := [(object_path 7, [1, 2])]\<rparr>) 7 \<noteq> Ok [1, 2, 3]"
    using get_chunk_detects_corruption [OF rbt_redb_laws demo_put_eq,
        of "(fst demo_put)\<lparr>objects := [(object_path 7, [1, 2])]\<rparr>" "Ok [1, 2, 3]"]
    by (auto dest: arg_cong [of _ _ length])
  ultimately show ?thesis by blast
qed

end
