(* ===== verification/Store_Refs.thy ===== *)
theory Store_Refs
  imports Store
begin

text \<open>
  Reference counting in the chunk store: what the loops of \<open>put_snapshot_as\<close> and
  \<open>delete_snapshot\<close> do to the index, the store invariant, and that every operation keeps it under
  every fault.
\<close>

section \<open>Reference counts\<close>

text \<open>How many references to \<open>cid\<close> the stored snapshots hold, duplicates included.\<close>

definition ref_total :: "'t redb \<Rightarrow> 't \<Rightarrow> chunk_id \<Rightarrow> nat" where
  "ref_total K t cid = sum_list (map (\<lambda>(k, v). count_list (refs_of_bytes v) cid) (kv_iter K t))"

lemma ref_total_mset:
  "ref_total K t cid = sum_mset (image_mset (\<lambda>(k, v). count_list (refs_of_bytes v) cid) (mset (kv_iter K t)))"
  by (simp add: ref_total_def flip: sum_mset_sum_list)

lemma ref_total_insert:
  "redb_laws K \<Longrightarrow> kv_get K t k = None \<Longrightarrow>
   ref_total K (kv_insert K t k v) cid = ref_total K t cid + count_list (refs_of_bytes v) cid"
  by (simp add: ref_total_mset mset_kv_iter_insert)

lemma ref_total_remove:
  "redb_laws K \<Longrightarrow> kv_get K t k = Some v \<Longrightarrow>
   ref_total K t cid = ref_total K (kv_remove K t k) cid + count_list (refs_of_bytes v) cid"
  by (simp add: ref_total_mset mset_kv_iter_remove)

lemma ref_total_empty [simp]: "redb_laws K \<Longrightarrow> ref_total K (kv_empty K) cid = 0"
  using map_of_kv_iter [of K "kv_empty K"] by (simp add: ref_total_def)

lemma refs_of_bytes_concat [simp]: "refs_of_bytes (concat (map chunk_id_as_bytes refs)) = refs"
  by (simp add: refs_of_bytes_def CHUNK_ID_LEN_def cid.map_dec_chunks)

text \<open>Adding and dropping \<open>n\<close> references at once, with the saturation of the loops.\<close>

definition bump :: "nat \<Rightarrow> index_entry \<Rightarrow> index_entry" where
  "bump n e = e\<lparr>refcount := word_of_nat (min (2 ^ 64 - 1) (unat (refcount e) + n))\<rparr>"

definition unbump :: "nat \<Rightarrow> index_entry \<Rightarrow> index_entry" where
  "unbump n e = e\<lparr>refcount := word_of_nat (unat (refcount e) - n)\<rparr>"

lemma u64_bound: "unat (w :: u64) < 2 ^ 64"
  using unsigned_less [of w, where 'a = nat] by simp

lemma unat_u64_of_nat: "n < 2 ^ 64 \<Longrightarrow> unat (word_of_nat n :: u64) = n"
  by (simp add: unat_of_nat)

lemma refcount_bump [simp]: "unat (refcount (bump n e)) = min (2 ^ 64 - 1) (unat (refcount e) + n)"
  by (simp add: bump_def unat_u64_of_nat)

lemma refcount_unbump [simp]: "unat (refcount (unbump n e)) = unat (refcount e) - n"
  using u64_bound [of "refcount e"] by (simp add: unbump_def unat_u64_of_nat)

lemma chunk_len_bump [simp]: "chunk_len (bump n e) = chunk_len e" "chunk_len (unbump n e) = chunk_len e"
  by (simp_all add: bump_def unbump_def)

lemma entry_eqI: "chunk_len a = chunk_len b \<Longrightarrow> unat (refcount a) = unat (refcount b) \<Longrightarrow> a = (b :: index_entry)"
  by (cases a; cases b) (simp add: word_unat_eq_iff)

lemma bump_0 [simp]: "bump 0 e = e" "unbump 0 e = e"
  using u64_bound [of "refcount e"] by (auto intro!: entry_eqI)

lemma bump_bump [simp]: "bump m (bump n e) = bump (n + m) e"
  by (intro entry_eqI) auto

lemma unbump_unbump [simp]: "unbump m (unbump n e) = unbump (n + m) e"
  by (intro entry_eqI) auto

lemma bump_Suc:
  "\<lparr>chunk_len = chunk_len e, refcount = u64_saturating_add (refcount e) 1\<rparr> = bump 1 e"
  by (intro entry_eqI) (simp_all add: unat_u64_saturating_add)

lemma unbump_Suc:
  "\<lparr>chunk_len = chunk_len e, refcount = u64_saturating_sub (refcount e) 1\<rparr> = unbump 1 e"
  by (intro entry_eqI) (simp_all add: unat_u64_saturating_sub)

lemma unbump_bump: "unat (refcount e) + n < 2 ^ 64 \<Longrightarrow> unbump n (bump n e) = e"
  by (intro entry_eqI) auto

lemma dom_kv_insert: "redb_laws K \<Longrightarrow> dom (kv_get K (kv_insert K t k v)) = insert k (dom (kv_get K t))"
  by simp

lemma mem_dom_chunk_view: "c \<in> dom (chunk_view K t) \<longleftrightarrow> chunk_id_as_bytes c \<in> dom (kv_get K t)"
  by (auto simp: chunk_view_def)

lemma bump_refs_step:
  "bump_refs K F u t (c # refs) = Ok t' \<longleftrightarrow>
   \<not> fails F (TableGet CHUNKS (chunk_id_as_bytes c)) \<and> \<not> fails F (TableInsert CHUNKS (chunk_id_as_bytes c)) \<and>
   (\<exists>e. chunk_view K t c = Some e \<and>
     bump_refs K F u (kv_insert K t (chunk_id_as_bytes c) (to_wire_value (bump 1 e))) refs = Ok t')"
  by (auto simp: Let_def bump_Suc chunk_view_def split: option.splits)

lemma drop_refs_step:
  "drop_refs K F t (c # refs) = Ok t' \<longleftrightarrow>
   \<not> fails F (TableGet CHUNKS (chunk_id_as_bytes c)) \<and>
   (case chunk_view K t c of None \<Rightarrow> drop_refs K F t refs = Ok t'
    | Some e \<Rightarrow> \<not> fails F (TableInsert CHUNKS (chunk_id_as_bytes c)) \<and>
       drop_refs K F (kv_insert K t (chunk_id_as_bytes c) (to_wire_value (unbump 1 e))) refs = Ok t')"
  by (auto simp: Let_def unbump_Suc chunk_view_def split: option.splits)

declare bump_refs.simps(2) [simp del] drop_refs.simps(2) [simp del]

lemma bump_refs_Ok:
  assumes "redb_laws K"
  shows "bump_refs K F u t refs = Ok t' \<Longrightarrow>
    chunk_view K t' = (\<lambda>c. map_option (bump (count_list refs c)) (chunk_view K t c)) \<and>
    set refs \<subseteq> dom (chunk_view K t) \<and> dom (kv_get K t') = dom (kv_get K t)"
proof (induction refs arbitrary: t)
  case Nil
  then show ?case by (simp add: map_option.identity fun_eq_iff)
next
  case (Cons c refs)
  then obtain e where e: "chunk_view K t c = Some e"
    and "bump_refs K F u (kv_insert K t (chunk_id_as_bytes c) (to_wire_value (bump 1 e))) refs = Ok t'"
    by (auto simp: bump_refs_step)
  note IH = Cons.IH [OF this(2)]
  have "c \<in> dom (chunk_view K t)" using e by auto
  then have "dom (kv_get K t') = dom (kv_get K t)"
    using IH assms by (simp add: dom_kv_insert mem_dom_chunk_view insert_absorb del: kv_get_insert)
  then show ?case using IH e assms by (auto simp: fun_eq_iff split: if_splits)
qed

lemma drop_refs_Ok:
  assumes "redb_laws K"
  shows "drop_refs K F t refs = Ok t' \<Longrightarrow>
    chunk_view K t' = (\<lambda>c. map_option (unbump (count_list refs c)) (chunk_view K t c)) \<and>
    dom (kv_get K t') = dom (kv_get K t)"
proof (induction refs arbitrary: t)
  case Nil
  then show ?case by (simp add: map_option.identity fun_eq_iff)
next
  case (Cons c refs)
  show ?case
  proof (cases "chunk_view K t c")
    case None
    then show ?thesis using Cons by (auto simp: drop_refs_step fun_eq_iff)
  next
    case (Some e)
    with Cons.prems have "drop_refs K F (kv_insert K t (chunk_id_as_bytes c) (to_wire_value (unbump 1 e))) refs = Ok t'"
      by (simp add: drop_refs_step)
    note IH = Cons.IH [OF this]
    have "c \<in> dom (chunk_view K t)" using Some by auto
    then have "dom (kv_get K t') = dom (kv_get K t)"
      using IH assms by (simp add: dom_kv_insert mem_dom_chunk_view insert_absorb del: kv_get_insert)
    then show ?thesis using IH Some assms by (auto simp: fun_eq_iff split: if_splits)
  qed
qed

lemma bump_refs_Err:
  assumes "redb_laws K"
  shows "bump_refs K no_faults u t refs = Err e \<longleftrightarrow>
    (\<exists>c. find (\<lambda>c. c \<notin> dom (chunk_view K t)) refs = Some c \<and> e = UnknownChunkRef u c)"
proof (induction refs arbitrary: t)
  case (Cons c refs)
  show ?case
  proof (cases "chunk_view K t c")
    case None
    then show ?thesis by (auto simp: bump_refs.simps(2) chunk_view_None_iff Let_def domIff)
  next
    case (Some e')
    let ?t = "kv_insert K t (chunk_id_as_bytes c) (to_wire_value (bump 1 e'))"
    have "bump_refs K no_faults u t (c # refs) = bump_refs K no_faults u ?t refs"
      using Some by (auto simp: bump_refs.simps(2) Let_def bump_Suc chunk_view_def)
    moreover have "dom (chunk_view K ?t) = dom (chunk_view K t)" using assms Some by auto
    ultimately show ?thesis using Cons.IH [of ?t] Some
      by (simp only: find.simps domI if_False simp_thms)
  qed
qed simp

section \<open>The store invariant\<close>

abbreviation entries_of :: "'t redb \<Rightarrow> 't store \<Rightarrow> chunk_id \<rightharpoonup> index_entry" where
  "entries_of K s \<equiv> chunk_view K (chunks_t (index_db s))"

abbreviation refs_held :: "'t redb \<Rightarrow> 't store \<Rightarrow> chunk_id \<Rightarrow> nat" where
  "refs_held K s \<equiv> ref_total K (snapshot_refs_t (index_db s))"

text \<open>Table keys have the width of their identifiers, and a snapshot has a blob exactly when it has
  references.\<close>

definition tables_ok :: "'t redb \<Rightarrow> 't db \<Rightarrow> bool" where
  "tables_ok K d \<longleftrightarrow>
     (\<forall>k\<in>dom (kv_get K (chunks_t d)). length k = 32) \<and>
     (\<forall>k\<in>dom (kv_get K (snapshots_t d)). length k = 16) \<and>
     dom (kv_get K (snapshot_refs_t d)) = dom (kv_get K (snapshots_t d))"

text \<open>The refcount of an indexed chunk is the number of references stored snapshots hold, and only
  indexed chunks are referenced.\<close>

definition count_ok :: "index_entry option \<Rightarrow> nat \<Rightarrow> bool" where
  "count_ok oe n = (case oe of None \<Rightarrow> n = 0 | Some e \<Rightarrow> unat (refcount e) = n)"

definition refs_ok :: "'t redb \<Rightarrow> 't db \<Rightarrow> bool" where
  "refs_ok K d \<longleftrightarrow> (\<forall>cid. count_ok (chunk_view K (chunks_t d) cid) (ref_total K (snapshot_refs_t d) cid))"

text \<open>Every indexed chunk has an intact object file.\<close>

definition blob_ok :: "(bytes \<Rightarrow> hash32) \<Rightarrow> chunk_id \<Rightarrow> index_entry option \<Rightarrow> bytes option \<Rightarrow> bool" where
  "blob_ok H cid oe oraw = (oe = None \<or> (\<exists>d. read_object H cid oe oraw = Ok d))"

definition blobs_ok :: "'t redb \<Rightarrow> (bytes \<Rightarrow> hash32) \<Rightarrow> 't store \<Rightarrow> bool" where
  "blobs_ok K H s \<longleftrightarrow> (\<forall>cid. blob_ok H cid (entries_of K s cid) (map_of (objects s) (object_path cid)))"

definition store_inv :: "'t redb \<Rightarrow> (bytes \<Rightarrow> hash32) \<Rightarrow> 't store \<Rightarrow> bool" where
  "store_inv K H s \<longleftrightarrow> tables_ok K (index_db s) \<and> refs_ok K (index_db s) \<and> blobs_ok K H s"

lemma tables_ok_refs:
  "tables_ok K d \<Longrightarrow> kv_get K (snapshot_refs_t d) k = None \<longleftrightarrow> kv_get K (snapshots_t d) k = None"
  unfolding tables_ok_def by (metis domIff)

lemma store_invI [intro?]:
  "tables_ok K (index_db s) \<Longrightarrow> refs_ok K (index_db s) \<Longrightarrow> blobs_ok K H s \<Longrightarrow> store_inv K H s"
  by (simp add: store_inv_def)

lemma store_invD:
  assumes "store_inv K H s"
  shows "tables_ok K (index_db s)" "refs_ok K (index_db s)" "blobs_ok K H s"
    "count_ok (entries_of K s cid) (refs_held K s cid)"
    "blob_ok H cid (entries_of K s cid) (map_of (objects s) (object_path cid))"
  using assms by (auto simp: store_inv_def refs_ok_def blobs_ok_def)

lemma blob_ok_simps [simp]:
  "blob_ok H cid None oraw"
  "blob_ok H cid (Some (bump n e)) oraw = blob_ok H cid (Some e) oraw"
  "blob_ok H cid (Some (unbump n e)) oraw = blob_ok H cid (Some e) oraw"
  by (cases oraw; simp add: blob_ok_def read_object_def)+

lemma blob_ok_map_bump [simp]:
  "blob_ok H cid (map_option (bump n) oe) oraw = blob_ok H cid oe oraw"
  "blob_ok H cid (map_option (unbump n) oe) oraw = blob_ok H cid oe oraw"
  by (cases oe; simp)+

lemma store_inv_empty: "redb_laws K \<Longrightarrow> store_inv K H (empty_store K)"
  by (simp add: store_inv_def tables_ok_def refs_ok_def blobs_ok_def empty_store_def chunk_view_def count_ok_def)

subsection \<open>Opening\<close>

lemma sweep_entries_keeps:
  "\<not> is_tmp_name (snd p) \<Longrightarrow> map_of (fst (sweep_entries F es objs)) p = map_of objs p"
  by (induction F es objs rule: sweep_entries.induct) auto

lemma object_path_swept [simp]: "\<not> is_tmp_name (snd (object_path cid))"
  by (simp add: object_path_def chunk_name_not_tmp)

lemma sweep_tmp_files_keeps:
  "index_db (fst (sweep_tmp_files F s)) = index_db s"
  "map_of (objects (fst (sweep_tmp_files F s))) (object_path cid) = map_of (objects s) (object_path cid)"
  using sweep_entries_keeps [of "object_path cid" F "objects s" "objects s"]
  by (auto simp: sweep_tmp_files_def split: prod.splits)

lemma store_inv_cong:
  "store_inv K H s \<Longrightarrow> index_db s' = index_db s \<Longrightarrow>
   (\<And>cid. entries_of K s cid \<noteq> None \<Longrightarrow> map_of (objects s') (object_path cid) = map_of (objects s) (object_path cid)) \<Longrightarrow>
   store_inv K H s'"
  unfolding store_inv_def blobs_ok_def by (metis blob_ok_simps(1))

lemma store_inv_sweep: "store_inv K H s \<Longrightarrow> store_inv K H (fst (sweep_tmp_files F s))"
  by (erule store_inv_cong) (simp_all add: sweep_tmp_files_keeps)

lemma store_inv_open:
  "redb_laws K \<Longrightarrow> (\<And>s. disk = Some s \<Longrightarrow> store_inv K H s) \<Longrightarrow> store_inv K H (fst (store_open K F disk))"
  by (cases disk) (auto simp: store_open_def Let_def store_inv_empty store_inv_sweep)

subsection \<open>Chunks\<close>

definition rename_sound :: "(bytes \<Rightarrow> hash32) \<Rightarrow> faults \<Rightarrow> bytes \<Rightarrow> 't store \<Rightarrow> chunk_id \<Rightarrow> bytes \<Rightarrow> bool" where
  "rename_sound H F tmp s cid data =
     (fails F (RenameFile (tmp_object tmp cid)) \<longrightarrow>
        map_of (objects s) (object_path cid) \<in> {None, Some (object_content H data)})"

lemma write_object_Ok':
  "write_object H F tmp (objects s) cid data = (objs', Ok u) \<Longrightarrow> rename_sound H F tmp s cid data \<Longrightarrow>
   map_of objs' (object_path cid) = Some (object_content H data)"
  using write_object_Ok write_object_Ok_keeps
  by (cases "fails F (RenameFile (tmp_object tmp cid))") (fastforce simp: rename_sound_def)+

lemma store_inv_put_chunk:
  assumes "redb_laws K" and inv: "store_inv K H s" and "put_chunk K H F tmp s cid data = (s', r)"
    and "rename_sound H F tmp s cid data"
  shows "store_inv K H s'"
  using assms(3)
proof (cases rule: put_chunk_cases)
  case unchanged
  then show ?thesis using inv by simp
next
  case (failed objs r' e)
  have "map_of objs (object_path c) = map_of (objects s) (object_path c)" if "entries_of K s c \<noteq> None" for c
    using that failed(1) write_object_other [OF failed(2), of c] by (cases "c = cid") auto
  then show ?thesis using failed by (intro store_inv_cong [OF inv]) auto
next
  case (stored objs u)
  note new = write_object_Ok' [OF stored(2) assms(4)]
  show ?thesis
  proof
    show "tables_ok K (index_db s')"
      using stored assms(1) store_invD(1) [OF inv] by (auto simp: tables_ok_def)
    have "refs_held K s cid = 0" using store_invD(4) [OF inv, of cid] stored(1) by (simp add: count_ok_def)
    then have "count_ok (entries_of K s' c) (refs_held K s c)" for c
      using stored assms(1) store_invD(4) [OF inv, of c] by (simp add: count_ok_def)
    then show "refs_ok K (index_db s')" using stored by (simp add: refs_ok_def)
    have "blob_ok H c (entries_of K s' c) (map_of (objects s') (object_path c))" for c
      using stored assms(1) store_invD(5) [OF inv, of c] write_object_other [OF stored(2), of c] new
      by (cases "c = cid") (auto simp: blob_ok_def)
    then show "blobs_ok K H s'" by (simp add: blobs_ok_def)
  qed
qed


subsection \<open>Snapshots\<close>

lemma put_snapshot_as_cases:
  assumes "put_snapshot_as K F s u blob refs owner = (s', r)"
  obtains (failed) e where "s' = s" "r = Err e"
  | (stored) t' d' where "r = Ok ()" "kv_get K (snapshots_t (index_db s)) (ulid_to_bytes u) = None"
      "bump_refs K F u (chunks_t (index_db s)) refs = Ok t'"
      "s' = s\<lparr>index_db := d'\<rparr>" "chunks_t d' = t'"
      "snapshot_refs_t d' = kv_insert K (snapshot_refs_t (index_db s)) (ulid_to_bytes u)
                              (concat (map chunk_id_as_bytes refs))"
      "snapshots_t d' = kv_insert K (snapshots_t (index_db s)) (ulid_to_bytes u) blob"
      "gc_marks_t d' = gc_marks_t (index_db s)"
proof (cases "bump_refs K F u (chunks_t (index_db s)) refs")
  case (Inl e)
  with assms show thesis
    by (cases r) (auto simp: put_snapshot_as_def Let_def intro: failed split: if_splits)
next
  case (Inr t')
  with assms show thesis
    by (cases r) (auto simp: put_snapshot_as_def Let_def intro: failed stored split: if_splits)
qed

lemma store_inv_put_snapshot_as:
  assumes K: "redb_laws K" and inv: "store_inv K H s"
    and "put_snapshot_as K F s u blob refs owner = (s', r)"
    and room: "\<And>cid. refs_held K s cid + count_list refs cid < 2 ^ 64"
  shows "store_inv K H s'"
  using assms(3)
proof (cases rule: put_snapshot_as_cases)
  case failed
  then show ?thesis using inv by simp
next
  case (stored t' d')
  note bumped = bump_refs_Ok [OF K stored(3)]
  have fresh: "kv_get K (snapshot_refs_t (index_db s)) (ulid_to_bytes u) = None"
    using tables_ok_refs [OF store_invD(1) [OF inv]] stored(2) by blast
  show ?thesis
  proof
    show "tables_ok K (index_db s')"
      using stored bumped K store_invD(1) [OF inv] by (auto simp: tables_ok_def)
    have "count_ok (chunk_view K t' c) (refs_held K s c + count_list refs c)" for c
      using bumped store_invD(4) [OF inv, of c] room [of c]
      by (cases "entries_of K s c") (auto simp: count_ok_def count_list_0_iff)
    then show "refs_ok K (index_db s')"
      using stored K fresh by (simp add: refs_ok_def ref_total_insert)
    show "blobs_ok K H s'"
      using stored bumped store_invD(5) [OF inv] by (simp add: blobs_ok_def)
  qed
qed

lemma delete_snapshot_cases:
  assumes "delete_snapshot K F s u = (s', r)"
  obtains (failed) e where "s' = s" "r = Err e"
  | (deleted) t' d' where "r = Ok ()" "kv_get K (snapshots_t (index_db s)) (ulid_to_bytes u) \<noteq> None"
      "drop_refs K F (chunks_t (index_db s))
         (case kv_get K (snapshot_refs_t (index_db s)) (ulid_to_bytes u) of
            None \<Rightarrow> refs_of_bytes [] | Some bs \<Rightarrow> refs_of_bytes bs) = Ok t'"
      "s' = s\<lparr>index_db := d'\<rparr>" "chunks_t d' = t'"
      "snapshot_refs_t d' = kv_remove K (snapshot_refs_t (index_db s)) (ulid_to_bytes u)"
      "snapshots_t d' = kv_remove K (snapshots_t (index_db s)) (ulid_to_bytes u)"
      "snapshot_owner_t d' = kv_remove K (snapshot_owner_t (index_db s)) (ulid_to_bytes u)"
      "gc_marks_t d' = gc_marks_t (index_db s)"
proof -
  let ?rs = "case kv_get K (snapshot_refs_t (index_db s)) (ulid_to_bytes u) of
            None \<Rightarrow> refs_of_bytes [] | Some bs \<Rightarrow> refs_of_bytes bs"
  have rs: "refs_of_bytes (case kv_get K (snapshot_refs_t (index_db s)) (ulid_to_bytes u) of
            None \<Rightarrow> [] | Some bs \<Rightarrow> bs) = ?rs"
    by (simp split: option.split)
  show thesis
  proof (cases "drop_refs K F (chunks_t (index_db s)) ?rs")
    case (Inl e)
    with assms show thesis
      by (cases r) (auto simp: delete_snapshot_def Let_def rs intro: failed split: if_splits)
  next
    case (Inr t')
    with assms show thesis
      by (cases r) (auto simp: delete_snapshot_def Let_def rs intro: failed deleted split: if_splits)
  qed
qed

lemma store_inv_delete_snapshot:
  assumes K: "redb_laws K" and inv: "store_inv K H s"
    and "delete_snapshot K F s u = (s', r)"
  shows "store_inv K H s'"
  using assms(3)
proof (cases rule: delete_snapshot_cases)
  case failed
  then show ?thesis using inv by simp
next
  case (deleted t' d')
  obtain bs where bs: "kv_get K (snapshot_refs_t (index_db s)) (ulid_to_bytes u) = Some bs"
    using tables_ok_refs [OF store_invD(1) [OF inv], of "ulid_to_bytes u"] deleted(2) by auto
  note dropped = drop_refs_Ok [OF K deleted(3) [unfolded bs option.case]]
  note split_total = ref_total_remove [OF K bs]
  show ?thesis
  proof
    show "tables_ok K (index_db s')"
      using deleted dropped K store_invD(1) [OF inv] by (auto simp: tables_ok_def)
    have "count_ok (chunk_view K t' c) (ref_total K (snapshot_refs_t d') c)" for c
      using deleted dropped store_invD(4) [OF inv, of c] split_total [of c]
      by (cases "entries_of K s c") (auto simp: count_ok_def)
    then show "refs_ok K (index_db s')" using deleted by (simp add: refs_ok_def)
    show "blobs_ok K H s'"
      using deleted dropped store_invD(5) [OF inv] by (simp add: blobs_ok_def)
  qed
qed

lemma store_inv_delete_chunk:
  assumes K: "redb_laws K" and inv: "store_inv K H s"
    and "delete_chunk K F s cid = (s', r)"
  shows "store_inv K H s'"
proof -
  let ?t = "kv_remove K (chunks_t (index_db s)) (chunk_id_as_bytes cid)"
  have view: "chunk_view K ?t = (entries_of K s)(cid := None)"
    using K by (auto simp: chunk_view_def fun_eq_iff)
  have "s' = s \<or> (\<exists>e. entries_of K s cid = Some e \<and> refcount e = 0 \<and>
      index_db s' = (index_db s)\<lparr>chunks_t := ?t\<rparr> \<and>
      (\<forall>p. p \<noteq> object_path cid \<longrightarrow> map_of (objects s') p = map_of (objects s) p))"
    using assms(3) unfolding delete_chunk_def Let_def
    by (auto simp: chunk_view_def word_neq_0_conv [symmetric] split: if_splits option.splits)
  then show ?thesis
  proof (elim disjE exE conjE)
    fix e assume e: "entries_of K s cid = Some e" "refcount e = 0"
      and s': "index_db s' = (index_db s)\<lparr>chunks_t := ?t\<rparr>"
      and objs: "\<forall>p. p \<noteq> object_path cid \<longrightarrow> map_of (objects s') p = map_of (objects s) p"
    have zero: "refs_held K s cid = 0" using store_invD(4) [OF inv, of cid] e by (simp add: count_ok_def)
    show ?thesis
    proof
      show "tables_ok K (index_db s')"
        using s' K store_invD(1) [OF inv] by (auto simp: tables_ok_def)
      show "refs_ok K (index_db s')"
        using s' store_invD(4) [OF inv] zero by (auto simp: refs_ok_def view count_ok_def)
      show "blobs_ok K H s'"
        using s' store_invD(5) [OF inv] objs [rule_format] by (simp add: blobs_ok_def view)
    qed
  qed (use inv in simp)
qed

section \<open>Snapshot properties\<close>

definition snapshot_blob :: "'t redb \<Rightarrow> 't store \<Rightarrow> ulid \<rightharpoonup> bytes" where
  "snapshot_blob K s u = kv_get K (snapshots_t (index_db s)) (ulid_to_bytes u)"

definition snapshot_refs :: "'t redb \<Rightarrow> 't store \<Rightarrow> ulid \<Rightarrow> chunk_id list" where
  "snapshot_refs K s u =
     (case kv_get K (snapshot_refs_t (index_db s)) (ulid_to_bytes u) of None \<Rightarrow> [] | Some bs \<Rightarrow> refs_of_bytes bs)"

lemma get_manifest_blob_eq:
  "get_manifest_blob K no_faults s u =
     (case snapshot_blob K s u of None \<Rightarrow> Err (SnapshotNotFound u) | Some blob \<Rightarrow> Ok blob)"
  by (simp add: get_manifest_blob_def snapshot_blob_def)

lemma put_snapshot_as_Ok:
  assumes K: "redb_laws K" and "put_snapshot_as K F s u blob refs owner = (s', Ok x)"
  shows "snapshot_blob K s u = None" "snapshot_blob K s' = (snapshot_blob K s)(u \<mapsto> blob)"
    "snapshot_refs K s' = (snapshot_refs K s)(u := refs)"
    "entries_of K s' = (\<lambda>c. map_option (bump (count_list refs c)) (entries_of K s c))"
    "set refs \<subseteq> dom (entries_of K s)" "objects s' = objects s"
  using assms(2)
  by (atomize (full), cases rule: put_snapshot_as_cases)
    (auto simp: snapshot_blob_def snapshot_refs_def fun_eq_iff K bump_refs_Ok [OF K])

lemma delete_snapshot_Ok:
  assumes K: "redb_laws K" and "delete_snapshot K F s u = (s', Ok x)"
  shows "snapshot_blob K s u \<noteq> None \<and> snapshot_blob K s' = (snapshot_blob K s)(u := None) \<and>
    snapshot_refs K s' = (snapshot_refs K s)(u := []) \<and>
    entries_of K s' = (\<lambda>c. map_option (unbump (count_list (snapshot_refs K s u) c)) (entries_of K s c)) \<and>
    objects s' = objects s"
  using assms(2)
proof (cases rule: delete_snapshot_cases)
  case (deleted t' d')
  have "refs_of_bytes [] = []" by (simp add: refs_of_bytes_def chunks_exact.simps CHUNK_ID_LEN_def)
  then have "snapshot_refs K s u = (case kv_get K (snapshot_refs_t (index_db s)) (ulid_to_bytes u) of
            None \<Rightarrow> refs_of_bytes [] | Some bs \<Rightarrow> refs_of_bytes bs)"
    by (simp add: snapshot_refs_def split: option.split)
  from drop_refs_Ok [OF K deleted(3) [folded this]] deleted(2,4-) show ?thesis
    by (auto simp: snapshot_blob_def snapshot_refs_def fun_eq_iff K)
qed simp

lemma put_snapshot_as_no_faults:
  assumes "redb_laws K"
  shows "snd (put_snapshot_as K no_faults s u blob refs owner) =
      (if snapshot_blob K s u \<noteq> None then Err (SnapshotExists u)
       else case find (\<lambda>c. c \<notin> dom (entries_of K s)) refs of
              Some c \<Rightarrow> Err (UnknownChunkRef u c) | None \<Rightarrow> Ok ())"
proof (cases "bump_refs K no_faults u (chunks_t (index_db s)) refs")
  case (Inl e)
  then show ?thesis using bump_refs_Err [OF assms, of u "chunks_t (index_db s)" refs e]
    by (auto simp: put_snapshot_as_def Let_def snapshot_blob_def)
next
  case (Inr t)
  then have "find (\<lambda>c. c \<notin> dom (entries_of K s)) refs = None"
    using bump_refs_Err [OF assms, of u "chunks_t (index_db s)" refs] by (metis not_None_eq sum.distinct(2))
  then show ?thesis using Inr by (auto simp: put_snapshot_as_def Let_def snapshot_blob_def)
qed

lemma drop_refs_no_faults: "drop_refs K no_faults t refs \<noteq> Err e"
  by (induction refs arbitrary: t) (auto simp: drop_refs.simps(2) Let_def split: option.split)

lemma delete_snapshot_no_faults:
  "snd (delete_snapshot K no_faults s u) =
     (if snapshot_blob K s u = None then Err (SnapshotNotFound u) else Ok ())"
  by (auto simp: delete_snapshot_def Let_def snapshot_blob_def drop_refs_no_faults split: sum.split)

text \<open>C20: Storing a snapshot is atomic and takes its references exactly once. Without faults it succeeds
  unless the snapshot exists or some reference is unknown, and reports the first unknown one. With any
  faults, an error leaves the store as it was; success records the blob and adds to every chunk as many
  references as it occurs in \<open>refs\<close>, changing no other snapshot and no object file.\<close>

theorem put_snapshot_as_spec:
  assumes "redb_laws K"
  shows "snd (put_snapshot_as K no_faults s u blob refs owner) =
      (if snapshot_blob K s u \<noteq> None then Err (SnapshotExists u)
       else case find (\<lambda>c. c \<notin> dom (entries_of K s)) refs of
              Some c \<Rightarrow> Err (UnknownChunkRef u c) | None \<Rightarrow> Ok ()) \<and>
    (put_snapshot_as K F s u blob refs owner = (s', r) \<longrightarrow>
      (case r of
         Err e \<Rightarrow> s' = s
       | Ok _ \<Rightarrow> snapshot_blob K s' = (snapshot_blob K s)(u \<mapsto> blob) \<and>
           snapshot_refs K s' = (snapshot_refs K s)(u := refs) \<and>
           entries_of K s' = (\<lambda>c. map_option (bump (count_list refs c)) (entries_of K s c)) \<and>
           objects s' = objects s))"
proof (intro conjI impI put_snapshot_as_no_faults [OF assms])
  assume put: "put_snapshot_as K F s u blob refs owner = (s', r)"
  show "case r of
         Err e \<Rightarrow> s' = s
       | Ok _ \<Rightarrow> snapshot_blob K s' = (snapshot_blob K s)(u \<mapsto> blob) \<and>
           snapshot_refs K s' = (snapshot_refs K s)(u := refs) \<and>
           entries_of K s' = (\<lambda>c. map_option (bump (count_list refs c)) (entries_of K s c)) \<and>
           objects s' = objects s"
  proof (cases r)
    case (Inl e)
    then show ?thesis using put by (auto elim!: put_snapshot_as_cases)
  next
    case (Inr x)
    from put_snapshot_as_Ok [OF assms put [unfolded Inr]] show ?thesis by (simp add: Inr)
  qed
qed

text \<open>Deleting a snapshot undoes storing it. After storing \<open>u\<close> and deleting it again, each with
  whatever faults did not stop it, the chunk index, the stored snapshots and their references are as
  before. (The counts must not have reached the ceiling of 64 bits.)\<close>

theorem delete_put_snapshot:
  assumes "redb_laws K"
    and "put_snapshot_as K F s u blob refs owner = (s1, Ok ())"
    and "delete_snapshot K F' s1 u = (s2, Ok ())"
    and "\<forall>c e. entries_of K s c = Some e \<longrightarrow> unat (refcount e) + count_list refs c < 2 ^ 64"
    and "store_inv K H s"
  shows "entries_of K s2 = entries_of K s \<and> snapshot_blob K s2 = snapshot_blob K s \<and>
    snapshot_refs K s2 = snapshot_refs K s \<and> objects s2 = objects s"
proof -
  note put = put_snapshot_as_Ok [OF assms(1,2)] and del = delete_snapshot_Ok [OF assms(1,3)]
  have "snapshot_refs K s u = []"
    using put(1) tables_ok_refs [OF store_invD(1) [OF assms(5)], of "ulid_to_bytes u"]
    by (simp add: snapshot_refs_def snapshot_blob_def)
  moreover have "entries_of K s2 c = entries_of K s c" for c
    using put(3,4) del assms(4) by (cases "entries_of K s c") (simp_all add: unbump_bump)
  ultimately show ?thesis using put del by (auto simp: fun_eq_iff)
qed

text \<open>Listing is complete and ordered. The IDs are strictly ascending (so chronological and without
  duplicates) and are exactly the snapshots whose blob can be fetched.\<close>

theorem list_snapshots_correct:
  assumes "redb_laws K"
  shows "\<exists>us. list_snapshots K no_faults s = Ok us \<and> sorted_wrt (<) us \<and>
    set us = {u. \<exists>blob. get_manifest_blob K no_faults s u = Ok blob}"
proof -
  let ?ks = "map fst (kv_iter K (snapshots_t (index_db s)))"
  let ?us = "map ulid_from_bytes (filter (\<lambda>raw. length raw = 16) ?ks)"
  have "set ?us = {u. ulid_to_bytes u \<in> dom (kv_get K (snapshots_t (index_db s)))}"
    using uid.set_map_dec [of ?ks] keys_kv_iter [OF assms] by simp
  also have "\<dots> = {u. \<exists>blob. get_manifest_blob K no_faults s u = Ok blob}"
    by (auto simp: get_manifest_blob_eq snapshot_blob_def split: option.splits)
  finally show ?thesis
    using uid.sorted_map_dec [OF sorted_kv_iter [OF assms]] by (simp add: list_snapshots_def)
qed

text \<open>A plaintext manifest survives the store. When \<open>put_manifest\<close> succeeds, \<open>get_manifest\<close> returns the
  same manifest, and its chunk references were recorded in manifest order.\<close>

theorem put_manifest_get_manifest:
  assumes "redb_laws K" and "wf_manifest m" and "put_manifest K F s m = (s', Ok ())"
  shows "get_manifest K no_faults s' (snapshot_id m) = Ok m \<and>
    snapshot_refs K s' (snapshot_id m) = chunk_refs m"
proof -
  obtain blob where e: "encode m = Ok blob"
    and put: "put_snapshot_as K F s (snapshot_id m) blob (chunk_refs m) None = (s', Ok ())"
    using assms(3) by (auto simp: put_manifest_def put_snapshot_def split: sum.splits)
  note stored = put_snapshot_as_Ok [OF assms(1) put]
  then show ?thesis
    using decode_encode_append [OF e assms(2), of "[]"]
    by (simp add: get_manifest_def get_manifest_blob_eq)
qed

section \<open>Witnesses\<close>

abbreviation demo_store :: "(bytes, bytes) RBT.rbt store" where "demo_store \<equiv> fst demo_put"

lemma demo_entries: "entries_of rbt_redb demo_store = [7 \<mapsto> \<lparr>chunk_len = 3, refcount = 0\<rparr>]"
proof -
  have "entries_of rbt_redb (empty_store rbt_redb) = Map.empty"
    using rbt_redb_laws by (auto simp: chunk_view_def empty_store_def)
  then show ?thesis
    by (cases rule: put_chunk_cases [OF demo_put_eq]) (use rbt_redb_laws in simp_all)
qed

lemma demo_no_snapshots: "snapshot_blob rbt_redb demo_store = Map.empty"
  using rbt_redb_laws
  by (cases rule: put_chunk_cases [OF demo_put_eq]) (auto simp: snapshot_blob_def empty_store_def)

lemma demo_inv: "store_inv rbt_redb zero_hash demo_store"
  using store_inv_put_chunk [OF rbt_redb_laws store_inv_empty [OF rbt_redb_laws] demo_put_eq]
  by (simp add: rename_sound_def)

definition demo_snapshot :: "(bytes, bytes) RBT.rbt store \<times> (store_error + unit)" where
  "demo_snapshot = put_snapshot_as rbt_redb no_faults demo_store 5 [0xAA] [7, 7] (Some [0x63])"

lemma demo_snapshot_eq:
  "put_snapshot_as rbt_redb no_faults demo_store 5 [0xAA] [7, 7] (Some [0x63]) = (fst demo_snapshot, Ok ())"
proof -
  have "snd demo_snapshot = Ok ()"
    by (simp add: demo_snapshot_def put_snapshot_as_no_faults [OF rbt_redb_laws] demo_entries demo_no_snapshots)
  then show ?thesis unfolding demo_snapshot_def by (metis prod.collapse)
qed

definition demo_delete :: "(bytes, bytes) RBT.rbt store \<times> (store_error + unit)" where
  "demo_delete = delete_snapshot rbt_redb no_faults (fst demo_snapshot) 5"

lemma demo_delete_eq: "delete_snapshot rbt_redb no_faults (fst demo_snapshot) 5 = (fst demo_delete, Ok ())"
proof -
  have "snapshot_blob rbt_redb (fst demo_snapshot) 5 \<noteq> None"
    using put_snapshot_as_Ok(2) [OF rbt_redb_laws demo_snapshot_eq] by simp
  then have "snd demo_delete = Ok ()" by (simp add: demo_delete_def delete_snapshot_no_faults)
  then show ?thesis unfolding demo_delete_def by (metis prod.collapse)
qed

theorem put_snapshot_as_spec_witness:
  "snd (put_snapshot_as rbt_redb no_faults demo_store 6 [] [7, 8] None) = Err (UnknownChunkRef 6 8) \<and>
   entries_of rbt_redb (fst demo_snapshot) 7 = Some (bump 2 \<lparr>chunk_len = 3, refcount = 0\<rparr>) \<and>
   snapshot_refs rbt_redb (fst demo_snapshot) 5 = [7, 7]"
proof -
  show ?thesis
    using put_snapshot_as_spec [OF rbt_redb_laws, of demo_store 6 "[]" "[7, 8]" None no_faults]
      put_snapshot_as_spec [OF rbt_redb_laws, of demo_store 5 "[0xAA]" "[7, 7]" "Some [0x63]" no_faults
        "fst demo_snapshot" "Ok ()"] demo_snapshot_eq
    by (simp add: demo_entries demo_no_snapshots eval_nat_numeral)
qed

theorem delete_put_snapshot_witness:
  "entries_of rbt_redb (fst demo_delete) = entries_of rbt_redb demo_store"
  using delete_put_snapshot [OF rbt_redb_laws demo_snapshot_eq demo_delete_eq _ demo_inv]
  by (simp add: demo_entries)

theorem list_snapshots_correct_witness:
  "list_snapshots rbt_redb no_faults (fst demo_snapshot) = Ok [5] \<and>
   set [5] = {u. \<exists>blob. get_manifest_blob rbt_redb no_faults (fst demo_snapshot) u = Ok blob}"
proof -
  obtain us where us: "list_snapshots rbt_redb no_faults (fst demo_snapshot) = Ok us"
    "sorted_wrt (<) us" "set us = {u. \<exists>blob. get_manifest_blob rbt_redb no_faults (fst demo_snapshot) u = Ok blob}"
    using list_snapshots_correct [OF rbt_redb_laws, of "fst demo_snapshot"] by blast
  have "snapshot_blob rbt_redb demo_store u = None" for u
    using demo_no_snapshots by simp
  then have "set us = {5}"
    using us(3) put_snapshot_as_Ok(2) [OF rbt_redb_laws demo_snapshot_eq]
    by (auto simp: get_manifest_blob_eq split: if_splits)
  then have "us = [5]" using us(2) by (cases us) (auto simp: neq_Nil_conv dest: subset_singletonD)
  then show ?thesis using us by simp
qed

definition demo_manifest :: manifest where
  "demo_manifest = \<lparr>snapshot_id = 9, created_at = 1, files = []\<rparr>"

theorem put_manifest_get_manifest_witness:
  "get_manifest rbt_redb no_faults (fst (put_manifest rbt_redb no_faults demo_store demo_manifest)) 9 = Ok demo_manifest"
proof -
  have "kv_get rbt_redb (snapshots_t (index_db demo_store)) (ulid_to_bytes 9) = None"
    using demo_no_snapshots by (metis snapshot_blob_def)
  then have "snd (put_manifest rbt_redb no_faults demo_store demo_manifest) = Ok ()"
    by (simp add: put_manifest_def put_snapshot_def put_snapshot_as_def Let_def encode_def demo_manifest_def
        fit_u32_def chunk_refs_def)
  then have "put_manifest rbt_redb no_faults demo_store demo_manifest =
      (fst (put_manifest rbt_redb no_faults demo_store demo_manifest), Ok ())" by (metis prod.collapse)
  moreover have "wf_manifest demo_manifest" by (simp add: wf_manifest_def demo_manifest_def)
  ultimately show ?thesis
    using put_manifest_get_manifest [OF rbt_redb_laws] by (metis demo_manifest_def manifest.simps(1))
qed

end
