(* ===== verification/Store_GC.thy ===== *)
theory Store_GC
  imports Store_Refs
begin

text \<open>
  The garbage collector of the chunk store: a specification of which chunks a run reclaims, that
  \<open>gc\<close> implements it, its safety under faults, and the grace period.
\<close>

section \<open>What a collection does\<close>

text \<open>A \<open>HashMap\<close> iterates over its keys in some order.\<close>

definition hash_order :: "(chunk_id list \<Rightarrow> chunk_id list) \<Rightarrow> bool" where
  "hash_order ho \<longleftrightarrow> (\<forall>xs. mset (ho xs) = mset xs)"

lemma hash_orderD: "hash_order ho \<Longrightarrow> set (ho xs) = set xs \<and> (distinct (ho xs) \<longleftrightarrow> distinct xs)"
  unfolding hash_order_def by (metis mset_eq_setD mset_eq_imp_distinct_iff)

definition mark_view :: "'t redb \<Rightarrow> 't \<Rightarrow> chunk_id \<rightharpoonup> i64" where
  "mark_view K t cid = map_option decode_mark (kv_get K t (chunk_id_as_bytes cid))"

abbreviation marks_of :: "'t redb \<Rightarrow> 't store \<Rightarrow> chunk_id \<rightharpoonup> i64" where
  "marks_of K s \<equiv> mark_view K (gc_marks_t (index_db s))"

lemma decode_mark_le_bytes [simp]: "decode_mark (le_bytes 8 w) = w"
  by (simp add: decode_mark_def le_bytes_inverse)

lemma map_of_keyed:
  "map_of (List.map_filter (\<lambda>(k, v). map_option (\<lambda>cid. (cid, f v)) (chunk_id_from_key k)) xs) cid =
   map_option f (map_of xs (chunk_id_as_bytes cid))"
  by (induction xs)
    (auto simp: List.map_filter_simps chunk_id_from_key_def chunk_id_try_from_Some_iff split: option.split)

lemma distinct_keyed:
  "distinct (map fst xs) \<Longrightarrow>
   distinct (map fst (List.map_filter (\<lambda>(k, v). map_option (\<lambda>cid. (cid, f v)) (chunk_id_from_key k)) xs))"
proof (induction xs)
  case (Cons x xs)
  obtain k v where x: "x = (k, v)" by force
  let ?m = "List.map_filter (\<lambda>(k, v). map_option (\<lambda>cid. (cid, f v)) (chunk_id_from_key k)) xs"
  have "cid \<notin> fst ` set ?m" if "k = chunk_id_as_bytes cid" for cid
  proof -
    have "map_of xs k = None" using Cons.prems x by (simp add: map_of_eq_None_iff)
    then have "map_of ?m cid = None" using that by (simp add: map_of_keyed)
    then show ?thesis by (simp add: map_of_eq_None_iff)
  qed
  then show ?case using Cons x
    by (auto simp: List.map_filter_simps chunk_id_from_key_def chunk_id_try_from_Some_iff split: option.split)
qed (simp add: List.map_filter_simps)

lemma gc_entries_view:
  assumes "redb_laws K"
  shows "map_of (gc_entries K t) = chunk_view K t" "distinct (map fst (gc_entries K t))"
    "set (map fst (gc_entries K t)) = dom (chunk_view K t)"
proof -
  show *: "map_of (gc_entries K t) = chunk_view K t"
    using assms by (auto simp: gc_entries_def map_of_keyed map_of_kv_iter chunk_view_def)
  show "distinct (map fst (gc_entries K t))"
    unfolding gc_entries_def using distinct_kv_iter [OF assms] by (rule distinct_keyed)
  show "set (map fst (gc_entries K t)) = dom (chunk_view K t)"
    unfolding * [symmetric] by (simp add: dom_map_of_conv_image_fst)
qed

lemma gc_marks_view:
  assumes "redb_laws K"
  shows "map_of (gc_marks K t) = mark_view K t" "distinct (map fst (gc_marks K t))"
    "set (map fst (gc_marks K t)) = dom (mark_view K t)"
proof -
  show *: "map_of (gc_marks K t) = mark_view K t"
    using assms by (auto simp: gc_marks_def map_of_keyed map_of_kv_iter mark_view_def)
  show "distinct (map fst (gc_marks K t))"
    unfolding gc_marks_def using distinct_kv_iter [OF assms] by (rule distinct_keyed)
  show "set (map fst (gc_marks K t)) = dom (mark_view K t)"
    unfolding * [symmetric] by (simp add: dom_map_of_conv_image_fst)
qed

text \<open>A chunk is collectable when no snapshot references it, and due when in addition its mark is at
  least the grace period old.\<close>

definition zero_ref :: "(chunk_id \<rightharpoonup> index_entry) \<Rightarrow> chunk_id \<Rightarrow> bool" where
  "zero_ref entries cid = (case entries cid of Some e \<Rightarrow> refcount e = 0 | None \<Rightarrow> False)"

definition gc_due :: "i64 \<Rightarrow> i64 \<Rightarrow> (chunk_id \<rightharpoonup> index_entry) \<Rightarrow> (chunk_id \<rightharpoonup> i64) \<Rightarrow> chunk_id \<Rightarrow> bool" where
  "gc_due now_ms grace_ms entries marks cid \<longleftrightarrow> zero_ref entries cid \<and>
     (case marks cid of Some m \<Rightarrow> sint grace_ms \<le> sint (i64_saturating_sub now_ms m) | None \<Rightarrow> False)"

lemma gc_reconcile_spec:
  assumes "gc_reconcile now grace entries existing cids = (del, rm, pending)"
  shows "map fst del = filter (gc_due now grace entries existing) cids \<and>
    rm = filter (\<lambda>c. c \<in> dom existing \<and> (zero_ref entries c \<longrightarrow> gc_due now grace entries existing c)) cids \<and>
    (\<forall>(c, n)\<in>set del. \<exists>e. entries c = Some e \<and> n = chunk_len e) \<and>
    pending = length (filter (\<lambda>c. c \<in> dom existing \<and> zero_ref entries c \<and> \<not> gc_due now grace entries existing c) cids)"
  using assms
proof (induction cids arbitrary: del rm pending)
  case (Cons c cids)
  obtain del' rm' pending' where r: "gc_reconcile now grace entries existing cids = (del', rm', pending')"
    by (metis prod_cases3)
  from Cons.IH [OF r] Cons.prems r show ?case
    by (cases "existing c"; cases "entries c")
      (auto simp: gc_due_def zero_ref_def domIff split: if_splits)
qed simp

lemma gc_new_marks_spec: "gc_new_marks entries existing cids = filter (\<lambda>c. zero_ref entries c \<and> c \<notin> dom existing) cids"
  by (auto simp: gc_new_marks_def zero_ref_def domIff intro!: filter_cong split: option.splits)

lemma gc_unlink_other:
  "c \<notin> set (map fst del) \<Longrightarrow>
   map_of (fst (gc_unlink F objs del)) (object_path c) = map_of objs (object_path c)"
  by (induction F objs del rule: gc_unlink.induct) (auto simp: Let_def split: prod.splits sum.splits)

lemma gc_unlink_Ok:
  "gc_unlink F objs del = (objs', Ok (cs, n)) \<Longrightarrow> cs = map fst del \<and> n = sum_list (map snd del)"
  by (induction F objs del arbitrary: cs n objs' rule: gc_unlink.induct)
    (fastforce simp: Let_def split: if_splits prod.splits sum.splits)+

lemma gc_unlink_gone:
  "gc_unlink F objs del = (objs', Ok (cs, n)) \<Longrightarrow> c \<in> set (map fst del) \<or> map_of objs (object_path c) = None \<Longrightarrow>
   map_of objs' (object_path c) = None"
proof (induction F objs del arbitrary: cs n objs' rule: gc_unlink.induct)
  case (2 F objs d len rest)
  from "2.prems"(1) obtain cs2 n2 where ok: "\<not> fails F (RemoveFile (object_path d))"
    and u: "gc_unlink F (AList.delete (object_path d) objs) rest = (objs', Ok (cs2, n2))"
    by (auto simp: Let_def split: if_splits prod.splits sum.splits)
  have "c \<in> set (map fst rest) \<or> map_of (AList.delete (object_path d) objs) (object_path c) = None"
    using "2.prems"(2) by auto
  from "2.IH" [OF refl ok u this] show ?case .
qed auto

text \<open>The abstract collection: which entries and marks remain.\<close>

definition gc_marks_after :: "i64 \<Rightarrow> i64 \<Rightarrow> (chunk_id \<rightharpoonup> index_entry) \<Rightarrow> (chunk_id \<rightharpoonup> i64) \<Rightarrow> chunk_id \<rightharpoonup> i64" where
  "gc_marks_after now_ms grace_ms entries marks cid =
     (if \<not> zero_ref entries cid \<or> gc_due now_ms grace_ms entries marks cid then None
      else case marks cid of None \<Rightarrow> Some now_ms | Some m \<Rightarrow> Some m)"

abbreviation gc_due_in :: "'t redb \<Rightarrow> 't store \<Rightarrow> i64 \<Rightarrow> duration \<Rightarrow> chunk_id \<Rightarrow> bool" where
  "gc_due_in K s now_ms grace \<equiv>
     gc_due now_ms (i64_try_from_or_max (as_millis grace)) (entries_of K s) (marks_of K s)"

lemma gc_txn_cases:
  assumes "gc_txn K ho F s now_ms grace = (s', r)"
  obtains (failed) "s' = s" "r = Err Index"
  | (swept) del rm pending ins d' where
      "gc_reconcile now_ms (i64_try_from_or_max (as_millis grace))
         (map_of (gc_entries K (chunks_t (index_db s)))) (map_of (gc_marks K (gc_marks_t (index_db s))))
         (ho (map fst (gc_marks K (gc_marks_t (index_db s))))) = (del, rm, pending)"
      "ins = gc_new_marks (map_of (gc_entries K (chunks_t (index_db s))))
         (map_of (gc_marks K (gc_marks_t (index_db s)))) (ho (map fst (gc_entries K (chunks_t (index_db s)))))"
      "r = Ok (del, pending + length ins)" "s' = s\<lparr>index_db := d'\<rparr>"
      "d' = (index_db s)\<lparr>chunks_t := kv_remove_all K (chunks_t (index_db s)) (map (chunk_id_as_bytes \<circ> fst) del),
          gc_marks_t := kv_insert_all K (kv_remove_all K (gc_marks_t (index_db s)) (map chunk_id_as_bytes rm))
             (map chunk_id_as_bytes ins) (le_bytes 8 now_ms),
          status_meta_t := kv_insert K (status_meta_t (index_db s)) LAST_GC_KEY (le_bytes 8 now_ms)\<rparr>"
proof -
  obtain del rm pending where rec: "gc_reconcile now_ms (i64_try_from_or_max (as_millis grace))
         (map_of (gc_entries K (chunks_t (index_db s)))) (map_of (gc_marks K (gc_marks_t (index_db s))))
         (ho (map fst (gc_marks K (gc_marks_t (index_db s))))) = (del, rm, pending)"
    by (metis prod_cases3)
  from assms show thesis
    unfolding gc_txn_def Let_def rec prod.case
    by (auto split: if_splits intro: failed swept [OF rec refl])
qed

lemma chunk_view_remove_all:
  "redb_laws K \<Longrightarrow> chunk_view K (kv_remove_all K t (map (chunk_id_as_bytes \<circ> fst) del)) c =
   (if c \<in> set (map fst del) then None else chunk_view K t c)"
  by (force simp: chunk_view_def)

lemma mark_view_update_all:
  "redb_laws K \<Longrightarrow> mark_view K (kv_insert_all K (kv_remove_all K t (map chunk_id_as_bytes rm))
      (map chunk_id_as_bytes ins) (le_bytes 8 now_ms)) c =
   (if c \<in> set ins then Some now_ms else if c \<in> set rm then None else mark_view K t c)"
  by (auto simp: mark_view_def)

lemma zero_ref_dom: "zero_ref entries c \<Longrightarrow> c \<in> dom entries"
  by (auto simp: zero_ref_def split: option.splits)

lemma gc_due_dom: "gc_due now_ms grace_ms entries marks c \<Longrightarrow> zero_ref entries c \<and> c \<in> dom marks"
  by (auto simp: gc_due_def split: option.splits)

lemma gc_txn_lists:
  assumes K: "redb_laws K" and ho: "hash_order ho"
    and "gc_txn K ho F s now_ms grace = (s', Ok (del, n))"
  obtains rm young ins where
    "distinct (map fst del)" "set (map fst del) = {c. gc_due_in K s now_ms grace c}"
    "\<And>c m. (c, m) \<in> set del \<Longrightarrow> \<exists>e. entries_of K s c = Some e \<and> m = chunk_len e"
    "set rm = {c \<in> dom (marks_of K s). zero_ref (entries_of K s) c \<longrightarrow> gc_due_in K s now_ms grace c}"
    "distinct young" "set young = {c \<in> dom (marks_of K s). zero_ref (entries_of K s) c \<and> \<not> gc_due_in K s now_ms grace c}"
    "distinct ins" "set ins = {c. zero_ref (entries_of K s) c \<and> c \<notin> dom (marks_of K s)}"
    "n = length young + length ins"
    "s' = s\<lparr>index_db := (index_db s)\<lparr>
          chunks_t := kv_remove_all K (chunks_t (index_db s)) (map (chunk_id_as_bytes \<circ> fst) del),
          gc_marks_t := kv_insert_all K (kv_remove_all K (gc_marks_t (index_db s)) (map chunk_id_as_bytes rm))
             (map chunk_id_as_bytes ins) (le_bytes 8 now_ms),
          status_meta_t := kv_insert K (status_meta_t (index_db s)) LAST_GC_KEY (le_bytes 8 now_ms)\<rparr>\<rparr>"
  using assms(3)
proof (cases rule: gc_txn_cases)
  case (swept del' rm pending ins d')
  note ev = gc_entries_view [OF K] and mv = gc_marks_view [OF K]
  let ?E = "ho (map fst (gc_entries K (chunks_t (index_db s))))"
  let ?M = "ho (map fst (gc_marks K (gc_marks_t (index_db s))))"
  have ordE: "set ?E = dom (entries_of K s)" "distinct ?E"
    using hash_orderD [OF ho, of "map fst (gc_entries K (chunks_t (index_db s)))"] ev(2,3) by metis+
  have ordM: "set ?M = dom (marks_of K s)" "distinct ?M"
    using hash_orderD [OF ho, of "map fst (gc_marks K (gc_marks_t (index_db s)))"] mv(2,3) by metis+
  note rec = gc_reconcile_spec [OF swept(1) [unfolded ev(1) mv(1)]]
  note ins = swept(2) [unfolded ev(1) mv(1) gc_new_marks_spec]
  have "map fst del = filter (gc_due_in K s now_ms grace) ?M" using rec swept(3) by simp
  then have "distinct (map fst del)" "set (map fst del) = {c. gc_due_in K s now_ms grace c}"
    using ordM gc_due_dom by (simp, force)
  moreover have "\<exists>e. entries_of K s c = Some e \<and> m = chunk_len e" if "(c, m) \<in> set del" for c m
    using rec swept(3) that by auto
  moreover have "set ins = {c. zero_ref (entries_of K s) c \<and> c \<notin> dom (marks_of K s)}" "distinct ins"
    unfolding ins set_filter ordE(1) using zero_ref_dom ordE(2) by auto
  moreover have "{x \<in> dom (marks_of K s). gc_due_in K s now_ms grace x} = Collect (gc_due_in K s now_ms grace)"
    using gc_due_dom by blast
  ultimately show thesis
    using rec swept(3-) ordM
    by (intro that [of rm "filter (\<lambda>c. c \<in> dom (marks_of K s) \<and> zero_ref (entries_of K s) c \<and>
         \<not> gc_due_in K s now_ms grace c) ?M" ins]) simp_all
qed simp

lemma gc_txn_Ok:
  assumes K: "redb_laws K" and ho: "hash_order ho"
    and "gc_txn K ho F s now_ms grace = (s', Ok (del, n))"
  shows "distinct (map fst del)" "set (map fst del) = {c. gc_due_in K s now_ms grace c}"
    "\<And>c m. (c, m) \<in> set del \<Longrightarrow> \<exists>e. entries_of K s c = Some e \<and> m = chunk_len e"
    "entries_of K s' = (\<lambda>c. if gc_due_in K s now_ms grace c then None else entries_of K s c)"
    "marks_of K s' = gc_marks_after now_ms (i64_try_from_or_max (as_millis grace)) (entries_of K s) (marks_of K s)"
    "objects s' = objects s"
    "snapshots_t (index_db s') = snapshots_t (index_db s)"
    "snapshot_refs_t (index_db s') = snapshot_refs_t (index_db s)"
    "dom (kv_get K (chunks_t (index_db s'))) \<subseteq> dom (kv_get K (chunks_t (index_db s)))"
    "n = card {c. zero_ref (entries_of K s) c \<and> \<not> gc_due_in K s now_ms grace c}"
proof -
  obtain rm young ins where
    del: "distinct (map fst del)" "set (map fst del) = {c. gc_due_in K s now_ms grace c}"
    and len: "\<And>c m. (c, m) \<in> set del \<Longrightarrow> \<exists>e. entries_of K s c = Some e \<and> m = chunk_len e"
    and rm: "set rm = {c \<in> dom (marks_of K s). zero_ref (entries_of K s) c \<longrightarrow> gc_due_in K s now_ms grace c}"
    and young: "distinct young"
      "set young = {c \<in> dom (marks_of K s). zero_ref (entries_of K s) c \<and> \<not> gc_due_in K s now_ms grace c}"
    and ins: "distinct ins" "set ins = {c. zero_ref (entries_of K s) c \<and> c \<notin> dom (marks_of K s)}"
    and n: "n = length young + length ins"
    and s': "s' = s\<lparr>index_db := (index_db s)\<lparr>
          chunks_t := kv_remove_all K (chunks_t (index_db s)) (map (chunk_id_as_bytes \<circ> fst) del),
          gc_marks_t := kv_insert_all K (kv_remove_all K (gc_marks_t (index_db s)) (map chunk_id_as_bytes rm))
             (map chunk_id_as_bytes ins) (le_bytes 8 now_ms),
          status_meta_t := kv_insert K (status_meta_t (index_db s)) LAST_GC_KEY (le_bytes 8 now_ms)\<rparr>\<rparr>"
    by (rule gc_txn_lists [OF assms]) (rule that)
  show "distinct (map fst del)" "set (map fst del) = {c. gc_due_in K s now_ms grace c}"
    "\<And>c m. (c, m) \<in> set del \<Longrightarrow> \<exists>e. entries_of K s c = Some e \<and> m = chunk_len e"
    by (fact del len)+
  show "entries_of K s' = (\<lambda>c. if gc_due_in K s now_ms grace c then None else entries_of K s c)"
    using K del by (simp add: s' chunk_view_remove_all fun_eq_iff del: set_map)
  have "marks_of K s' c =
      gc_marks_after now_ms (i64_try_from_or_max (as_millis grace)) (entries_of K s) (marks_of K s) c" for c
    using K gc_due_dom [of now_ms _ "entries_of K s" "marks_of K s" c]
    by (cases "marks_of K s c") (auto simp: s' mark_view_update_all ins rm gc_marks_after_def)
  then show "marks_of K s' =
      gc_marks_after now_ms (i64_try_from_or_max (as_millis grace)) (entries_of K s) (marks_of K s)" ..
  show "objects s' = objects s" "snapshots_t (index_db s') = snapshots_t (index_db s)"
    "snapshot_refs_t (index_db s') = snapshot_refs_t (index_db s)" by (simp_all add: s')
  show "dom (kv_get K (chunks_t (index_db s'))) \<subseteq> dom (kv_get K (chunks_t (index_db s)))"
    using K by (auto simp: s' split: if_splits)
  have "set (young @ ins) = {c. zero_ref (entries_of K s) c \<and> \<not> gc_due_in K s now_ms grace c}"
    unfolding set_append young ins using gc_due_dom by blast
  moreover have "distinct (young @ ins)" using young ins by auto
  ultimately show "n = card {c. zero_ref (entries_of K s) c \<and> \<not> gc_due_in K s now_ms grace c}"
    using n distinct_card [of "young @ ins"] by simp
qed

section \<open>Collection properties\<close>

lemma gc_cases:
  assumes "gc K ho F s now_ms grace = (s', r)"
  obtains (failed) "s' = s" "r = Err Index"
  | (swept) s1 del n objs where "gc_txn K ho F s now_ms grace = (s1, Ok (del, n))"
      "s' = s1\<lparr>objects := objs\<rparr>" "objs = fst (gc_unlink F (objects s1) del)"
      "r = (case snd (gc_unlink F (objects s1) del) of Err e \<Rightarrow> Err e
            | Ok (cids, nbytes) \<Rightarrow> Ok \<lparr>go_reclaimed = cids, go_bytes_reclaimed = nbytes, go_pending = n\<rparr>)"
proof -
  obtain s1 r1 where t: "gc_txn K ho F s now_ms grace = (s1, r1)" by force
  show thesis
  proof (cases r1)
    case (Inl e)
    from t Inl show thesis
      by (cases rule: gc_txn_cases) (use assms t Inl failed in \<open>auto simp: gc_def\<close>)
  next
    case (Inr p)
    obtain del n where p: "p = (del, n)" by force
    obtain objs r2 where u: "gc_unlink F (objects s1) del = (objs, r2)" by force
    show thesis
      using assms t Inr p u by (intro swept [of s1 del n objs]) (auto simp: gc_def split: sum.splits)
  qed
qed

lemma gc_keeps:
  assumes K: "redb_laws K" and ho: "hash_order ho" and "gc K ho F s now_ms grace = (s', r)"
    and "\<not> gc_due_in K s now_ms grace c"
  shows "entries_of K s' c = entries_of K s c \<and>
    map_of (objects s') (object_path c) = map_of (objects s) (object_path c)"
  using assms(3)
proof (cases rule: gc_cases)
  case (swept s1 del n objs)
  note ok = gc_txn_Ok [OF K ho swept(1)]
  have "c \<notin> set (map fst del)" using ok(2) assms(4) by blast
  then show ?thesis using swept ok(4,6) assms(4) gc_unlink_other [of c del F "objects s1"] by simp
qed simp

lemma store_inv_gc:
  assumes K: "redb_laws K" and ho: "hash_order ho" and inv: "store_inv K H s"
    and "gc K ho F s now_ms grace = (s', r)"
  shows "store_inv K H s'"
  using assms(4)
proof (cases rule: gc_cases)
  case failed
  then show ?thesis using inv by simp
next
  case (swept s1 del n objs)
  note ok = gc_txn_Ok [OF K ho swept(1)]
  show ?thesis
  proof
    show "tables_ok K (index_db s')"
      using swept(2) ok(7,8,9) store_invD(1) [OF inv] by (auto simp: tables_ok_def subset_iff)
    have "count_ok (if gc_due_in K s now_ms grace c then None else entries_of K s c) (refs_held K s c)" for c
      using store_invD(4) [OF inv, of c] gc_due_dom [of now_ms _ "entries_of K s" "marks_of K s" c]
      by (auto simp: count_ok_def zero_ref_def split: option.splits)
    then show "refs_ok K (index_db s')"
      using swept(2) ok(4,8) by (simp add: refs_ok_def)
    have "blob_ok H c (entries_of K s' c) (map_of (objects s') (object_path c))" for c
      using swept(2) ok(4) gc_keeps [OF K ho assms(4), of c] store_invD(5) [OF inv, of c]
      by (cases "gc_due_in K s now_ms grace c") simp_all
    then show "blobs_ok K H s'" by (simp add: blobs_ok_def)
  qed
qed

lemma gc_Ok:
  assumes K: "redb_laws K" and ho: "hash_order ho" and "gc K ho F s now_ms grace = (s', Ok out)"
  shows "set (go_reclaimed out) = {c. gc_due_in K s now_ms grace c} \<and> distinct (go_reclaimed out) \<and>
    go_bytes_reclaimed out = sum_list (map (\<lambda>c. chunk_len (the (entries_of K s c))) (go_reclaimed out)) \<and>
    go_pending out = card {c. zero_ref (entries_of K s) c \<and> \<not> gc_due_in K s now_ms grace c} \<and>
    entries_of K s' = (\<lambda>c. if gc_due_in K s now_ms grace c then None else entries_of K s c) \<and>
    marks_of K s' = gc_marks_after now_ms (i64_try_from_or_max (as_millis grace)) (entries_of K s) (marks_of K s) \<and>
    (\<forall>c. map_of (objects s') (object_path c) =
       (if gc_due_in K s now_ms grace c then None else map_of (objects s) (object_path c)))"
  using assms(3)
proof (cases rule: gc_cases)
  case (swept s1 del n objs)
  note ok = gc_txn_Ok [OF K ho swept(1)]
  obtain cs nb where u: "gc_unlink F (objects s1) del = (objs, Ok (cs, nb))"
    and out: "out = \<lparr>go_reclaimed = cs, go_bytes_reclaimed = nb, go_pending = n\<rparr>"
    using swept(3,4) by (cases "gc_unlink F (objects s1) del") (auto split: sum.splits)
  have cs: "cs = map fst del" "nb = sum_list (map snd del)" using gc_unlink_Ok [OF u] by simp_all
  have "map snd del = map (\<lambda>c. chunk_len (the (entries_of K s c))) cs"
    unfolding cs map_map using ok(3) by (intro map_cong) force+
  then have "nb = sum_list (map (\<lambda>c. chunk_len (the (entries_of K s c))) cs)" using cs(2) by simp
  moreover have "map_of objs (object_path c) = None" if "gc_due_in K s now_ms grace c" for c
    using gc_unlink_gone [OF u, of c] ok(2) that by blast
  ultimately show ?thesis
    using ok(1,2,4,5,10) cs(1) out swept(2) gc_keeps [OF K ho assms(3)] by auto
qed simp

text \<open>C10: The collector's functional specification. A run that succeeds reclaims exactly the chunks
  that have no references and whose mark is at least the grace period old: their index entries and
  object files are gone and their lengths are summed. Every other chunk keeps entry and file.
  Afterwards exactly the unreferenced survivors are marked, newly at \<open>now_ms\<close> or with the mark they
  had, and \<open>pending\<close> counts them.\<close>

theorem gc_reclaims_exactly_due:
  assumes "redb_laws K" and "hash_order ho" and "gc K ho F s now_ms grace = (s', Ok out)"
  shows "set (go_reclaimed out) = {c. gc_due_in K s now_ms grace c} \<and> distinct (go_reclaimed out) \<and>
    go_bytes_reclaimed out = sum_list (map (\<lambda>c. chunk_len (the (entries_of K s c))) (go_reclaimed out)) \<and>
    go_pending out = card {c. zero_ref (entries_of K s) c \<and> \<not> gc_due_in K s now_ms grace c} \<and>
    entries_of K s' = (\<lambda>c. if gc_due_in K s now_ms grace c then None else entries_of K s c) \<and>
    marks_of K s' = gc_marks_after now_ms (i64_try_from_or_max (as_millis grace)) (entries_of K s) (marks_of K s) \<and>
    (\<forall>c. map_of (objects s') (object_path c) =
       (if gc_due_in K s now_ms grace c then None else map_of (objects s) (object_path c)))"
  by (rule gc_Ok [OF assms])

text \<open>C6: Collection is safe, whatever faults occur and whether or not the run succeeds: a chunk with a
  reference, or one that no earlier run marked (a fresh upload), or one whose mark is younger than the
  grace period keeps its index entry and reads exactly as before.\<close>

theorem gc_spares_live_chunks:
  assumes "redb_laws K" and "hash_order ho" and "gc K ho F s now_ms grace = (s', r)"
    and "entries_of K s c = Some e"
    and "refcount e \<noteq> 0 \<or> marks_of K s c = None \<or>
      sint (i64_saturating_sub now_ms (the (marks_of K s c))) < sint (i64_try_from_or_max (as_millis grace))"
  shows "entries_of K s' c = Some e \<and> get_chunk K H F' s' c = get_chunk K H F' s c"
proof -
  have "\<not> gc_due_in K s now_ms grace c"
    using assms(4,5) by (auto simp: gc_due_def zero_ref_def split: option.splits)
  from gc_keeps [OF assms(1-3) this] assms(4) show ?thesis by (auto intro!: get_chunk_cong)
qed

lemma gc_first_run:
  assumes "redb_laws K" and "hash_order ho" and "gc K ho F s t1 grace = (s1, Ok out1)"
    and "entries_of K s c = Some e" and "refcount e = 0" and "marks_of K s c = None"
  shows "entries_of K s1 c = Some e \<and> marks_of K s1 c = Some t1"
proof -
  have "\<not> gc_due_in K s t1 grace c" "zero_ref (entries_of K s) c"
    using assms(4-6) by (simp_all add: gc_due_def zero_ref_def)
  then show ?thesis using gc_Ok [OF assms(1-3)] assms(4,6) by (simp add: gc_marks_after_def)
qed

text \<open>C23: The grace period. An unreferenced, unmarked chunk survives the first collection at \<open>t1\<close> and is
  marked then. If nothing touches its entry and mark before a second collection at \<open>t2\<close>, that one
  reclaims it, entry and file, exactly when the grace period has passed; otherwise it stays.\<close>

theorem gc_grace_period:
  assumes "redb_laws K" and "hash_order ho"
    and "gc K ho F s t1 grace = (s1, Ok out1)"
    and "entries_of K s c = Some e" and "refcount e = 0" and "marks_of K s c = None"
    and "entries_of K s2 c = entries_of K s1 c" and "marks_of K s2 c = marks_of K s1 c"
    and "gc K ho F' s2 t2 grace' = (s3, Ok out2)"
  shows "c \<notin> set (go_reclaimed out1) \<and>
    (c \<in> set (go_reclaimed out2) \<longleftrightarrow>
       sint (i64_try_from_or_max (as_millis grace')) \<le> sint (i64_saturating_sub t2 t1)) \<and>
    (c \<in> set (go_reclaimed out2) \<longleftrightarrow> entries_of K s3 c = None) \<and>
    (c \<in> set (go_reclaimed out2) \<longrightarrow> map_of (objects s3) (object_path c) = None)"
proof -
  note run1 = gc_Ok [OF assms(1-3)] and first = gc_first_run [OF assms(1-6)]
  note run2 = gc_Ok [OF assms(1,2,9)]
  have "gc_due_in K s2 t2 grace' c \<longleftrightarrow>
      sint (i64_try_from_or_max (as_millis grace')) \<le> sint (i64_saturating_sub t2 t1)"
    using first assms(5,7,8) by (simp add: gc_due_def zero_ref_def)
  then show ?thesis
    using run1 run2 first assms(4-8) by (auto simp: gc_due_def)
qed

section \<open>Witnesses\<close>

lemma gc_txn_no_faults: "\<exists>s' del n. gc_txn K ho no_faults s now_ms grace = (s', Ok (del, n))"
  by (auto simp: gc_txn_def Let_def split: prod.split)

lemma gc_unlink_no_faults: "\<exists>objs' out. gc_unlink no_faults objs del = (objs', Ok out)"
proof (induction del arbitrary: objs)
  case (Cons d del)
  obtain c n where d: "d = (c, n)" by force
  obtain objs' cs nb where "gc_unlink no_faults (AList.delete (object_path c) objs) del = (objs', Ok (cs, nb))"
    using Cons.IH [of "AList.delete (object_path c) objs"] by auto
  then show ?case by (simp add: d)
qed simp

lemma gc_no_faults: "\<exists>s' out. gc K ho no_faults s now_ms grace = (s', Ok out)"
proof -
  obtain s1 del n where t: "gc_txn K ho no_faults s now_ms grace = (s1, Ok (del, n))"
    using gc_txn_no_faults by metis
  obtain objs cs nb where u: "gc_unlink no_faults (objects s1) del = (objs, Ok (cs, nb))"
    using gc_unlink_no_faults by (metis surj_pair)
  show ?thesis by (simp add: gc_def t u)
qed

lemma gc_no_faults_eq:
  "gc K ho no_faults s now_ms grace =
     (fst (gc K ho no_faults s now_ms grace), Ok (projr (snd (gc K ho no_faults s now_ms grace))))"
  using gc_no_faults [of K ho s now_ms grace] by auto

lemma hash_order_id: "hash_order id"
  by (simp add: hash_order_def)

lemma demo_marks: "marks_of rbt_redb demo_store = Map.empty"
  using rbt_redb_laws
  by (cases rule: put_chunk_cases [OF demo_put_eq]) (auto simp: mark_view_def empty_store_def)

definition demo_gc :: "(bytes, bytes) RBT.rbt store \<times> (store_error + gc_outcome)" where
  "demo_gc = gc rbt_redb id no_faults demo_store 100 (from_millis 5)"

definition demo_gc2 :: "i64 \<Rightarrow> (bytes, bytes) RBT.rbt store \<times> (store_error + gc_outcome)" where
  "demo_gc2 now = gc rbt_redb id no_faults (fst demo_gc) now (from_millis 5)"

lemma demo_gc_eq:
  "gc rbt_redb id no_faults demo_store 100 (from_millis 5) = (fst demo_gc, Ok (projr (snd demo_gc)))"
  unfolding demo_gc_def by (rule gc_no_faults_eq)

lemma demo_gc2_eq:
  "gc rbt_redb id no_faults (fst demo_gc) now (from_millis 5) = (fst (demo_gc2 now), Ok (projr (snd (demo_gc2 now))))"
  unfolding demo_gc2_def by (rule gc_no_faults_eq)

lemma demo_first_run:
  "entries_of rbt_redb (fst demo_gc) 7 = Some \<lparr>chunk_len = 3, refcount = 0\<rparr> \<and>
   marks_of rbt_redb (fst demo_gc) 7 = Some 100"
  using gc_first_run [OF rbt_redb_laws hash_order_id demo_gc_eq]
  by (simp add: demo_entries demo_marks)

theorem gc_reclaims_exactly_due_witness:
  "go_reclaimed (projr (snd demo_gc)) = [] \<and> marks_of rbt_redb (fst demo_gc) 7 = Some 100"
  using gc_reclaims_exactly_due [OF rbt_redb_laws hash_order_id demo_gc_eq]
  by (simp add: demo_entries demo_marks gc_due_def gc_marks_after_def zero_ref_def)

lemma demo_diff: "sint (i64_saturating_sub 104 100) = 4" "sint (i64_saturating_sub 106 100) = 6"
  "sint (i64_try_from_or_max 5) = 5"
  by (simp_all add: i64_saturating_sub_def i64_try_from_or_max_def)

theorem gc_spares_live_chunks_witness:
  "entries_of rbt_redb (fst (demo_gc2 104)) 7 = Some \<lparr>chunk_len = 3, refcount = 0\<rparr>"
  using gc_spares_live_chunks [OF rbt_redb_laws hash_order_id demo_gc2_eq [of 104],
      of 7 "\<lparr>chunk_len = 3, refcount = 0\<rparr>"] demo_first_run
  by (simp add: demo_diff)

theorem gc_grace_period_witness:
  "7 \<in> set (go_reclaimed (projr (snd (demo_gc2 106)))) \<and> entries_of rbt_redb (fst (demo_gc2 106)) 7 = None"
  using gc_grace_period [OF rbt_redb_laws hash_order_id demo_gc_eq _ _ _ refl refl demo_gc2_eq [of 106],
      of 7 "\<lparr>chunk_len = 3, refcount = 0\<rparr>"]
  by (auto simp: demo_entries demo_marks demo_diff)

end
