(* ===== verification/Store_System.thy ===== *)
theory Store_System
  imports Store_GC
begin

text \<open>
  The chunk store as a whole: pruning, the system of all its operations with the invariant every
  reachable store has, and the two interleavings and faults under which the operations do not keep it.
\<close>

section \<open>Prune\<close>

lemma drop_refs_not_NotFound: "drop_refs K F t refs \<noteq> Err (SnapshotNotFound v)"
  by (induction K F t refs rule: drop_refs.induct)
    (auto simp: drop_refs.simps(2) Let_def split: option.splits)

lemma delete_snapshot_NotFound:
  "delete_snapshot K F s u = (s', Err (SnapshotNotFound v)) \<Longrightarrow> s' = s \<and> snapshot_blob K s u = None"
  by (auto simp: delete_snapshot_def Let_def snapshot_blob_def drop_refs_not_NotFound
      split: if_splits sum.splits)

lemma delete_snapshot_cong:
  assumes "redb_laws K" and "delete_snapshot K F s u = (s', r)"
  shows "objects s' = objects s" "v \<noteq> u \<Longrightarrow> snapshot_blob K s' v = snapshot_blob K s v"
    "dom (entries_of K s') = dom (entries_of K s)"
  using assms(2) delete_snapshot_Ok [OF assms(1), of F s u s' "()"]
  by (atomize (full), cases r) (auto elim!: delete_snapshot_cases simp: fun_eq_iff dom_def)

text \<open>The outcomes of one deletion after which the loop goes on.\<close>

definition pruned :: "store_error + unit \<Rightarrow> bool" where
  "pruned r = (case r of Err (SnapshotNotFound _) \<Rightarrow> True | Err _ \<Rightarrow> False | Ok _ \<Rightarrow> True)"

lemma prune_loop_split:
  "prune_loop K Fd s (u # us) = (s', r) \<Longrightarrow>
   \<exists>s1 r1. delete_snapshot K (Fd u) s u = (s1, r1) \<and>
     (pruned r1 \<and> prune_loop K Fd s1 us = (s', r) \<or> s' = s1 \<and> (\<exists>e. r = Err e))"
  by (cases "delete_snapshot K (Fd u) s u") (auto simp: pruned_def split: sum.splits store_error.splits)

lemma store_inv_prune_loop:
  "redb_laws K \<Longrightarrow> store_inv K H s \<Longrightarrow> prune_loop K Fd s us = (s', r) \<Longrightarrow> store_inv K H s'"
proof (induction us arbitrary: s)
  case (Cons u us)
  then obtain s1 r1 where d: "delete_snapshot K (Fd u) s u = (s1, r1)"
    and rest: "prune_loop K Fd s1 us = (s', r) \<or> s' = s1"
    using prune_loop_split [OF Cons.prems(3)] by blast
  have "store_inv K H s1" using store_inv_delete_snapshot [OF Cons.prems(1,2) d] .
  then show ?case using Cons rest by auto
qed simp

lemma prune_loop_Ok:
  "redb_laws K \<Longrightarrow> prune_loop K Fd s us = (s', Ok x) \<Longrightarrow>
   snapshot_blob K s' v = (if v \<in> set us then None else snapshot_blob K s v) \<and>
   objects s' = objects s \<and> dom (entries_of K s') = dom (entries_of K s)"
proof (induction us arbitrary: s)
  case (Cons u us)
  then obtain s1 r1 where d: "delete_snapshot K (Fd u) s u = (s1, r1)"
    and r1: "pruned r1" and rest: "prune_loop K Fd s1 us = (s', Ok x)"
    using prune_loop_split [OF Cons.prems(2)] by blast
  have "snapshot_blob K s1 u = None"
    using r1 d delete_snapshot_Ok [OF Cons.prems(1)] delete_snapshot_NotFound [of K "Fd u" s u s1]
    by (cases r1) (auto simp: pruned_def split: store_error.splits)
  then show ?case
    using Cons.IH [OF Cons.prems(1) rest] delete_snapshot_cong [OF Cons.prems(1) d] by auto
qed simp

lemma record_prune_cases:
  "record_prune K F s now_ms mode = (s', r) \<Longrightarrow>
   s' = s \<and> r = Err Index \<or>
   s' = s\<lparr>index_db := (index_db s)\<lparr>status_meta_t :=
     kv_insert K (status_meta_t (index_db s)) LAST_PRUNE_KEY (encode_prune_event now_ms mode)\<rparr>\<rparr> \<and> r = Ok ()"
  by (auto simp: record_prune_def Let_def split: if_splits)

lemma store_inv_status: "store_inv K H (s\<lparr>index_db := (index_db s)\<lparr>status_meta_t := t\<rparr>\<rparr>) = store_inv K H s"
  by (simp add: store_inv_def tables_ok_def refs_ok_def blobs_ok_def)

lemma prune_cases:
  assumes "prune K ts F Fd s now_ms policy mode = (s', r)"
  obtains (failed) e where "s' = s" "r = Err e"
  | (ran) us s1 r1 where "list_snapshots K F s = Ok us"
      "prune_loop K Fd s (plan_drop (plan now_ms (map (\<lambda>u. (ulid_time_ms ts u, u)) us) policy)) = (s1, r1)"
      "s' = s1 \<and> (\<exists>e. r = Err e) \<or>
       r1 = Ok () \<and> record_prune K F s1 now_ms mode = (s', Ok ()) \<and>
       r = Ok \<lparr>po_kept = plan_keep (plan now_ms (map (\<lambda>u. (ulid_time_ms ts u, u)) us) policy),
          po_dropped = plan_drop (plan now_ms (map (\<lambda>u. (ulid_time_ms ts u, u)) us) policy), po_mode = mode\<rparr>"
proof (cases "list_snapshots K F s")
  case (Inl e)
  then show thesis using assms failed by (auto simp: prune_def)
next
  case (Inr us)
  obtain s1 r1 where l: "prune_loop K Fd s (plan_drop (plan now_ms (map (\<lambda>u. (ulid_time_ms ts u, u)) us) policy)) = (s1, r1)"
    by force
  obtain s2 r2 where p: "record_prune K F s1 now_ms mode = (s2, r2)" by force
  show thesis
    using assms Inr l p record_prune_cases [OF p]
    by (intro ran [OF Inr l]) (cases r1; auto simp: prune_def Let_def)
qed

lemma store_inv_prune:
  assumes "redb_laws K" and "store_inv K H s" and "prune K ts F Fd s now_ms policy mode = (s', r)"
  shows "store_inv K H s'"
  using assms(3)
proof (cases rule: prune_cases)
  case (ran us s1 r1)
  have "store_inv K H s1" using store_inv_prune_loop [OF assms(1,2) ran(2)] .
  then show ?thesis using ran(3) by (auto dest!: record_prune_cases simp: store_inv_status)
qed (use assms in simp)

lemma list_snapshots_mem:
  assumes "redb_laws K" and "list_snapshots K F s = Ok us"
  shows "set us = {u. snapshot_blob K s u \<noteq> None}" "distinct us"
proof -
  let ?ks = "map fst (kv_iter K (snapshots_t (index_db s)))"
  have us: "us = map ulid_from_bytes (filter (\<lambda>raw. length raw = 16) ?ks)"
    using assms(2) by (simp add: list_snapshots_def split: if_splits)
  show "set us = {u. snapshot_blob K s u \<noteq> None}"
    unfolding us uid.set_map_dec keys_kv_iter [OF assms(1)] by (auto simp: snapshot_blob_def)
  show "distinct us" unfolding us by (rule uid.distinct_map_dec [OF distinct_kv_iter [OF assms(1)]])
qed

text \<open>C11: Pruning applies the retention plan and nothing else. When \<open>prune\<close> succeeds, whatever faults it
  met, the snapshots it reports as kept and dropped are the plan's for the listed snapshots at their ULID
  times, they partition what was stored, exactly the kept ones are still stored, with their blobs, no
  chunk leaves the index, no object file changes, and the event is recorded.\<close>

theorem prune_applies_plan:
  assumes "redb_laws K" and "prune K ts F Fd s now_ms policy mode = (s', Ok out)"
  shows "\<exists>us. list_snapshots K no_faults s = Ok us \<and>
    plan now_ms (map (\<lambda>u. (ulid_time_ms ts u, u)) us) policy =
      \<lparr>plan_keep = po_kept out, plan_drop = po_dropped out\<rparr> \<and>
    set (po_kept out) \<union> set (po_dropped out) = {u. snapshot_blob K s u \<noteq> None} \<and>
    set (po_kept out) \<inter> set (po_dropped out) = {} \<and>
    (\<forall>u. snapshot_blob K s' u = (if u \<in> set (po_kept out) then snapshot_blob K s u else None)) \<and>
    dom (entries_of K s') = dom (entries_of K s) \<and> objects s' = objects s \<and>
    Option.bind (kv_get K (status_meta_t (index_db s')) LAST_PRUNE_KEY) decode_prune_event =
      Some \<lparr>pe_at_ms = now_ms, pe_mode = mode\<rparr>"
  using assms(2)
proof (cases rule: prune_cases)
  case (ran us s1 r1)
  let ?p = "plan now_ms (map (\<lambda>u. (ulid_time_ms ts u, u)) us) policy"
  have out: "po_kept out = plan_keep ?p" "po_dropped out = plan_drop ?p" and r1: "r1 = Ok ()"
    and rp: "record_prune K F s1 now_ms mode = (s', Ok ())" using ran(3) by auto
  note us = list_snapshots_mem [OF assms(1) ran(1)]
  have part: "mset (plan_keep ?p) + mset (plan_drop ?p) = mset us"
    using plan_mset [of now_ms "map (\<lambda>u. (ulid_time_ms ts u, u)) us" policy] by (simp add: comp_def)
  have "set (plan_keep ?p) \<union> set (plan_drop ?p) = set us"
    using arg_cong [OF part, of set_mset] by simp
  moreover have "distinct (plan_keep ?p @ plan_drop ?p)"
    using part us(2) mset_eq_imp_distinct_iff [of "plan_keep ?p @ plan_drop ?p" us] by simp
  moreover have "list_snapshots K no_faults s = Ok us"
    using ran(1) by (simp add: list_snapshots_def split: if_splits)
  moreover have "snapshot_blob K s1 u = (if u \<in> set (plan_drop ?p) then None else snapshot_blob K s u)"
    "objects s1 = objects s" "dom (entries_of K s1) = dom (entries_of K s)" for u
    using prune_loop_Ok [OF assms(1) ran(2) [unfolded r1]] by auto
  moreover have "decode_prune_event (encode_prune_event now_ms mode) = Some \<lparr>pe_at_ms = now_ms, pe_mode = mode\<rparr>"
    by (cases mode) (simp_all add: decode_prune_event_def encode_prune_event_def prune_mode_to_byte_def
        prune_mode_from_byte_def le_bytes_inverse nth_append)
  moreover have "index_db s' = (index_db s1)\<lparr>status_meta_t :=
     kv_insert K (status_meta_t (index_db s1)) LAST_PRUNE_KEY (encode_prune_event now_ms mode)\<rparr>" "objects s' = objects s1"
    using record_prune_cases [OF rp] by auto
  ultimately show ?thesis
    using assms(1) us(1) out by (intro exI [of _ us]) (auto simp: snapshot_blob_def)
qed simp

section \<open>All operations together\<close>

text \<open>
  One step is one call of a store operation, or a restart, with arbitrary arguments and arbitrary
  faults; a crash between two effects of an operation is the fault at the later one. Two guards
  restrict the calls: reference counts stay below the 64-bit ceiling, and a rename does not fail over a
  left-over object file with other content.
\<close>

inductive store_step :: "'t redb \<Rightarrow> (ulid \<Rightarrow> u64) \<Rightarrow> (bytes \<Rightarrow> hash32) \<Rightarrow> 't store \<Rightarrow> 't store \<Rightarrow> bool"
  for K ts H where
  step_open: "store_open K F (Some s) = (s', r) \<Longrightarrow> store_step K ts H s s'"
| step_put_chunk: "put_chunk K H F tmp s cid data = (s', r) \<Longrightarrow> rename_sound H F tmp s cid data \<Longrightarrow>
    store_step K ts H s s'"
| step_put_snapshot: "put_snapshot_as K F s u blob refs owner = (s', r) \<Longrightarrow>
    \<forall>cid. refs_held K s cid + count_list refs cid < 2 ^ 64 \<Longrightarrow> store_step K ts H s s'"
| step_delete_snapshot: "delete_snapshot K F s u = (s', r) \<Longrightarrow> store_step K ts H s s'"
| step_delete_chunk: "delete_chunk K F s cid = (s', r) \<Longrightarrow> store_step K ts H s s'"
| step_prune: "prune K ts F Fd s now_ms policy mode = (s', p) \<Longrightarrow> store_step K ts H s s'"
| step_gc: "gc K ho F s now_ms grace = (s', g) \<Longrightarrow> hash_order ho \<Longrightarrow> store_step K ts H s s'"

inductive_cases store_stepE: "store_step K ts H s s'"

lemma store_inv_step:
  assumes "redb_laws K" and "store_inv K H s" and "store_step K ts H s s'"
  shows "store_inv K H s'"
  using assms(3)
proof (cases rule: store_step.cases)
  case (step_open F r)
  then show ?thesis using store_inv_open [OF assms(1), of "Some s" H F] assms(2) by simp
qed (use assms in \<open>blast intro: store_inv_put_chunk store_inv_put_snapshot_as store_inv_delete_snapshot
      store_inv_delete_chunk store_inv_prune store_inv_gc\<close>)+

definition fresh_store :: "'t redb \<Rightarrow> 't store \<Rightarrow> bool" where
  "fresh_store K s \<longleftrightarrow> redb_laws K \<and> s = empty_store K"

interpretation store_sys:
  inductive_invariant "fresh_store K" "store_step K ts H" "\<lambda>s. redb_laws K \<and> store_inv K H s" for K ts H
  by unfold_locales (auto simp: fresh_store_def store_inv_empty intro: store_inv_step)

abbreviation store_reachable :: "'t redb \<Rightarrow> (ulid \<Rightarrow> u64) \<Rightarrow> (bytes \<Rightarrow> hash32) \<Rightarrow> 't store \<Rightarrow> bool" where
  "store_reachable K ts H \<equiv> reachable (fresh_store K) (store_step K ts H)"

lemma refs_of_snapshot_held:
  assumes "redb_laws K" and "c \<in> set (snapshot_refs K s u)"
  shows "0 < refs_held K s c"
proof -
  obtain bs where bs: "kv_get K (snapshot_refs_t (index_db s)) (ulid_to_bytes u) = Some bs"
    and c: "c \<in> set (refs_of_bytes bs)"
    using assms(2) by (cases "kv_get K (snapshot_refs_t (index_db s)) (ulid_to_bytes u)")
      (auto simp: snapshot_refs_def)
  have "count_list (refs_of_bytes bs) c \<noteq> 0" using c by (simp add: count_list_0_iff)
  then show ?thesis using ref_total_remove [OF assms(1) bs, of c] by simp
qed

lemma store_inv_readable:
  assumes "store_inv K H s" and "entries_of K s c = Some e"
  shows "\<exists>d. get_chunk K H no_faults s c = Ok d"
  using store_invD(5) [OF assms(1), of c] assms(2) by (simp add: get_chunk_eq blob_ok_def)


text \<open>C2: Reference counts are exact. In every reachable store the refcount of an indexed chunk equals
  the number of times the stored snapshots reference it, and an unindexed chunk is referenced by none.\<close>

theorem refcounts_exact:
  assumes "store_reachable K ts H s"
  shows "case entries_of K s c of
      Some e \<Rightarrow> unat (refcount e) = refs_held K s c
    | None \<Rightarrow> refs_held K s c = 0"
  using store_sys.reachable_inv [OF assms] store_invD(4) [of K H s c] by (simp add: count_ok_def)


section \<open>Where the invariant breaks\<close>

text \<open>The window between the collector's commit and its unlinks. The write transaction of \<open>gc\<close> ends
  before the object files are removed. If another handler stores a reclaimed chunk again in between,
  the collector then deletes the new file: the chunk is indexed, reads as \<open>MissingBlob\<close>, and storing
  it once more is a no-op, so it does not heal.\<close>

theorem gc_put_race:
  assumes "redb_laws K"
    and "gc_txn K ho no_faults s now_ms grace = (s1, Ok (del, n))" and "c \<in> set (map fst del)"
    and "put_chunk K H no_faults tmp s1 c data = (s2, Ok True)"
    and "gc_unlink no_faults (objects s2) del = (objs, Ok out)"
  shows "get_chunk K H no_faults (s2\<lparr>objects := objs\<rparr>) c = Err (Integrity (MissingBlob c)) \<and>
    put_chunk K H no_faults tmp' (s2\<lparr>objects := objs\<rparr>) c data = (s2\<lparr>objects := objs\<rparr>, Ok False)"
proof -
  obtain cs nb where out: "out = (cs, nb)" by force
  have gone: "map_of objs (object_path c) = None"
    using gc_unlink_gone [OF assms(5) [unfolded out], of c] assms(3) by blast
  have "\<exists>e. entries_of K s2 c = Some e"
    using assms(4) by (cases rule: put_chunk_cases) (use assms(1) in auto)
  then obtain e where e: "entries_of K s2 c = Some e" ..
  then have "kv_get K (chunks_t (index_db s2)) (chunk_id_as_bytes c) \<noteq> None" by (auto simp: chunk_view_def)
  then show ?thesis using gone e by (simp add: get_chunk_eq read_object_def put_chunk_def)
qed

text \<open>A rename that fails over a left-over object file. \<open>write_object\<close> takes an existing destination
  to hold the same bytes and succeeds; the new index entry then describes bytes that are not there, and
  the data reads back only if the left-over file happens to be identical.\<close>

theorem put_chunk_over_leftover:
  assumes "redb_laws K" and "put_chunk K H F tmp s cid data = (s', Ok True)"
    and "fails F (RenameFile (tmp_object tmp cid))"
  shows "get_chunk K H no_faults s' cid = Ok data \<longleftrightarrow>
    map_of (objects s) (object_path cid) = Some (be_bytes 32 (H data) @ data)"
  using assms(2)
proof (cases rule: put_chunk_cases)
  case (stored objs u)
  define e where "e = \<lparr>chunk_len = word_of_nat (length data) :: u64, refcount = 0\<rparr>"
  obtain raw where raw: "map_of (objects s) (object_path cid) = Some raw" "map_of objs (object_path cid) = Some raw"
    using write_object_Ok_keeps [OF stored(2) assms(3)] by auto
  have "get_chunk K H no_faults s' cid = read_object H cid (Some e) (Some raw)"
    using stored raw assms(1) by (simp add: get_chunk_eq e_def)
  moreover have "read_object H cid (Some e) (Some raw) = Ok data \<longleftrightarrow> raw = object_content H data"
    using read_object_Ok [of H cid e raw data] by (auto simp: e_def)
  ultimately show ?thesis using raw by (simp add: object_content_def)
qed simp_all

section \<open>Status\<close>

definition owner_of_key :: "'t redb \<Rightarrow> 't \<Rightarrow> bytes \<Rightarrow> bytes" where
  "owner_of_key K owners k = (case kv_get K owners k of None \<Rightarrow> [] | Some w \<Rightarrow> w)"

lemma count_owner_Cons:
  "count_owner K owners (k # ks) acc =
     (let w = owner_of_key K owners k
      in count_owner K owners ks (acc(w \<mapsto> (case acc w of None \<Rightarrow> 0 | Some n \<Rightarrow> n) + 1)))"
  by (simp add: owner_of_key_def Let_def)

lemma count_owner_spec:
  "count_owner K owners keys acc w =
     (if acc w = None \<and> count_list (map (owner_of_key K owners) keys) w = 0 then None
      else Some ((case acc w of None \<Rightarrow> 0 | Some n \<Rightarrow> n) +
        word_of_nat (count_list (map (owner_of_key K owners) keys) w)))"
  by (induction keys arbitrary: acc)
    (auto simp: count_owner_Cons Let_def simp del: count_owner.simps(2) split: option.split)

definition snapshot_owner :: "'t redb \<Rightarrow> 't store \<Rightarrow> ulid \<Rightarrow> bytes" where
  "snapshot_owner K s u = owner_of_key K (snapshot_owner_t (index_db s)) (ulid_to_bytes u)"

lemma list_snapshots_keys:
  assumes "redb_laws K" and "tables_ok K (index_db s)" and "list_snapshots K F s = Ok us"
  shows "map fst (kv_iter K (snapshots_t (index_db s))) = map ulid_to_bytes us"
proof -
  let ?ks = "map fst (kv_iter K (snapshots_t (index_db s)))"
  have w: "length k = 16" if "k \<in> set ?ks" for k
    using that assms(2) unfolding keys_kv_iter [OF assms(1)] tables_ok_def by blast
  then have "us = map ulid_from_bytes ?ks"
    using assms(3) by (simp add: list_snapshots_def split: if_splits)
  then show ?thesis using w by (simp add: map_idI uid.enc_dec cong: map_cong)
qed

text \<open>The status report counts what is there. In every reachable store it succeeds, its snapshot
  total is the length of the listing, its per-client numbers are how many listed snapshots each client
  owns (the empty name for those without an owner), and its count of collectable chunks is the length
  of \<open>zero_ref_chunks\<close>.\<close>

theorem status_counts:
  assumes "store_reachable K ts H s"
    and "list_snapshots K no_faults s = Ok us" and "zero_ref_chunks K no_faults s = Ok zs"
  shows "\<exists>st. status K no_faults s = Ok st \<and>
    snapshots_total st = word_of_nat (length us) \<and>
    snapshots_by_client st = (\<lambda>w. let n = count_list (map (snapshot_owner K s) us) w
       in if n = 0 then None else Some (word_of_nat n)) \<and>
    zero_ref_count st = word_of_nat (length zs)"
proof -
  have inv: "redb_laws K" "tables_ok K (index_db s)"
    using store_sys.reachable_inv [OF assms(1)] store_invD(1) by auto
  note keys = list_snapshots_keys [OF inv assms(2)]
  have len: "length (kv_iter K (snapshots_t (index_db s))) = length us"
    using arg_cong [OF keys, of length] by simp
  have "length k = CHUNK_ID_LEN" if "(k, v) \<in> set (kv_iter K (chunks_t (index_db s)))" for k v
    using that inv by (auto simp: mem_kv_iter tables_ok_def CHUNK_ID_LEN_def)
  then have "filter (\<lambda>(raw, value). length raw = CHUNK_ID_LEN \<and> refcount (decode_entry value) = 0)
        (kv_iter K (chunks_t (index_db s))) =
      filter (\<lambda>(raw, value). refcount (decode_entry value) = 0) (kv_iter K (chunks_t (index_db s)))"
    by (intro filter_cong) auto
  then have "zs = map (chunk_id_from_bytes \<circ> fst) (filter (\<lambda>(raw, value). refcount (decode_entry value) = 0)
        (kv_iter K (chunks_t (index_db s))))"
    using assms(3) by (simp add: zero_ref_chunks_def)
  then have zs: "length (filter (\<lambda>e. refcount e = 0) (map (decode_entry \<circ> snd) (kv_iter K (chunks_t (index_db s))))) =
      length zs"
    by (simp add: filter_map comp_def case_prod_unfold)
  have owners: "count_owner K (snapshot_owner_t (index_db s)) (map ulid_to_bytes us) Map.empty =
      (\<lambda>w. let n = count_list (map (snapshot_owner K s) us) w in if n = 0 then None else Some (word_of_nat n))"
    by (simp add: count_owner_spec fun_eq_iff comp_def snapshot_owner_def [abs_def] Let_def)
  show ?thesis
    using zs len by (simp add: status_def Let_def keys owners)
qed


section \<open>Witnesses\<close>

definition zero_ts :: "ulid \<Rightarrow> u64" where "zero_ts _ = 0"

lemma demo_reachable: "store_reachable rbt_redb zero_ts zero_hash (fst demo_snapshot)"
proof (rule reachable_step)
  have "reachable (fresh_store rbt_redb) (store_step rbt_redb zero_ts zero_hash) (empty_store rbt_redb)"
    by (rule reachable_init) (simp add: fresh_store_def rbt_redb_laws)
  then show "store_reachable rbt_redb zero_ts zero_hash demo_store"
    by (rule reachable_step) (rule step_put_chunk [OF demo_put_eq], simp add: rename_sound_def)
  have "refs_held rbt_redb demo_store cid = 0" for cid
    using store_invD(4) [OF demo_inv, of cid] by (simp add: demo_entries count_ok_def split: if_splits)
  then show "store_step rbt_redb zero_ts zero_hash demo_store (fst demo_snapshot)"
    by (intro step_put_snapshot [OF demo_snapshot_eq]) simp
qed

lemma demo_refs: "snapshot_refs rbt_redb (fst demo_snapshot) 5 = [7, 7]"
  using put_snapshot_as_Ok(3) [OF rbt_redb_laws demo_snapshot_eq] by simp

lemma demo_counted: "entries_of rbt_redb (fst demo_snapshot) 7 = Some (bump 2 \<lparr>chunk_len = 3, refcount = 0\<rparr>)"
  using put_snapshot_as_Ok(4) [OF rbt_redb_laws demo_snapshot_eq] by (simp add: demo_entries eval_nat_numeral)


theorem refcounts_exact_witness: "refs_held rbt_redb (fst demo_snapshot) 7 = 2"
  using refcounts_exact [OF demo_reachable, of 7] by (simp add: demo_counted)


theorem status_counts_witness:
  "\<exists>st. status rbt_redb no_faults (fst demo_snapshot) = Ok st \<and> snapshots_total st = 1"
proof -
  have l: "list_snapshots rbt_redb no_faults (fst demo_snapshot) = Ok [5]" by code_simp
  obtain zs where "zero_ref_chunks rbt_redb no_faults (fst demo_snapshot) = Ok zs"
    by (simp add: zero_ref_chunks_def)
  then show ?thesis using status_counts [OF demo_reachable l] by auto
qed

lemma prune_loop_no_faults: "\<exists>s'. prune_loop K (\<lambda>_. no_faults) s us = (s', Ok ())"
proof (induction us arbitrary: s)
  case (Cons u us)
  have "snd (delete_snapshot K no_faults s u) = Ok () \<or> snd (delete_snapshot K no_faults s u) = Err (SnapshotNotFound u)"
    by (simp add: delete_snapshot_no_faults)
  then show ?case using Cons.IH by (cases "delete_snapshot K no_faults s u") auto
qed simp

lemma prune_no_faults: "\<exists>s' out. prune K ts no_faults (\<lambda>_. no_faults) s now_ms policy mode = (s', Ok out)"
proof -
  obtain us where us: "list_snapshots K no_faults s = Ok us" by (simp add: list_snapshots_def)
  obtain s1 where "prune_loop K (\<lambda>_. no_faults) s
      (plan_drop (plan now_ms (map (\<lambda>u. (ulid_time_ms ts u, u)) us) policy)) = (s1, Ok ())"
    using prune_loop_no_faults by blast
  then show ?thesis by (simp add: prune_def us Let_def record_prune_def)
qed

definition demo_prune :: "(bytes, bytes) RBT.rbt store \<times> (store_error + prune_outcome)" where
  "demo_prune = prune rbt_redb zero_ts no_faults (\<lambda>_. no_faults) (fst demo_snapshot) 100 default_grid Manual"

theorem prune_applies_plan_witness:
  "set (po_kept (projr (snd demo_prune))) \<union> set (po_dropped (projr (snd demo_prune))) = {5}"
proof -
  have "prune rbt_redb zero_ts no_faults (\<lambda>_. no_faults) (fst demo_snapshot) 100 default_grid Manual =
      (fst demo_prune, Ok (projr (snd demo_prune)))"
    using prune_no_faults [of rbt_redb zero_ts "fst demo_snapshot" 100 default_grid Manual]
    by (auto simp: demo_prune_def)
  moreover have "{u. snapshot_blob rbt_redb (fst demo_snapshot) u \<noteq> None} = {5}"
    using put_snapshot_as_Ok(2) [OF rbt_redb_laws demo_snapshot_eq] by (auto simp: demo_no_snapshots)
  ultimately show ?thesis using prune_applies_plan [OF rbt_redb_laws] by blast
qed

text \<open>The race on the chunk of \<open>demo_gc2 106\<close>: its transaction, an upload, its unlinks.\<close>

definition race_txn :: "(bytes, bytes) RBT.rbt store \<times> (store_error + (chunk_id \<times> u64) list \<times> nat)" where
  "race_txn = gc_txn rbt_redb id no_faults (fst demo_gc) 106 (from_millis 5)"

definition race_put :: "(bytes, bytes) RBT.rbt store \<times> (store_error + bool)" where
  "race_put = put_chunk rbt_redb zero_hash no_faults [0x43] (fst race_txn) 7 [9]"

definition race_store :: "(bytes, bytes) RBT.rbt store" where
  "race_store = (fst race_put)\<lparr>objects := fst (gc_unlink no_faults (objects (fst race_put)) (fst (projr (snd race_txn))))\<rparr>"

lemma put_chunk_no_faults:
  "entries_of K s c = None \<Longrightarrow> snd (put_chunk K H no_faults tmp s c data) = Ok True"
  by (simp add: put_chunk_def Let_def write_object_def chunk_view_def)

theorem gc_put_race_witness:
  "get_chunk rbt_redb zero_hash no_faults race_store 7 = Err (Integrity (MissingBlob 7))"
proof -
  obtain s1 del n where t: "gc_txn rbt_redb id no_faults (fst demo_gc) 106 (from_millis 5) = (s1, Ok (del, n))"
    using gc_txn_no_faults by metis
  note ok = gc_txn_Ok [OF rbt_redb_laws hash_order_id t]
  have due: "gc_due_in rbt_redb (fst demo_gc) 106 (from_millis 5) 7"
    using demo_first_run by (simp add: gc_due_def zero_ref_def demo_diff)
  have put: "put_chunk rbt_redb zero_hash no_faults [0x43] s1 7 [9] = (fst race_put, Ok True)"
    using put_chunk_no_faults [of rbt_redb s1 7 zero_hash "[0x43]" "[9]"] ok(4) due
    by (simp add: race_put_def race_txn_def t prod_eq_iff)
  obtain objs out where u: "gc_unlink no_faults (objects (fst race_put)) del = (objs, Ok out)"
    using gc_unlink_no_faults by metis
  have "race_store = (fst race_put)\<lparr>objects := objs\<rparr>"
    by (simp add: race_store_def race_txn_def t u)
  then show ?thesis using gc_put_race [OF rbt_redb_laws t _ put u] ok(2) due by simp
qed

definition rename_fault :: faults where
  "rename_fault = \<lparr>fails = (\<lambda>x. case x of RenameFile _ \<Rightarrow> True | _ \<Rightarrow> False), partial_write = 0\<rparr>"

definition leftover_store :: "(bytes, bytes) RBT.rbt store" where
  "leftover_store = (empty_store rbt_redb)\<lparr>objects := [(object_path 7, [0])]\<rparr>"

theorem put_chunk_over_leftover_witness:
  "snd (put_chunk rbt_redb zero_hash rename_fault [0x44] leftover_store 7 [1]) = Ok True \<and>
   get_chunk rbt_redb zero_hash no_faults (fst (put_chunk rbt_redb zero_hash rename_fault [0x44] leftover_store 7 [1])) 7
     \<noteq> Ok [1]"
proof -
  have ok: "snd (put_chunk rbt_redb zero_hash rename_fault [0x44] leftover_store 7 [1]) = Ok True" by code_simp
  moreover have "fails rename_fault (RenameFile (tmp_object [0x44] 7))" by (simp add: rename_fault_def)
  moreover have "map_of (objects leftover_store) (object_path 7) \<noteq> Some (be_bytes 32 (zero_hash [1]) @ [1])"
    by (auto simp: leftover_store_def dest: arg_cong [of _ _ length])
  ultimately show ?thesis
    using put_chunk_over_leftover [OF rbt_redb_laws, of zero_hash rename_fault "[0x44]" leftover_store 7 "[1]"
        "fst (put_chunk rbt_redb zero_hash rename_fault [0x44] leftover_store 7 [1])"]
    by (simp add: prod_eq_iff)
qed

end
