(* ===== verification/Service.thy ===== *)
theory Service
  imports Store_System Identity
begin

text \<open>
  The daemon's gRPC service, \<open>crates/busyncr-daemon/src/service.rs\<close>: authentication, status mapping, request
  parsing and the seven handlers over the chunk store and the identity directory.

  \<^item> A \<open>tonic::Status\<close> is its code; message texts are not represented. \<open>TransportStatus\<close> is any code that only the transport
    produces. What TLS hands to a handler is the
    list of certificates the peer presented, if any; a stream is the list of its items.
  \<^item> A \<open>spawn_blocking\<close> task whose \<open>await\<close> fails is one that was cancelled before it ran; panics are not
    modelled. \<open>svc_faults\<close> says which tasks are lost and which file system and redb calls fail in this
    request: \<open>op_F n\<close> belongs to the \<open>n\<close>-th store call of the handler.
\<close>

section \<open>Requests, responses and statuses\<close>

datatype grpc_code = InvalidArgument | NotFound | AlreadyExists | FailedPrecondition | DataLoss | Internal
  | Unauthenticated | PermissionDenied | Unimplemented | TransportStatus nat

record chunk_blob =
  cb_chunk_id :: bytes
  cb_data :: bytes

datatype request =
    EnrollRequest bytes bytes
  | ListSnapshotsRequest
  | HasChunksRequest "bytes list"
  | UploadChunksRequest "(grpc_code + chunk_blob) list"
  | PutManifestRequest bytes bytes "bytes list"
  | GetManifestRequest bytes
  | GetChunksRequest "bytes list"

datatype response =
    EnrollResponse bytes bytes
  | ListSnapshotsResponse "bytes list"
  | HasChunksResponse "bytes list"
  | UploadChunksResponse u64 u64
  | PutManifestResponse
  | GetManifestResponse bytes
  | GetChunksStream "(grpc_code + chunk_blob) list"

type_synonym peer_certs = "bytes list option"

record ('t, 'r) env =
  env_redb :: "'t redb"
  env_hash :: "bytes \<Rightarrow> hash32"
  env_ts :: "ulid \<Rightarrow> u64"
  env_toml :: toml
  env_rcgen :: "'r rcgen"

text \<open>\<open>BusyncrService\<close>, with the identity directory its \<open>auth\<close> field points at.\<close>

record 't service =
  svc_store :: "'t store"
  svc_auth :: "daemon_identity option"
  svc_dir :: id_disk
  auto_prune :: bool

record svc_faults =
  auth_lost :: bool
  auth_F :: id_faults
  enroll_lost :: bool
  token_F :: id_faults
  enroll_F :: id_faults
  owner_lost :: bool
  owner_F :: id_faults
  op_lost :: "nat \<Rightarrow> bool"
  op_F :: "nat \<Rightarrow> faults"
  op_tmp :: "nat \<Rightarrow> bytes"
  prune_lost :: bool
  prune_F :: faults
  prune_Fd :: "ulid \<Rightarrow> faults"
  clock :: "duration option"

definition service_new :: "'t store \<Rightarrow> id_disk \<Rightarrow> 't service" where
  "service_new store dir = \<lparr>svc_store = store, svc_auth = None, svc_dir = dir, auto_prune = False\<rparr>"

definition with_auth :: "'t store \<Rightarrow> daemon_identity \<Rightarrow> id_disk \<Rightarrow> 't service" where
  "with_auth store ident dir = \<lparr>svc_store = store, svc_auth = Some ident, svc_dir = dir, auto_prune = False\<rparr>"

definition with_auto_prune :: "'t service \<Rightarrow> bool \<Rightarrow> 't service" where
  "with_auto_prune svc b = svc\<lparr>auto_prune := b\<rparr>"

definition status_from_identity :: "identity_error \<Rightarrow> grpc_code" where
  "status_from_identity err = (case err of CsrRejected _ \<Rightarrow> InvalidArgument | BadName \<Rightarrow> InvalidArgument
     | NameTaken _ \<Rightarrow> AlreadyExists | _ \<Rightarrow> Internal)"

definition status_from_store :: "store_error \<Rightarrow> grpc_code" where
  "status_from_store err = (case err of ChunkNotFound _ \<Rightarrow> NotFound | SnapshotNotFound _ \<Rightarrow> NotFound
     | SnapshotExists _ \<Rightarrow> AlreadyExists | UnknownChunkRef _ _ \<Rightarrow> FailedPrecondition
     | StillReferenced _ _ \<Rightarrow> FailedPrecondition | Integrity _ \<Rightarrow> DataLoss | ManifestErr _ \<Rightarrow> InvalidArgument
     | _ \<Rightarrow> Internal)"

definition parse_chunk_id :: "bytes \<Rightarrow> grpc_code + chunk_id" where
  "parse_chunk_id bs = (case chunk_id_try_from bs of None \<Rightarrow> Err InvalidArgument | Some c \<Rightarrow> Ok c)"

definition parse_snapshot_id :: "bytes \<Rightarrow> grpc_code + ulid" where
  "parse_snapshot_id bs = (if length bs = 16 then Ok (ulid_from_bytes bs) else Err InvalidArgument)"

definition now_ms :: "duration option \<Rightarrow> i64" where
  "now_ms since_epoch = (case since_epoch of None \<Rightarrow> 0 | Some d \<Rightarrow> i64_try_from_or_max (as_millis d))"

definition peer_fingerprint :: "(bytes \<Rightarrow> hash32) \<Rightarrow> peer_certs \<Rightarrow> bytes option" where
  "peer_fingerprint H certs = (case certs of None \<Rightarrow> None
     | Some cs \<Rightarrow> (case cs of [] \<Rightarrow> None | c # _ \<Rightarrow> Some (hex (be_bytes 32 (H c)))))"

section \<open>Authentication\<close>

definition authenticate :: "('t, 'r) env \<Rightarrow> svc_faults \<Rightarrow> 't service \<Rightarrow> bytes option \<Rightarrow> grpc_code + unit" where
  "authenticate E F svc fingerprint =
     (case svc_auth svc of
        None \<Rightarrow> Ok ()
      | Some _ \<Rightarrow>
         (case fingerprint of
            None \<Rightarrow> Err Unauthenticated
          | Some fp \<Rightarrow>
             if auth_lost F then Err Internal
             else and_then (map_err status_from_identity (client_status (env_toml E) (auth_F F) (svc_dir svc) fp))
                    (\<lambda>st. case st of Active \<Rightarrow> Ok () | Revoked \<Rightarrow> Err PermissionDenied | Unknown \<Rightarrow> Err Unauthenticated)))"

text \<open>\<open>BusyncrService::blocking\<close>, for the \<open>n\<close>-th store call.\<close>

definition blocking :: "svc_faults \<Rightarrow> nat \<Rightarrow> store_error + 'a \<Rightarrow> grpc_code + 'a" where
  "blocking F n r = (if op_lost F n then Err Internal else map_err status_from_store r)"

section \<open>Handlers\<close>

definition enroll :: "('t, 'r) env \<Rightarrow> svc_faults \<Rightarrow> 't service \<Rightarrow> bytes \<Rightarrow> bytes \<Rightarrow> 'r
    \<Rightarrow> ('t service \<times> (grpc_code + response)) \<times> 'r" where
  "enroll E F svc token csr_pem rng =
     (case svc_auth svc of
        None \<Rightarrow> ((svc, Err Unimplemented), rng)
      | Some ident \<Rightarrow>
         if enroll_lost F then ((svc, Err Internal), rng)
         else case consume_token (env_hash E) (token_F F) (svc_dir svc) token of
             (dir1, Err e) \<Rightarrow> ((svc\<lparr>svc_dir := dir1\<rparr>, Err (status_from_identity e)), rng)
           | (dir1, Ok False) \<Rightarrow> ((svc\<lparr>svc_dir := dir1\<rparr>, Err PermissionDenied), rng)
           | (dir1, Ok True) \<Rightarrow>
              (case enroll_client (env_rcgen E) (env_toml E) (env_hash E) (enroll_F F) ident dir1 csr_pem rng of
                 ((dir2, Err e), rng') \<Rightarrow> ((svc\<lparr>svc_dir := dir2\<rparr>, Err (status_from_identity e)), rng')
               | ((dir2, Ok issued), rng') \<Rightarrow>
                  ((svc\<lparr>svc_dir := dir2\<rparr>, Ok (EnrollResponse (ic_cert_pem issued) (ca_cert_pem ident))), rng')))"

definition list_snapshots_rpc :: "('t, 'r) env \<Rightarrow> svc_faults \<Rightarrow> 't service \<Rightarrow> peer_certs \<Rightarrow> grpc_code + response" where
  "list_snapshots_rpc E F svc peer =
     and_then (authenticate E F svc (peer_fingerprint (env_hash E) peer)) (\<lambda>_.
     and_then (blocking F 0 (list_snapshots (env_redb E) (op_F F 0) (svc_store svc))) (\<lambda>ids.
       Ok (ListSnapshotsResponse (map ulid_to_bytes ids))))"

text \<open>The loop of \<open>has_chunks\<close>, inside one blocking task; each lookup is a transaction of its own.\<close>

fun missing_chunks :: "'t redb \<Rightarrow> (nat \<Rightarrow> faults) \<Rightarrow> nat \<Rightarrow> 't store \<Rightarrow> chunk_id list \<Rightarrow> store_error + chunk_id list" where
  "missing_chunks K Fs n s [] = Ok []"
| "missing_chunks K Fs n s (cid # ids) =
     and_then (has_chunk K (Fs n) s cid) (\<lambda>present.
     and_then (missing_chunks K Fs (Suc n) s ids) (\<lambda>missing. Ok (if present then missing else cid # missing)))"

definition has_chunks_rpc :: "('t, 'r) env \<Rightarrow> svc_faults \<Rightarrow> 't service \<Rightarrow> peer_certs \<Rightarrow> bytes list \<Rightarrow> grpc_code + response" where
  "has_chunks_rpc E F svc peer chunk_ids =
     and_then (authenticate E F svc (peer_fingerprint (env_hash E) peer)) (\<lambda>_.
     and_then (collect_results parse_chunk_id chunk_ids) (\<lambda>ids.
     and_then (blocking F 0 (missing_chunks (env_redb E) (op_F F) 0 (svc_store svc) ids)) (\<lambda>missing.
       Ok (HasChunksResponse (map chunk_id_as_bytes missing)))))"

fun upload_loop :: "('t, 'r) env \<Rightarrow> svc_faults \<Rightarrow> nat \<Rightarrow> 't store \<Rightarrow> (grpc_code + chunk_blob) list \<Rightarrow> u64 \<Rightarrow> u64
    \<Rightarrow> 't store \<times> (grpc_code + u64 \<times> u64)" where
  "upload_loop E F n s [] stored already = (s, Ok (stored, already))"
| "upload_loop E F n s (Err e # blobs) stored already = (s, Err e)"
| "upload_loop E F n s (Ok blob # blobs) stored already =
     (case parse_chunk_id (cb_chunk_id blob) of
        Err e \<Rightarrow> (s, Err e)
      | Ok cid \<Rightarrow>
         if op_lost F n then (s, Err Internal)
         else case put_chunk (env_redb E) (env_hash E) (op_F F n) (op_tmp F n) s cid (cb_data blob) of
             (s', Err e) \<Rightarrow> (s', Err (status_from_store e))
           | (s', Ok newly_stored) \<Rightarrow>
              if newly_stored then upload_loop E F (Suc n) s' blobs (stored + 1) already
              else upload_loop E F (Suc n) s' blobs stored (already + 1))"

definition upload_chunks :: "('t, 'r) env \<Rightarrow> svc_faults \<Rightarrow> 't service \<Rightarrow> peer_certs \<Rightarrow> (grpc_code + chunk_blob) list
    \<Rightarrow> 't service \<times> (grpc_code + response)" where
  "upload_chunks E F svc peer blobs =
     (case authenticate E F svc (peer_fingerprint (env_hash E) peer) of
        Err e \<Rightarrow> (svc, Err e)
      | Ok _ \<Rightarrow>
         (case upload_loop E F 0 (svc_store svc) blobs 0 0 of
            (s', r) \<Rightarrow> (svc\<lparr>svc_store := s'\<rparr>, and_then r (\<lambda>(stored, already). Ok (UploadChunksResponse stored already)))))"

text \<open>The best-effort lookup of the client a snapshot is attributed to.\<close>

definition owner_lookup :: "('t, 'r) env \<Rightarrow> svc_faults \<Rightarrow> 't service \<Rightarrow> bytes option \<Rightarrow> bytes option" where
  "owner_lookup E F svc fingerprint =
     (case (svc_auth svc, fingerprint) of
        (Some _, Some fp) \<Rightarrow>
          if owner_lost F then None
          else (case client_name (env_toml E) (owner_F F) (svc_dir svc) fp of Ok nm \<Rightarrow> nm | Err _ \<Rightarrow> None)
      | _ \<Rightarrow> None)"

text \<open>The retention run after a backup and at each tick of \<open>run_prune_timer\<close>: its result is only logged.\<close>

definition auto_prune_run :: "('t, 'r) env \<Rightarrow> svc_faults \<Rightarrow> 't store \<Rightarrow> 't store" where
  "auto_prune_run E F s =
     (if prune_lost F then s
      else fst (prune (env_redb E) (env_ts E) (prune_F F) (prune_Fd F) s (now_ms (clock F)) default_grid Auto))"

definition put_manifest_rpc :: "('t, 'r) env \<Rightarrow> svc_faults \<Rightarrow> 't service \<Rightarrow> peer_certs \<Rightarrow> bytes \<Rightarrow> bytes \<Rightarrow> bytes list
    \<Rightarrow> 't service \<times> (grpc_code + response)" where
  "put_manifest_rpc E F svc peer manifest raw_id chunk_ids =
     (let fingerprint = peer_fingerprint (env_hash E) peer
      in case authenticate E F svc fingerprint of
           Err e \<Rightarrow> (svc, Err e)
         | Ok _ \<Rightarrow>
      (let owner = owner_lookup E F svc fingerprint
       in case parse_snapshot_id raw_id of
            Err e \<Rightarrow> (svc, Err e)
          | Ok snapshot \<Rightarrow>
      (case collect_results parse_chunk_id chunk_ids of
         Err e \<Rightarrow> (svc, Err e)
       | Ok refs \<Rightarrow>
          if op_lost F 0 then (svc, Err Internal)
          else case put_snapshot_as (env_redb E) (op_F F 0) (svc_store svc) snapshot manifest refs owner of
              (s', Err e) \<Rightarrow> (svc\<lparr>svc_store := s'\<rparr>, Err (status_from_store e))
            | (s', Ok _) \<Rightarrow>
               (svc\<lparr>svc_store := (if auto_prune svc then auto_prune_run E F s' else s')\<rparr>, Ok PutManifestResponse))))"

definition get_manifest_rpc :: "('t, 'r) env \<Rightarrow> svc_faults \<Rightarrow> 't service \<Rightarrow> peer_certs \<Rightarrow> bytes \<Rightarrow> grpc_code + response" where
  "get_manifest_rpc E F svc peer raw_id =
     and_then (authenticate E F svc (peer_fingerprint (env_hash E) peer)) (\<lambda>_.
     and_then (parse_snapshot_id raw_id) (\<lambda>snapshot.
     and_then (blocking F 0 (get_manifest_blob (env_redb E) (op_F F 0) (svc_store svc) snapshot)) (\<lambda>blob.
       Ok (GetManifestResponse blob))))"

text \<open>The items the download task sends: it stops after the first error.\<close>

fun download_stream :: "('t, 'r) env \<Rightarrow> (nat \<Rightarrow> faults) \<Rightarrow> nat \<Rightarrow> 't store \<Rightarrow> chunk_id list \<Rightarrow> (grpc_code + chunk_blob) list" where
  "download_stream E Fs n s [] = []"
| "download_stream E Fs n s (cid # ids) =
     (case get_chunk (env_redb E) (env_hash E) (Fs n) s cid of
        Err e \<Rightarrow> [Err (status_from_store e)]
      | Ok data \<Rightarrow> Ok \<lparr>cb_chunk_id = chunk_id_as_bytes cid, cb_data = data\<rparr> # download_stream E Fs (Suc n) s ids)"

definition get_chunks_rpc :: "('t, 'r) env \<Rightarrow> svc_faults \<Rightarrow> 't service \<Rightarrow> peer_certs \<Rightarrow> bytes list \<Rightarrow> grpc_code + response" where
  "get_chunks_rpc E F svc peer chunk_ids =
     and_then (authenticate E F svc (peer_fingerprint (env_hash E) peer)) (\<lambda>_.
     and_then (collect_results parse_chunk_id chunk_ids) (\<lambda>ids.
       Ok (GetChunksStream (if op_lost F 0 then [] else download_stream E (op_F F) 0 (svc_store svc) ids))))"

text \<open>The trait implementation: which handler serves which request.\<close>

definition handle :: "('t, 'r) env \<Rightarrow> svc_faults \<Rightarrow> 't service \<Rightarrow> peer_certs \<Rightarrow> request \<Rightarrow> 'r
    \<Rightarrow> ('t service \<times> (grpc_code + response)) \<times> 'r" where
  "handle E F svc peer req rng =
     (case req of
        EnrollRequest token csr_pem \<Rightarrow> enroll E F svc token csr_pem rng
      | ListSnapshotsRequest \<Rightarrow> ((svc, list_snapshots_rpc E F svc peer), rng)
      | HasChunksRequest ids \<Rightarrow> ((svc, has_chunks_rpc E F svc peer ids), rng)
      | UploadChunksRequest blobs \<Rightarrow> (upload_chunks E F svc peer blobs, rng)
      | PutManifestRequest blob u ids \<Rightarrow> (put_manifest_rpc E F svc peer blob u ids, rng)
      | GetManifestRequest u \<Rightarrow> ((svc, get_manifest_rpc E F svc peer u), rng)
      | GetChunksRequest ids \<Rightarrow> ((svc, get_chunks_rpc E F svc peer ids), rng))"

end
