(* ===== verification/Client_State.thy ===== *)
theory Client_State
  imports Service
begin

text \<open>
  The client's state directory: \<open>crates/busyncr-client/src/enroll.rs\<close> (identity files, the two backup-set keys,
  connecting) and \<open>keys.rs\<close> (keyfile export and import).

  \<^item> The client's file system is the list of its files by directory and name; a call that can fail is a
    \<open>cs_site\<close>. An absent file is reported with the kind \<open>NotFoundKind\<close>, every other failure with \<open>OtherKind\<close>.
  \<^item> Connecting is the argument \<open>dial\<close>: whether the TLS connection to the URL succeeds with the given CA,
    certificate and key. \<open>enroll_call\<close> is the \<open>Enroll\<close> RPC.
\<close>

section \<open>Files\<close>

type_synonym cpath = "bytes \<times> bytes"
type_synonym cdisk = "(cpath \<times> bytes) list"

datatype cs_site = CsStat cpath | CsRead cpath | CsCreateDir bytes | CsCreate cpath | CsWrite cpath | CsChmod cpath
  | CsRename cpath cpath

record cs_faults =
  cs_fails :: "cs_site \<Rightarrow> bool"
  cs_partial :: nat

definition cs_no_faults :: cs_faults where "cs_no_faults = \<lparr>cs_fails = (\<lambda>_. False), cs_partial = 0\<rparr>"

datatype io_kind = NotFoundKind | OtherKind

datatype enroll_error =
    EnIo io_kind cpath
  | Keygen
  | Transport
  | EnRpc grpc_code
  | EnBadResponse string
  | BadDataKey cpath nat

definition CLIENT_KEY_FILE :: bytes where "CLIENT_KEY_FILE = ascii ''client-key.pem''"
definition CLIENT_CERT_FILE :: bytes where "CLIENT_CERT_FILE = ascii ''client-cert.pem''"
definition CLIENT_CA_FILE :: bytes where "CLIENT_CA_FILE = ascii ''ca-cert.pem''"
definition DATA_KEY_FILE :: bytes where "DATA_KEY_FILE = ascii ''data.key''"
definition CHUNK_ID_KEY_FILE :: bytes where "CHUNK_ID_KEY_FILE = ascii ''chunk-id.key''"
definition ENROLLMENT_NAME_FILE :: bytes where "ENROLLMENT_NAME_FILE = ascii ''enrollment-name''"

definition cs_tmp :: "cpath \<Rightarrow> cpath" where
  "cs_tmp path = (fst path, ID_TMP_PREFIX @ (if utf8_valid (snd path) then snd path else ascii ''state''))"

definition cs_write_atomic :: "cs_faults \<Rightarrow> cdisk \<Rightarrow> cpath \<Rightarrow> bytes \<Rightarrow> bool \<Rightarrow> cdisk \<times> (enroll_error + unit)" where
  "cs_write_atomic F d path data restrict =
     (let tmp = cs_tmp path
      in if cs_fails F (CsCreate tmp) then (d, Err (EnIo OtherKind path))
         else if cs_fails F (CsWrite tmp)
         then (AList.update tmp (take (cs_partial F) data) d, Err (EnIo OtherKind path))
         else if restrict \<and> cs_fails F (CsChmod tmp) \<or> cs_fails F (CsRename tmp path)
         then (AList.update tmp data d, Err (EnIo OtherKind path))
         else (AList.update path data (AList.delete tmp d), Ok ()))"

definition cs_create_dir :: "cs_faults \<Rightarrow> bytes \<Rightarrow> enroll_error + unit" where
  "cs_create_dir F dir = (if cs_fails F (CsCreateDir dir) then Err (EnIo OtherKind (dir, [])) else Ok ())"

definition cs_read :: "cs_faults \<Rightarrow> cdisk \<Rightarrow> cpath \<Rightarrow> enroll_error + bytes" where
  "cs_read F d path =
     (if cs_fails F (CsRead path) then Err (EnIo OtherKind path)
      else case map_of d path of None \<Rightarrow> Err (EnIo NotFoundKind path) | Some body \<Rightarrow> Ok body)"

definition cs_read_to_string :: "cs_faults \<Rightarrow> cdisk \<Rightarrow> cpath \<Rightarrow> enroll_error + bytes" where
  "cs_read_to_string F d path =
     and_then (cs_read F d path) (\<lambda>body. if utf8_valid body then Ok body else Err (EnIo OtherKind path))"

definition cs_exists :: "cs_faults \<Rightarrow> cdisk \<Rightarrow> cpath \<Rightarrow> bool" where
  "cs_exists F d path \<longleftrightarrow> map_of d path \<noteq> None \<and> \<not> cs_fails F (CsStat path)"

section \<open>Keys\<close>

definition load_raw_key :: "cs_faults \<Rightarrow> cdisk \<Rightarrow> cpath \<Rightarrow> enroll_error + bytes" where
  "load_raw_key F d path =
     and_then (cs_read F d path) (\<lambda>bs. if length bs = 32 then Ok bs else Err (BadDataKey path (length bs)))"

definition load_data_key :: "cs_faults \<Rightarrow> cdisk \<Rightarrow> bytes \<Rightarrow> enroll_error + data_key" where
  "load_data_key F d state_dir = and_then (load_raw_key F d (state_dir, DATA_KEY_FILE)) (\<lambda>bs. Ok (key_from_bytes bs))"

definition load_chunk_id_key :: "cs_faults \<Rightarrow> cdisk \<Rightarrow> bytes \<Rightarrow> enroll_error + chunk_id_key" where
  "load_chunk_id_key F d state_dir =
     and_then (load_raw_key F d (state_dir, CHUNK_ID_KEY_FILE)) (\<lambda>bs. Ok (key_from_bytes bs))"

definition ensure_key_file :: "cs_faults \<Rightarrow> cdisk \<Rightarrow> bytes \<Rightarrow> bytes \<Rightarrow> ('r \<Rightarrow> hash32 \<times> 'r) \<Rightarrow> 'r
    \<Rightarrow> (cdisk \<times> (enroll_error + bool)) \<times> 'r" where
  "ensure_key_file F d state_dir file_name mk rng =
     (let path = (state_dir, file_name)
      in if cs_fails F (CsStat path) then ((d, Err (EnIo OtherKind path)), rng)
         else if map_of d path \<noteq> None then ((d, and_then (load_raw_key F d path) (\<lambda>_. Ok False)), rng)
         else case cs_create_dir F state_dir of
             Err e \<Rightarrow> ((d, Err e), rng)
           | Ok _ \<Rightarrow>
              (case mk rng of (key, rng') \<Rightarrow>
                 (case cs_write_atomic F d path (key_as_bytes key) True of
                    (d', Err e) \<Rightarrow> ((d', Err e), rng')
                  | (d', Ok _) \<Rightarrow> ((d', Ok True), rng'))))"

definition ensure_data_key :: "'r fill_bytes \<Rightarrow> cs_faults \<Rightarrow> cdisk \<Rightarrow> bytes \<Rightarrow> 'r
    \<Rightarrow> (cdisk \<times> (enroll_error + bool)) \<times> 'r" where
  "ensure_data_key fill F d state_dir rng =
     (case ensure_key_file F d state_dir DATA_KEY_FILE (data_key_generate fill) rng of
        ((d1, Err e), rng1) \<Rightarrow> ((d1, Err e), rng1)
      | ((d1, Ok created), rng1) \<Rightarrow>
         (case ensure_key_file F d1 state_dir CHUNK_ID_KEY_FILE (chunk_id_key_generate fill) rng1 of
            ((d2, Err e), rng2) \<Rightarrow> ((d2, Err e), rng2)
          | ((d2, Ok _), rng2) \<Rightarrow> ((d2, Ok created), rng2)))"

section \<open>Identity files and connecting\<close>

record enrollment_request =
  er_daemon_url :: bytes
  er_ca_cert_pem :: bytes
  er_token :: bytes
  er_name :: bytes

record enrolled_identity =
  ei_cert_pem :: bytes
  ei_key_pem :: bytes
  ei_ca_cert_pem :: bytes
  ei_name :: bytes

definition request_enrollment :: "'r rcgen \<Rightarrow> (bytes \<Rightarrow> bytes \<Rightarrow> bool)
    \<Rightarrow> (bytes \<Rightarrow> bytes \<Rightarrow> 's \<Rightarrow> (grpc_code + (bytes \<times> bytes)) \<times> 's) \<Rightarrow> enrollment_request \<Rightarrow> 's \<Rightarrow> 'r
    \<Rightarrow> (enroll_error + enrolled_identity) \<times> 's \<times> 'r" where
  "request_enrollment G dial enroll_call req srv rng =
     (case keypair_generate G rng of
        (Err _, rng1) \<Rightarrow> (Err Keygen, srv, rng1)
      | (Ok key, rng1) \<Rightarrow>
     (case cert_params_new G [] of
        Err _ \<Rightarrow> (Err Keygen, srv, rng1)
      | Ok p \<Rightarrow>
     (case serialize_request G (p\<lparr>dn_common_name := Some (Utf8String (er_name req))\<rparr>) key rng1 of
        (Err _, rng2) \<Rightarrow> (Err Keygen, srv, rng2)
      | (Ok csr_pem, rng2) \<Rightarrow>
         if \<not> dial (er_daemon_url req) (er_ca_cert_pem req) then (Err Transport, srv, rng2)
         else case enroll_call (er_token req) csr_pem srv of
             (Err code, srv') \<Rightarrow> (Err (EnRpc code), srv', rng2)
           | (Ok (cert, _), srv') \<Rightarrow>
              if trim cert = [] then (Err (EnBadResponse ''empty certificate''), srv', rng2)
              else (Ok \<lparr>ei_cert_pem = cert, ei_key_pem = key, ei_ca_cert_pem = er_ca_cert_pem req,
                        ei_name = er_name req\<rparr>, srv', rng2))))"

fun write_all_atomic :: "cs_faults \<Rightarrow> cdisk \<Rightarrow> (cpath \<times> bytes \<times> bool) list \<Rightarrow> cdisk \<times> (enroll_error + unit)" where
  "write_all_atomic F d [] = (d, Ok ())"
| "write_all_atomic F d ((path, data, restrict) # rest) =
     (case cs_write_atomic F d path data restrict of
        (d', Err e) \<Rightarrow> (d', Err e) | (d', Ok _) \<Rightarrow> write_all_atomic F d' rest)"

definition save_identity :: "cs_faults \<Rightarrow> cdisk \<Rightarrow> bytes \<Rightarrow> enrolled_identity \<Rightarrow> cdisk \<times> (enroll_error + unit)" where
  "save_identity F d state_dir ident =
     (case cs_create_dir F state_dir of
        Err e \<Rightarrow> (d, Err e)
      | Ok _ \<Rightarrow> write_all_atomic F d
          [((state_dir, CLIENT_KEY_FILE), ei_key_pem ident, True), ((state_dir, CLIENT_CERT_FILE), ei_cert_pem ident, False),
           ((state_dir, CLIENT_CA_FILE), ei_ca_cert_pem ident, False), ((state_dir, ENROLLMENT_NAME_FILE), ei_name ident, False)])"

definition load_enrollment_name :: "cs_faults \<Rightarrow> cdisk \<Rightarrow> bytes \<Rightarrow> enroll_error + bytes" where
  "load_enrollment_name F d state_dir = cs_read_to_string F d (state_dir, ENROLLMENT_NAME_FILE)"

definition cert_fingerprint :: "(bytes \<Rightarrow> hash32) \<Rightarrow> cs_faults \<Rightarrow> cdisk \<Rightarrow> bytes \<Rightarrow> enroll_error + bytes" where
  "cert_fingerprint H F d state_dir =
     and_then (cs_read_to_string F d (state_dir, CLIENT_CERT_FILE)) (\<lambda>pem.
       case pem_to_der pem of
         None \<Rightarrow> Err (EnBadResponse ''client certificate is not valid PEM'')
       | Some der \<Rightarrow> Ok (hex (be_bytes 32 (H der))))"

definition connect_authenticated :: "(bytes \<Rightarrow> bytes \<Rightarrow> bytes \<Rightarrow> bytes \<Rightarrow> bool) \<Rightarrow> cs_faults \<Rightarrow> cdisk \<Rightarrow> bytes \<Rightarrow> bytes
    \<Rightarrow> enroll_error + unit" where
  "connect_authenticated dial F d daemon_url state_dir =
     and_then (cs_read_to_string F d (state_dir, CLIENT_CA_FILE)) (\<lambda>ca.
     and_then (cs_read_to_string F d (state_dir, CLIENT_CERT_FILE)) (\<lambda>cert.
     and_then (cs_read_to_string F d (state_dir, CLIENT_KEY_FILE)) (\<lambda>key.
       if dial daemon_url ca cert key then Ok () else Err Transport)))"

section \<open>Keyfile export and import\<close>

definition MAX_KEY_BACKUPS :: nat where "MAX_KEY_BACKUPS = 1000"

datatype key_error = KeyIo cpath | State enroll_error | KeyCrypto crypto_error | OutputExists cpath | NoBackupSlot bytes

datatype import_outcome = Installed | AlreadyCurrent | Replaced cpath

definition export_key :: "aead \<Rightarrow> argon2id \<Rightarrow> 'r fill_bytes \<Rightarrow> cs_faults \<Rightarrow> cdisk \<Rightarrow> bytes \<Rightarrow> cpath \<Rightarrow> bytes \<Rightarrow> kdf_params \<Rightarrow> 'r
    \<Rightarrow> (cdisk \<times> (key_error + unit)) \<times> 'r" where
  "export_key A kdf fill F d state_dir output passphrase params rng =
     (case and_then (load_data_key F d state_dir) (\<lambda>dk. and_then (load_chunk_id_key F d state_dir) (\<lambda>ck. Ok (dk, ck))) of
        Err e \<Rightarrow> ((d, Err (State e)), rng)
      | Ok (dk, ck) \<Rightarrow>
         if cs_exists F d output then ((d, Err (OutputExists output)), rng)
         else case export_keyfile A kdf fill dk ck passphrase params rng of
             (Err e, rng') \<Rightarrow> ((d, Err (KeyCrypto e)), rng')
           | (Ok body, rng') \<Rightarrow>
              (case cs_write_atomic F d output body True of
                 (d', r) \<Rightarrow> ((d', map_err State r), rng')))"

definition load_optional :: "enroll_error + 'k \<Rightarrow> key_error + 'k option" where
  "load_optional r = (case r of Ok k \<Rightarrow> Ok (Some k) | Err (EnIo NotFoundKind _) \<Rightarrow> Ok None
     | Err (BadDataKey _ _) \<Rightarrow> Ok None | Err e \<Rightarrow> Err (State e))"

text \<open>\<open>format!("{n}")\<close>.\<close>

fun decimal :: "nat \<Rightarrow> bytes" where
  "decimal n = (if n < 10 then [word_of_nat (48 + n)] else decimal (n div 10) @ [word_of_nat (48 + n mod 10)])"

declare decimal.simps [simp del]

definition old_slot :: "bytes \<Rightarrow> nat \<Rightarrow> bytes" where
  "old_slot nm n = nm @ ascii ''.old-'' @ decimal n"

definition cs_rename :: "cs_faults \<Rightarrow> cdisk \<Rightarrow> cpath \<Rightarrow> cpath \<Rightarrow> cdisk \<times> (key_error + unit)" where
  "cs_rename F d src dst =
     (case map_of d src of
        None \<Rightarrow> (d, Err (KeyIo dst))
      | Some body \<Rightarrow> if cs_fails F (CsRename src dst) then (d, Err (KeyIo dst))
                     else (AList.update dst body (AList.delete src d), Ok ()))"

definition back_up_into :: "cs_faults \<Rightarrow> cdisk \<Rightarrow> bytes \<Rightarrow> nat \<Rightarrow> cdisk \<times> (key_error + cpath)" where
  "back_up_into F d state_dir n =
     (let data_path = (state_dir, DATA_KEY_FILE); chunk_path = (state_dir, CHUNK_ID_KEY_FILE);
          data_bak = (state_dir, old_slot DATA_KEY_FILE n); chunk_bak = (state_dir, old_slot CHUNK_ID_KEY_FILE n);
          (d1, r1) = (if cs_exists F d data_path
                      then (case cs_rename F d data_path data_bak of (d', r) \<Rightarrow> (d', and_then r (\<lambda>_. Ok (Some data_bak))))
                      else (d, Ok None))
      in case r1 of
           Err e \<Rightarrow> (d1, Err e)
         | Ok preserved \<Rightarrow>
            (let (d2, r2) = (if cs_exists F d1 chunk_path
                             then (case cs_rename F d1 chunk_path chunk_bak of (d', r) \<Rightarrow>
                                     (d', and_then r (\<lambda>_. Ok (case preserved of None \<Rightarrow> Some chunk_bak | Some p \<Rightarrow> Some p))))
                             else (d1, Ok preserved))
             in (d2, and_then r2 (\<lambda>p. case p of None \<Rightarrow> Err (NoBackupSlot state_dir) | Some q \<Rightarrow> Ok q))))"

fun back_up_loop :: "cs_faults \<Rightarrow> cdisk \<Rightarrow> bytes \<Rightarrow> nat list \<Rightarrow> cdisk \<times> (key_error + cpath)" where
  "back_up_loop F d state_dir [] = (d, Err (NoBackupSlot state_dir))"
| "back_up_loop F d state_dir (n # ns) =
     (if cs_exists F d (state_dir, old_slot DATA_KEY_FILE n) \<or> cs_exists F d (state_dir, old_slot CHUNK_ID_KEY_FILE n)
      then back_up_loop F d state_dir ns
      else back_up_into F d state_dir n)"

definition back_up_existing_keys :: "cs_faults \<Rightarrow> cdisk \<Rightarrow> bytes \<Rightarrow> cdisk \<times> (key_error + cpath)" where
  "back_up_existing_keys F d state_dir = back_up_loop F d state_dir [1..<MAX_KEY_BACKUPS + 1]"

definition install_keys :: "cs_faults \<Rightarrow> cdisk \<Rightarrow> bytes \<Rightarrow> data_key \<Rightarrow> chunk_id_key \<Rightarrow> cdisk \<times> (key_error + unit)" where
  "install_keys F d state_dir dk ck =
     (case write_all_atomic F d [((state_dir, DATA_KEY_FILE), key_as_bytes dk, True),
                                 ((state_dir, CHUNK_ID_KEY_FILE), key_as_bytes ck, True)] of
        (d', r) \<Rightarrow> (d', map_err State r))"

definition import_key :: "aead \<Rightarrow> argon2id \<Rightarrow> cs_faults \<Rightarrow> cdisk \<Rightarrow> bytes \<Rightarrow> cpath \<Rightarrow> bytes
    \<Rightarrow> cdisk \<times> (key_error + import_outcome)" where
  "import_key A kdf F d state_dir keyfile_path passphrase =
     (case cs_read F d keyfile_path of
        Err _ \<Rightarrow> (d, Err (KeyIo keyfile_path))
      | Ok bs \<Rightarrow>
     (case import_keyfile A kdf bs passphrase of
        Err e \<Rightarrow> (d, Err (KeyCrypto e))
      | Ok (dk, ck) \<Rightarrow>
     (case and_then (load_optional (load_data_key F d state_dir)) (\<lambda>od.
           and_then (load_optional (load_chunk_id_key F d state_dir)) (\<lambda>oc. Ok (od, oc))) of
        Err e \<Rightarrow> (d, Err e)
      | Ok (od, oc) \<Rightarrow>
         if od = Some dk \<and> oc = Some ck then (d, Ok AlreadyCurrent)
         else
           let (d1, r1) = (if cs_exists F d (state_dir, DATA_KEY_FILE) \<or> cs_exists F d (state_dir, CHUNK_ID_KEY_FILE)
                then (case back_up_existing_keys F d state_dir of (d', r) \<Rightarrow> (d', and_then r (\<lambda>p. Ok (Replaced p))))
                else (d, and_then (map_err (\<lambda>_. KeyIo (state_dir, [])) (cs_create_dir F state_dir)) (\<lambda>_. Ok Installed)))
           in case r1 of
                Err e \<Rightarrow> (d1, Err e)
              | Ok outcome \<Rightarrow>
                 (case install_keys F d1 state_dir dk ck of
                    (d2, Err e) \<Rightarrow> (d2, Err e) | (d2, Ok _) \<Rightarrow> (d2, Ok outcome)))))"

end
