(* ===== verification/Client_Keys.thy ===== *)
theory Client_Keys
  imports Client_State
begin

text \<open>
  Safety of the client's two backup-set keys: enrolling never replaces a key that is there, importing never destroys one,
  and exporting on one machine and importing on another installs the same pair.
\<close>

section \<open>Paths\<close>

abbreviation KEY_FILES :: "bytes set" where "KEY_FILES \<equiv> {DATA_KEY_FILE, CHUNK_ID_KEY_FILE}"

lemma cs_tmp_hd: "fst (cs_tmp path) = fst path \<and> (\<exists>x. snd (cs_tmp path) = 0x2E # x)"
  by (simp add: cs_tmp_def ID_TMP_PREFIX_def)

lemma key_file_names:
  "DATA_KEY_FILE = 100 # tl DATA_KEY_FILE" "CHUNK_ID_KEY_FILE = 99 # tl CHUNK_ID_KEY_FILE"
  by (simp_all add: DATA_KEY_FILE_def CHUNK_ID_KEY_FILE_def ascii_def)

lemma key_files_distinct [simp]: "DATA_KEY_FILE \<noteq> CHUNK_ID_KEY_FILE" "CHUNK_ID_KEY_FILE \<noteq> DATA_KEY_FILE"
  by (simp_all add: DATA_KEY_FILE_def CHUNK_ID_KEY_FILE_def ascii_def)

lemma old_slot_hd: "nm \<noteq> [] \<Longrightarrow> old_slot nm n \<noteq> [] \<and> hd (old_slot nm n) = hd nm \<and> length nm < length (old_slot nm n)"
  by (simp add: old_slot_def ascii_def)

lemma old_slot_fresh [simp]:
  "nm \<in> KEY_FILES \<Longrightarrow> old_slot nm n \<notin> KEY_FILES"
  "nm \<in> KEY_FILES \<Longrightarrow> (s, old_slot nm n) \<noteq> cs_tmp path"
  "nm \<in> KEY_FILES \<Longrightarrow> (s, nm) \<noteq> cs_tmp path"
  "old_slot DATA_KEY_FILE n \<noteq> old_slot CHUNK_ID_KEY_FILE m"
proof -
  have ne: "DATA_KEY_FILE \<noteq> []" "CHUNK_ID_KEY_FILE \<noteq> []" and hd: "hd DATA_KEY_FILE = 100" "hd CHUNK_ID_KEY_FILE = 99"
    using key_file_names by (metis list.distinct(1), metis list.distinct(1), metis list.sel(1), metis list.sel(1))
  show "nm \<in> KEY_FILES \<Longrightarrow> old_slot nm n \<notin> KEY_FILES"
    using old_slot_hd [OF ne(1), of n] old_slot_hd [OF ne(2), of n] hd by auto
  have tmp: "snd (cs_tmp path) \<noteq> [] \<and> hd (snd (cs_tmp path)) = 46" using cs_tmp_hd [of path] by auto
  show "nm \<in> KEY_FILES \<Longrightarrow> (s, old_slot nm n) \<noteq> cs_tmp path"
    using old_slot_hd [OF ne(1), of n] old_slot_hd [OF ne(2), of n] hd tmp by (cases "cs_tmp path") auto
  show "nm \<in> KEY_FILES \<Longrightarrow> (s, nm) \<noteq> cs_tmp path" using hd tmp by (cases "cs_tmp path") auto
  show "old_slot DATA_KEY_FILE n \<noteq> old_slot CHUNK_ID_KEY_FILE m"
    using old_slot_hd [OF ne(1), of n] old_slot_hd [OF ne(2), of m] hd by auto
qed

section \<open>Atomic writes\<close>

lemma cs_write_atomic_frame:
  "cs_write_atomic F d path data restrict = (d', r) \<Longrightarrow> p \<noteq> path \<Longrightarrow> p \<noteq> cs_tmp path \<Longrightarrow> map_of d' p = map_of d p"
  by (auto simp: cs_write_atomic_def Let_def split: if_splits)

lemma cs_write_atomic_Ok: "cs_write_atomic F d path data restrict = (d', Ok ()) \<Longrightarrow> map_of d' path = Some data"
  by (auto simp: cs_write_atomic_def Let_def split: if_splits)

lemma cs_write_atomic_Err: "cs_write_atomic F d path data restrict = (d', Err e) \<Longrightarrow> path \<noteq> cs_tmp path \<Longrightarrow> map_of d' path = map_of d path"
  by (auto simp: cs_write_atomic_def Let_def split: if_splits)

lemma cs_write_atomic_no_faults:
  "cs_write_atomic cs_no_faults d path data restrict = (AList.update path data (AList.delete (cs_tmp path) d), Ok ())"
  by (simp add: cs_write_atomic_def Let_def cs_no_faults_def)

lemma install_keys_frame:
  assumes "install_keys F d s dk ck = (d', r)" and "p \<notin> (\<lambda>nm. (s, nm)) ` KEY_FILES"
    and "p \<noteq> cs_tmp (s, DATA_KEY_FILE)" and "p \<noteq> cs_tmp (s, CHUNK_ID_KEY_FILE)"
  shows "map_of d' p = map_of d p"
  using assms by (auto simp: install_keys_def cs_write_atomic_frame split: prod.splits sum.splits)

lemma install_keys_Ok:
  assumes "install_keys F d s dk ck = (d', Ok ())"
  shows "map_of d' (s, DATA_KEY_FILE) = Some (key_as_bytes dk) \<and> map_of d' (s, CHUNK_ID_KEY_FILE) = Some (key_as_bytes ck)"
proof -
  obtain d1 where w: "cs_write_atomic F d (s, DATA_KEY_FILE) (key_as_bytes dk) True = (d1, Ok ())"
    "cs_write_atomic F d1 (s, CHUNK_ID_KEY_FILE) (key_as_bytes ck) True = (d', Ok ())"
    using assms by (auto simp: install_keys_def map_err_def split: prod.splits sum.splits)
  have "(s, DATA_KEY_FILE) \<noteq> cs_tmp (s, CHUNK_ID_KEY_FILE)" by simp
  then show ?thesis
    using cs_write_atomic_Ok [OF w(1)] cs_write_atomic_Ok [OF w(2)] cs_write_atomic_frame [OF w(2), of "(s, DATA_KEY_FILE)"]
    by simp
qed

section \<open>Keeping the old keys\<close>

text \<open>No file content is lost: it is where it was, or in a numbered slot of its key file.\<close>

definition preserved_in :: "bytes \<Rightarrow> cdisk \<Rightarrow> cdisk \<Rightarrow> cpath \<Rightarrow> bool" where
  "preserved_in s d d' p \<longleftrightarrow> (\<forall>body. map_of d p = Some body \<longrightarrow>
     map_of d' p = Some body \<or> (\<exists>nm \<in> KEY_FILES. p = (s, nm) \<and> (\<exists>n. map_of d' (s, old_slot nm n) = Some body)))"

definition stat_works :: "cs_faults \<Rightarrow> bool" where
  "stat_works F \<longleftrightarrow> (\<forall>p. \<not> cs_fails F (CsStat p))"

lemma cs_exists_iff [simp]: "stat_works F \<Longrightarrow> cs_exists F d p \<longleftrightarrow> map_of d p \<noteq> None"
  unfolding cs_exists_def stat_works_def by blast

lemma cs_rename_cases:
  assumes "cs_rename F d src dst = (d', r)"
  obtains "d' = d" "r \<noteq> Ok ()" | body where "map_of d src = Some body" "r = Ok ()" "map_of d' = (map_of d)(src := None, dst \<mapsto> body)"
  using assms by (auto simp: cs_rename_def split: option.splits if_splits)

lemma two_moves:
  fixes m :: "'k \<Rightarrow> 'v option"
  assumes "m1 = m \<or> (\<exists>b. m dp = Some b \<and> m1 = m(dp := None, db \<mapsto> b))"
    and "m2 = m1 \<or> (\<exists>b. m1 cp = Some b \<and> m2 = m1(cp := None, cb \<mapsto> b))"
    and "m db = None" and "m cb = None" and "distinct [dp, cp, db, cb]" and "m p = Some body"
  shows "m2 p = Some body \<or> p = dp \<and> m2 db = Some body \<or> p = cp \<and> m2 cb = Some body"
  using assms by (auto split: if_splits)

text \<open>One renaming of the loop body.\<close>

definition set_aside :: "cs_faults \<Rightarrow> cdisk \<Rightarrow> cpath \<Rightarrow> cpath \<Rightarrow> 'a \<Rightarrow> 'a \<Rightarrow> cdisk \<times> (key_error + 'a)" where
  "set_aside F d src dst moved kept =
     (if cs_exists F d src then (case cs_rename F d src dst of (d', r) \<Rightarrow> (d', and_then r (\<lambda>_. Ok moved))) else (d, Ok kept))"

lemma set_aside_cases:
  assumes "stat_works F" and "set_aside F d src dst moved kept = (d', r)" and "src \<noteq> dst"
  shows "(map_of d' = map_of d \<or> (\<exists>b. map_of d src = Some b \<and> map_of d' = (map_of d)(src := None, dst \<mapsto> b))) \<and>
    (\<forall>x. r = Ok x \<longrightarrow> map_of d' src = None)"
  using assms by (auto simp: set_aside_def and_then_def split: if_splits prod.splits sum.splits elim!: cs_rename_cases)

lemma back_up_into_eq:
  "back_up_into F d s n =
     (case set_aside F d (s, DATA_KEY_FILE) (s, old_slot DATA_KEY_FILE n) (Some (s, old_slot DATA_KEY_FILE n)) None of
        (d1, Err e) \<Rightarrow> (d1, Err e)
      | (d1, Ok pres) \<Rightarrow>
         (case set_aside F d1 (s, CHUNK_ID_KEY_FILE) (s, old_slot CHUNK_ID_KEY_FILE n)
             (case pres of None \<Rightarrow> Some (s, old_slot CHUNK_ID_KEY_FILE n) | Some q \<Rightarrow> Some q) pres of
            (d2, r2) \<Rightarrow> (d2, and_then r2 (\<lambda>q. case q of None \<Rightarrow> Err (NoBackupSlot s) | Some q \<Rightarrow> Ok q))))"
  unfolding back_up_into_def set_aside_def Let_def by (simp add: split_beta split: sum.split)

lemma back_up_into_preserves:
  assumes "stat_works F" and "back_up_into F d s n = (d', r)"
    and "map_of d (s, old_slot DATA_KEY_FILE n) = None" and "map_of d (s, old_slot CHUNK_ID_KEY_FILE n) = None"
  shows "preserved_in s d d' p \<and> (\<forall>q. r = Ok q \<longrightarrow> map_of d' (s, DATA_KEY_FILE) = None \<and> map_of d' (s, CHUNK_ID_KEY_FILE) = None)"
proof -
  let ?dp = "(s, DATA_KEY_FILE)" and ?cp = "(s, CHUNK_ID_KEY_FILE)"
    and ?db = "(s, old_slot DATA_KEY_FILE n)" and ?cb = "(s, old_slot CHUNK_ID_KEY_FILE n)"
  have ne: "distinct [?dp, ?cp, ?db, ?cb]"
    using old_slot_fresh(1) [of DATA_KEY_FILE n] old_slot_fresh(1) [of CHUNK_ID_KEY_FILE n] old_slot_fresh(4) [of n n] by auto
  obtain d1 r1 where one: "set_aside F d ?dp ?db (Some ?db) None = (d1, r1)" by (metis prod.exhaust)
  have d1: "map_of d1 = map_of d \<or> (\<exists>b. map_of d ?dp = Some b \<and> map_of d1 = (map_of d)(?dp := None, ?db \<mapsto> b))"
    "\<And>x. r1 = Ok x \<Longrightarrow> map_of d1 ?dp = None"
    using set_aside_cases [OF assms(1) one] ne by auto
  obtain m2 where m2: "map_of d' = m2" "m2 = map_of d1 \<or> (\<exists>b. map_of d1 ?cp = Some b \<and> m2 = (map_of d1)(?cp := None, ?cb \<mapsto> b))"
    "\<And>q. r = Ok q \<Longrightarrow> m2 ?dp = None \<and> m2 ?cp = None"
  proof (cases r1)
    case (Inl e)
    then have "d' = d1" "r = Err e" using assms(2) one by (simp_all add: back_up_into_eq)
    then show thesis using that by blast
  next
    case (Inr pres)
    let ?mv = "case pres of None \<Rightarrow> Some ?cb | Some q \<Rightarrow> Some q"
    obtain d2 r2 where two: "set_aside F d1 ?cp ?cb ?mv pres = (d2, r2)" by (metis prod.exhaust)
    have r: "d' = d2" "r = and_then r2 (\<lambda>q. case q of None \<Rightarrow> Err (NoBackupSlot s) | Some q \<Rightarrow> Ok q)"
      using assms(2) one two Inr by (simp_all add: back_up_into_eq)
    have "map_of d2 = map_of d1 \<or> (\<exists>b. map_of d1 ?cp = Some b \<and> map_of d2 = (map_of d1)(?cp := None, ?cb \<mapsto> b))"
      "\<And>x. r2 = Ok x \<Longrightarrow> map_of d2 ?cp = None"
      using set_aside_cases [OF assms(1) two] ne by auto
    moreover have "map_of d2 ?dp = None" using calculation(1) d1(2) [OF Inr] ne by auto
    moreover have "\<exists>x. r2 = Ok x" if "r = Ok q" for q using that r(2) by (auto simp: and_then_Ok_iff)
    ultimately show thesis using that [of "map_of d2"] r(1) by blast
  qed
  show ?thesis
    unfolding preserved_in_def m2(1) using two_moves [OF d1(1) m2(2) assms(3,4) ne] m2(3) by blast
qed

lemma back_up_loop_preserves:
  "stat_works F \<Longrightarrow> back_up_loop F d s ns = (d', r) \<Longrightarrow>
     preserved_in s d d' p \<and> (\<forall>q. r = Ok q \<longrightarrow> map_of d' (s, DATA_KEY_FILE) = None \<and> map_of d' (s, CHUNK_ID_KEY_FILE) = None)"
proof (induction ns)
  case Nil
  then show ?case by (auto simp: preserved_in_def)
next
  case (Cons n ns)
  then show ?case using back_up_into_preserves [of F d s n d' r p] by (auto split: if_splits)
qed

section \<open>Importing\<close>

lemma load_optional_Some: "load_optional r = Ok (Some k) \<longleftrightarrow> r = Ok k"
  by (auto simp: load_optional_def split: sum.splits enroll_error.splits io_kind.splits)

lemma key_bytes_from: "length bs = 32 \<Longrightarrow> key_as_bytes (key_from_bytes bs) = bs"
  using be_bytes_of_be_bytes [of bs, where 'a = 256] by (simp add: key_as_bytes_def key_from_bytes_def)

lemma load_data_key_Ok: "load_data_key F d s = Ok k \<Longrightarrow> map_of d (s, DATA_KEY_FILE) = Some (key_as_bytes k)"
  by (auto simp: load_data_key_def load_raw_key_def cs_read_def and_then_Ok_iff key_bytes_from split: if_splits option.splits)

lemma load_chunk_id_key_Ok: "load_chunk_id_key F d s = Ok k \<Longrightarrow> map_of d (s, CHUNK_ID_KEY_FILE) = Some (key_as_bytes k)"
  by (auto simp: load_chunk_id_key_def load_raw_key_def cs_read_def and_then_Ok_iff key_bytes_from
      split: if_splits option.splits)

text \<open>What happens to the keys in the way of an import.\<close>

definition clear_way :: "cs_faults \<Rightarrow> cdisk \<Rightarrow> bytes \<Rightarrow> cdisk \<times> (key_error + import_outcome)" where
  "clear_way F d s =
     (if cs_exists F d (s, DATA_KEY_FILE) \<or> cs_exists F d (s, CHUNK_ID_KEY_FILE)
      then (case back_up_existing_keys F d s of (d', r) \<Rightarrow> (d', and_then r (\<lambda>p. Ok (Replaced p))))
      else (d, and_then (map_err (\<lambda>_. KeyIo (s, [])) (cs_create_dir F s)) (\<lambda>_. Ok Installed)))"

lemma clear_way_preserves:
  assumes "stat_works F" and "clear_way F d s = (d', r)"
  shows "preserved_in s d d' p \<and> (\<forall>x. r = Ok x \<longrightarrow> map_of d' (s, DATA_KEY_FILE) = None \<and> map_of d' (s, CHUNK_ID_KEY_FILE) = None)"
proof (cases "cs_exists F d (s, DATA_KEY_FILE) \<or> cs_exists F d (s, CHUNK_ID_KEY_FILE)")
  case True
  then obtain r0 where "back_up_loop F d s [1..<MAX_KEY_BACKUPS + 1] = (d', r0)" "r = and_then r0 (\<lambda>p. Ok (Replaced p))"
    using assms(2) by (auto simp: clear_way_def back_up_existing_keys_def split: prod.splits)
  then show ?thesis using back_up_loop_preserves [OF assms(1), of d s _ d' r0 p] by (auto simp: and_then_Ok_iff)
next
  case False
  then show ?thesis using assms by (auto simp: clear_way_def preserved_in_def)
qed

text \<open>Installing into the freed places keeps what was set aside.\<close>

lemma preserved_by_install:
  assumes "preserved_in s d d1 p" and "map_of d1 (s, DATA_KEY_FILE) = None" and "map_of d1 (s, CHUNK_ID_KEY_FILE) = None"
    and "install_keys F d1 s dk ck = (d', r)" and "p \<noteq> cs_tmp (s, DATA_KEY_FILE)" and "p \<noteq> cs_tmp (s, CHUNK_ID_KEY_FILE)"
  shows "preserved_in s d d' p"
proof -
  have keep: "map_of d' q = Some body" if "map_of d1 q = Some body" "q \<noteq> cs_tmp (s, DATA_KEY_FILE)" "q \<noteq> cs_tmp (s, CHUNK_ID_KEY_FILE)"
    for q body
  proof -
    have "q \<notin> (\<lambda>nm. (s, nm)) ` KEY_FILES" using that(1) assms(2,3) by auto
    then show ?thesis using install_keys_frame [OF assms(4) _ that(2,3)] that(1) by simp
  qed
  show ?thesis
    unfolding preserved_in_def
  proof (intro allI impI)
    fix body assume "map_of d p = Some body"
    then consider "map_of d1 p = Some body"
      | nm n where "nm \<in> KEY_FILES" "p = (s, nm)" "map_of d1 (s, old_slot nm n) = Some body"
      using assms(1) unfolding preserved_in_def by blast
    then show "map_of d' p = Some body \<or> (\<exists>nm \<in> KEY_FILES. p = (s, nm) \<and> (\<exists>n. map_of d' (s, old_slot nm n) = Some body))"
    proof cases
      case 1
      then show ?thesis using keep assms(5,6) by blast
    next
      case 2
      then show ?thesis using keep [OF 2(3)] old_slot_fresh(2) [OF 2(1)] by blast
    qed
  qed
qed

lemma import_key_outcomes:
  assumes "import_key A kdf F d s keyfile passphrase = (d', r)"
  obtains (refused) e where "d' = d" "r = Err e"
  | (opened) bs dk ck where "map_of d keyfile = Some bs" "import_keyfile A kdf bs passphrase = Ok (dk, ck)"
      "d' = d \<and> r = Ok AlreadyCurrent \<and> load_data_key F d s = Ok dk \<and> load_chunk_id_key F d s = Ok ck \<or>
       (\<exists>e. clear_way F d s = (d', Err e) \<and> r = Err e) \<or>
       (\<exists>d1 x. clear_way F d s = (d1, Ok x) \<and> (\<exists>r2. install_keys F d1 s dk ck = (d', r2) \<and> r = and_then r2 (\<lambda>_. Ok x)))"
proof (cases "cs_read F d keyfile")
  case (Inl e)
  then have "d' = d \<and> r = Err (KeyIo keyfile)" using assms by (auto simp: import_key_def)
  then show thesis using refused by blast
next
  case (Inr bs)
  then have bs: "map_of d keyfile = Some bs" by (auto simp: cs_read_def split: if_splits option.splits)
  show thesis
  proof (cases "import_keyfile A kdf bs passphrase")
    case (Inl e)
    then have "d' = d \<and> r = Err (KeyCrypto e)" using assms Inr by (auto simp: import_key_def)
    then show thesis using refused by blast
  next
    case i: (Inr dkck)
    obtain dk ck where k: "dkck = (dk, ck)" by (cases dkck)
    let ?opt = "and_then (load_optional (load_data_key F d s)) (\<lambda>od.
        and_then (load_optional (load_chunk_id_key F d s)) (\<lambda>oc. Ok (od, oc)))"
    show thesis
    proof (cases ?opt)
      case (Inl e)
      then have "d' = d \<and> r = Err e" using assms Inr i k by (auto simp: import_key_def)
      then show thesis using refused by blast
    next
      case o: (Inr odoc)
      obtain od oc where ooc: "odoc = (od, oc)" by (cases odoc)
      then have lo: "load_optional (load_data_key F d s) = Ok od" "load_optional (load_chunk_id_key F d s) = Ok oc"
        using o by (auto simp: and_then_Ok_iff)
      obtain d1 r1 where c: "clear_way F d s = (d1, r1)" by (metis prod.exhaust)
      have e: "import_key A kdf F d s keyfile passphrase = (if od = Some dk \<and> oc = Some ck then (d, Ok AlreadyCurrent)
          else case clear_way F d s of (d1, Err e) \<Rightarrow> (d1, Err e)
            | (d1, Ok x) \<Rightarrow> (case install_keys F d1 s dk ck of (d2, Err e) \<Rightarrow> (d2, Err e) | (d2, Ok _) \<Rightarrow> (d2, Ok x)))"
        using Inr i k o ooc by (simp add: import_key_def clear_way_def Let_def split_beta)
      show thesis
      proof (cases "od = Some dk \<and> oc = Some ck")
        case True
        then have "d' = d \<and> r = Ok AlreadyCurrent \<and> load_data_key F d s = Ok dk \<and> load_chunk_id_key F d s = Ok ck"
          using assms [unfolded e] lo by (simp add: load_optional_Some)
        then show thesis using opened [OF bs i [unfolded k]] by blast
      next
        case False
        then have f: "(case r1 of Err e \<Rightarrow> (d1, Err e)
            | Ok x \<Rightarrow> (case install_keys F d1 s dk ck of (d2, Err e) \<Rightarrow> (d2, Err e) | (d2, Ok _) \<Rightarrow> (d2, Ok x))) = (d', r)"
          using assms [unfolded e] c by (simp only: if_False prod.case)
        show thesis
        proof (cases r1)
          case (Inl err)
          then have "clear_way F d s = (d', Err err) \<and> r = Err err" using f c by simp
          then show thesis using opened [OF bs i [unfolded k]] by blast
        next
          case x: (Inr x)
          obtain d2 r2 where inst: "install_keys F d1 s dk ck = (d2, r2)" by (metis prod.exhaust)
          then have "d2 = d' \<and> r = and_then r2 (\<lambda>_. Ok x)" using f x by (cases r2) simp_all
          then show thesis using opened [OF bs i [unfolded k]] c x inst by blast
        qed
      qed
    qed
  qed
qed


section \<open>Enrolling\<close>

lemma ensure_key_file_keeps:
  assumes "ensure_key_file F d s nm mk rng = ((d', r), rng')" and "nm \<in> KEY_FILES"
  shows "(\<forall>body. map_of d (s, nm) = Some body \<longrightarrow> d' = d) \<and>
    (\<forall>q. q \<noteq> (s, nm) \<and> q \<noteq> cs_tmp (s, nm) \<longrightarrow> map_of d' q = map_of d q) \<and>
    (\<forall>created. r = Ok created \<longrightarrow> (created \<longleftrightarrow> map_of d (s, nm) = None) \<and>
       (\<exists>body. map_of d' (s, nm) = Some body \<and> length body = 32))"
proof (cases "map_of d (s, nm)")
  case None
  obtain key rng1 where k: "mk rng = (key, rng1)" by force
  obtain d1 r1 where w: "cs_write_atomic F d (s, nm) (key_as_bytes key) True = (d1, r1)" by force
  have "d' = d \<and> (\<exists>e. r = Err e) \<or> d' = d1 \<and> (r1 = Ok () \<and> r = Ok True \<or> (\<exists>e. r = Err e))"
    using assms(1) None k w by (auto simp: ensure_key_file_def Let_def split: if_splits sum.splits prod.splits)
  then show ?thesis
    using None cs_write_atomic_frame [OF w] cs_write_atomic_Ok [of F d "(s, nm)" "key_as_bytes key" True d1] w by auto
next
  case (Some body)
  then have "d' = d" "\<And>created. r = Ok created \<Longrightarrow> \<not> created \<and> length body = 32"
    using assms(1)
    by (auto simp: ensure_key_file_def Let_def load_raw_key_def cs_read_def and_then_Ok_iff split: if_splits)
  then show ?thesis using Some by auto
qed

text \<open>Enrolling again never rotates a backup set's keys: whatever fails, a key file that was there keeps its content;
  on success both files hold 32 bytes, and the result says whether the data key is new.\<close>

theorem ensure_data_key_never_rotates:
  assumes "ensure_data_key fill F d s rng = ((d', r), rng')"
  shows "(\<forall>nm \<in> KEY_FILES. \<forall>body. map_of d (s, nm) = Some body \<longrightarrow> map_of d' (s, nm) = Some body) \<and>
    (\<forall>created. r = Ok created \<longrightarrow> (created \<longleftrightarrow> map_of d (s, DATA_KEY_FILE) = None) \<and>
       (\<forall>nm \<in> KEY_FILES. \<exists>body. map_of d' (s, nm) = Some body \<and> length body = 32))"
proof -
  obtain d1 r1 rng1 where one: "ensure_key_file F d s DATA_KEY_FILE (data_key_generate fill) rng = ((d1, r1), rng1)"
    by (metis prod.exhaust)
  note k1 = ensure_key_file_keeps [OF one insertI1]
  have c1: "map_of d1 (s, CHUNK_ID_KEY_FILE) = map_of d (s, CHUNK_ID_KEY_FILE)"
    using k1 old_slot_fresh(3) [of CHUNK_ID_KEY_FILE s "(s, DATA_KEY_FILE)"] by simp
  show ?thesis
  proof (cases r1)
    case (Inl e)
    then have "d' = d1" "r = Err e" using assms one by (simp_all add: ensure_data_key_def)
    then show ?thesis using k1 c1 by auto
  next
    case (Inr created)
    obtain d2 r2 rng2 where two:
      "ensure_key_file F d1 s CHUNK_ID_KEY_FILE (chunk_id_key_generate fill) rng1 = ((d2, r2), rng2)"
      by (metis prod.exhaust)
    have r: "d' = d2" "\<And>x. r = Ok x \<longleftrightarrow> x = created \<and> (\<exists>y. r2 = Ok y)"
      using assms one two Inr by (cases r2, auto simp: ensure_data_key_def)+
    have k2: "(\<forall>body. map_of d1 (s, CHUNK_ID_KEY_FILE) = Some body \<longrightarrow> d2 = d1) \<and>
      (\<forall>q. q \<noteq> (s, CHUNK_ID_KEY_FILE) \<and> q \<noteq> cs_tmp (s, CHUNK_ID_KEY_FILE) \<longrightarrow> map_of d2 q = map_of d1 q) \<and>
      (\<forall>x. r2 = Ok x \<longrightarrow> (\<exists>body. map_of d2 (s, CHUNK_ID_KEY_FILE) = Some body \<and> length body = 32))"
      using ensure_key_file_keeps [OF two] by simp
    have "map_of d2 (s, DATA_KEY_FILE) = map_of d1 (s, DATA_KEY_FILE)"
      using k2 old_slot_fresh(3) [of DATA_KEY_FILE s "(s, CHUNK_ID_KEY_FILE)"] by simp
    then show ?thesis using k1 k2 c1 r Inr by auto
  qed
qed

section \<open>From one machine to another\<close>

lemma load_data_key_iff:
  "map_of d (s, DATA_KEY_FILE) = Some (key_as_bytes k) \<Longrightarrow> load_data_key cs_no_faults d s = Ok k"
  by (simp add: load_data_key_def load_raw_key_def cs_read_def cs_no_faults_def)

lemma load_chunk_id_key_iff:
  "map_of d (s, CHUNK_ID_KEY_FILE) = Some (key_as_bytes k) \<Longrightarrow> load_chunk_id_key cs_no_faults d s = Ok k"
  by (simp add: load_chunk_id_key_def load_raw_key_def cs_read_def cs_no_faults_def)

text \<open>C33: Exporting the keys on one machine and importing the keyfile with the same passphrase into an empty state
  directory of another installs exactly the exported pair.\<close>

theorem export_import_roundtrip:
  assumes "aead_laws A" and "fill_laws fill"
    and "export_key A kdf fill F d s output passphrase params rng = ((d1, Ok ()), rng')"
    and "map_of d2 keyfile = map_of d1 output"
    and "map_of d2 (s2, DATA_KEY_FILE) = None" and "map_of d2 (s2, CHUNK_ID_KEY_FILE) = None"
  shows "\<exists>d3. import_key A kdf cs_no_faults d2 s2 keyfile passphrase = (d3, Ok Installed) \<and>
    load_data_key cs_no_faults d3 s2 = load_data_key F d s \<and> load_chunk_id_key cs_no_faults d3 s2 = load_chunk_id_key F d s"
proof -
  obtain dk ck body where k: "load_data_key F d s = Ok dk" "load_chunk_id_key F d s = Ok ck"
    "export_keyfile A kdf fill dk ck passphrase params rng = (Ok body, rng')"
    "cs_write_atomic F d output body True = (d1, Ok ())"
    using assms(3) by (auto simp: export_key_def and_then_def map_err_def split: sum.splits prod.splits if_splits)
  have kfile: "cs_read cs_no_faults d2 keyfile = Ok body"
    using cs_write_atomic_Ok [OF k(4)] assms(4) by (simp add: cs_read_def cs_no_faults_def)
  have keys: "import_keyfile A kdf body passphrase = Ok (dk, ck)"
    using keyfile_roundtrip [OF assms(1,2) k(3)] by simp
  have none: "load_optional (load_data_key cs_no_faults d2 s2) = Ok None"
    "load_optional (load_chunk_id_key cs_no_faults d2 s2) = Ok None"
    using assms(5,6)
    by (simp_all add: load_data_key_def load_chunk_id_key_def load_raw_key_def cs_read_def cs_no_faults_def load_optional_def)
  obtain d3 where inst: "install_keys cs_no_faults d2 s2 dk ck = (d3, Ok ())"
    by (simp add: install_keys_def cs_write_atomic_no_faults)
  have "import_key A kdf cs_no_faults d2 s2 keyfile passphrase = (d3, Ok Installed)"
    using kfile keys none inst assms(5,6)
    by (simp add: import_key_def Let_def cs_exists_def cs_create_dir_def cs_no_faults_def)
  then show ?thesis
    using install_keys_Ok [OF inst] k(1,2) by (auto simp: load_data_key_iff load_chunk_id_key_iff)
qed

section \<open>Witnesses\<close>

definition demo_disk :: cdisk where
  "demo_disk = [(([1], DATA_KEY_FILE), key_as_bytes 7), (([1], CHUNK_ID_KEY_FILE), key_as_bytes 8)]"

abbreviation demo_kdf :: argon2id where "demo_kdf \<equiv> \<lambda>_ _ _. Ok 5"

lemma demo_export:
  "\<exists>d1. export_key tag_aead demo_kdf zero_fill cs_no_faults demo_disk [1] ([2], [3]) [] kdf_params_default () = ((d1, Ok ()), ())"
  by (simp add: export_key_def demo_disk_def load_data_key_iff load_chunk_id_key_iff cs_exists_def export_keyfile_def
      seal_def tag_aead_def zero_fill_def derive_kek_def Let_def cs_write_atomic_no_faults)

theorem export_import_roundtrip_witness:
  "\<exists>d1 d3. export_key tag_aead demo_kdf zero_fill cs_no_faults demo_disk [1] ([2], [3]) [] kdf_params_default () = ((d1, Ok ()), ()) \<and>
     import_key tag_aead demo_kdf cs_no_faults [(([4], [5]), the (map_of d1 ([2], [3])))] [6] ([4], [5]) [] = (d3, Ok Installed) \<and>
     load_data_key cs_no_faults d3 [6] = Ok 7"
proof -
  obtain d1 where e: "export_key tag_aead demo_kdf zero_fill cs_no_faults demo_disk [1] ([2], [3]) [] kdf_params_default () = ((d1, Ok ()), ())"
    using demo_export by blast
  have "map_of d1 ([2], [3]) \<noteq> None"
    using e by (auto simp: export_key_def cs_write_atomic_no_faults split: sum.splits prod.splits if_splits)
  moreover have "load_data_key cs_no_faults demo_disk [1] = Ok 7" by (simp add: demo_disk_def load_data_key_iff)
  ultimately show ?thesis
    using e export_import_roundtrip [OF tag_aead_laws e, of "[(([4], [5]), the (map_of d1 ([2], [3])))]" "([4], [5])" "[6]"] by auto
qed

text \<open>The keyfile of one machine imported over another pair.\<close>

lemma demo_replace:
  assumes "import_keyfile A kdf bs [] = Ok (7, 8)"
  shows "\<exists>d' q. import_key A kdf cs_no_faults [(([4], [5]), bs), (([6], DATA_KEY_FILE), key_as_bytes 1)] [6] ([4], [5]) [] = (d', Ok (Replaced q))"
proof -
  let ?d = "[(([4], [5]), bs), (([6], DATA_KEY_FILE), key_as_bytes 1)]"
  obtain rest where ns: "[1..<MAX_KEY_BACKUPS + 1] = 1 # rest" using upt_rec [of 1 "MAX_KEY_BACKUPS + 1"] by (simp add: MAX_KEY_BACKUPS_def del: upt_Suc)
  have bak: "back_up_existing_keys cs_no_faults ?d [6] =
      (AList.update ([6], old_slot DATA_KEY_FILE 1) (key_as_bytes 1) (AList.delete ([6], DATA_KEY_FILE) ?d), Ok ([6], old_slot DATA_KEY_FILE 1))"
    unfolding back_up_existing_keys_def ns
    using old_slot_fresh(1) [of DATA_KEY_FILE 1] old_slot_fresh(1) [of CHUNK_ID_KEY_FILE 1]
    by (simp add: cs_exists_def cs_no_faults_def back_up_into_def cs_rename_def Let_def eq_commute [of CHUNK_ID_KEY_FILE])
  have "load_data_key cs_no_faults ?d [6] = Ok 1" by (simp add: load_data_key_iff)
  moreover have "load_chunk_id_key cs_no_faults ?d [6] = Err (EnIo NotFoundKind ([6], CHUNK_ID_KEY_FILE))"
    by (simp add: load_chunk_id_key_def load_raw_key_def cs_read_def cs_no_faults_def)
  moreover have "cs_read cs_no_faults ?d ([4], [5]) = Ok bs" by (simp add: cs_read_def cs_no_faults_def)
  moreover have "cs_exists cs_no_faults ?d ([6], DATA_KEY_FILE)" by (simp add: cs_exists_def cs_no_faults_def)
  ultimately show ?thesis
    using assms bak
    by (simp add: import_key_def load_optional_def install_keys_def cs_write_atomic_no_faults Let_def del: AList.update.simps)
qed

lemma demo_keyfile: "\<exists>bs. import_keyfile tag_aead demo_kdf bs [] = Ok (7, 8)"
proof -
  obtain kf where e: "export_keyfile tag_aead demo_kdf zero_fill 7 8 [] kdf_params_default () = (Ok kf, ())"
    by (simp add: export_keyfile_def seal_def tag_aead_def zero_fill_def derive_kek_def Let_def)
  show ?thesis using keyfile_roundtrip [OF tag_aead_laws e] by auto
qed


theorem ensure_data_key_never_rotates_witness:
  "\<exists>d' r. ensure_data_key zero_fill cs_no_faults demo_disk [1] () = ((d', r), ()) \<and>
     map_of d' ([1], DATA_KEY_FILE) = Some (key_as_bytes 7)"
proof -
  obtain d' r where i: "ensure_data_key zero_fill cs_no_faults demo_disk [1] () = ((d', r), ())"
    by (metis (full_types) old.unit.exhaust prod.exhaust)
  show ?thesis using i ensure_data_key_never_rotates [OF i] by (auto simp: demo_disk_def)
qed

end
