(* ===== verification/Identity_Registry.thy ===== *)
theory Identity_Registry
  imports Identity
begin

text \<open>
  What the identity directory guarantees: enrollment tokens are spent at most once in every reachable state,
  a certificate's standing follows enrollment and revocation, the certificates survive a restart, and what a
  failed registry write leaves behind.
\<close>

section \<open>Files and tokens\<close>

lemma token_files_set_dir [simp]: "token_files (set_dir_files d CLIENTS_DIR fs) = token_files d"
  "token_files (set_dir_files d IdRoot fs) = token_files d"
  "token_files (set_dir_files d TOKENS_DIR fs) = fs"
  "client_files (set_dir_files d TOKENS_DIR fs) = client_files d"
  "client_files (set_dir_files d CLIENTS_DIR fs) = fs"
  "root_files (set_dir_files d CLIENTS_DIR fs) = root_files d"
  "root_files (set_dir_files d IdRoot fs) = fs"
  by (simp_all add: set_dir_files_def)

lemma dir_files_set_dir [simp]: "dir_files (set_dir_files d dir fs) dir' = (if dir = dir' then fs else dir_files d dir')"
  by (cases dir; cases dir'; simp add: dir_files_def set_dir_files_def)

text \<open>The name under which the temporary file of a path is written.\<close>

definition tmp_name :: "bytes \<Rightarrow> bytes" where
  "tmp_name nm = ID_TMP_PREFIX @ (if utf8_valid nm then nm else [0x69, 0x64])"

text \<open>Whatever happens during \<open>write_atomic\<close>, only its directory changes, and there only the temporary file
  and, on success, the target.\<close>

lemma write_atomic_files:
  assumes "write_atomic F d path data restrict = (d', r)"
  shows "dir \<noteq> fst path \<Longrightarrow> dir_files d' dir = dir_files d dir"
    and "nm \<noteq> tmp_name (snd path) \<Longrightarrow> nm \<noteq> snd path \<Longrightarrow>
      map_of (dir_files d' (fst path)) nm = map_of (dir_files d (fst path)) nm"
    and "r = Ok () \<Longrightarrow> map_of (dir_files d' (fst path)) (snd path) = Some data"
    and "r \<noteq> Ok () \<Longrightarrow> nm \<noteq> tmp_name (snd path) \<Longrightarrow>
      map_of (dir_files d' (fst path)) nm = map_of (dir_files d (fst path)) nm"
    and "distinct (map fst (dir_files d dir)) \<Longrightarrow> distinct (map fst (dir_files d' dir))"
  using assms by (auto simp: write_atomic_def Let_def tmp_name_def distinct_update distinct_delete split: if_splits)

lemma write_atomic_no_faults:
  "write_atomic id_no_faults d path data restrict =
     (set_dir_files d (fst path) (AList.update (snd path) data (AList.delete (tmp_name (snd path)) (dir_files d (fst path)))), Ok ())"
  by (simp add: write_atomic_def id_no_faults_def Let_def tmp_name_def)

lemma write_atomic_clients:
  assumes "write_atomic F d path data restrict = (d', r)" and "fst path = CLIENTS_DIR"
  shows "token_files d' = token_files d" and "root_files d' = root_files d"
  using write_atomic_files(1) [OF assms(1), of TOKENS_DIR] write_atomic_files(1) [OF assms(1), of IdRoot] assms(2)
  by (simp_all add: dir_files_def)

lemma hex_alnum: "c \<in> set (hex bs) \<Longrightarrow> is_ascii_alphanumeric c"
proof -
  assume "c \<in> set (hex bs)"
  then obtain b where "c \<in> set (hex_byte b)" by (auto simp: hex_def)
  moreover have "is_ascii_alphanumeric (hex_digit n)" if "n < 16" for n
  proof -
    have "list_all (\<lambda>n. is_ascii_alphanumeric (hex_digit n)) [0..<16]" by code_simp
    then show ?thesis using that by (auto simp: list_all_iff)
  qed
  ultimately show ?thesis using nibble_bounds [of b] by (auto simp: hex_byte_def)
qed

lemma filter_hex [simp]: "filter is_ascii_alphanumeric (hex bs) = hex bs"
  by (auto simp: filter_id_conv intro: hex_alnum)

lemma length_hex [simp]: "length (hex bs) = 2 * length bs"
  by (induction bs) (auto simp: hex_def hex_byte_def)

lemma hex_neq_tmp [simp]: "hex bs \<noteq> tmp_name nm"
proof
  assume eq: "hex bs = tmp_name nm"
  have "(0x2E :: byte) \<in> set (tmp_name nm)" by (simp add: tmp_name_def ID_TMP_PREFIX_def)
  then show False using hex_alnum [of "0x2E" bs] eq by (simp add: is_ascii_alphanumeric_def)
qed

lemma token_path_simps [simp]: "fst (token_path H t) = TOKENS_DIR" "snd (token_path H t) \<noteq> tmp_name nm"
  by (simp_all add: token_path_def)

text \<open>A minting that succeeds adds the token's file and a failed one adds none that can be spent.\<close>

lemma mint_token_files:
  assumes "mint_token H fill F d rng = ((d', r), rng')"
  shows "(case r of Ok tok \<Rightarrow> map_of (token_files d') = (map_of (token_files d'))(snd (token_path H tok) \<mapsto> []) \<and>
            (\<forall>t. snd (token_path H t) \<noteq> snd (token_path H tok) \<longrightarrow>
               map_of (token_files d') (snd (token_path H t)) = map_of (token_files d) (snd (token_path H t)))
          | Err _ \<Rightarrow> \<forall>t. map_of (token_files d') (snd (token_path H t)) = map_of (token_files d) (snd (token_path H t)))
      \<and> client_files d' = client_files d"
proof -
  obtain raw rng1 where raw: "fill TOKEN_LEN rng = (raw, rng1)" by (cases "fill TOKEN_LEN rng")
  obtain d1 w where w: "write_atomic F d (token_path H (hex raw)) [] False = (d1, w)"
    by (cases "write_atomic F d (token_path H (hex raw)) [] False")
  note files = write_atomic_files [OF w, simplified]
  from assms raw w have "d' = d1" "r = (case w of Err e \<Rightarrow> Err e | Ok _ \<Rightarrow> Ok (hex raw))"
    by (auto simp: mint_token_def Let_def split: sum.splits)
  then show ?thesis using files(1) [of CLIENTS_DIR] files(2) [of "snd (token_path H _)"] files(3)
      files(4) [of "snd (token_path H _)"]
    by (auto simp: dir_files_def split: sum.splits)
qed

lemma consume_token_files:
  assumes "consume_token H F d tok = (d', r)"
  shows "r = Ok True \<Longrightarrow> map_of (token_files d) (snd (token_path H tok)) \<noteq> None \<and>
           map_of (token_files d') = (map_of (token_files d))(snd (token_path H tok) := None)"
    and "r \<noteq> Ok True \<Longrightarrow> d' = d"
    and "client_files d' = client_files d"
  using assms by (auto simp: consume_token_def Let_def split: if_splits)

lemma read_registry_entries_paths:
  "read_registry_entries T F d fs = Ok reg \<Longrightarrow> (p, r) \<in> set reg \<Longrightarrow> fst p = CLIENTS_DIR"
  by (induction fs arbitrary: reg) (auto simp: and_then_Ok_iff split: if_splits)

lemma read_registry_paths: "read_registry T F d = Ok reg \<Longrightarrow> (p, r) \<in> set reg \<Longrightarrow> fst p = CLIENTS_DIR"
  by (auto simp: read_registry_def split: if_splits intro: read_registry_entries_paths)

lemma revoke_loop_tokens:
  assumes "revoke_loop T F nm reg d = (d', r)" and "\<forall>x \<in> set reg. fst (fst x) = CLIENTS_DIR"
  shows "token_files d' = token_files d"
  using assms
proof (induction T F nm reg d arbitrary: d' r rule: revoke_loop.induct)
  case (1 T F nm d)
  then show ?case by simp
next
  case (2 T F nm path rcd rest d)
  show ?case
  proof (cases "cr_name rcd = nm \<and> \<not> cr_revoked rcd")
    case False
    then show ?thesis using 2 by auto
  next
    case True
    show ?thesis
    proof (cases "toml_to_string T (rcd\<lparr>cr_revoked := True\<rparr>)")
      case (Inl e)
      then show ?thesis using 2 True by simp
    next
      case (Inr body)
      obtain d1 w where w: "write_atomic F d path body False = (d1, w)" by (cases "write_atomic F d path body False")
      obtain d2 n where n: "revoke_loop T F nm rest d1 = (d2, n)" by (cases "revoke_loop T F nm rest d1")
      have "token_files d1 = token_files d" using write_atomic_clients [OF w] "2.prems"(2) by simp
      moreover have "token_files d2 = token_files d1" if "w = Ok ()"
        using "2.IH"(1) [OF True Inr w [symmetric] that n] "2.prems"(2) by simp
      ultimately show ?thesis using "2.prems"(1) True Inr w n by (auto split: sum.splits)
    qed
  qed
qed

lemma revoke_tokens: "revoke T F d nm = (d', r) \<Longrightarrow> token_files d' = token_files d"
  by (auto simp: revoke_def split: sum.splits intro!: revoke_loop_tokens dest: read_registry_paths)

lemma enroll_client_files:
  assumes "enroll_client G T H F ident d csr_pem rng = ((d', r), rng')"
  shows "d' = d \<or> (\<exists>path body w. fst path = CLIENTS_DIR \<and> write_atomic F d path body False = (d', w))"
  using assms by (auto simp: enroll_client_def Let_def client_path_def split: sum.splits option.splits prod.splits)

lemma enroll_client_tokens:
  "enroll_client G T H F ident d csr_pem rng = ((d', r), rng') \<Longrightarrow> token_files d' = token_files d"
  using enroll_client_files write_atomic_clients(1) by metis

lemma store_pair_tokens:
  assumes "store_pair F d c k pair = (d', r)" and "fst c = IdRoot" and "fst k = IdRoot"
  shows "token_files d' = token_files d \<and> client_files d' = client_files d"
proof -
  have root: "token_files d2 = token_files d1 \<and> client_files d2 = client_files d1"
    if "write_atomic F d1 path data restrict = (d2, w)" "fst path = IdRoot" for d1 d2 path data restrict w
    using write_atomic_files(1) [OF that(1), of TOKENS_DIR] write_atomic_files(1) [OF that(1), of CLIENTS_DIR] that(2)
    by (simp add: dir_files_def)
  from assms show ?thesis
    by (auto simp: store_pair_def split: sum.splits prod.splits dest!: root)
qed

lemmas pem_files = CA_CERT_FILE_def CA_KEY_FILE_def SERVER_CERT_FILE_def SERVER_KEY_FILE_def

lemma load_or_make_tokens:
  assumes "load_or_make F c k mk d rng = ((d', r), rng')" and "fst c = IdRoot" and "fst k = IdRoot"
  shows "token_files d' = token_files d \<and> client_files d' = client_files d"
  using assms by (auto simp: load_or_make_def split: if_splits sum.splits prod.splits dest: store_pair_tokens)

lemma open_or_init_tokens:
  assumes "open_or_init G F d rng = ((d', r), rng')"
  shows "token_files d' = token_files d \<and> client_files d' = client_files d"
  using assms
  by (auto simp: open_or_init_def pem_files split: sum.splits prod.splits option.splits dest!: load_or_make_tokens)

section \<open>Tokens are spent at most once\<close>

text \<open>The operations of the running daemon and of the \<open>enroll-token\<close> and \<open>revoke\<close> commands beside it, with
  arbitrary faults, over the directory and the log of what was minted and spent.\<close>

record id_sys =
  sys_disk :: id_disk
  minted :: "id_path list"
  spent :: "id_path list"

inductive id_step :: "'r rcgen \<Rightarrow> toml \<Rightarrow> (bytes \<Rightarrow> hash32) \<Rightarrow> 'r fill_bytes \<Rightarrow> id_sys \<Rightarrow> id_sys \<Rightarrow> bool"
  for G T H fill where
  step_open: "open_or_init G F (sys_disk s) rng = ((d', r), rng') \<Longrightarrow> id_step G T H fill s (s\<lparr>sys_disk := d'\<rparr>)"
| step_mint: "mint_token H fill F (sys_disk s) rng = ((d', Ok tok), rng') \<Longrightarrow>
    id_step G T H fill s (s\<lparr>sys_disk := d', minted := token_path H tok # minted s\<rparr>)"
| step_mint_failed: "mint_token H fill F (sys_disk s) rng = ((d', Err e), rng') \<Longrightarrow>
    id_step G T H fill s (s\<lparr>sys_disk := d'\<rparr>)"
| step_spend: "consume_token H F (sys_disk s) tok = (d', Ok True) \<Longrightarrow>
    id_step G T H fill s (s\<lparr>sys_disk := d', spent := token_path H tok # spent s\<rparr>)"
| step_spend_refused: "consume_token H F (sys_disk s) tok = (d', r) \<Longrightarrow> r \<noteq> Ok True \<Longrightarrow>
    id_step G T H fill s (s\<lparr>sys_disk := d'\<rparr>)"
| step_enroll: "enroll_client G T H F ident (sys_disk s) csr_pem rng = ((d', r), rng') \<Longrightarrow>
    id_step G T H fill s (s\<lparr>sys_disk := d'\<rparr>)"
| step_revoke: "revoke T F (sys_disk s) nm = (d', r) \<Longrightarrow> id_step G T H fill s (s\<lparr>sys_disk := d'\<rparr>)"

definition id_init :: "id_sys \<Rightarrow> bool" where
  "id_init s \<longleftrightarrow> token_files (sys_disk s) = [] \<and> minted s = [] \<and> spent s = []"

definition outstanding :: "id_disk \<Rightarrow> id_path \<Rightarrow> nat" where
  "outstanding d path = (if map_of (token_files d) (snd path) = None then 0 else 1)"

definition tokens_accounted :: "(bytes \<Rightarrow> hash32) \<Rightarrow> id_sys \<Rightarrow> bool" where
  "tokens_accounted H s \<longleftrightarrow> (\<forall>t. count_list (spent s) (token_path H t) + outstanding (sys_disk s) (token_path H t)
     \<le> count_list (minted s) (token_path H t))"

lemma token_path_eq_iff: "token_path H t = token_path H u \<longleftrightarrow> snd (token_path H t) = snd (token_path H u)"
  by (simp add: token_path_def)

lemma tokens_accounted_step:
  assumes "tokens_accounted H s" and "id_step G T H fill s s'"
  shows "tokens_accounted H s'"
  using assms(2)
proof cases
  case (step_open F rng d' r rng')
  then show ?thesis using assms(1) open_or_init_tokens [OF step_open(2)] by (simp add: tokens_accounted_def outstanding_def)
next
  case (step_mint F rng d' tok rng')
  note files = mint_token_files [OF step_mint(2), simplified]
  show ?thesis unfolding tokens_accounted_def
  proof
    fix t
    have "count_list (spent s) (token_path H t) + outstanding (sys_disk s) (token_path H t)
        \<le> count_list (minted s) (token_path H t)" using assms(1) by (simp add: tokens_accounted_def)
    then show "count_list (spent s') (token_path H t) + outstanding (sys_disk s') (token_path H t)
        \<le> count_list (minted s') (token_path H t)"
      using files step_mint(1) by (auto simp: outstanding_def token_path_eq_iff split: if_splits)
  qed
next
  case (step_mint_failed F rng d' e rng')
  then show ?thesis using assms(1) mint_token_files [OF step_mint_failed(2)]
    by (simp add: tokens_accounted_def outstanding_def)
next
  case (step_spend F tok d')
  note files = consume_token_files(1) [OF step_spend(2) refl]
  show ?thesis unfolding tokens_accounted_def
  proof
    fix t
    have "count_list (spent s) (token_path H t) + outstanding (sys_disk s) (token_path H t)
        \<le> count_list (minted s) (token_path H t)" using assms(1) by (simp add: tokens_accounted_def)
    then show "count_list (spent s') (token_path H t) + outstanding (sys_disk s') (token_path H t)
        \<le> count_list (minted s') (token_path H t)"
      using files step_spend(1) by (auto simp: outstanding_def token_path_eq_iff split: if_splits)
  qed
next
  case (step_spend_refused F tok d' r)
  then show ?thesis using assms(1) consume_token_files(2) [OF step_spend_refused(2)]
    by (simp add: tokens_accounted_def)
next
  case (step_enroll F ident csr_pem rng d' r rng')
  then show ?thesis using assms(1) enroll_client_tokens [OF step_enroll(2)]
    by (simp add: tokens_accounted_def outstanding_def)
next
  case (step_revoke F nm d' r)
  then show ?thesis using assms(1) revoke_tokens [OF step_revoke(2)] by (simp add: tokens_accounted_def outstanding_def)
qed

interpretation token_sys: inductive_invariant id_init "id_step G T H fill" "tokens_accounted H"
  by unfold_locales (simp add: id_init_def tokens_accounted_def outstanding_def, rule tokens_accounted_step)

text \<open>C18: In every state the daemon can reach from an empty token directory, whatever calls failed on the
  way, each token has been spent at most as often as it was minted: a spend that is granted was paid for by a
  minting that succeeded, and no token is spent twice.\<close>

theorem tokens_spent_at_most_once:
  assumes "reachable id_init (id_step G T H fill) s"
  shows "count_list (spent s) (token_path H t) \<le> count_list (minted s) (token_path H t)"
  using token_sys.reachable_inv [OF assms] by (auto simp: tokens_accounted_def dest: spec [of _ t])

section \<open>The life of a client certificate\<close>

lemma client_path_simps [simp]: "fst (client_path fp) = CLIENTS_DIR" "snd (client_path fp) \<noteq> tmp_name nm"
proof -
  show "snd (client_path fp) \<noteq> tmp_name nm"
  proof
    assume eq: "snd (client_path fp) = tmp_name nm"
    let ?a = "filter is_ascii_alphanumeric fp"
    show False
    proof (cases ?a)
      case Nil
      then show False using eq by (simp add: client_path_def tmp_name_def TOML_EXT_def ID_TMP_PREFIX_def)
    next
      case (Cons c cs)
      then have "is_ascii_alphanumeric c" by (metis list.set_intros(1) mem_Collect_eq set_filter)
      then show False using eq Cons
        by (auto simp: client_path_def tmp_name_def ID_TMP_PREFIX_def is_ascii_alphanumeric_def)
    qed
  qed
qed (simp add: client_path_def)

text \<open>What \<open>client_status\<close> sees of a registry file.\<close>

definition file_record :: "toml \<Rightarrow> id_disk \<Rightarrow> bytes \<Rightarrow> identity_error + client_record option" where
  "file_record T d nm =
     (case map_of (client_files d) nm of
        None \<Rightarrow> Ok None
      | Some body \<Rightarrow> if utf8_valid body then and_then (parse_record T (CLIENTS_DIR, nm) body) (\<lambda>r. Ok (Some r))
                     else Err (IdIo (CLIENTS_DIR, nm)))"

lemma client_record_of_no_faults:
  "client_record_of T id_no_faults d fp = file_record T d (snd (client_path fp))"
  by (auto simp: client_record_of_def file_record_def read_string_def id_no_faults_def Let_def dir_files_def
      split: option.splits) (metis client_path_simps(1) prod.collapse)+

lemma file_record_write:
  assumes "write_atomic F d (CLIENTS_DIR, nm) body False = (d', Ok u)" and "toml_laws T" and "toml_to_string T r = Ok body"
    and "\<And>x. p \<noteq> tmp_name x"
  shows "file_record T d' p = (if p = nm then Ok (Some r) else file_record T d p)"
proof -
  have "toml_from_str T body = Ok r" "utf8_valid body" using assms(2,3) by (auto simp: toml_laws_def)
  moreover have "map_of (client_files d') p = (if p = nm then Some body else map_of (client_files d) p)"
    using write_atomic_files(2) [OF assms(1), of p] write_atomic_files(3) [OF assms(1)] assms(4)
    by (auto simp: dir_files_def)
  ultimately show ?thesis by (simp add: file_record_def parse_record_def)
qed

lemma client_path_eq_iff: "client_path fp = client_path fp' \<longleftrightarrow> snd (client_path fp) = snd (client_path fp')"
  by (simp add: client_path_def)

lemma enroll_client_registers:
  assumes T: "toml_laws T"
    and enroll: "enroll_client G T H F ident d csr_pem rng = ((d', Ok ic), rng')"
  shows "\<exists>csr issuer c. csr_from_pem G csr_pem = Ok csr \<and> common_name (csr_params csr) = Some (ic_name ic) \<and>
    active_client_named T F d (ic_name ic) = Ok None \<and>
    csr_signed_by G (csr\<lparr>csr_params := client_profile (csr_params csr)\<rparr>) issuer rng = (Ok c, rng') \<and>
    ic_cert_pem ic = cert_pem c \<and> ic_fingerprint ic = hex (be_bytes 32 (H (cert_der c))) \<and>
    (\<forall>fp. file_record T d' (snd (client_path fp)) =
       (if client_path fp = client_path (ic_fingerprint ic)
        then Ok (Some \<lparr>cr_name = ic_name ic, cr_fingerprint = ic_fingerprint ic, cr_revoked = False\<rparr>)
        else file_record T d (snd (client_path fp))))"
proof -
  from enroll obtain csr nm issuer c body where *: "csr_from_pem G csr_pem = Ok csr"
    "common_name (csr_params csr) = Some nm" "active_client_named T F d nm = Ok None"
    "csr_signed_by G (csr\<lparr>csr_params := client_profile (csr_params csr)\<rparr>) issuer rng = (Ok c, rng')"
    "toml_to_string T \<lparr>cr_name = nm, cr_fingerprint = hex (be_bytes 32 (H (cert_der c))), cr_revoked = False\<rparr> = Ok body"
    "write_atomic F d (client_path (hex (be_bytes 32 (H (cert_der c))))) body False = (d', Ok ())"
    "ic = \<lparr>ic_cert_pem = cert_pem c, ic_name = nm, ic_fingerprint = hex (be_bytes 32 (H (cert_der c)))\<rparr>"
    by (auto simp: enroll_client_def Let_def split: sum.splits option.splits prod.splits)
  have w: "write_atomic F d (CLIENTS_DIR, snd (client_path (hex (be_bytes 32 (H (cert_der c)))))) body False = (d', Ok ())"
    using *(6) by (simp add: client_path_def)
  have "file_record T d' (snd (client_path fp)) =
       (if client_path fp = client_path (ic_fingerprint ic)
        then Ok (Some \<lparr>cr_name = ic_name ic, cr_fingerprint = ic_fingerprint ic, cr_revoked = False\<rparr>)
        else file_record T d (snd (client_path fp)))" for fp
    using file_record_write [OF w T *(5), of "snd (client_path fp)"] *(7)
    by (simp only: client_path_eq_iff) simp
  then show ?thesis using *(1-4,7) by (intro exI [of _ csr] exI [of _ issuer] exI [of _ c]) simp
qed

subsection \<open>The registry as it is read\<close>

lemma client_path_toml: "filter is_ascii_alphanumeric fp \<noteq> [] \<Longrightarrow> has_toml_ext (snd (client_path fp))"
  by (simp add: has_toml_ext_def client_path_def)

lemma read_registry_entries_map:
  assumes "read_registry_entries T F d fs = Ok reg"
  shows "map_of reg (CLIENTS_DIR, nm) =
     (if nm \<in> fst ` set fs \<and> has_toml_ext nm
      then (case and_then (read_string F d (CLIENTS_DIR, nm)) (parse_record T (CLIENTS_DIR, nm)) of Err _ \<Rightarrow> None | Ok r \<Rightarrow> Some r)
      else None)"
  using assms
proof (induction fs arbitrary: reg)
  case (Cons f fs)
  obtain n b where f: "f = (n, b)" by (cases f)
  show ?case
  proof (cases "has_toml_ext n")
    case False
    then show ?thesis using Cons f by auto
  next
    case True
    then obtain body r out where "read_string F d (CLIENTS_DIR, n) = Ok body" "parse_record T (CLIENTS_DIR, n) body = Ok r"
      "read_registry_entries T F d fs = Ok out" "reg = ((CLIENTS_DIR, n), r) # out"
      using Cons.prems f by (auto simp: and_then_Ok_iff)
    then show ?thesis using Cons.IH [of out] f True by auto
  qed
qed simp

lemma read_registry_entries_distinct:
  assumes "read_registry_entries T F d fs = Ok reg" and "distinct (map fst fs)"
  shows "distinct (map fst reg) \<and> fst ` set reg \<subseteq> (\<lambda>x. (CLIENTS_DIR, fst x)) ` set fs"
  using assms
proof (induction fs arbitrary: reg)
  case (Cons f fs)
  obtain n b where f: "f = (n, b)" by (cases f)
  obtain out where out: "read_registry_entries T F d fs = Ok out" "reg = out \<or> (\<exists>r. reg = ((CLIENTS_DIR, n), r) # out)"
    using Cons.prems(1) f by (auto simp: and_then_Ok_iff split: if_splits)
  have ih: "distinct (map fst out)" "fst ` set out \<subseteq> (\<lambda>x. (CLIENTS_DIR, fst x)) ` set fs" "n \<notin> fst ` set fs"
    using Cons.IH [OF out(1)] Cons.prems(2) f by simp_all
  then have "(CLIENTS_DIR, n) \<notin> fst ` set out" by auto
  moreover have "fst ` set reg \<subseteq> insert (CLIENTS_DIR, n) (fst ` set out)" using out(2) by auto
  ultimately show ?case using ih out(2) f by (auto dest: subset_trans [OF _ insert_mono])
qed simp

lemma read_registry_record:
  assumes "read_registry T F d = Ok reg" and "file_record T d nm = Ok (Some r)" and "has_toml_ext nm"
  shows "map_of reg (CLIENTS_DIR, nm) = Some r"
proof -
  have reg: "read_registry_entries T F d (client_files d) = Ok reg" using assms(1) by (simp add: read_registry_def split: if_splits)
  from assms(2) obtain body where body: "map_of (client_files d) nm = Some body" "utf8_valid body"
    "parse_record T (CLIENTS_DIR, nm) body = Ok r"
    by (auto simp: file_record_def and_then_Ok_iff split: option.splits if_splits)
  have mem: "nm \<in> fst ` set (client_files d)" using body(1) by (metis domI dom_map_of_conv_image_fst)
  have "read_registry_entries T F d fs = Ok out \<Longrightarrow> nm \<in> fst ` set fs \<Longrightarrow> \<exists>b. read_string F d (CLIENTS_DIR, nm) = Ok b" for fs out
    using assms(3) by (induction fs arbitrary: out) (force simp: and_then_Ok_iff split: if_splits)+
  then obtain b where "read_string F d (CLIENTS_DIR, nm) = Ok b" using reg mem by blast
  then have "read_string F d (CLIENTS_DIR, nm) = Ok body" using body by (auto simp: read_string_def dir_files_def split: if_splits)
  then show ?thesis using read_registry_entries_map [OF reg, of nm] mem assms(3) body(3) by simp
qed

text \<open>A certificate issued by \<open>enroll_client\<close> is active in the registry from then on under the name of the
  request, no active certificate had that name before, no other fingerprint changes its standing, and what was
  signed is the request with the client profile forced on it: no CA, client authentication only, no
  alternative names.\<close>

theorem enroll_client_effect:
  assumes "toml_laws T" and "enroll_client G T H F ident d csr_pem rng = ((d', Ok ic), rng')"
  shows "client_status T id_no_faults d' fp =
      (if client_path fp = client_path (ic_fingerprint ic) then Ok Active else client_status T id_no_faults d fp) \<and>
    client_name T id_no_faults d' (ic_fingerprint ic) = Ok (Some (ic_name ic)) \<and>
    active_client_named T F d (ic_name ic) = Ok None \<and>
    (\<exists>csr issuer c. csr_from_pem G csr_pem = Ok csr \<and> common_name (csr_params csr) = Some (ic_name ic) \<and>
      csr_signed_by G (csr\<lparr>csr_params := (csr_params csr)\<lparr>cp_is_ca := ExplicitNoCa, cp_key_usages := [DigitalSignature],
        cp_ext_key_usages := [ClientAuth], subject_alt_names := []\<rparr>\<rparr>) issuer rng = (Ok c, rng') \<and>
      ic_cert_pem ic = cert_pem c \<and> ic_fingerprint ic = hex (be_bytes 32 (H (cert_der c))))"
proof -
  obtain csr issuer c where e: "csr_from_pem G csr_pem = Ok csr" "common_name (csr_params csr) = Some (ic_name ic)"
    "active_client_named T F d (ic_name ic) = Ok None"
    "csr_signed_by G (csr\<lparr>csr_params := client_profile (csr_params csr)\<rparr>) issuer rng = (Ok c, rng')"
    "ic_cert_pem ic = cert_pem c" "ic_fingerprint ic = hex (be_bytes 32 (H (cert_der c)))"
    and reg: "\<And>fp. file_record T d' (snd (client_path fp)) =
       (if client_path fp = client_path (ic_fingerprint ic)
        then Ok (Some \<lparr>cr_name = ic_name ic, cr_fingerprint = ic_fingerprint ic, cr_revoked = False\<rparr>)
        else file_record T d (snd (client_path fp)))"
    using enroll_client_registers [OF assms] by blast
  show ?thesis
  proof (intro conjI exI [of _ csr] exI [of _ issuer] exI [of _ c])
    show "client_status T id_no_faults d' fp =
      (if client_path fp = client_path (ic_fingerprint ic) then Ok Active else client_status T id_no_faults d fp)"
      using reg [of fp] by (simp add: client_status_def client_record_of_no_faults)
    show "client_name T id_no_faults d' (ic_fingerprint ic) = Ok (Some (ic_name ic))"
      using reg [of "ic_fingerprint ic"] by (simp add: client_name_def client_record_of_no_faults)
  qed (use e in \<open>simp_all add: client_profile_def\<close>)
qed

text \<open>While a client is active, no certificate is issued to another request for its name, whatever
  calls fail.\<close>

theorem active_name_not_reissued:
  assumes "client_record_of T id_no_faults d fp = Ok (Some r)" and "\<not> cr_revoked r"
    and "filter is_ascii_alphanumeric fp \<noteq> []"
    and "csr_from_pem G csr_pem = Ok csr" and "common_name (csr_params csr) = Some (cr_name r)"
  shows "\<exists>e. enroll_client G T H F ident d csr_pem rng = ((d, Err e), rng)"
proof (cases "read_registry T F d")
  case (Inl e)
  then show ?thesis using assms(4,5) by (simp add: enroll_client_def active_client_named_def)
next
  case (Inr reg)
  have "map_of reg (CLIENTS_DIR, snd (client_path fp)) = Some r"
    using read_registry_record [OF Inr _ client_path_toml [OF assms(3)]] assms(1)
    by (simp add: client_record_of_no_faults)
  then have "((CLIENTS_DIR, snd (client_path fp)), r) \<in> set reg" by (rule map_of_SomeD)
  then have "find (\<lambda>(_, r'). cr_name r' = cr_name r \<and> \<not> cr_revoked r') reg \<noteq> None"
    using assms(2) by (auto simp: find_None_iff)
  then show ?thesis using assms(4,5) Inr by (auto simp: enroll_client_def active_client_named_def)
qed

subsection \<open>Revocation\<close>

lemma revoke_loop_effect:
  assumes "revoke_loop T id_no_faults nm reg d = (d', Ok n)" and "toml_laws T"
    and "distinct (map fst reg)" and "\<forall>x \<in> set reg. fst (fst x) = CLIENTS_DIR"
    and "\<And>x. p \<noteq> tmp_name x"
  shows "n = length (filter (\<lambda>(_, r). cr_name r = nm \<and> \<not> cr_revoked r) reg) \<and>
     file_record T d' p =
       (case map_of reg (CLIENTS_DIR, p) of
          Some r \<Rightarrow> if cr_name r = nm \<and> \<not> cr_revoked r then Ok (Some (r\<lparr>cr_revoked := True\<rparr>)) else file_record T d p
        | None \<Rightarrow> file_record T d p)"
  using assms(1,3,4)
proof (induction reg arbitrary: d n)
  case Nil
  then show ?case by simp
next
  case (Cons e reg)
  obtain q r where e: "e = ((CLIENTS_DIR, q), r)" using Cons.prems(3) by (cases e) auto
  have d: "distinct (map fst reg)" "\<forall>x \<in> set reg. fst (fst x) = CLIENTS_DIR" "map_of reg (CLIENTS_DIR, q) = None"
    using Cons.prems(2,3) e by (auto simp: map_of_eq_None_iff)
  show ?case
  proof (cases "cr_name r = nm \<and> \<not> cr_revoked r")
    case False
    then have "revoke_loop T id_no_faults nm reg d = (d', Ok n)" using Cons.prems(1) e by auto
    then show ?thesis using Cons.IH [OF _ d(1,2)] False e d(3) by auto
  next
    case True
    then obtain body d1 m where b: "toml_to_string T (r\<lparr>cr_revoked := True\<rparr>) = Ok body"
      and w: "write_atomic id_no_faults d (CLIENTS_DIR, q) body False = (d1, Ok ())"
      and l: "revoke_loop T id_no_faults nm reg d1 = (d', Ok m)" and n: "n = Suc m"
      using Cons.prems(1) e by (auto simp: and_then_Ok_iff split: sum.splits prod.splits)
    show ?thesis
      using Cons.IH [OF l d(1,2)] file_record_write [OF w assms(2) b assms(5)] True e d(3) n
      by (auto split: option.split)
  qed
qed

text \<open>Revoking a name marks every certificate enrolled under it as revoked and leaves the standing of
  every other fingerprint as it was.\<close>

theorem revoke_effect:
  assumes "toml_laws T" and "distinct (map fst (client_files d))"
    and "revoke T id_no_faults d nm = (d', Ok n)" and "filter is_ascii_alphanumeric fp \<noteq> []"
  shows "client_status T id_no_faults d' fp =
     and_then (client_record_of T id_no_faults d fp) (\<lambda>o'. Ok (case o' of None \<Rightarrow> Unknown
       | Some r \<Rightarrow> if cr_name r = nm \<or> cr_revoked r then Revoked else Active))"
proof -
  obtain reg where reg: "read_registry T id_no_faults d = Ok reg" and loop: "revoke_loop T id_no_faults nm reg d = (d', Ok n)"
    using assms(3) by (auto simp: revoke_def split: sum.splits)
  have ent: "read_registry_entries T id_no_faults d (client_files d) = Ok reg"
    using reg by (simp add: read_registry_def split: if_splits)
  let ?p = "snd (client_path fp)"
  have paths: "\<forall>x \<in> set reg. fst (fst x) = CLIENTS_DIR" using read_registry_paths [OF reg] by force
  have eff: "file_record T d' ?p = (case map_of reg (CLIENTS_DIR, ?p) of
          Some r \<Rightarrow> if cr_name r = nm \<and> \<not> cr_revoked r then Ok (Some (r\<lparr>cr_revoked := True\<rparr>)) else file_record T d ?p
        | None \<Rightarrow> file_record T d ?p)"
    using revoke_loop_effect [OF loop assms(1), of ?p] read_registry_entries_distinct [OF ent assms(2)] paths
    by simp
  show ?thesis
  proof (cases "file_record T d ?p")
    case (Inl e)
    have "map_of reg (CLIENTS_DIR, ?p) = None"
      using read_registry_entries_map [OF ent, of ?p] Inl
      by (auto simp: file_record_def read_string_def dir_files_def id_no_faults_def split: option.splits if_splits sum.splits)
    then show ?thesis using eff Inl by (simp add: client_status_def client_record_of_no_faults)
  next
    case (Inr o')
    show ?thesis
    proof (cases o')
      case None
      then have "map_of reg (CLIENTS_DIR, ?p) = None"
        using read_registry_entries_map [OF ent, of ?p] Inr
        by (auto simp: file_record_def and_then_Ok_iff map_of_eq_None_iff split: option.splits if_splits)
      then show ?thesis using eff Inr None by (simp add: client_status_def client_record_of_no_faults)
    next
      case (Some r)
      then have "map_of reg (CLIENTS_DIR, ?p) = Some r"
        using read_registry_record [OF reg _ client_path_toml [OF assms(4)]] Inr by simp
      then show ?thesis using eff Inr Some by (simp add: client_status_def client_record_of_no_faults)
    qed
  qed
qed

section \<open>The certificates survive a restart\<close>

text \<open>What the code relies on of rcgen: PEM texts are strings.\<close>

definition rcgen_laws :: "'r rcgen \<Rightarrow> bool" where
  "rcgen_laws G \<longleftrightarrow>
     (\<forall>r k r'. keypair_generate G r = (Ok k, r') \<longrightarrow> utf8_valid k) \<and>
     (\<forall>p k r c r'. self_signed G p k r = (Ok c, r') \<longrightarrow> utf8_valid (cert_pem c)) \<and>
     (\<forall>p k i r c r'. params_signed_by G p k i r = (Ok c, r') \<longrightarrow> utf8_valid (cert_pem c))"

lemma make_utf8:
  assumes "rcgen_laws G"
  shows "make_ca G rng = (Ok pair, rng') \<Longrightarrow> utf8_valid (fst pair) \<and> utf8_valid (snd pair)"
    and "make_server G cc ck rng = (Ok pair, rng') \<Longrightarrow> utf8_valid (fst pair) \<and> utf8_valid (snd pair)"
  using assms by (auto simp: make_ca_def make_server_def rcgen_laws_def split: sum.splits prod.splits) blast+

definition pair_files :: "id_disk \<Rightarrow> id_path \<Rightarrow> id_path \<Rightarrow> bytes \<times> bytes \<Rightarrow> bool" where
  "pair_files d c k pair \<longleftrightarrow> map_of (dir_files d (fst c)) (snd c) = Some (fst pair) \<and>
     map_of (dir_files d (fst k)) (snd k) = Some (snd pair) \<and> utf8_valid (fst pair) \<and> utf8_valid (snd pair)"

lemma load_or_make_again:
  "pair_files d c k pair \<Longrightarrow> load_or_make id_no_faults c k mk d rng = ((d, Ok pair), rng)"
  by (simp add: load_or_make_def pair_files_def is_file_def load_pair_def read_string_def id_no_faults_def)

lemma load_or_make_files:
  assumes "load_or_make F c k mk d rng = ((d', Ok pair), rng')" and "fst c = IdRoot" and "fst k = IdRoot"
    and "snd c \<noteq> snd k" and "\<And>x. snd c \<noteq> tmp_name x"
    and mk: "\<And>r p r'. mk r = (Ok p, r') \<Longrightarrow> utf8_valid (fst p) \<and> utf8_valid (snd p)"
  shows "pair_files d' c k pair \<and>
     (\<forall>nm. nm \<notin> {snd c, snd k, tmp_name (snd c), tmp_name (snd k)} \<longrightarrow> map_of (root_files d') nm = map_of (root_files d) nm)"
proof (cases "is_file F d c \<and> is_file F d k")
  case True
  then show ?thesis using assms(1)
    by (auto simp: load_or_make_def load_pair_def and_then_Ok_iff read_string_def pair_files_def
        split: option.splits if_splits)
next
  case False
  then obtain r' where p: "mk rng = (Ok pair, r')" and st: "store_pair F d c k pair = (d', Ok pair)"
    using assms(1) by (auto simp: load_or_make_def store_pair_def split: sum.splits prod.splits)
  then obtain d1 where w1: "write_atomic F d c (fst pair) False = (d1, Ok ())"
    and w2: "write_atomic F d1 k (snd pair) True = (d', Ok ())"
    by (auto simp: store_pair_def split: sum.splits prod.splits)
  have "map_of (root_files d1) (snd c) = Some (fst pair)" "map_of (root_files d') (snd k) = Some (snd pair)"
    "map_of (root_files d') (snd c) = map_of (root_files d1) (snd c)"
    using write_atomic_files(3) [OF w1] write_atomic_files(3) [OF w2] write_atomic_files(2) [OF w2, of "snd c"] assms(2-5)
    by (simp_all add: dir_files_def)
  moreover have "nm \<notin> {snd c, snd k, tmp_name (snd c), tmp_name (snd k)} \<Longrightarrow> map_of (root_files d') nm = map_of (root_files d) nm" for nm
    using write_atomic_files(2) [OF w1, of nm] write_atomic_files(2) [OF w2, of nm] assms(2,3)
    by (simp add: dir_files_def)
  ultimately show ?thesis using mk [OF p] assms(2,3) by (simp add: pair_files_def dir_files_def)
qed

lemma create_dirs_no_faults: "id_create_dir_all id_no_faults dir = Ok ()"
  by (simp add: id_create_dir_all_def id_no_faults_def)

lemma pem_file_names:
  "snd CA_CERT_FILE \<noteq> tmp_name x" "snd CA_KEY_FILE \<noteq> tmp_name x"
  "snd SERVER_CERT_FILE \<noteq> tmp_name x" "snd SERVER_KEY_FILE \<noteq> tmp_name x"
  "distinct [snd CA_CERT_FILE, snd CA_KEY_FILE, snd SERVER_CERT_FILE, snd SERVER_KEY_FILE]"
  by (simp_all add: pem_files ascii_def tmp_name_def ID_TMP_PREFIX_def)

text \<open>Opening the identity directory is idempotent: once \<open>open_or_init\<close> has succeeded, opening it again
  gives the same certificates and keys, whatever the random generator would produce, and writes nothing.\<close>

theorem open_or_init_idempotent:
  assumes "rcgen_laws G" and "open_or_init G F d rng = ((d', Ok ident), rng')"
  shows "open_or_init G id_no_faults d' rng2 = ((d', Ok ident), rng2)"
proof -
  obtain ca d1 rng1 der server where
    ca: "load_or_make F CA_CERT_FILE CA_KEY_FILE (make_ca G) d rng = ((d1, Ok ca), rng1)"
    and der: "pem_to_der (fst ca) = Some der"
    and server: "load_or_make F SERVER_CERT_FILE SERVER_KEY_FILE (make_server G (fst ca) (snd ca)) d1 rng1 = ((d', Ok server), rng')"
    and ident: "ident = \<lparr>ca_cert_pem = fst ca, ca_cert_der = der, ca_key_pem = snd ca,
                  server_cert_pem = fst server, server_key_pem = snd server\<rparr>"
    using assms(2) by (auto simp: open_or_init_def split: sum.splits prod.splits option.splits)
  have roots: "fst CA_CERT_FILE = IdRoot" "fst CA_KEY_FILE = IdRoot" "fst SERVER_CERT_FILE = IdRoot" "fst SERVER_KEY_FILE = IdRoot"
    by (simp_all add: pem_files)
  note names = pem_file_names
  have "pair_files d1 CA_CERT_FILE CA_KEY_FILE ca"
    using load_or_make_files [OF ca roots(1,2) _ names(1) make_utf8(1) [OF assms(1)]] names(5) by simp
  moreover have sv: "pair_files d' SERVER_CERT_FILE SERVER_KEY_FILE server"
    "\<And>nm. nm \<notin> {snd SERVER_CERT_FILE, snd SERVER_KEY_FILE, tmp_name (snd SERVER_CERT_FILE), tmp_name (snd SERVER_KEY_FILE)} \<Longrightarrow>
       map_of (root_files d') nm = map_of (root_files d1) nm"
    using load_or_make_files [OF server roots(3,4) _ names(3) make_utf8(2) [OF assms(1)]] names(5) by simp_all
  ultimately have "pair_files d' CA_CERT_FILE CA_KEY_FILE ca"
    using sv(2) [of "snd CA_CERT_FILE"] sv(2) [of "snd CA_KEY_FILE"] names roots by (simp add: pair_files_def dir_files_def)
  from load_or_make_again [OF this, of "make_ca G" rng2]
    load_or_make_again [OF sv(1), of "make_server G (fst ca) (snd ca)" rng2]
  show ?thesis by (simp add: open_or_init_def create_dirs_no_faults ident der)
qed

section \<open>What a failed registry write leaves behind\<close>

lemma has_toml_ext_tmp: "utf8_valid nm \<Longrightarrow> has_toml_ext nm \<Longrightarrow> has_toml_ext (tmp_name nm)"
  by (auto simp: has_toml_ext_def tmp_name_def)

lemma read_registry_blocked:
  assumes "map_of (client_files d) nm = Some body" and "has_toml_ext nm"
    and "utf8_valid body \<Longrightarrow> toml_from_str T body = Err u"
  shows "\<exists>e. read_registry T F d = Err e"
proof (rule ccontr)
  assume "\<nexists>e. read_registry T F d = Err e"
  then obtain reg where "read_registry T F d = Ok reg" by (cases "read_registry T F d") auto
  then have reg: "read_registry_entries T F d (client_files d) = Ok reg" by (simp add: read_registry_def split: if_splits)
  have "nm \<in> fst ` set fs \<Longrightarrow> read_registry_entries T F d fs = Ok out \<Longrightarrow> False" for fs out
    using assms by (induction fs arbitrary: out)
      (force simp: and_then_Ok_iff parse_record_def read_string_def dir_files_def split: if_splits option.splits)+
  moreover have "nm \<in> fst ` set (client_files d)" using assms(1) by (metis domI dom_map_of_conv_image_fst)
  ultimately show False using reg by blast
qed

text \<open>When writing a registry entry fails in mid-write, the partial text stays behind under a temporary
  name that still ends in \<open>.toml\<close>; unless that prefix happens to parse, no client can be enrolled or revoked
  any more.\<close>

theorem failed_registry_write_blocks:
  assumes "id_fails F (IdWrite (CLIENTS_DIR, tmp_name (snd (client_path fp))))"
    and "\<not> id_fails F (IdCreate (CLIENTS_DIR, tmp_name (snd (client_path fp))))"
    and "filter is_ascii_alphanumeric fp \<noteq> []"
    and "toml_from_str T (take (id_partial F) body) = Err u"
    and "write_atomic F d (client_path fp) body False = (d', r)"
  shows "r = Err (IdIo (client_path fp)) \<and> (\<exists>e. revoke T F' d' nm = (d', Err e)) \<and>
     (\<nexists>d'' ic rng'. enroll_client G T H F' ident d' csr_pem rng = ((d'', Ok ic), rng'))"
proof -
  let ?t = "tmp_name (snd (client_path fp))"
  have alnum: "\<And>b. is_ascii_alphanumeric b \<Longrightarrow> b < 0x80"
    by (auto simp: is_ascii_alphanumeric_def elim: order.strict_trans1)
  have "utf8_valid (snd (client_path fp))"
    by (rule utf8_valid_ascii) (auto simp: client_path_def TOML_EXT_def intro: alnum)
  then have ext: "has_toml_ext ?t" using client_path_toml [OF assms(3)] by (rule has_toml_ext_tmp)
  have eff: "r = Err (IdIo (client_path fp))" "map_of (client_files d') ?t = Some (take (id_partial F) body)"
    using assms(1,2,5) by (auto simp: write_atomic_def tmp_name_def Let_def)
  obtain e where "read_registry T F' d' = Err e"
    using read_registry_blocked [OF eff(2) ext, of T u F'] assms(4) by auto
  then show ?thesis
    using eff(1) by (auto simp: revoke_def enroll_client_def active_client_named_def split: sum.splits option.splits)
qed

section \<open>Concrete runs\<close>

definition demo_toml :: toml where
  "demo_toml = \<lparr>
     toml_to_string = (\<lambda>r. let body = (if cr_revoked r then 1 else 0) # replicate (length (cr_name r)) 1 @ [0]
                                 @ cr_name r @ cr_fingerprint r
                           in if utf8_valid body then Ok body else Err ()),
     toml_from_str = (\<lambda>b. case b of [] \<Rightarrow> Err ()
        | f # rest \<Rightarrow> let n = length (takeWhile (\<lambda>x. x = 1) rest); text = drop (n + 1) rest
            in if n < length rest
               then Ok \<lparr>cr_name = take n text, cr_fingerprint = drop n text, cr_revoked = (f = 1)\<rparr>
               else Err ())\<rparr>"

lemma demo_toml_laws: "toml_laws demo_toml"
proof -
  have "takeWhile (\<lambda>x. x = 1) (replicate n (1::byte) @ 0 # xs) = replicate n 1" for n xs
    by (induction n) auto
  then show ?thesis by (auto simp: toml_laws_def demo_toml_def Let_def split: if_splits)
qed

definition demo_rcgen :: "unit rcgen" where
  "demo_rcgen = \<lparr>
     keypair_generate = (\<lambda>r. (Ok [0x6B], r)),
     keypair_from_pem = Ok,
     cert_params_new = (\<lambda>sans. Ok \<lparr>subject_alt_names = sans, dn_common_name = None, cp_is_ca = NoCa,
        cp_key_usages = [], cp_ext_key_usages = []\<rparr>),
     self_signed = (\<lambda>p k r. (Ok \<lparr>cert_pem = ascii ''AAAA'', cert_der = [0, 0, 0]\<rparr>, r)),
     issuer_from_ca_cert_pem = (\<lambda>c k. Ok (c, k)),
     params_signed_by = (\<lambda>p k i r. (Ok \<lparr>cert_pem = ascii ''AAAB'', cert_der = [0, 0, 1]\<rparr>, r)),
     serialize_request = (\<lambda>p k r. (Ok (case dn_common_name p of Some (Utf8String n) \<Rightarrow> n | _ \<Rightarrow> []), r)),
     csr_from_pem = (\<lambda>pem. Ok \<lparr>csr_params = \<lparr>subject_alt_names = [], dn_common_name = Some (Utf8String pem),
        cp_is_ca = CaUnconstrained, cp_key_usages = [], cp_ext_key_usages = []\<rparr>, csr_public_key = []\<rparr>),
     csr_signed_by = (\<lambda>c i r. (Ok \<lparr>cert_pem = ascii ''AAAC'', cert_der = [0, 0, 2]\<rparr>, r))\<rparr>"

lemma demo_rcgen_laws: "rcgen_laws demo_rcgen"
  unfolding rcgen_laws_def demo_rcgen_def by (auto intro!: utf8_valid_ascii simp: ascii_def)

definition empty_disk :: id_disk where
  "empty_disk = \<lparr>root_files = [], token_files = [], client_files = []\<rparr>"

definition flat_hash :: "bytes \<Rightarrow> hash32" where "flat_hash bs = 0"

definition demo_ident :: daemon_identity where
  "demo_ident = \<lparr>ca_cert_pem = ascii ''AAAA'', ca_cert_der = [0, 0, 0], ca_key_pem = [0x6B],
     server_cert_pem = ascii ''AAAB'', server_key_pem = [0x6B]\<rparr>"

definition demo_disk :: id_disk where
  "demo_disk = fst (fst (open_or_init demo_rcgen id_no_faults empty_disk ()))"

definition demo_enrolled :: id_disk where
  "demo_enrolled = fst (fst (enroll_client demo_rcgen demo_toml flat_hash id_no_faults demo_ident empty_disk (ascii ''a'') ()))"

definition demo_fp :: bytes where "demo_fp = hex (be_bytes 32 (flat_hash []))"

lemma demo_open: "open_or_init demo_rcgen id_no_faults empty_disk () = ((demo_disk, Ok demo_ident), ())"
proof -
  have "snd (fst (open_or_init demo_rcgen id_no_faults empty_disk ())) = Ok demo_ident" by code_simp
  then show ?thesis by (simp add: demo_disk_def prod_eq_iff)
qed

lemma demo_enroll: "enroll_client demo_rcgen demo_toml flat_hash id_no_faults demo_ident empty_disk (ascii ''a'') () =
   ((demo_enrolled, Ok \<lparr>ic_cert_pem = ascii ''AAAC'', ic_name = ascii ''a'', ic_fingerprint = demo_fp\<rparr>), ())"
proof -
  have "snd (fst (enroll_client demo_rcgen demo_toml flat_hash id_no_faults demo_ident empty_disk (ascii ''a'') ()))
     = Ok \<lparr>ic_cert_pem = ascii ''AAAC'', ic_name = ascii ''a'', ic_fingerprint = demo_fp\<rparr>" by code_simp
  then show ?thesis by (auto simp: demo_enrolled_def prod_eq_iff)
qed

theorem open_or_init_idempotent_witness:
  "open_or_init demo_rcgen id_no_faults demo_disk () = ((demo_disk, Ok demo_ident), ())"
  by (rule open_or_init_idempotent [OF demo_rcgen_laws demo_open])

theorem enroll_client_effect_witness:
  "client_status demo_toml id_no_faults demo_enrolled demo_fp = Ok Active \<and>
   client_name demo_toml id_no_faults demo_enrolled demo_fp = Ok (Some (ascii ''a''))"
  using enroll_client_effect [OF demo_toml_laws demo_enroll, of demo_fp] by simp

lemma demo_record: "client_record_of demo_toml id_no_faults demo_enrolled demo_fp =
    Ok (Some \<lparr>cr_name = ascii ''a'', cr_fingerprint = demo_fp, cr_revoked = False\<rparr>)"
  by code_simp

lemma demo_fp_alnum: "filter is_ascii_alphanumeric demo_fp \<noteq> []"
  by code_simp

theorem active_name_not_reissued_witness:
  "\<exists>e. enroll_client demo_rcgen demo_toml flat_hash id_no_faults demo_ident demo_enrolled (ascii ''a'') ()
     = ((demo_enrolled, Err e), ())"
proof -
  let ?p = "\<lparr>subject_alt_names = [], dn_common_name = Some (Utf8String (ascii ''a'')), cp_is_ca = CaUnconstrained,
     cp_key_usages = [], cp_ext_key_usages = []\<rparr>"
  have "common_name ?p = Some (ascii ''a'')" by code_simp
  then show ?thesis
    by (intro active_name_not_reissued [OF demo_record _ demo_fp_alnum, where csr = "\<lparr>csr_params = ?p, csr_public_key = []\<rparr>"])
      (simp_all add: demo_rcgen_def)
qed

theorem revoke_effect_witness:
  "client_status demo_toml id_no_faults (fst (revoke demo_toml id_no_faults demo_enrolled (ascii ''a''))) demo_fp = Ok Revoked"
proof -
  have n: "snd (revoke demo_toml id_no_faults demo_enrolled (ascii ''a'')) = Ok 1" by code_simp
  have "distinct (map fst (client_files demo_enrolled))" by code_simp
  from revoke_effect [OF demo_toml_laws this _ demo_fp_alnum,
      of "ascii ''a''" "fst (revoke demo_toml id_no_faults demo_enrolled (ascii ''a''))" 1]
  show ?thesis using n demo_record by (simp add: prod_eq_iff)
qed

theorem failed_registry_write_blocks_witness:
  "\<exists>e. revoke demo_toml id_no_faults
     (fst (write_atomic \<lparr>id_fails = (\<lambda>s. s = IdWrite (CLIENTS_DIR, tmp_name (snd (client_path demo_fp)))), id_partial = 2\<rparr>
        empty_disk (client_path demo_fp) [0, 1, 0, 97, 48] False)) (ascii ''a'') =
     (fst (write_atomic \<lparr>id_fails = (\<lambda>s. s = IdWrite (CLIENTS_DIR, tmp_name (snd (client_path demo_fp)))), id_partial = 2\<rparr>
        empty_disk (client_path demo_fp) [0, 1, 0, 97, 48] False), Err e)"
proof -
  let ?F = "\<lparr>id_fails = (\<lambda>s. s = IdWrite (CLIENTS_DIR, tmp_name (snd (client_path demo_fp)))), id_partial = 2\<rparr>"
  obtain d' r where w: "write_atomic ?F empty_disk (client_path demo_fp) [0, 1, 0, 97, 48] False = (d', r)"
    by (cases "write_atomic ?F empty_disk (client_path demo_fp) [0, 1, 0, 97, 48] False")
  have p: "toml_from_str demo_toml (take (id_partial ?F) [0, 1, 0, 97, 48]) = Err ()"
    by (simp add: demo_toml_def numeral_2_eq_2)
  show ?thesis
    using failed_registry_write_blocks [OF _ _ demo_fp_alnum p w, of id_no_faults "ascii ''a''"
        demo_rcgen flat_hash demo_ident "[]" "()"] w by simp
qed

definition demo_sys :: id_sys where
  "demo_sys = \<lparr>sys_disk = empty_disk, minted = [], spent = []\<rparr>"

definition demo_token :: bytes where "demo_token = hex (fst (zero_fill TOKEN_LEN ()))"

theorem tokens_spent_at_most_once_witness:
  "\<exists>s. reachable id_init (id_step demo_rcgen demo_toml flat_hash zero_fill) s \<and>
     spent s = [token_path flat_hash demo_token] \<and>
     count_list (spent s) (token_path flat_hash demo_token) \<le> count_list (minted s) (token_path flat_hash demo_token)"
proof -
  let ?R = "reachable id_init (id_step demo_rcgen demo_toml flat_hash zero_fill)"
  define d1 where "d1 = fst (fst (mint_token flat_hash zero_fill id_no_faults empty_disk ()))"
  define d2 where "d2 = fst (consume_token flat_hash id_no_faults d1 demo_token)"
  have m: "mint_token flat_hash zero_fill id_no_faults (sys_disk demo_sys) () = ((d1, Ok demo_token), ())"
    by (simp add: mint_token_def d1_def demo_sys_def demo_token_def write_atomic_no_faults Let_def split_beta)
  have "snd (consume_token flat_hash id_no_faults d1 demo_token) = Ok True" unfolding d1_def by code_simp
  then have c: "consume_token flat_hash id_no_faults d1 demo_token = (d2, Ok True)" by (simp add: d2_def prod_eq_iff)
  have "?R demo_sys" by (rule reachable_init) (simp add: id_init_def demo_sys_def empty_disk_def)
  from reachable_step [OF this step_mint [OF m]]
  have "?R (demo_sys\<lparr>sys_disk := d1, minted := token_path flat_hash demo_token # minted demo_sys\<rparr>)" .
  from reachable_step [OF this step_spend [of _ _ _ demo_token d2]] c
  have r: "?R (demo_sys\<lparr>sys_disk := d2, minted := [token_path flat_hash demo_token], spent := [token_path flat_hash demo_token]\<rparr>)"
    by (simp add: demo_sys_def)
  show ?thesis by (rule exI, rule conjI, rule r) (use tokens_spent_at_most_once [OF r, of demo_token] in simp)
qed

end
