(* ===== verification/Service_Props.thy ===== *)
theory Service_Props
  imports Service Identity_Registry
begin

text \<open>
  What the gRPC service guarantees: only registered certificates reach the store, a token buys one certificate,
  every state of the daemon is a state of the store that the store's invariant covers, stored snapshots are
  served in full, and the contract a client relies on for uploads (locale \<open>blob_server\<close>).
\<close>

section \<open>Authentication guards every handler\<close>

text \<open>The requests that need a registered certificate: all but \<open>Enroll\<close>.\<close>

definition needs_auth :: "request \<Rightarrow> bool" where
  "needs_auth req \<longleftrightarrow> (case req of EnrollRequest _ _ \<Rightarrow> False | _ \<Rightarrow> True)"

lemma handle_refused:
  assumes "needs_auth req" and "authenticate E F svc (peer_fingerprint (env_hash E) peer) = Err code"
  shows "handle E F svc peer req rng = ((svc, Err code), rng)"
  using assms
  by (cases req) (simp_all add: needs_auth_def handle_def list_snapshots_rpc_def has_chunks_rpc_def upload_chunks_def
      put_manifest_rpc_def get_manifest_rpc_def get_chunks_rpc_def Let_def)

text \<open>C5: A daemon with an identity serves no request but \<open>Enroll\<close> to a peer that presents no certificate, or one
  whose registry standing is not active: the request changes nothing and returns only a refusal, \<open>UNAUTHENTICATED\<close>
  without a registered certificate, \<open>PERMISSION_DENIED\<close> for a revoked one, \<open>INTERNAL\<close> when the registry cannot
  be read.\<close>

theorem unauthorised_requests_refused:
  assumes "svc_auth svc \<noteq> None" and "needs_auth req"
    and "peer_fingerprint (env_hash E) peer = None \<or>
      client_status (env_toml E) (auth_F F) (svc_dir svc) (the (peer_fingerprint (env_hash E) peer)) \<noteq> Ok Active"
  shows "handle E F svc peer req rng =
    ((svc, Err (case peer_fingerprint (env_hash E) peer of
        None \<Rightarrow> Unauthenticated
      | Some fp \<Rightarrow>
         if auth_lost F then Internal
         else (case client_status (env_toml E) (auth_F F) (svc_dir svc) fp of
             Ok Unknown \<Rightarrow> Unauthenticated | Ok Revoked \<Rightarrow> PermissionDenied | _ \<Rightarrow> Internal))), rng)"
proof (rule handle_refused [OF assms(2)])
  have reg: "client_status T F' d fp = Err e \<Longrightarrow> status_from_identity e = Internal" for T F' d fp e
    by (auto simp: client_status_def client_record_of_def read_string_def parse_record_def status_from_identity_def
        Let_def map_err_def and_then_def split: if_splits option.splits sum.splits)
  show "authenticate E F svc (peer_fingerprint (env_hash E) peer) = Err (case peer_fingerprint (env_hash E) peer of
        None \<Rightarrow> Unauthenticated
      | Some fp \<Rightarrow>
         if auth_lost F then Internal
         else (case client_status (env_toml E) (auth_F F) (svc_dir svc) fp of
             Ok Unknown \<Rightarrow> Unauthenticated | Ok Revoked \<Rightarrow> PermissionDenied | _ \<Rightarrow> Internal))"
    using assms(1,3) by (auto simp: authenticate_def reg split: option.splits sum.splits client_status.splits)
qed

section \<open>Enrollment\<close>

text \<open>\<open>Enroll\<close> never touches the chunk store, and it issues a certificate only against an outstanding token,
  which is spent by then: presenting the same token again never yields a certificate.\<close>

theorem enroll_spends_token:
  assumes "enroll E F svc token csr_pem rng = ((svc', Ok resp), rng')"
  shows "svc_store svc' = svc_store svc \<and> outstanding (svc_dir svc) (token_path (env_hash E) token) = 1 \<and>
    outstanding (svc_dir svc') (token_path (env_hash E) token) = 0 \<and>
    (\<exists>code. enroll E F' svc' token csr' rng2 = ((svc', Err code), rng2))"
proof -
  let ?p = "token_path (env_hash E) token"
  obtain ident dir1 dir2 issued where a: "svc_auth svc = Some ident"
    and c: "consume_token (env_hash E) (token_F F) (svc_dir svc) token = (dir1, Ok True)"
    and e: "enroll_client (env_rcgen E) (env_toml E) (env_hash E) (enroll_F F) ident dir1 csr_pem rng = ((dir2, Ok issued), rng')"
    and svc': "svc' = svc\<lparr>svc_dir := dir2\<rparr>"
    using assms by (auto simp: enroll_def split: option.splits if_splits prod.splits sum.splits bool.splits)
  have "map_of (token_files (svc_dir svc)) (snd ?p) \<noteq> None" "map_of (token_files dir1) (snd ?p) = None"
    using consume_token_files(1) [OF c refl] by auto
  then have out: "outstanding (svc_dir svc) ?p = 1" "outstanding (svc_dir svc') ?p = 0"
    "map_of (token_files (svc_dir svc')) (snd ?p) = None"
    using enroll_client_tokens [OF e] svc' by (simp_all add: outstanding_def)
  have "\<exists>code. enroll E F' svc' token csr' rng2 = ((svc', Err code), rng2)"
    using a svc' out(3) by (auto simp: enroll_def consume_token_def Let_def)
  then show ?thesis using out svc' by simp
qed

section \<open>The daemon refines the store\<close>

text \<open>The calls the store's invariant covers: an upload's renames succeed, and reference counts stay below
  the ceiling of 64 bits.\<close>

definition request_guard :: "('t, 'r) env \<Rightarrow> svc_faults \<Rightarrow> 't service \<Rightarrow> request \<Rightarrow> bool" where
  "request_guard E F svc req =
     (case req of
        UploadChunksRequest _ \<Rightarrow> \<forall>n p. \<not> fails (op_F F n) (RenameFile p)
      | PutManifestRequest _ _ ids \<Rightarrow>
          \<forall>refs cid. collect_results parse_chunk_id ids = Ok refs \<longrightarrow>
            refs_held (env_redb E) (svc_store svc) cid + count_list refs cid < 2 ^ 64
      | _ \<Rightarrow> True)"

text \<open>Steps of a daemon: a request, a tick of the retention timer, a store command run while the daemon is down
  or a restart, and changes of the identity directory by the other commands.\<close>

inductive svc_step :: "('t, 'r) env \<Rightarrow> 't service \<Rightarrow> 't service \<Rightarrow> bool" for E where
  svc_request: "handle E F svc peer req rng = ((svc', r), rng') \<Longrightarrow> request_guard E F svc req \<Longrightarrow> svc_step E svc svc'"
| svc_tick: "auto_prune svc \<Longrightarrow> svc_step E svc (svc\<lparr>svc_store := auto_prune_run E F (svc_store svc)\<rparr>)"
| svc_offline: "store_step (env_redb E) (env_ts E) (env_hash E) (svc_store svc) s' \<Longrightarrow> svc_step E svc (svc\<lparr>svc_store := s'\<rparr>)"
| svc_identity: "svc_step E svc (svc\<lparr>svc_dir := dir\<rparr>)"

definition svc_init :: "('t, 'r) env \<Rightarrow> 't service \<Rightarrow> bool" where
  "svc_init E svc \<longleftrightarrow> fresh_store (env_redb E) (svc_store svc)"

abbreviation env_reachable :: "('t, 'r) env \<Rightarrow> 't store \<Rightarrow> bool" where
  "env_reachable E \<equiv> store_reachable (env_redb E) (env_ts E) (env_hash E)"

lemma upload_loop_reachable:
  assumes "env_reachable E s" and "\<And>n p. \<not> fails (op_F F n) (RenameFile p)"
    and "upload_loop E F n s blobs a b = (s', r)"
  shows "env_reachable E s'"
  using assms(1,3)
proof (induction blobs arbitrary: n s a b)
  case Nil
  then show ?case by simp
next
  case (Cons x blobs)
  show ?case
  proof (cases x)
    case (Inl e)
    then show ?thesis using Cons.prems by simp
  next
    case (Inr blob)
    show ?thesis
    proof (cases "parse_chunk_id (cb_chunk_id blob)")
      case (Inl e)
      then show ?thesis using Cons.prems Inr by simp
    next
      case p: (Inr cid)
      obtain s1 w where w: "put_chunk (env_redb E) (env_hash E) (op_F F n) (op_tmp F n) s cid (cb_data blob) = (s1, w)"
        by fastforce
      have "env_reachable E s1"
        by (rule reachable_step [OF Cons.prems(1)], rule step_put_chunk [OF w]) (simp add: rename_sound_def assms(2))
      then show ?thesis using Cons.prems Inr p w Cons.IH by (auto split: if_splits sum.splits)
    qed
  qed
qed

lemma auto_prune_reachable: "env_reachable E s \<Longrightarrow> env_reachable E (auto_prune_run E F s)"
  by (auto simp: auto_prune_run_def intro: reachable_step step_prune [OF surjective_pairing])

lemma put_manifest_reachable:
  assumes "env_reachable E (svc_store svc)" and "request_guard E F svc (PutManifestRequest blob u ids)"
    and "put_manifest_rpc E F svc peer blob u ids = (svc', r)"
  shows "env_reachable E (svc_store svc')"
proof (cases "svc_store svc' = svc_store svc")
  case False
  then obtain snap refs owner s1 r1 where refs: "collect_results parse_chunk_id ids = Ok refs"
    and put: "put_snapshot_as (env_redb E) (op_F F 0) (svc_store svc) snap blob refs owner = (s1, r1)"
    and s1: "svc_store svc' = s1 \<or> svc_store svc' = auto_prune_run E F s1"
    using assms(3) by (auto simp: put_manifest_rpc_def Let_def split: sum.splits if_splits prod.splits)
  have "env_reachable E s1"
    by (rule reachable_step [OF assms(1)], rule step_put_snapshot [OF put])
      (use assms(2) refs in \<open>simp add: request_guard_def\<close>)
  then show ?thesis using s1 auto_prune_reachable by auto
qed (use assms(1) in simp)

lemma enroll_keeps_store: "enroll E F svc token csr rng = ((svc', r), rng') \<Longrightarrow> svc_store svc' = svc_store svc"
  by (auto simp: enroll_def split: option.splits if_splits prod.splits sum.splits bool.splits)

lemma handle_reachable:
  assumes "env_reachable E (svc_store svc)" and "handle E F svc peer req rng = ((svc', r), rng')"
    and "request_guard E F svc req"
  shows "env_reachable E (svc_store svc')"
proof (cases req)
  case (EnrollRequest token csr)
  then show ?thesis using assms enroll_keeps_store by (fastforce simp: handle_def)
next
  case (UploadChunksRequest blobs)
  then show ?thesis using assms upload_loop_reachable [OF assms(1), of F]
    by (auto simp: handle_def upload_chunks_def request_guard_def split: sum.splits prod.splits)
next
  case (PutManifestRequest blob u ids)
  then show ?thesis using assms put_manifest_reachable by (fastforce simp: handle_def)
qed (use assms in \<open>auto simp: handle_def\<close>)

lemma svc_step_reachable: "env_reachable E (svc_store svc) \<Longrightarrow> svc_step E svc svc' \<Longrightarrow> env_reachable E (svc_store svc')"
  by (erule svc_step.cases) (auto intro: handle_reachable auto_prune_reachable reachable_step)

interpretation daemon: inductive_invariant "svc_init E" "svc_step E" "\<lambda>svc. env_reachable E (svc_store svc)" for E
  by unfold_locales (auto simp: svc_init_def intro: reachable_init svc_step_reachable)

lemma collect_parse_ids [simp]: "collect_results parse_chunk_id (map chunk_id_as_bytes ids) = Ok ids"
  by (induction ids) (auto simp: parse_chunk_id_def)

lemma download_stream_complete:
  assumes "\<And>c. c \<in> set ids \<Longrightarrow> \<exists>d. get_chunk (env_redb E) (env_hash E) no_faults s c = Ok d"
  shows "\<exists>ds. download_stream E (\<lambda>_. no_faults) n s ids =
     map (\<lambda>(c, d). Ok \<lparr>cb_chunk_id = chunk_id_as_bytes c, cb_data = d\<rparr>) (zip ids ds) \<and> length ds = length ids \<and>
     list_all2 (\<lambda>c d. get_chunk (env_redb E) (env_hash E) no_faults s c = Ok d) ids ds"
  using assms
proof (induction ids arbitrary: n)
  case (Cons c ids)
  then obtain ds where "download_stream E (\<lambda>_. no_faults) (Suc n) s ids =
     map (\<lambda>(c, d). Ok \<lparr>cb_chunk_id = chunk_id_as_bytes c, cb_data = d\<rparr>) (zip ids ds)" "length ds = length ids"
    "list_all2 (\<lambda>c d. get_chunk (env_redb E) (env_hash E) no_faults s c = Ok d) ids ds" by (metis list.set_intros(2))
  moreover obtain d where "get_chunk (env_redb E) (env_hash E) no_faults s c = Ok d" using Cons.prems by auto
  ultimately show ?case by (intro exI [of _ "d # ds"]) simp
qed simp

lemma reachable_refs_readable:
  assumes "env_reachable E s" and "c \<in> set (snapshot_refs (env_redb E) s u)"
  shows "\<exists>d. get_chunk (env_redb E) (env_hash E) no_faults s c = Ok d"
proof -
  have inv: "redb_laws (env_redb E)" "store_inv (env_redb E) (env_hash E) s" using store_sys.reachable_inv [OF assms(1)] by auto
  have "0 < refs_held (env_redb E) s c" using refs_of_snapshot_held [OF inv(1) assms(2)] .
  then obtain e where "entries_of (env_redb E) s c = Some e"
    using store_invD(4) [OF inv(2), of c] by (cases "entries_of (env_redb E) s c") (auto simp: count_ok_def)
  then show ?thesis by (rule store_inv_readable [OF inv(2)])
qed


section \<open>The daemon as a blob server\<close>

text \<open>
  The contract a client of the daemon relies on: an accepted upload makes the blob readable under its
  identity, unless that identity already had one, and changes nothing else.
\<close>

inductive run_puts :: "('s \<Rightarrow> 'k \<Rightarrow> 'v \<Rightarrow> 's \<Rightarrow> bool) \<Rightarrow> 's \<Rightarrow> ('k \<times> 'v) list \<Rightarrow> 's \<Rightarrow> bool" for accepts where
  run_puts_Nil: "run_puts accepts s [] s"
| run_puts_Cons: "accepts s k v s1 \<Longrightarrow> run_puts accepts s1 kvs s2 \<Longrightarrow> run_puts accepts s ((k, v) # kvs) s2"

lemma run_puts_append: "run_puts A s xs s1 \<Longrightarrow> run_puts A s1 ys s2 \<Longrightarrow> run_puts A s (xs @ ys) s2"
  by (induction rule: run_puts.induct) (auto intro: run_puts_Cons)

locale blob_server =
  fixes inv :: "'s \<Rightarrow> bool" and lookup :: "'s \<Rightarrow> 'k \<Rightarrow> 'v option" and accepts :: "'s \<Rightarrow> 'k \<Rightarrow> 'v \<Rightarrow> 's \<Rightarrow> bool"
  assumes accepts_inv: "inv s \<Longrightarrow> accepts s k v s' \<Longrightarrow> inv s'"
    and accepts_lookup: "inv s \<Longrightarrow> accepts s k v s' \<Longrightarrow>
      lookup s' k' = (if k' = k \<and> lookup s k = None then Some v else lookup s k')"
begin

lemma run_puts_spec:
  "run_puts accepts s kvs s' \<Longrightarrow> inv s \<Longrightarrow>
     inv s' \<and> lookup s' k = (case lookup s k of Some v \<Rightarrow> Some v | None \<Rightarrow> map_of kvs k)"
proof (induction rule: run_puts.induct)
  case (run_puts_Nil s)
  then show ?case by (simp split: option.split)
next
  case (run_puts_Cons s c v s1 kvs s2)
  then show ?case using accepts_inv [OF run_puts_Cons.prems run_puts_Cons.hyps(1)]
      accepts_lookup [OF run_puts_Cons.prems run_puts_Cons.hyps(1), of k]
    by (auto split: option.splits if_splits)
qed

lemma run_puts_keeps: "run_puts accepts s kvs s' \<Longrightarrow> inv s \<Longrightarrow> lookup s k = Some v \<Longrightarrow> lookup s' k = Some v"
  by (simp add: run_puts_spec)

lemma run_puts_present:
  assumes "run_puts accepts s kvs s'" and "inv s" and "k \<in> fst ` set kvs"
  shows "\<exists>v. lookup s' k = Some v"
proof -
  have "map_of kvs k \<noteq> None" using assms(3) by (simp add: map_of_eq_None_iff)
  then show ?thesis using run_puts_spec [OF assms(1,2), of k] by (auto split: option.splits)
qed

end

definition stored_data :: "'t redb \<Rightarrow> (bytes \<Rightarrow> hash32) \<Rightarrow> 't store \<Rightarrow> chunk_id \<rightharpoonup> bytes" where
  "stored_data K H s c = (case get_chunk K H no_faults s c of Ok d \<Rightarrow> Some d | Err _ \<Rightarrow> None)"

definition put_accepted :: "'t redb \<Rightarrow> (bytes \<Rightarrow> hash32) \<Rightarrow> 't store \<Rightarrow> chunk_id \<Rightarrow> bytes \<Rightarrow> 't store \<Rightarrow> bool" where
  "put_accepted K H s c d s' \<longleftrightarrow>
     (\<exists>F tmp b. put_chunk K H F tmp s c d = (s', Ok b) \<and> \<not> fails F (RenameFile (tmp_object tmp c)))"

lemma blobs_ok_put_chunk:
  assumes "redb_laws K" and inv: "blobs_ok K H s" and "put_chunk K H F tmp s cid data = (s', r)"
    and "rename_sound H F tmp s cid data"
  shows "blobs_ok K H s'"
proof -
  have b: "blob_ok H c (entries_of K s c) (map_of (objects s) (object_path c))" for c using inv by (simp add: blobs_ok_def)
  from assms(3) have "blob_ok H c (entries_of K s' c) (map_of (objects s') (object_path c))" for c
  proof (cases rule: put_chunk_cases)
    case unchanged
    then show ?thesis using b by simp
  next
    case (failed objs r' e)
    then show ?thesis using b [of c] write_object_other [OF failed(2), of c] by (cases "c = cid") auto
  next
    case (stored objs u)
    then show ?thesis using assms(1) b [of c] write_object_other [OF stored(2), of c] write_object_Ok' [OF stored(2) assms(4)]
      by (cases "c = cid") (auto simp: blob_ok_def)
  qed
  then show ?thesis by (simp add: blobs_ok_def)
qed

text \<open>What the contract needs of the store: every indexed chunk has an intact object file.\<close>

definition sound_store :: "'t redb \<Rightarrow> (bytes \<Rightarrow> hash32) \<Rightarrow> 't store \<Rightarrow> bool" where
  "sound_store K H s \<longleftrightarrow> redb_laws K \<and> blobs_ok K H s"

lemma stored_data_None_iff:
  assumes "sound_store K H s"
  shows "stored_data K H s c = None \<longleftrightarrow> entries_of K s c = None"
proof (cases "entries_of K s c")
  case None
  then show ?thesis by (simp add: stored_data_def get_chunk_eq read_object_def)
next
  case (Some e)
  then obtain d where "read_object H c (entries_of K s c) (map_of (objects s) (object_path c)) = Ok d"
    using assms by (auto simp: sound_store_def blobs_ok_def blob_ok_def dest: spec [of _ c])
  then show ?thesis using Some by (simp add: stored_data_def get_chunk_eq)
qed

lemma put_accepted_sound:
  assumes "sound_store K H s" and "put_accepted K H s c d s'"
  shows "sound_store K H s'"
  using assms by (auto simp: put_accepted_def sound_store_def rename_sound_def intro: blobs_ok_put_chunk)

lemma put_accepted_data:
  assumes "sound_store K H s" and "put_accepted K H s c d s'"
  shows "stored_data K H s' c' = (if c' = c \<and> stored_data K H s c = None then Some d else stored_data K H s c')"
proof -
  have K: "redb_laws K" using assms(1) by (simp add: sound_store_def)
  obtain F tmp b where put: "put_chunk K H F tmp s c d = (s', Ok b)" and rn: "\<not> fails F (RenameFile (tmp_object tmp c))"
    using assms(2) by (auto simp: put_accepted_def)
  from put show ?thesis
  proof (cases rule: put_chunk_cases)
    case unchanged
    then show ?thesis using stored_data_None_iff [OF assms(1), of c] by auto
  next
    case (stored objs u)
    have new: "map_of objs (object_path c) = Some (object_content H d)"
      using write_object_Ok' [OF stored(2)] rn by (simp add: rename_sound_def)
    have "get_chunk K H no_faults s' c = Ok d" using stored K new by (simp add: get_chunk_eq)
    moreover have "get_chunk K H no_faults s' c' = get_chunk K H no_faults s c'" if "c' \<noteq> c"
      using stored K that write_object_other [OF stored(2), of c'] by (intro get_chunk_cong) auto
    moreover have "stored_data K H s c = None" using stored_data_None_iff [OF assms(1)] stored(1) by simp
    ultimately show ?thesis by (auto simp: stored_data_def)
  qed simp_all
qed

interpretation store_server: blob_server "sound_store K H" "stored_data K H" "put_accepted K H" for K H
  by unfold_locales (rule put_accepted_sound, assumption+, rule put_accepted_data)

lemma upload_loop_puts:
  assumes "upload_loop E F n s (map Ok blobs) a b = (s', Ok (a', b'))" and "\<And>n p. \<not> fails (op_F F n) (RenameFile p)"
  shows "\<exists>cids. map cb_chunk_id blobs = map chunk_id_as_bytes cids \<and>
     run_puts (put_accepted (env_redb E) (env_hash E)) s (zip cids (map cb_data blobs)) s' \<and>
     a' + b' = a + b + word_of_nat (length blobs)"
  using assms(1)
proof (induction blobs arbitrary: n s a b)
  case Nil
  then show ?case by (auto intro: run_puts_Nil)
next
  case (Cons blob blobs)
  obtain cid s1 w where p: "parse_chunk_id (cb_chunk_id blob) = Ok cid"
    and w: "put_chunk (env_redb E) (env_hash E) (op_F F n) (op_tmp F n) s cid (cb_data blob) = (s1, Ok w)"
    and rest: "upload_loop E F (Suc n) s1 (map Ok blobs) (if w then a + 1 else a) (if w then b else b + 1) = (s', Ok (a', b'))"
    using Cons.prems by (auto split: sum.splits if_splits prod.splits)
  obtain cids where ih: "map cb_chunk_id blobs = map chunk_id_as_bytes cids"
    "run_puts (put_accepted (env_redb E) (env_hash E)) s1 (zip cids (map cb_data blobs)) s'"
    "a' + b' = (if w then a + 1 else a) + (if w then b else b + 1) + word_of_nat (length blobs)"
    using Cons.IH [OF rest] by blast
  have "cb_chunk_id blob = chunk_id_as_bytes cid"
    using p by (auto simp: parse_chunk_id_def chunk_id_try_from_Some_iff split: option.splits)
  moreover have "put_accepted (env_redb E) (env_hash E) s cid (cb_data blob) s1"
    unfolding put_accepted_def using w assms(2) by blast
  ultimately show ?case using ih
    by (intro exI [of _ "cid # cids"]) (auto intro: run_puts_Cons simp: algebra_simps split: if_splits)
qed

text \<open>A successful \<open>UploadChunks\<close> accounts for every blob as stored or already present, makes every uploaded
  identity readable, and returns for each identity the bytes held before, or else the first bytes the stream
  carried for it: an upload never replaces a chunk.\<close>

theorem upload_chunks_effect:
  assumes "sound_store (env_redb E) (env_hash E) (svc_store svc)"
    and "upload_chunks E F svc peer (map Ok blobs) = (svc', Ok (UploadChunksResponse stored already))"
    and "\<forall>n p. \<not> fails (op_F F n) (RenameFile p)"
  shows "\<exists>cids. map cb_chunk_id blobs = map chunk_id_as_bytes cids \<and>
    stored + already = word_of_nat (length blobs) \<and>
    sound_store (env_redb E) (env_hash E) (svc_store svc') \<and>
    (\<forall>c. stored_data (env_redb E) (env_hash E) (svc_store svc') c =
      (case stored_data (env_redb E) (env_hash E) (svc_store svc) c of
         Some d \<Rightarrow> Some d | None \<Rightarrow> map_of (zip cids (map cb_data blobs)) c))"
proof -
  from assms(2) have "upload_loop E F 0 (svc_store svc) (map Ok blobs) 0 0 = (svc_store svc', Ok (stored, already))"
    by (auto simp: upload_chunks_def and_then_Ok_iff split: sum.splits prod.splits)
  from upload_loop_puts [OF this] assms(3) obtain cids where
    c: "map cb_chunk_id blobs = map chunk_id_as_bytes cids" "stored + already = word_of_nat (length blobs)"
    and puts: "run_puts (put_accepted (env_redb E) (env_hash E)) (svc_store svc) (zip cids (map cb_data blobs)) (svc_store svc')"
    by auto
  show ?thesis using c store_server.run_puts_spec [OF puts assms(1)] by (intro exI [of _ cids]) simp
qed

section \<open>Concrete requests\<close>

definition demo_env :: "((bytes, bytes) RBT.rbt, unit) env" where
  "demo_env = \<lparr>env_redb = rbt_redb, env_hash = zero_hash, env_ts = zero_ts, env_toml = demo_toml, env_rcgen = demo_rcgen\<rparr>"

definition svc_no_faults :: svc_faults where
  "svc_no_faults = \<lparr>auth_lost = False, auth_F = id_no_faults, enroll_lost = False, token_F = id_no_faults,
     enroll_F = id_no_faults, owner_lost = False, owner_F = id_no_faults, op_lost = (\<lambda>_. False),
     op_F = (\<lambda>_. no_faults), op_tmp = (\<lambda>_. [0x41]), prune_lost = False, prune_F = no_faults,
     prune_Fd = (\<lambda>_. no_faults), clock = Some 0\<rparr>"

theorem unauthorised_requests_refused_witness:
  "handle demo_env svc_no_faults (with_auth demo_store demo_ident empty_disk) None ListSnapshotsRequest () =
     ((with_auth demo_store demo_ident empty_disk, Err Unauthenticated), ()) \<and>
   handle demo_env svc_no_faults (with_auth demo_store demo_ident empty_disk) (Some [[0x30]]) ListSnapshotsRequest () =
     ((with_auth demo_store demo_ident empty_disk, Err Unauthenticated), ())"
proof -
  let ?svc = "with_auth demo_store demo_ident empty_disk"
  have a: "svc_auth ?svc \<noteq> None" "needs_auth ListSnapshotsRequest" by (simp_all add: with_auth_def needs_auth_def)
  have "client_status demo_toml id_no_faults empty_disk fp = Ok Unknown" for fp
    by (simp add: client_status_def client_record_of_def empty_disk_def id_no_faults_def Let_def)
  then show ?thesis
    using unauthorised_requests_refused [OF a, of demo_env None svc_no_faults "()"]
      unauthorised_requests_refused [OF a, of demo_env "Some [[0x30]]" svc_no_faults "()"]
    by (simp add: peer_fingerprint_def demo_env_def svc_no_faults_def with_auth_def)
qed

definition demo_minted :: id_disk where
  "demo_minted = fst (fst (mint_token zero_hash zero_fill id_no_faults empty_disk ()))"

theorem enroll_spends_token_witness:
  "\<exists>svc' resp code. enroll demo_env svc_no_faults (with_auth (empty_store rbt_redb) demo_ident demo_minted) demo_token (ascii ''a'') ()
      = ((svc', Ok resp), ()) \<and>
    enroll demo_env svc_no_faults svc' demo_token (ascii ''a'') () = ((svc', Err code), ())"
proof -
  let ?e = "enroll demo_env svc_no_faults (with_auth (empty_store rbt_redb) demo_ident demo_minted) demo_token (ascii ''a'') ()"
  have "case snd (fst ?e) of Ok _ \<Rightarrow> True | Err _ \<Rightarrow> False" by code_simp
  then obtain svc' resp where e: "?e = ((svc', Ok resp), ())"
    by (cases ?e) (auto split: sum.splits)
  show ?thesis using e enroll_spends_token [OF e, of svc_no_faults "ascii ''a''" "()"] by blast
qed

lemma svc_offline_reachable:
  assumes "store_reachable (env_redb E) (env_ts E) (env_hash E) s"
  shows "reachable (svc_init E) (svc_step E) (service_new s dir)"
  using assms
proof (induction rule: reachable.induct)
  case (reachable_init s)
  then show ?case by (intro reachable.reachable_init) (simp add: svc_init_def service_new_def)
next
  case (reachable_step s s')
  then show ?case using reachable.reachable_step [OF reachable_step.IH svc_offline [of E "service_new s dir" s']]
    by (simp add: service_new_def)
qed


theorem upload_chunks_effect_witness:
  "\<exists>svc'. upload_chunks demo_env svc_no_faults (service_new (empty_store rbt_redb) empty_disk) None
       [Ok \<lparr>cb_chunk_id = chunk_id_as_bytes 7, cb_data = [1, 2, 3]\<rparr>] = (svc', Ok (UploadChunksResponse 1 0)) \<and>
     stored_data rbt_redb zero_hash (svc_store svc') 7 = Some [1, 2, 3]"
proof -
  let ?b = "\<lparr>cb_chunk_id = chunk_id_as_bytes 7, cb_data = [1, 2, 3]\<rparr>"
  let ?u = "upload_chunks demo_env svc_no_faults (service_new (empty_store rbt_redb) empty_disk) None (map Ok [?b])"
  have "snd ?u = Ok (UploadChunksResponse 1 0)" by code_simp
  then have u: "?u = (fst ?u, Ok (UploadChunksResponse 1 0))" by (simp add: prod_eq_iff)
  have i: "sound_store (env_redb demo_env) (env_hash demo_env) (svc_store (service_new (empty_store rbt_redb) empty_disk))"
    by (simp add: sound_store_def demo_env_def service_new_def rbt_redb_laws store_invD(3) [OF store_inv_empty])
  have "stored_data rbt_redb zero_hash (empty_store rbt_redb) 7 = None" by code_simp
  then show ?thesis using upload_chunks_effect [OF i u] u
    by (auto simp: svc_no_faults_def demo_env_def service_new_def)
qed

end
