(* ===== verification/Daemon_Commands.thy ===== *)
theory Daemon_Commands
  imports Service_Props
begin

text \<open>
  The daemon binary: its configuration file (\<open>crates/busyncr-daemon/src/config.rs\<close>), its commands
  (\<open>crates/busyncr-daemon/src/main.rs\<close>), and how \<open>serve\<close> puts the service together.

  \<^item> The store root directory is a record: the chunk store, the identity directory and the file \<open>daemon.toml\<close>. Nothing is
    there before the first command.
  \<^item> The TOML crate is the record \<open>config_toml\<close>: parsing gives the value of the key \<open>auto_prune\<close>, if the table has it, and
    nothing for a text that is no table of that shape. What the code relies on is \<open>config_toml_laws\<close>.
  \<^item> A command returns what it prints, or the error the process ends with. The fault record of a command says which of its
    calls fail; the wall clock is part of it.
  \<^item> The shutdown signals decide when serving ends: a session is any number of requests and timer ticks.
\<close>

section \<open>The configuration file\<close>

record daemon_config =
  dc_auto_prune :: bool

datatype cfg_path = StoreRoot | ConfigFile

datatype daemon_config_error = DcIo cfg_path | DcParse cfg_path | DcEncode

record config_toml =
  ct_parse :: "bytes \<Rightarrow> bool option option"
  ct_print :: "daemon_config \<Rightarrow> bytes option"

definition config_toml_laws :: "config_toml \<Rightarrow> bool" where
  "config_toml_laws T \<longleftrightarrow> (\<forall>c. \<exists>b. ct_print T c = Some b \<and> utf8_valid b \<and> ct_parse T b = Some (Some (dc_auto_prune c)))"

record cfg_faults =
  cfg_read_fails :: bool
  cfg_mkdir_fails :: bool
  cfg_create_fails :: bool
  cfg_write_fails :: bool
  cfg_partial :: nat

definition default_auto_prune :: bool where "default_auto_prune = True"

definition daemon_config_default :: daemon_config where
  "daemon_config_default = \<lparr>dc_auto_prune = default_auto_prune\<rparr>"

text \<open>The derived \<open>Deserialize\<close>: an absent key takes the default.\<close>

definition daemon_config_of :: "bool option \<Rightarrow> daemon_config" where
  "daemon_config_of v = \<lparr>dc_auto_prune = (case v of None \<Rightarrow> default_auto_prune | Some b \<Rightarrow> b)\<rparr>"

definition daemon_config_save :: "config_toml \<Rightarrow> cfg_faults \<Rightarrow> daemon_config \<Rightarrow> bytes option
    \<Rightarrow> bytes option \<times> (daemon_config_error + unit)" where
  "daemon_config_save T F c file =
     (if cfg_mkdir_fails F then (file, Err (DcIo StoreRoot))
      else case ct_print T c of
          None \<Rightarrow> (file, Err DcEncode)
        | Some body \<Rightarrow>
           if cfg_create_fails F then (file, Err (DcIo ConfigFile))
           else if cfg_write_fails F then (Some (take (cfg_partial F) body), Err (DcIo ConfigFile))
           else (Some body, Ok ()))"

definition load_or_init :: "config_toml \<Rightarrow> cfg_faults \<Rightarrow> bytes option \<Rightarrow> bytes option \<times> (daemon_config_error + daemon_config)" where
  "load_or_init T F file =
     (if cfg_read_fails F then (file, Err (DcIo ConfigFile))
      else case file of
          Some text \<Rightarrow>
            (file, if \<not> utf8_valid text then Err (DcIo ConfigFile)
                   else case ct_parse T text of None \<Rightarrow> Err (DcParse ConfigFile) | Some v \<Rightarrow> Ok (daemon_config_of v))
        | None \<Rightarrow>
           (case daemon_config_save T F daemon_config_default file of
              (file', Err e) \<Rightarrow> (file', Err e)
            | (file', Ok _) \<Rightarrow> (file', Ok daemon_config_default)))"

section \<open>The commands\<close>

record 't root_dir =
  rd_store :: "'t store option"
  rd_identity :: id_disk
  rd_config :: "bytes option"

datatype daemon_cmd_error =
    DcmdIdentity identity_error
  | DcmdStore store_error
  | DcmdConfig daemon_config_error
  | NoActiveClient bytes
  | DcmdRuntime
  | DcmdBind
  | DcmdTransport
  | DcmdJson

record daemon_faults =
  df_id_open :: id_faults
  df_id :: id_faults
  df_open :: faults
  df_op :: faults
  df_ops :: "ulid \<Rightarrow> faults"
  df_config :: cfg_faults
  df_runtime :: bool
  df_bind :: bool
  df_tls :: bool
  df_json :: bool
  df_clock :: "duration option"
  df_hash_order :: "chunk_id list \<Rightarrow> chunk_id list"

definition open_identity :: "('t, 'r) env \<Rightarrow> daemon_faults \<Rightarrow> 't root_dir \<Rightarrow> 'r
    \<Rightarrow> ('t root_dir \<times> (daemon_cmd_error + daemon_identity)) \<times> 'r" where
  "open_identity E F rd rng =
     (case open_or_init (env_rcgen E) (df_id_open F) (rd_identity rd) rng of
        ((dir, r), rng') \<Rightarrow> ((rd\<lparr>rd_identity := dir\<rparr>, map_err DcmdIdentity r), rng'))"

text \<open>\<open>ChunkStore::open\<close> on the root: a failed first opening leaves nothing a later one would find.\<close>

definition open_store :: "('t, 'r) env \<Rightarrow> daemon_faults \<Rightarrow> 't root_dir \<Rightarrow> 't root_dir \<times> (daemon_cmd_error + 't store)" where
  "open_store E F rd =
     (case store_open (env_redb E) (df_open F) (rd_store rd) of
        (s, Ok _) \<Rightarrow> (rd\<lparr>rd_store := Some s\<rparr>, Ok s)
      | (s, Err e) \<Rightarrow> (rd\<lparr>rd_store := (if rd_store rd = None then None else Some s)\<rparr>, Err (DcmdStore e)))"

text \<open>The service \<open>serve_tls_with_config\<close> puts behind the listener.\<close>

definition serve_tls_with_config :: "'t store \<Rightarrow> daemon_identity \<Rightarrow> id_disk \<Rightarrow> bool \<Rightarrow> 't service" where
  "serve_tls_with_config store ident dir b = with_auto_prune (with_auth store ident dir) b"

definition serve_tls :: "'t store \<Rightarrow> daemon_identity \<Rightarrow> id_disk \<Rightarrow> 't service" where
  "serve_tls store ident dir = serve_tls_with_config store ident dir False"

definition serve_start :: "('t, 'r) env \<Rightarrow> config_toml \<Rightarrow> daemon_faults \<Rightarrow> 't root_dir \<Rightarrow> 'r
    \<Rightarrow> ('t root_dir \<times> (daemon_cmd_error + 't service)) \<times> 'r" where
  "serve_start E T F rd rng =
     (case open_identity E F rd rng of
        ((rd1, Err e), rng1) \<Rightarrow> ((rd1, Err e), rng1)
      | ((rd1, Ok ident), rng1) \<Rightarrow>
     (case open_store E F rd1 of
        (rd2, Err e) \<Rightarrow> ((rd2, Err e), rng1)
      | (rd2, Ok s) \<Rightarrow>
     (case load_or_init T (df_config F) (rd_config rd2) of
        (file, Err e) \<Rightarrow> ((rd2\<lparr>rd_config := file\<rparr>, Err (DcmdConfig e)), rng1)
      | (file, Ok config) \<Rightarrow>
         ((rd2\<lparr>rd_config := file\<rparr>,
           if df_runtime F then Err DcmdRuntime
           else if df_bind F then Err DcmdBind
           else if df_tls F then Err DcmdTransport
           else Ok (serve_tls_with_config s ident (rd_identity rd2) (dc_auto_prune config))), rng1))))"

definition enroll_token :: "('t, 'r) env \<Rightarrow> 'r fill_bytes \<Rightarrow> daemon_faults \<Rightarrow> 't root_dir \<Rightarrow> 'r
    \<Rightarrow> ('t root_dir \<times> (daemon_cmd_error + bytes \<times> bytes)) \<times> 'r" where
  "enroll_token E fill F rd rng =
     (case open_identity E F rd rng of
        ((rd1, Err e), rng1) \<Rightarrow> ((rd1, Err e), rng1)
      | ((rd1, Ok ident), rng1) \<Rightarrow>
     (case mint_token (env_hash E) fill (df_id F) (rd_identity rd1) rng1 of
        ((dir, Err e), rng2) \<Rightarrow> ((rd1\<lparr>rd_identity := dir\<rparr>, Err (DcmdIdentity e)), rng2)
      | ((dir, Ok token), rng2) \<Rightarrow> ((rd1\<lparr>rd_identity := dir\<rparr>, Ok (token, ca_fingerprint (env_hash E) ident)), rng2)))"

definition revoke_cmd :: "('t, 'r) env \<Rightarrow> daemon_faults \<Rightarrow> 't root_dir \<Rightarrow> bytes \<Rightarrow> 'r
    \<Rightarrow> ('t root_dir \<times> (daemon_cmd_error + nat)) \<times> 'r" where
  "revoke_cmd E F rd nm rng =
     (case open_identity E F rd rng of
        ((rd1, Err e), rng1) \<Rightarrow> ((rd1, Err e), rng1)
      | ((rd1, Ok ident), rng1) \<Rightarrow>
     (case revoke (env_toml E) (df_id F) (rd_identity rd1) nm of
        (dir, Err e) \<Rightarrow> ((rd1\<lparr>rd_identity := dir\<rparr>, Err (DcmdIdentity e)), rng1)
      | (dir, Ok n) \<Rightarrow> ((rd1\<lparr>rd_identity := dir\<rparr>, if 0 < n then Ok n else Err (NoActiveClient nm)), rng1)))"

definition prune_cmd :: "('t, 'r) env \<Rightarrow> daemon_faults \<Rightarrow> 't root_dir \<Rightarrow> 't root_dir \<times> (daemon_cmd_error + prune_outcome)" where
  "prune_cmd E F rd =
     (case open_store E F rd of
        (rd1, Err e) \<Rightarrow> (rd1, Err e)
      | (rd1, Ok s) \<Rightarrow>
     (case prune (env_redb E) (env_ts E) (df_op F) (df_ops F) s (now_ms (df_clock F)) default_grid Manual of
        (s', r) \<Rightarrow> (rd1\<lparr>rd_store := Some s'\<rparr>, map_err DcmdStore r)))"

definition gc_cmd :: "('t, 'r) env \<Rightarrow> daemon_faults \<Rightarrow> 't root_dir \<Rightarrow> u64 \<Rightarrow> 't root_dir \<times> (daemon_cmd_error + gc_outcome)" where
  "gc_cmd E F rd grace_secs =
     (case open_store E F rd of
        (rd1, Err e) \<Rightarrow> (rd1, Err e)
      | (rd1, Ok s) \<Rightarrow>
     (case gc (env_redb E) (df_hash_order F) (df_op F) s (now_ms (df_clock F)) (from_secs (unat grace_secs)) of
        (s', r) \<Rightarrow> (rd1\<lparr>rd_store := Some s'\<rparr>, map_err DcmdStore r)))"

definition prune_mode_display :: "prune_mode \<Rightarrow> bytes" where
  "prune_mode_display m = (case m of Auto \<Rightarrow> ascii ''auto'' | Manual \<Rightarrow> ascii ''manual'')"

record status_json =
  sj_snapshots_total :: u64
  sj_snapshots_by_client :: "bytes \<rightharpoonup> u64"
  sj_chunks_unique :: u64
  sj_store_bytes :: u64
  sj_zero_ref_chunks :: u64
  sj_last_prune_at_ms :: "i64 option"
  sj_last_prune_mode :: "bytes option"
  sj_last_gc_at_ms :: "i64 option"
  sj_ca_fingerprint :: "bytes option"

definition status_json_of :: "daemon_status \<Rightarrow> bytes option \<Rightarrow> status_json" where
  "status_json_of st fp =
     \<lparr>sj_snapshots_total = snapshots_total st, sj_snapshots_by_client = snapshots_by_client st,
      sj_chunks_unique = chunks_unique st, sj_store_bytes = store_bytes st, sj_zero_ref_chunks = zero_ref_count st,
      sj_last_prune_at_ms = map_option pe_at_ms (last_prune st),
      sj_last_prune_mode = map_option (prune_mode_display \<circ> pe_mode) (last_prune st),
      sj_last_gc_at_ms = last_gc st, sj_ca_fingerprint = fp\<rparr>"

definition status_cmd :: "('t, 'r) env \<Rightarrow> daemon_faults \<Rightarrow> 't root_dir \<Rightarrow> bool \<Rightarrow> 'r
    \<Rightarrow> ('t root_dir \<times> (daemon_cmd_error + status_json)) \<times> 'r" where
  "status_cmd E F rd json rng =
     (case (if is_file (df_id F) (rd_identity rd) CA_CERT_FILE
            then (case open_identity E F rd rng of
                    ((rd1, r), rng1) \<Rightarrow> ((rd1, and_then r (\<lambda>ident. Ok (Some (ca_fingerprint (env_hash E) ident)))), rng1))
            else ((rd, Ok None), rng)) of
        ((rd1, Err e), rng1) \<Rightarrow> ((rd1, Err e), rng1)
      | ((rd1, Ok fp), rng1) \<Rightarrow>
     (case open_store E F rd1 of
        (rd2, Err e) \<Rightarrow> ((rd2, Err e), rng1)
      | (rd2, Ok s) \<Rightarrow>
     (case status (env_redb E) (df_op F) s of
        Err e \<Rightarrow> ((rd2, Err (DcmdStore e)), rng1)
      | Ok st \<Rightarrow> ((rd2, if json \<and> df_json F then Err DcmdJson else Ok (status_json_of st fp)), rng1))))"

text \<open>The daily timer: what the loop's \<open>select!\<close> answers is a list of events, the sleeps that end each start one run.\<close>

datatype timer_event = Shutdown | Slept svc_faults

fun run_prune_timer :: "('t, 'r) env \<Rightarrow> timer_event list \<Rightarrow> 't store \<Rightarrow> 't store" where
  "run_prune_timer E [] s = s"
| "run_prune_timer E (Shutdown # es) s = s"
| "run_prune_timer E (Slept F # es) s = run_prune_timer E es (auto_prune_run E F s)"

section \<open>Sequences of commands\<close>

text \<open>What happens while the daemon serves: a request, a run of the timer, which is spawned only with \<open>auto_prune\<close>, or a change
  of the identity directory by \<open>enroll-token\<close> or \<open>revoke\<close> run beside it. The guard is that of the store's invariant.\<close>

inductive serving :: "('t, 'r) env \<Rightarrow> 't service \<Rightarrow> 't service \<Rightarrow> bool" for E where
  serve_request: "handle E F svc peer req rng = ((svc', r), rng') \<Longrightarrow> request_guard E F svc req \<Longrightarrow> serving E svc svc'"
| serve_timer: "auto_prune svc \<Longrightarrow> serving E svc (svc\<lparr>svc_store := run_prune_timer E es (svc_store svc)\<rparr>)"
| serve_identity: "serving E svc (svc\<lparr>svc_dir := dir\<rparr>)"

inductive_cases servingE: "serving E svc svc'"

inductive serve_session :: "('t, 'r) env \<Rightarrow> config_toml \<Rightarrow> 't root_dir \<Rightarrow> 't root_dir \<Rightarrow> bool" for E T where
  session_failed: "serve_start E T F rd rng = ((rd', Err e), rng') \<Longrightarrow> serve_session E T rd rd'"
| session_served: "serve_start E T F rd rng = ((rd1, Ok svc), rng') \<Longrightarrow> (serving E)\<^sup>*\<^sup>* svc svc' \<Longrightarrow>
    serve_session E T rd (rd1\<lparr>rd_store := Some (svc_store svc'), rd_identity := svc_dir svc'\<rparr>)"

inductive_cases serve_sessionE: "serve_session E T rd rd'"

inductive daemon_step :: "('t, 'r) env \<Rightarrow> config_toml \<Rightarrow> 't root_dir \<Rightarrow> 't root_dir \<Rightarrow> bool" for E T where
  ds_serve: "serve_session E T rd rd' \<Longrightarrow> daemon_step E T rd rd'"
| ds_enroll_token: "enroll_token E fill F rd rng = ((rd', r), rng') \<Longrightarrow> daemon_step E T rd rd'"
| ds_revoke: "revoke_cmd E F rd nm rng = ((rd', r), rng') \<Longrightarrow> daemon_step E T rd rd'"
| ds_prune: "prune_cmd E F rd = (rd', r) \<Longrightarrow> daemon_step E T rd rd'"
| ds_gc: "gc_cmd E F rd grace = (rd', r) \<Longrightarrow> hash_order (df_hash_order F) \<Longrightarrow> daemon_step E T rd rd'"
| ds_status: "status_cmd E F rd json rng = ((rd', r), rng') \<Longrightarrow> daemon_step E T rd rd'"

inductive_cases daemon_stepE: "daemon_step E T rd rd'"

definition fresh_root :: "('t, 'r) env \<Rightarrow> 't root_dir \<Rightarrow> bool" where
  "fresh_root E rd \<longleftrightarrow> redb_laws (env_redb E) \<and> rd_store rd = None"

section \<open>The store behind the commands\<close>

definition root_ok :: "('t, 'r) env \<Rightarrow> 't root_dir \<Rightarrow> bool" where
  "root_ok E rd \<longleftrightarrow> redb_laws (env_redb E) \<and> pred_option (env_reachable E) (rd_store rd)"

lemma open_identity_frame:
  assumes "open_identity E F rd rng = ((rd', r), rng')"
  shows "rd_store rd' = rd_store rd" "rd_config rd' = rd_config rd"
  using assms by (auto simp: open_identity_def split: prod.splits)

lemma open_store_frame:
  assumes "open_store E F rd = (rd', r)"
  shows "rd_identity rd' = rd_identity rd" "rd_config rd' = rd_config rd" "r = Ok s \<Longrightarrow> rd_store rd' = Some s"
  using assms by (auto simp: open_store_def split: prod.splits sum.splits)

lemma store_open_reachable:
  assumes "redb_laws (env_redb E)" and "pred_option (env_reachable E) disk" and "store_open (env_redb E) F disk = (s, r)"
  shows "env_reachable E s"
proof -
  define s0 where "s0 = (case disk of None \<Rightarrow> empty_store (env_redb E) | Some s \<Rightarrow> s)"
  have "env_reachable E s0"
    using assms(1,2) by (cases disk) (auto simp: s0_def fresh_store_def intro: reachable_init)
  moreover have "store_open (env_redb E) F (Some s0) = (s, r)"
    using assms(3) by (simp add: s0_def store_open_def)
  ultimately show ?thesis using reachable_step store_step.step_open by metis
qed

lemma open_store_ok:
  assumes "root_ok E rd" and "open_store E F rd = (rd', r)"
  shows "root_ok E rd'" "r = Ok s \<Longrightarrow> env_reachable E s"
proof -
  obtain t q where o: "store_open (env_redb E) (df_open F) (rd_store rd) = (t, q)" by force
  have "env_reachable E t" using store_open_reachable [OF _ _ o] assms(1) by (simp add: root_ok_def)
  then show "root_ok E rd'" "r = Ok s \<Longrightarrow> env_reachable E s"
    using assms o by (auto simp: root_ok_def open_store_def split: sum.splits if_splits)
qed

lemma root_ok_cong: "rd_store rd' = rd_store rd \<Longrightarrow> root_ok E rd' = root_ok E rd"
  by (simp add: root_ok_def)

lemma timer_reachable: "env_reachable E s \<Longrightarrow> env_reachable E (run_prune_timer E es s)"
  by (induction E es s rule: run_prune_timer.induct) (auto intro: auto_prune_reachable)

lemma serving_reachable: "serving E svc svc' \<Longrightarrow> env_reachable E (svc_store svc) \<Longrightarrow> env_reachable E (svc_store svc')"
  by (erule serving.cases) (auto intro: handle_reachable timer_reachable)

lemma serving_star_reachable:
  "(serving E)\<^sup>*\<^sup>* svc svc' \<Longrightarrow> env_reachable E (svc_store svc) \<Longrightarrow> env_reachable E (svc_store svc')"
  by (induction rule: rtranclp_induct) (auto intro: serving_reachable)

lemma serve_start_cases:
  assumes "serve_start E T F rd rng = ((rd', r), rng')"
  obtains (identity) e where "open_identity E F rd rng = ((rd', Err e), rng')" "r = Err e"
  | (store) rd1 ident e where "open_identity E F rd rng = ((rd1, Ok ident), rng')" "open_store E F rd1 = (rd', Err e)" "r = Err e"
  | (config) rd1 ident rd2 s fl q where "open_identity E F rd rng = ((rd1, Ok ident), rng')" "open_store E F rd1 = (rd2, Ok s)"
      "load_or_init T (df_config F) (rd_config rd2) = (fl, q)" "rd' = rd2\<lparr>rd_config := fl\<rparr>"
      "\<And>svc. r = Ok svc \<Longrightarrow> \<exists>c. q = Ok c \<and> svc = serve_tls_with_config s ident (rd_identity rd2) (dc_auto_prune c)"
  using assms by (auto simp: serve_start_def split: prod.splits sum.splits if_splits)

lemma serve_start_ok:
  assumes "root_ok E rd" and "serve_start E T F rd rng = ((rd', r), rng')"
  shows "root_ok E rd'" "r = Ok svc \<Longrightarrow> env_reachable E (svc_store svc)"
  using assms(2)
proof (atomize (full), cases rule: serve_start_cases)
  case (identity e)
  then show "root_ok E rd' \<and> (r = Ok svc \<longrightarrow> env_reachable E (svc_store svc))"
    using assms(1) open_identity_frame(1) [OF identity(1)] root_ok_cong by auto
next
  case (store rd1 ident e)
  then show "root_ok E rd' \<and> (r = Ok svc \<longrightarrow> env_reachable E (svc_store svc))"
    using assms(1) open_store_ok(1) [OF _ store(2)] root_ok_cong [OF open_identity_frame(1) [OF store(1)], of E] by simp
next
  case (config rd1 ident rd2 s fl q)
  have "root_ok E rd1" using assms(1) open_identity_frame(1) [OF config(1)] root_ok_cong by auto
  then show "root_ok E rd' \<and> (r = Ok svc \<longrightarrow> env_reachable E (svc_store svc))"
    using config(4,5) open_store_ok [OF _ config(2)] root_ok_cong [of rd' rd2]
    by (auto simp: serve_tls_with_config_def with_auto_prune_def with_auth_def)
qed

lemma serve_session_ok:
  assumes "serve_session E T rd rd'" and "root_ok E rd"
  shows "root_ok E rd'"
  using assms(1)
proof (cases rule: serve_session.cases)
  case (session_failed F rng e rng')
  then show ?thesis using serve_start_ok(1) [OF assms(2)] by blast
next
  case (session_served F rng rd1 svc rng' svc')
  have "env_reachable E (svc_store svc')"
    using serving_star_reachable [OF session_served(3)] serve_start_ok(2) [OF assms(2) session_served(2)] by blast
  then show ?thesis using assms(2) by (simp add: root_ok_def session_served(1))
qed

lemma command_ok:
  assumes "root_ok E rd"
  shows "enroll_token E fill F rd rng = ((rd', r), rng') \<Longrightarrow> root_ok E rd'"
    and "revoke_cmd E F rd nm rng = ((rd', q), rng') \<Longrightarrow> root_ok E rd'"
    and "prune_cmd E F rd = (rd', p) \<Longrightarrow> root_ok E rd'"
    and "gc_cmd E F rd grace = (rd', g) \<Longrightarrow> hash_order (df_hash_order F) \<Longrightarrow> root_ok E rd'"
    and "status_cmd E F rd json rng = ((rd', v), rng') \<Longrightarrow> root_ok E rd'"
proof -
  have ident: "root_ok E rd1" if "open_identity E F rd rng = ((rd1, x), rng1)" for rd1 x rng1
    using open_identity_frame(1) [OF that] assms root_ok_cong by metis
  note opened = open_store_ok [OF assms]
  show "enroll_token E fill F rd rng = ((rd', r), rng') \<Longrightarrow> root_ok E rd'"
    "revoke_cmd E F rd nm rng = ((rd', q), rng') \<Longrightarrow> root_ok E rd'"
    using ident by (auto simp: enroll_token_def revoke_cmd_def root_ok_def split: prod.splits sum.splits)
  show "root_ok E rd'" if "prune_cmd E F rd = (rd', p)"
  proof (cases "open_store E F rd")
    case (Pair rd1 x)
    have "env_reachable E s'" if "prune (env_redb E) (env_ts E) F' Fd s now pol m = (s', y)" "env_reachable E s" for s F' Fd now pol m s' y
      using reachable_step [OF that(2) step_prune [OF that(1)]] .
    then show ?thesis using that opened [OF Pair] Pair assms
      by (cases x) (auto simp: prune_cmd_def root_ok_def split: prod.splits)
  qed
  show "root_ok E rd'" if "gc_cmd E F rd grace = (rd', g)" and ho: "hash_order (df_hash_order F)"
  proof (cases "open_store E F rd")
    case (Pair rd1 x)
    have "env_reachable E s'" if "gc (env_redb E) (df_hash_order F) F' s now gr = (s', y)" "env_reachable E s" for s F' now gr s' y
      using reachable_step [OF that(2) step_gc [OF that(1) ho]] .
    then show ?thesis using that(1) opened [OF Pair] Pair assms
      by (cases x) (auto simp: gc_cmd_def root_ok_def split: prod.splits)
  qed
  show "root_ok E rd'" if st: "status_cmd E F rd json rng = ((rd', v), rng')"
  proof -
    obtain rd1 w rng1 where "root_ok E rd1" "rd' = rd1 \<or> (\<exists>x. open_store E F rd1 = (rd', x))"
      using st ident assms by (fastforce simp: status_cmd_def split: prod.splits sum.splits if_splits)
    then show ?thesis using open_store_ok(1) by blast
  qed
qed

lemma daemon_step_ok: "daemon_step E T rd rd' \<Longrightarrow> root_ok E rd \<Longrightarrow> root_ok E rd'"
  by (erule daemon_step.cases) (auto intro: serve_session_ok command_ok)

interpretation daemon_life: inductive_invariant "fresh_root E" "daemon_step E T" "root_ok E" for E T
  by unfold_locales (simp add: fresh_root_def root_ok_def, rule daemon_step_ok)


section \<open>The retention setting\<close>

lemma load_or_init_Some:
  "load_or_init T F (Some text) = (fl, r) \<Longrightarrow> fl = Some text \<and>
     (r = Ok c \<longrightarrow> utf8_valid text \<and> (\<exists>v. ct_parse T text = Some v \<and> c = daemon_config_of v))"
  by (auto simp: load_or_init_def split: if_splits option.splits)

text \<open>Opening a store root that has one keeps its snapshots.\<close>

lemma store_open_blob:
  assumes "store_open K F (Some s) = (s', r)"
  shows "snapshot_blob K s' = snapshot_blob K s" "index_db s' = index_db s"
    "map_of (objects s') (object_path cid) = map_of (objects s) (object_path cid)"
  using assms sweep_tmp_files_keeps [of F s]
  by (auto simp: store_open_def snapshot_blob_def fun_eq_iff split: if_splits)

lemma upload_loop_blob:
  "upload_loop E F n s blobs a b = (s', r) \<Longrightarrow> snapshot_blob (env_redb E) s' = snapshot_blob (env_redb E) s"
proof (induction E F n s blobs a b rule: upload_loop.induct)
  case (3 E F n s blob blobs a b)
  have "snapshot_blob (env_redb E) s1 = snapshot_blob (env_redb E) s"
    if "put_chunk (env_redb E) (env_hash E) (op_F F n) (op_tmp F n) s cid data = (s1, w)" for cid data s1 w
    using that by (cases rule: put_chunk_cases) (auto simp: snapshot_blob_def fun_eq_iff)
  then show ?case using 3 by (fastforce split: sum.splits prod.splits if_splits)
qed auto

lemma put_snapshot_as_Err: "put_snapshot_as K F s u blob refs owner = (s', Err e) \<Longrightarrow> s' = s"
  by (auto simp: put_snapshot_as_def Let_def split: if_splits sum.splits option.splits)

lemma put_manifest_blob:
  assumes "redb_laws (env_redb E)" and "put_manifest_rpc E F svc peer blob u ids = (svc', r)" and "\<not> auto_prune svc"
    and "snapshot_blob (env_redb E) (svc_store svc) v = Some b"
  shows "snapshot_blob (env_redb E) (svc_store svc') v = Some b"
proof -
  have "snapshot_blob (env_redb E) s' v = Some b"
    if "put_snapshot_as (env_redb E) F' (svc_store svc) snap blob refs owner = (s', q)" for F' snap refs owner s' q
    using that assms(4) put_snapshot_as_Err [of "env_redb E" F' "svc_store svc" snap blob refs owner s'] put_snapshot_as_Ok(1,2) [OF assms(1), of F' "svc_store svc" snap blob refs owner s']
    by (cases q) auto
  then show ?thesis using assms(2,3,4)
    by (auto simp: put_manifest_rpc_def Let_def split: sum.splits if_splits prod.splits)
qed

lemma handle_keeps_snapshots:
  assumes "redb_laws (env_redb E)" and "handle E F svc peer req rng = ((svc', r), rng')" and "\<not> auto_prune svc"
    and "snapshot_blob (env_redb E) (svc_store svc) v = Some b"
  shows "snapshot_blob (env_redb E) (svc_store svc') v = Some b"
proof (cases req)
  case (EnrollRequest token csr)
  then show ?thesis using assms enroll_keeps_store by (fastforce simp: handle_def)
next
  case (UploadChunksRequest blobs)
  then show ?thesis using assms(2,4) upload_loop_blob
    by (fastforce simp: handle_def upload_chunks_def split: sum.splits prod.splits)
next
  case (PutManifestRequest blob u ids)
  then show ?thesis using assms put_manifest_blob by (fastforce simp: handle_def)
qed (use assms in \<open>auto simp: handle_def\<close>)

lemma handle_keeps_auto_prune:
  "handle E F svc peer req rng = ((svc', r), rng') \<Longrightarrow> auto_prune svc' = auto_prune svc"
  by (cases req) (auto simp: handle_def enroll_def upload_chunks_def put_manifest_rpc_def Let_def
      split: option.splits if_splits prod.splits sum.splits bool.splits)

lemma serving_keeps_snapshots:
  assumes "(serving E)\<^sup>*\<^sup>* svc svc'" and "redb_laws (env_redb E)" and "\<not> auto_prune svc"
    and "snapshot_blob (env_redb E) (svc_store svc) v = Some b"
  shows "\<not> auto_prune svc' \<and> snapshot_blob (env_redb E) (svc_store svc') v = Some b"
  using assms(1)
proof (induction rule: rtranclp_induct)
  case base
  then show ?case using assms(3,4) by simp
next
  case (step y z)
  from step(2) show ?case
  proof (cases rule: serving.cases)
    case (serve_request F peer req rng r rng')
    then show ?thesis
      using step.IH handle_keeps_snapshots [OF assms(2) serve_request(1)] handle_keeps_auto_prune [OF serve_request(1)] by simp
  qed (use step.IH in auto)
qed

text \<open>C15: The operator's choice is respected. When \<open>daemon.toml\<close> sets \<open>auto_prune\<close> to false, no session of the daemon loses or
  changes a stored snapshot, whatever requests arrive and whatever fails, and the file is left as it is.\<close>

theorem auto_prune_off_keeps_snapshots:
  assumes "redb_laws (env_redb E)" and "serve_session E T rd rd'"
    and "rd_config rd = Some text" and "ct_parse T text = Some (Some False)"
    and "rd_store rd = Some s" and "snapshot_blob (env_redb E) s u = Some b"
  shows "rd_config rd' = Some text \<and> (\<exists>s'. rd_store rd' = Some s' \<and> snapshot_blob (env_redb E) s' u = Some b)"
proof -
  have start: "rd_config rd1 = Some text \<and> (\<exists>s'. rd_store rd1 = Some s' \<and> snapshot_blob (env_redb E) s' u = Some b) \<and>
     (\<forall>svc. r = Ok svc \<longrightarrow> \<not> auto_prune svc \<and> snapshot_blob (env_redb E) (svc_store svc) u = Some b)"
    if st: "serve_start E T F rd rng = ((rd1, r), rng')" for F rng rd1 r rng'
  proof -
    have op: "rd_config rd3 = Some text \<and> (\<exists>s'. rd_store rd3 = Some s' \<and> snapshot_blob (env_redb E) s' u = Some b \<and> (\<forall>t. q = Ok t \<longrightarrow> t = s'))"
      if "open_identity E F rd rng = ((rd2, w), rng')" "open_store E F rd2 = (rd3, q)" for rd2 rd3 q w
    proof -
      obtain s1 x where o: "store_open (env_redb E) (df_open F) (Some s) = (s1, x)" by force
      show ?thesis using that(2) o open_identity_frame [OF that(1)] assms(3,5,6) store_open_blob(1) [OF o]
        by (auto simp: open_store_def split: sum.splits)
    qed
    show ?thesis using st
    proof (cases rule: serve_start_cases)
      case (identity e)
      then show ?thesis using open_identity_frame [OF identity(1)] assms(3,5,6) by auto
    next
      case (store rd2 ident e)
      then show ?thesis using op [OF store(1,2)] by auto
    next
      case (config rd2 ident rd3 s1 fl q)
      note o = op [OF config(1,2)]
      have fl: "fl = Some text" "\<And>c. q = Ok c \<Longrightarrow> \<not> dc_auto_prune c"
        using load_or_init_Some config(3) o assms(4) by (fastforce simp: daemon_config_of_def)+
      then show ?thesis using o config(4,5)
        by (auto simp: serve_tls_with_config_def with_auto_prune_def with_auth_def)
    qed
  qed
  from assms(2) show ?thesis
  proof (cases rule: serve_session.cases)
    case (session_failed F rng e rng')
    then show ?thesis using start by blast
  next
    case (session_served F rng rd1 svc rng' svc')
    have "\<not> auto_prune svc" "snapshot_blob (env_redb E) (svc_store svc) u = Some b" "rd_config rd1 = Some text"
      using start [OF session_served(2)] by auto
    then show ?thesis using serving_keeps_snapshots [OF session_served(3) assms(1)] by (simp add: session_served(1))
  qed
qed

text \<open>A run of the grid that fails half-way has dropped only snapshots of the plan.\<close>

lemma prune_loop_keeps:
  "redb_laws K \<Longrightarrow> prune_loop K Fd s us = (s', r) \<Longrightarrow> v \<notin> set us \<Longrightarrow> snapshot_blob K s' v = snapshot_blob K s v"
proof (induction us arbitrary: s)
  case (Cons u us)
  obtain s1 r1 where d: "delete_snapshot K (Fd u) s u = (s1, r1)"
    and "pruned r1 \<and> prune_loop K Fd s1 us = (s', r) \<or> s' = s1 \<and> (\<exists>e. r = Err e)"
    using prune_loop_split [OF Cons.prems(2)] by blast
  then show ?case using Cons.IH [OF Cons.prems(1), of s1] delete_snapshot_cong(2) [OF Cons.prems(1) d, of v] Cons.prems(3) by auto
qed simp

lemma newest_not_dropped:
  assumes "redb_laws K" and "list_snapshots K F s = Ok us" and "snapshot_blob K s u \<noteq> None"
    and "\<And>v. snapshot_blob K s v \<noteq> None \<Longrightarrow> v \<noteq> u \<Longrightarrow> sint (ulid_time_ms ts v) < sint (ulid_time_ms ts u)"
  shows "u \<notin> set (plan_drop (plan now (map (\<lambda>u. (ulid_time_ms ts u, u)) us) policy))"
proof -
  let ?xs = "map (\<lambda>u. (ulid_time_ms ts u, u)) us"
  note us = list_snapshots_mem [OF assms(1,2)]
  have "u \<in> set us" using us(1) assms(3) by simp
  then obtain i where i: "i < length us" "us ! i = u" unfolding in_set_conv_nth by blast
  have "beats ?xs i j" if "j < length ?xs" "j \<noteq> i" for j
  proof -
    have "us ! j \<noteq> u" "us ! j \<in> set us" using that i us(2) nth_eq_iff_index_eq by fastforce+
    then show ?thesis using assms(4) [of "us ! j"] us(1) i that(1) by (simp add: beats_def)
  qed
  then have "u \<in> set (plan_keep (plan now ?xs policy))"
    using plan_keeps_newest [of i ?xs now policy] i by simp
  moreover have "mset (plan_keep (plan now ?xs policy)) + mset (plan_drop (plan now ?xs policy)) = mset us"
    using plan_mset [of now ?xs policy] by (simp add: comp_def)
  ultimately show ?thesis
    using us(2) mset_eq_imp_distinct_iff [of "plan_keep (plan now ?xs policy) @ plan_drop (plan now ?xs policy)" us] by auto
qed

text \<open>C14: A backup never loses to its own housekeeping. When the daemon acknowledges a manifest whose snapshot is newer than all
  others it holds, the snapshot is stored when the answer is sent, also after the automatic run of the retention grid,
  whatever the clock says and whatever fails in that run.\<close>

theorem backup_survives_auto_prune:
  assumes "redb_laws (env_redb E)" and "put_manifest_rpc E F svc peer blob raw ids = (svc', Ok PutManifestResponse)"
    and "parse_snapshot_id raw = Ok u"
    and "\<forall>v. snapshot_blob (env_redb E) (svc_store svc) v \<noteq> None \<longrightarrow>
      sint (ulid_time_ms (env_ts E) v) < sint (ulid_time_ms (env_ts E) u)"
  shows "snapshot_blob (env_redb E) (svc_store svc') u = Some blob"
proof -
  let ?K = "env_redb E"
  obtain refs owner s1 where put: "put_snapshot_as ?K (op_F F 0) (svc_store svc) u blob refs owner = (s1, Ok ())"
    and s': "svc_store svc' = (if auto_prune svc then auto_prune_run E F s1 else s1)"
    using assms(2,3) by (auto simp: put_manifest_rpc_def Let_def split: sum.splits if_splits prod.splits)
  have b: "snapshot_blob ?K s1 = (snapshot_blob ?K (svc_store svc))(u \<mapsto> blob)"
    using put_snapshot_as_Ok(2) [OF assms(1) put] .
  have "snapshot_blob ?K s2 u = Some blob"
    if "prune ?K (env_ts E) (prune_F F) (prune_Fd F) s1 now default_grid Auto = (s2, r)" for now s2 r
    using that
  proof (cases rule: prune_cases)
    case (failed e)
    then show ?thesis using b by simp
  next
    case (ran us s3 r3)
    have "snapshot_blob ?K s3 u = snapshot_blob ?K s1 u"
      using prune_loop_keeps [OF assms(1) ran(2)] newest_not_dropped [OF assms(1) ran(1), of u "env_ts E" now default_grid]
        b assms(4) by auto
    then show ?thesis using b ran(3) by (auto dest!: record_prune_cases simp: snapshot_blob_def)
  qed
  then show ?thesis using s' b by (auto simp: auto_prune_run_def intro: surjective_pairing)
qed

section \<open>Asking for the status\<close>


text \<open>With a CA certificate but no key beside it, asking for the status replaces the CA.\<close>

definition lone_ca_root :: "(bytes, bytes) RBT.rbt root_dir" where
  "lone_ca_root = \<lparr>rd_store = None, rd_identity = empty_disk\<lparr>root_files := [(snd CA_CERT_FILE, ascii ''AAAC'')]\<rparr>, rd_config = None\<rparr>"

definition daemon_no_faults :: daemon_faults where
  "daemon_no_faults = \<lparr>df_id_open = id_no_faults, df_id = id_no_faults, df_open = no_faults, df_op = no_faults,
     df_ops = (\<lambda>_. no_faults),
     df_config = \<lparr>cfg_read_fails = False, cfg_mkdir_fails = False, cfg_create_fails = False, cfg_write_fails = False, cfg_partial = 0\<rparr>,
     df_runtime = False, df_bind = False, df_tls = False, df_json = False, df_clock = Some 0, df_hash_order = id\<rparr>"

lemma status_replaces_ca:
  "map_of (root_files (rd_identity (fst (fst (status_cmd demo_env daemon_no_faults lone_ca_root False ()))))) (snd CA_CERT_FILE) =
     Some (ascii ''AAAA'')"
  by code_simp

section \<open>Concrete runs\<close>

definition demo_config_toml :: config_toml where
  "demo_config_toml = \<lparr>ct_parse = (\<lambda>b. case b of [x] \<Rightarrow> Some (Some (x = 1)) | _ \<Rightarrow> None),
     ct_print = (\<lambda>c. Some [if dc_auto_prune c then 1 else 0])\<rparr>"

lemma demo_config_toml_laws: "config_toml_laws demo_config_toml"
proof -
  have "utf8_valid [1]" "utf8_valid [0]" by code_simp+
  then show ?thesis by (auto simp: config_toml_laws_def demo_config_toml_def)
qed

definition demo_root :: "(bytes, bytes) RBT.rbt root_dir" where
  "demo_root = \<lparr>rd_store = None, rd_identity = empty_disk, rd_config = Some [0]\<rparr>"

definition demo_svc :: "(bytes, bytes) RBT.rbt service" where
  "demo_svc = serve_tls_with_config (empty_store rbt_redb) demo_ident demo_disk False"

lemma demo_serve_start:
  "serve_start demo_env demo_config_toml daemon_no_faults demo_root () =
     ((\<lparr>rd_store = Some (empty_store rbt_redb), rd_identity = demo_disk, rd_config = Some [0]\<rparr>, Ok demo_svc), ())"
proof -
  have "utf8_valid [0]" by code_simp
  then show ?thesis
    by (simp add: serve_start_def open_identity_def open_store_def demo_root_def demo_env_def daemon_no_faults_def demo_open
        store_open_def sweep_tmp_files_def empty_store_def load_or_init_def demo_config_toml_def daemon_config_of_def demo_svc_def)
qed

definition demo_svc2 :: "(bytes, bytes) RBT.rbt service" where
  "demo_svc2 = demo_svc\<lparr>svc_dir := demo_enrolled\<rparr>"

definition demo_svc3 :: "(bytes, bytes) RBT.rbt service" where
  "demo_svc3 = demo_svc2\<lparr>svc_store := demo_store\<rparr>"

lemma demo_peer: "peer_fingerprint (env_hash demo_env) (Some [[]]) = Some demo_fp"
  by (simp add: peer_fingerprint_def demo_env_def demo_fp_def zero_hash_def flat_hash_def)

lemma demo_authenticated:
  assumes "svc_dir svc = demo_enrolled"
  shows "authenticate demo_env svc_no_faults svc (peer_fingerprint (env_hash demo_env) (Some [[]])) = Ok ()"
proof -
  have "client_status demo_toml id_no_faults demo_enrolled demo_fp = Ok Active" by code_simp
  then show ?thesis unfolding demo_peer
    by (simp add: authenticate_def svc_no_faults_def demo_env_def assms split: option.split)
qed

definition demo_put_snapshot :: "(bytes, bytes) RBT.rbt store \<times> (store_error + unit)" where
  "demo_put_snapshot = put_snapshot_as rbt_redb no_faults demo_store 5 [0xAA] [7, 7]
     (owner_lookup demo_env svc_no_faults demo_svc3 (Some demo_fp))"

lemma demo_put_snapshot_eq:
  "put_snapshot_as rbt_redb no_faults demo_store 5 [0xAA] [7, 7] (owner_lookup demo_env svc_no_faults demo_svc3 (Some demo_fp)) =
     (fst demo_put_snapshot, Ok ())"
proof -
  have "snd demo_put_snapshot = Ok ()"
    by (simp add: demo_put_snapshot_def put_snapshot_as_no_faults [OF rbt_redb_laws] demo_entries demo_no_snapshots)
  then show ?thesis unfolding demo_put_snapshot_def by (metis prod.collapse)
qed

definition demo_svc4 :: "(bytes, bytes) RBT.rbt service" where
  "demo_svc4 = demo_svc3\<lparr>svc_store := fst demo_put_snapshot\<rparr>"

lemma demo_fields:
  "env_redb demo_env = rbt_redb" "env_hash demo_env = zero_hash" "svc_dir demo_svc2 = demo_enrolled" "svc_dir demo_svc3 = demo_enrolled" "op_lost svc_no_faults n = False" "op_F svc_no_faults n = no_faults"
  "op_tmp svc_no_faults n = [0x41]" "svc_store demo_svc2 = empty_store rbt_redb" "svc_store demo_svc3 = demo_store"
  "auto_prune demo_svc3 = False"
  by (simp_all add: demo_env_def svc_no_faults_def demo_svc3_def demo_svc2_def demo_svc_def serve_tls_with_config_def
      with_auto_prune_def with_auth_def)

lemma demo_serving: "(serving demo_env)\<^sup>*\<^sup>* demo_svc demo_svc4"
proof -
  have "serving demo_env demo_svc demo_svc2" unfolding demo_svc2_def by (rule serve_identity)
  moreover have "serving demo_env demo_svc2 demo_svc3"
  proof (rule serve_request)
    show "handle demo_env svc_no_faults demo_svc2 (Some [[]])
        (UploadChunksRequest [Ok \<lparr>cb_chunk_id = chunk_id_as_bytes 7, cb_data = [1, 2, 3]\<rparr>]) () =
        ((demo_svc3, Ok (UploadChunksResponse 1 0)), ())"
      using demo_put_eq
      by (simp add: handle_def upload_chunks_def demo_authenticated [unfolded demo_fields] parse_chunk_id_def demo_fields demo_svc3_def)
    show "request_guard demo_env svc_no_faults demo_svc2 (UploadChunksRequest [Ok \<lparr>cb_chunk_id = chunk_id_as_bytes 7, cb_data = [1, 2, 3]\<rparr>])"
      by (simp add: request_guard_def svc_no_faults_def no_faults_def)
  qed
  moreover have "serving demo_env demo_svc3 demo_svc4"
  proof (rule serve_request)
    have ids: "collect_results parse_chunk_id [chunk_id_as_bytes 7, chunk_id_as_bytes 7] = Ok [7, 7]"
      using collect_parse_ids [of "[7, 7]"] by simp
    have "parse_snapshot_id (ulid_to_bytes 5) = Ok 5" by code_simp
    then show "handle demo_env svc_no_faults demo_svc3 (Some [[]])
        (PutManifestRequest [0xAA] (ulid_to_bytes 5) [chunk_id_as_bytes 7, chunk_id_as_bytes 7]) () = ((demo_svc4, Ok PutManifestResponse), ())"
      using demo_put_snapshot_eq ids
      by (simp add: handle_def put_manifest_rpc_def Let_def demo_authenticated [unfolded demo_peer] demo_peer [unfolded demo_fields]
          demo_svc4_def demo_fields parse_chunk_id_def)
    have "refs_held rbt_redb demo_store cid = 0" for cid
      using store_invD(4) [OF demo_inv, of cid] by (simp add: demo_entries count_ok_def split: if_splits)
    then show "request_guard demo_env svc_no_faults demo_svc3 (PutManifestRequest [0xAA] (ulid_to_bytes 5) [chunk_id_as_bytes 7, chunk_id_as_bytes 7])"
      using ids by (simp add: request_guard_def demo_env_def demo_svc3_def)
  qed
  ultimately show ?thesis by (meson converse_rtranclp_into_rtranclp rtranclp.rtrancl_refl)
qed

definition demo_served :: "(bytes, bytes) RBT.rbt root_dir" where
  "demo_served = \<lparr>rd_store = Some (fst demo_put_snapshot), rd_identity = demo_enrolled, rd_config = Some [0]\<rparr>"

lemma demo_session: "serve_session demo_env demo_config_toml demo_root demo_served"
  using session_served [OF demo_serve_start demo_serving]
  by (simp add: demo_served_def demo_svc4_def demo_svc3_def demo_svc2_def)


lemma demo_served_blob: "snapshot_blob rbt_redb (fst demo_put_snapshot) 5 = Some [0xAA]"
  using put_snapshot_as_Ok(2) [OF rbt_redb_laws demo_put_snapshot_eq] by simp

theorem auto_prune_off_keeps_snapshots_witness:
  "\<exists>rd'. serve_session demo_env demo_config_toml demo_served rd' \<and> rd_config rd' = Some [0] \<and>
     (\<exists>s'. rd_store rd' = Some s' \<and> snapshot_blob rbt_redb s' 5 = Some [0xAA])"
proof -
  obtain rd1 r where "serve_start demo_env demo_config_toml daemon_no_faults demo_served () = ((rd1, r), ())"
    by (metis surjective_pairing unit.exhaust)
  then obtain rd' where s: "serve_session demo_env demo_config_toml demo_served rd'"
    by (cases r) (metis session_failed, metis session_served rtranclp.rtrancl_refl)
  have "redb_laws (env_redb demo_env)" by (simp add: demo_fields rbt_redb_laws)
  from auto_prune_off_keeps_snapshots [OF this s, of "[0]" "fst demo_put_snapshot" 5 "[0xAA]"] show ?thesis
    using s demo_served_blob by (auto simp: demo_served_def demo_config_toml_def demo_fields)
qed

definition demo_auto :: "(bytes, bytes) RBT.rbt service" where
  "demo_auto = with_auto_prune (service_new demo_store empty_disk) True"

theorem backup_survives_auto_prune_witness:
  "\<exists>svc'. put_manifest_rpc demo_env svc_no_faults demo_auto None [0xAA] (ulid_to_bytes 5) [chunk_id_as_bytes 7] = (svc', Ok PutManifestResponse) \<and>
     snapshot_blob rbt_redb (svc_store svc') 5 = Some [0xAA]"
proof -
  have p: "parse_snapshot_id (ulid_to_bytes 5) = Ok 5" by code_simp
  have f: "svc_store demo_auto = demo_store" "svc_auth demo_auto = None" by (simp_all add: demo_auto_def with_auto_prune_def service_new_def)
  have "snd (put_snapshot_as rbt_redb no_faults demo_store 5 [0xAA] [7] None) = Ok ()"
    by (simp add: put_snapshot_as_no_faults [OF rbt_redb_laws] demo_entries demo_no_snapshots)
  then obtain s1 where "put_snapshot_as rbt_redb no_faults demo_store 5 [0xAA] [7] None = (s1, Ok ())"
    by (metis prod.collapse)
  then obtain svc' where r: "put_manifest_rpc demo_env svc_no_faults demo_auto None [0xAA] (ulid_to_bytes 5) [chunk_id_as_bytes 7] =
      (svc', Ok PutManifestResponse)"
    using p by (simp add: put_manifest_rpc_def Let_def authenticate_def owner_lookup_def f demo_fields parse_chunk_id_def)
  have "redb_laws (env_redb demo_env)" by (simp add: demo_fields rbt_redb_laws)
  then show ?thesis using backup_survives_auto_prune [OF _ r p] r by (simp add: demo_fields f demo_no_snapshots)
qed

lemma sweep_entries_no_faults: "snd (sweep_entries no_faults es objs) = Ok ()"
  by (induction "no_faults" es objs rule: sweep_entries.induct) (simp_all add: no_faults_def)

lemma store_open_no_faults: "\<exists>s'. store_open K no_faults disk = (s', Ok ())"
  using sweep_entries_no_faults by (auto simp: store_open_def sweep_tmp_files_def Let_def prod_eq_iff split: prod.splits option.splits)


end
