(* ===== verification/Compression.thy ===== *)
theory Compression
  imports Busyncr_Prelude "HOL-Library.Log_Nat"
begin

text \<open>
  Codec framing and the compression policy, \<open>crates/busyncr-core/src/compression.rs\<close>, and the part of
  IEEE 754 double arithmetic it uses. zstd and lz4 are third-party code: their functions are arguments,
  and \<open>zstd_laws\<close> is what the code relies on. Counters are \<open>u64\<close> and wrap, as in a release build.
\<close>

section \<open>Double-precision numbers\<close>

text \<open>Finite values are rationals; the sign of a zero is not kept, since no comparison and no division
  of the code depends on it.\<close>

datatype f64 = NaN | PosInf | NegInf | Fin rat

definition pow2 :: "int \<Rightarrow> rat" where
  "pow2 k = (if 0 \<le> k then 2 ^ nat k else 1 / 2 ^ nat (- k))"

definition ilog2 :: "rat \<Rightarrow> int" where
  "ilog2 q = (let (n, d) = quotient_of q; e = bitlen n - bitlen d in if pow2 e \<le> q then e else e - 1)"

definition round_half_even :: "rat \<Rightarrow> int" where
  "round_half_even q =
     (let f = \<lfloor>q\<rfloor>; r = q - of_int f
      in if r < 1 / 2 then f else if 1 / 2 < r then f + 1 else if even f then f else f + 1)"

text \<open>Rounding of a positive rational to 53 bits, gradual underflow and overflow included.\<close>

definition round_pos :: "rat \<Rightarrow> f64" where
  "round_pos q =
     (let u = max (ilog2 q - 52) (- 1074); r = of_int (round_half_even (q / pow2 u)) * pow2 u
      in if pow2 1024 \<le> r then PosInf else Fin r)"

fun f64_neg :: "f64 \<Rightarrow> f64" where
  "f64_neg NaN = NaN" | "f64_neg PosInf = NegInf" | "f64_neg NegInf = PosInf" | "f64_neg (Fin q) = Fin (- q)"

definition f64_round :: "rat \<Rightarrow> f64" where
  "f64_round q = (if q = 0 then Fin 0 else if 0 < q then round_pos q else f64_neg (round_pos (- q)))"

text \<open>\<open>n as f64\<close> for an unsigned integer.\<close>

definition f64_of_nat :: "nat \<Rightarrow> f64" where "f64_of_nat n = f64_round (of_nat n)"

fun f64_mul :: "f64 \<Rightarrow> f64 \<Rightarrow> f64" where
  "f64_mul (Fin a) (Fin b) = f64_round (a * b)"
| "f64_mul NaN _ = NaN"
| "f64_mul _ NaN = NaN"
| "f64_mul (Fin a) PosInf = (if a = 0 then NaN else if 0 < a then PosInf else NegInf)"
| "f64_mul (Fin a) NegInf = (if a = 0 then NaN else if 0 < a then NegInf else PosInf)"
| "f64_mul PosInf (Fin b) = (if b = 0 then NaN else if 0 < b then PosInf else NegInf)"
| "f64_mul NegInf (Fin b) = (if b = 0 then NaN else if 0 < b then NegInf else PosInf)"
| "f64_mul PosInf PosInf = PosInf"
| "f64_mul PosInf NegInf = NegInf"
| "f64_mul NegInf PosInf = NegInf"
| "f64_mul NegInf NegInf = PosInf"

text \<open>Division, the zero of a divisor being positive (it is a converted length).\<close>

fun f64_div :: "f64 \<Rightarrow> f64 \<Rightarrow> f64" where
  "f64_div (Fin a) (Fin b) =
     (if b = 0 then (if a = 0 then NaN else if 0 < a then PosInf else NegInf) else f64_round (a / b))"
| "f64_div NaN _ = NaN"
| "f64_div _ NaN = NaN"
| "f64_div (Fin a) _ = Fin 0"
| "f64_div PosInf (Fin b) = (if b < 0 then NegInf else PosInf)"
| "f64_div NegInf (Fin b) = (if b < 0 then PosInf else NegInf)"
| "f64_div _ _ = NaN"

text \<open>IEEE comparison: false whenever an operand is NaN.\<close>

instantiation f64 :: ord
begin

fun less_f64 :: "f64 \<Rightarrow> f64 \<Rightarrow> bool" where
  "less_f64 (Fin a) (Fin b) = (a < b)"
| "less_f64 NaN _ = False"
| "less_f64 _ NaN = False"
| "less_f64 NegInf y = (y \<noteq> NegInf)"
| "less_f64 (Fin a) y = (y = PosInf)"
| "less_f64 PosInf _ = False"

definition less_eq_f64 :: "f64 \<Rightarrow> f64 \<Rightarrow> bool" where
  "less_eq_f64 x y = (x < y \<or> x = y \<and> x \<noteq> NaN)"

instance ..

end

section \<open>Framing\<close>

type_synonym i32 = "32 word"

datatype codec_id = Raw | Zstd

datatype compression_error = Empty | UnknownCodec byte | Compress string | Decompress string

text \<open>Zstd's \<open>encode_all\<close> and \<open>decode_all\<close> (an error is its message), and lz4's \<open>compress\<close>.\<close>

record codecs =
  zstd_encode_all :: "bytes \<Rightarrow> i32 \<Rightarrow> string + bytes"
  zstd_decode_all :: "bytes \<Rightarrow> string + bytes"
  lz4_compress :: "bytes \<Rightarrow> bytes"

definition zstd_laws :: "codecs \<Rightarrow> bool" where
  "zstd_laws Z \<longleftrightarrow> (\<forall>data level c. zstd_encode_all Z data level = Ok c \<longrightarrow> zstd_decode_all Z c = Ok data)"

definition codec_to_byte :: "codec_id \<Rightarrow> byte" where
  "codec_to_byte c = (case c of Raw \<Rightarrow> 0 | Zstd \<Rightarrow> 1)"

definition codec_from_byte :: "byte \<Rightarrow> compression_error + codec_id" where
  "codec_from_byte b = (if b = 0 then Ok Raw else if b = 1 then Ok Zstd else Err (UnknownCodec b))"

definition frame :: "codec_id \<Rightarrow> bytes \<Rightarrow> bytes" where
  "frame codec payload = codec_to_byte codec # payload"

definition unframe :: "bytes \<Rightarrow> compression_error + (codec_id \<times> bytes)" where
  "unframe framed =
     (case framed of [] \<Rightarrow> Err Empty
      | b # rest \<Rightarrow> and_then (codec_from_byte b) (\<lambda>codec. Ok (codec, rest)))"

definition compress_zstd :: "codecs \<Rightarrow> bytes \<Rightarrow> i32 \<Rightarrow> compression_error + bytes" where
  "compress_zstd Z data level = map_err Compress (zstd_encode_all Z data level)"

definition decompress_zstd :: "codecs \<Rightarrow> bytes \<Rightarrow> compression_error + bytes" where
  "decompress_zstd Z data = map_err Decompress (zstd_decode_all Z data)"

definition decode_chunk :: "codecs \<Rightarrow> bytes \<Rightarrow> compression_error + bytes" where
  "decode_chunk Z framed =
     and_then (unframe framed) (\<lambda>(codec, payload).
       case codec of Raw \<Rightarrow> Ok payload | Zstd \<Rightarrow> decompress_zstd Z payload)"

section \<open>Policy\<close>

datatype phase = InitialFull | Incremental

definition DEFAULT_ZSTD_LEVEL :: i32 where "DEFAULT_ZSTD_LEVEL = 3"
definition DEFAULT_ESCALATE_LEVEL :: i32 where "DEFAULT_ESCALATE_LEVEL = 9"
definition DEFAULT_KEEP_THRESHOLD :: f64 where "DEFAULT_KEEP_THRESHOLD = f64_round (95 / 100)"
definition DEFAULT_PROBE_THRESHOLD :: f64 where "DEFAULT_PROBE_THRESHOLD = f64_round (102 / 100)"
definition DEFAULT_ESCALATE_RATIO :: f64 where "DEFAULT_ESCALATE_RATIO = f64_round 2"

record policy_config =
  use_probe :: bool
  escalate :: bool
  zstd_level :: i32
  escalate_level :: i32
  keep_threshold :: f64
  probe_threshold :: f64
  escalate_ratio :: f64

definition policy_config_default :: policy_config where
  "policy_config_default = \<lparr>use_probe = False, escalate = False, zstd_level = DEFAULT_ZSTD_LEVEL,
     escalate_level = DEFAULT_ESCALATE_LEVEL, keep_threshold = DEFAULT_KEEP_THRESHOLD,
     probe_threshold = DEFAULT_PROBE_THRESHOLD, escalate_ratio = DEFAULT_ESCALATE_RATIO\<rparr>"

record policy_counters =
  pc_raw :: u64
  pc_zstd3 :: u64
  pc_escalated :: u64
  pc_escalation_attempts :: u64
  pc_bytes_in :: u64
  pc_bytes_out :: u64

definition counters_total :: "policy_counters \<Rightarrow> u64" where
  "counters_total c = pc_raw c + pc_zstd3 c + pc_escalated c"

definition bytes_saved :: "policy_counters \<Rightarrow> u64" where
  "bytes_saved c = u64_saturating_sub (pc_bytes_in c) (pc_bytes_out c)"

definition lz4_probe_len :: "codecs \<Rightarrow> bytes \<Rightarrow> nat" where
  "lz4_probe_len Z chunk = length (lz4_compress Z chunk)"

text \<open>The three ways a chunk is stored, each with its counter updates.\<close>

definition store_raw :: "bytes \<Rightarrow> policy_counters \<Rightarrow> (codec_id \<times> bytes) \<times> policy_counters" where
  "store_raw chunk c =
     ((Raw, chunk), c\<lparr>pc_raw := pc_raw c + 1, pc_bytes_out := pc_bytes_out c + word_of_nat (length chunk)\<rparr>)"

definition store_zstd3 :: "bytes \<Rightarrow> policy_counters \<Rightarrow> (codec_id \<times> bytes) \<times> policy_counters" where
  "store_zstd3 z c =
     ((Zstd, z), c\<lparr>pc_zstd3 := pc_zstd3 c + 1, pc_bytes_out := pc_bytes_out c + word_of_nat (length z)\<rparr>)"

definition store_escalated :: "bytes \<Rightarrow> policy_counters \<Rightarrow> (codec_id \<times> bytes) \<times> policy_counters" where
  "store_escalated z c =
     ((Zstd, z), c\<lparr>pc_escalated := pc_escalated c + 1, pc_bytes_out := pc_bytes_out c + word_of_nat (length z)\<rparr>)"

definition choose_codec :: "codecs \<Rightarrow> bytes \<Rightarrow> phase \<Rightarrow> policy_config \<Rightarrow> policy_counters
    \<Rightarrow> (codec_id \<times> bytes) \<times> policy_counters" where
  "choose_codec Z chunk phase cfg c0 =
     (let c = c0\<lparr>pc_bytes_in := pc_bytes_in c0 + word_of_nat (length chunk)\<rparr>
      in if chunk = [] then ((Raw, chunk), c\<lparr>pc_raw := pc_raw c + 1\<rparr>)
         else if use_probe cfg \<and>
             f64_div (f64_of_nat (length chunk)) (f64_of_nat (max (lz4_probe_len Z chunk) 1)) < probe_threshold cfg
         then store_raw chunk c
         else case compress_zstd Z chunk (zstd_level cfg) of
             Err _ \<Rightarrow> store_raw chunk c
           | Ok zstd3 \<Rightarrow>
              if f64_mul (f64_of_nat (length chunk)) (keep_threshold cfg) < f64_of_nat (length zstd3)
              then store_raw chunk c
              else if escalate cfg \<and> phase = Incremental \<and>
                  escalate_ratio cfg \<le> f64_div (f64_of_nat (length chunk)) (f64_of_nat (length zstd3))
              then
                let c' = c\<lparr>pc_escalation_attempts := pc_escalation_attempts c + 1\<rparr>
                in case compress_zstd Z chunk (escalate_level cfg) of
                     Ok zstd9 \<Rightarrow> if length zstd9 < length zstd3 then store_escalated zstd9 c' else store_zstd3 zstd3 c'
                   | Err _ \<Rightarrow> store_zstd3 zstd3 c'
              else store_zstd3 zstd3 c)"

definition encode_chunk :: "codecs \<Rightarrow> bytes \<Rightarrow> phase \<Rightarrow> policy_config \<Rightarrow> policy_counters \<Rightarrow> bytes \<times> policy_counters" where
  "encode_chunk Z chunk phase cfg c =
     (case choose_codec Z chunk phase cfg c of ((codec, payload), c') \<Rightarrow> (frame codec payload, c'))"

section \<open>Exact integers\<close>

lemma pow2_pos [simp]: "0 < pow2 k"
  by (simp add: pow2_def)

lemma pow2_mult: "pow2 (a + b) = pow2 a * pow2 b"
proof -
  have *: "pow2 k = 2 powi k" for k
    by (auto simp: pow2_def power_int_def divide_simps)
  show ?thesis unfolding * by (simp add: power_int_add)
qed

lemma pow2_mono: "a \<le> b \<Longrightarrow> pow2 a \<le> pow2 b"
proof -
  assume "a \<le> b"
  then have "pow2 b = pow2 a * 2 ^ nat (b - a)" using pow2_mult [of a "b - a"] by (simp add: pow2_def [of "b - a"])
  moreover have "pow2 a * 1 \<le> pow2 a * 2 ^ nat (b - a)"
    using less_imp_le [OF pow2_pos [of a]] by (intro mult_left_mono) simp_all
  ultimately show ?thesis by simp
qed

lemma ilog2_le:
  assumes "0 < q"
  shows "pow2 (ilog2 q) \<le> q"
proof -
  obtain n d where nd: "quotient_of q = (n, d)" by force
  have d: "0 < d" using quotient_of_denom_pos [OF nd] .
  have q: "q = of_int n / of_int d" using quotient_of_div [OF nd] .
  then have n: "0 < n" using assms d by (simp add: zero_less_divide_iff)
  have "2 ^ nat (bitlen n - 1) \<le> n" "d < 2 ^ nat (bitlen d)"
    using bitlen_bounds [OF n] bitlen_bounds [OF d] by simp_all
  then have "of_int (2 ^ nat (bitlen n - 1)) \<le> (of_int n :: rat)" "of_int d \<le> (of_int (2 ^ nat (bitlen d)) :: rat)"
    by (simp_all only: of_int_le_iff less_imp_le)
  then have "pow2 (bitlen n - 1) \<le> of_int n" "of_int d \<le> pow2 (bitlen d)"
    using bitlen_ge_iff_power [of n 1] n bitlen_nonneg [of d] by (simp_all add: pow2_def bitlen_def split: if_splits)
  moreover have "pow2 (bitlen n - bitlen d - 1) * pow2 (bitlen d) = pow2 (bitlen n - 1)"
    by (simp flip: pow2_mult)
  ultimately have "pow2 (bitlen n - bitlen d - 1) * of_int d \<le> of_int n"
    using mult_left_mono [of "of_int d" "pow2 (bitlen d)" "pow2 (bitlen n - bitlen d - 1)"] pow2_pos
    by (smt (verit) less_imp_le order_trans)
  then have "pow2 (bitlen n - bitlen d - 1) \<le> q" using d by (simp add: q pos_le_divide_eq)
  then show ?thesis by (simp add: ilog2_def nd Let_def)
qed

lemma round_half_even_le: "q \<le> of_int k \<Longrightarrow> round_half_even q \<le> k"
proof -
  assume q: "q \<le> of_int k"
  show ?thesis
  proof (cases "\<lfloor>q\<rfloor> = k")
    case True
    then have "q = of_int k" using q by linarith
    then show ?thesis by (simp add: round_half_even_def)
  next
    case False
    then have "\<lfloor>q\<rfloor> + 1 \<le> k" using q by linarith
    then show ?thesis by (auto simp: round_half_even_def Let_def)
  qed
qed

lemma round_half_even_int [simp]: "round_half_even (of_int k) = k"
  by (simp add: round_half_even_def)

lemma small_quantum:
  assumes "0 < q" and "q < 2 ^ 53"
  shows "max (ilog2 q - 52) (- 1074) \<le> 0"
proof -
  have "pow2 53 \<le> q" if "53 \<le> ilog2 q"
    using pow2_mono [OF that] ilog2_le [OF assms(1)] by (rule order_trans)
  then have "\<not> 53 \<le> ilog2 q" using assms(2) by (auto simp: pow2_def)
  then show ?thesis by simp
qed

lemma int_over_pow2:
  assumes "u \<le> 0"
  obtains k where "of_nat n / pow2 u = of_int k"
proof
  show "of_nat n / pow2 u = of_int (int n * 2 ^ nat (- u))"
    using assms by (auto simp: pow2_def)
qed

lemma f64_of_nat_exact:
  assumes "n < 2 ^ 53"
  shows "f64_of_nat n = Fin (of_nat n)"
proof (cases "n = 0")
  case False
  let ?u = "max (ilog2 (of_nat n) - 52) (- 1074)"
  have n: "0 < (of_nat n :: rat)" "(of_nat n :: rat) < 2 ^ 53"
    using False of_nat_less_iff [of n "2 ^ 53", where 'a = rat] assms by simp_all
  obtain k where k: "of_nat n / pow2 ?u = of_int k" using int_over_pow2 [OF small_quantum [OF n]] .
  then have "of_int k * pow2 ?u = of_nat n" using pow2_pos [of ?u] by (simp add: field_simps)
  moreover have "(2 :: rat) ^ 53 \<le> pow2 1024" using pow2_mono [of 53 1024] by (simp add: pow2_def)
  ultimately show ?thesis
    using n k by (simp add: f64_of_nat_def f64_round_def round_pos_def Let_def)
qed (simp add: f64_of_nat_def f64_round_def)

lemma round_half_even_nonneg: "0 \<le> q \<Longrightarrow> 0 \<le> round_half_even q"
  by (auto simp: round_half_even_def Let_def)

text \<open>Rounding never crosses an integer below \<open>2 ^ 53\<close>.\<close>

lemma f64_round_le_nat:
  assumes "q \<le> of_nat n" and "n < 2 ^ 53"
  shows "\<exists>x. f64_round q = NegInf \<or> f64_round q = Fin x \<and> x \<le> of_nat n"
proof -
  consider "q = 0" | "q < 0" | "0 < q" by linarith
  then show ?thesis
  proof cases
    case 2
    have "0 \<le> round_half_even (- q / pow2 u)" for u
      using 2 by (intro round_half_even_nonneg) (simp add: divide_nonpos_pos)
    then have "0 \<le> of_int (round_half_even (- q / pow2 u)) * pow2 u" for u
      using less_imp_le [OF pow2_pos [of u]] by simp
    from this [of "max (ilog2 (- q) - 52) (- 1074)"] 2 show ?thesis
      by (simp add: f64_round_def round_pos_def Let_def)
  next
    case 3
    let ?u = "max (ilog2 q - 52) (- 1074)"
    have n53: "(of_nat n :: rat) < 2 ^ 53"
      using of_nat_less_iff [of n "2 ^ 53", where 'a = rat] assms(2) by simp
    then have "?u \<le> 0" using small_quantum [OF 3] assms(1) by simp
    then obtain k where k: "of_nat n / pow2 ?u = of_int k" by (rule int_over_pow2)
    have "q / pow2 ?u \<le> of_int k"
      unfolding k [symmetric] using assms(1) less_imp_le [OF pow2_pos [of ?u]] by (rule divide_right_mono)
    then have "of_int (round_half_even (q / pow2 ?u)) \<le> (of_int k :: rat)"
      using round_half_even_le by simp
    then have "of_int (round_half_even (q / pow2 ?u)) * pow2 ?u \<le> of_int k * pow2 ?u"
      using less_imp_le [OF pow2_pos [of ?u]] by (rule mult_right_mono)
    also have "\<dots> = of_nat n" using k pow2_pos [of ?u] by (simp add: field_simps)
    finally have le: "of_int (round_half_even (q / pow2 ?u)) * pow2 ?u \<le> of_nat n" .
    moreover have "(2 :: rat) ^ 53 \<le> pow2 1024" using pow2_mono [of 53 1024] by (simp add: pow2_def)
    ultimately show ?thesis using 3 n53 by (auto simp: f64_round_def round_pos_def Let_def)
  qed (simp add: f64_round_def)
qed


section \<open>Properties of the policy\<close>

lemma choose_codec_cases:
  obtains (raw) c where "choose_codec Z chunk phase cfg c0 = store_raw chunk c"
      "c = c0\<lparr>pc_bytes_in := pc_bytes_in c0 + word_of_nat (length chunk)\<rparr>"
  | (zstd3) z c a where "choose_codec Z chunk phase cfg c0 = store_zstd3 z c"
      "c = c0\<lparr>pc_bytes_in := pc_bytes_in c0 + word_of_nat (length chunk), pc_escalation_attempts := a\<rparr>"
      "compress_zstd Z chunk (zstd_level cfg) = Ok z"
      "\<not> f64_mul (f64_of_nat (length chunk)) (keep_threshold cfg) < f64_of_nat (length z)"
      "a = pc_escalation_attempts c0 \<or> phase = Incremental \<and> escalate cfg"
  | (escalated) z z9 c where "choose_codec Z chunk phase cfg c0 = store_escalated z9 c"
      "c = c0\<lparr>pc_bytes_in := pc_bytes_in c0 + word_of_nat (length chunk),
              pc_escalation_attempts := pc_escalation_attempts c0 + 1\<rparr>"
      "compress_zstd Z chunk (zstd_level cfg) = Ok z" "compress_zstd Z chunk (escalate_level cfg) = Ok z9"
      "\<not> f64_mul (f64_of_nat (length chunk)) (keep_threshold cfg) < f64_of_nat (length z)"
      "length z9 < length z" "phase = Incremental" "escalate cfg"
proof (cases "chunk = []")
  case True
  then show thesis by (intro raw) (simp_all add: choose_codec_def store_raw_def)
next
  case False
  show thesis
  proof (cases "compress_zstd Z chunk (zstd_level cfg)")
    case (Inl e)
    then show thesis using False by (intro raw) (simp_all add: choose_codec_def Let_def)
  next
    case (Inr z)
    let ?probe = "use_probe cfg \<and>
      f64_div (f64_of_nat (length chunk)) (f64_of_nat (max (lz4_probe_len Z chunk) 1)) < probe_threshold cfg"
    let ?big = "f64_mul (f64_of_nat (length chunk)) (keep_threshold cfg) < f64_of_nat (length z)"
    let ?esc = "escalate cfg \<and> phase = Incremental \<and>
      escalate_ratio cfg \<le> f64_div (f64_of_nat (length chunk)) (f64_of_nat (length z))"
    note ch = choose_codec_def Let_def False Inr
    consider "?probe \<or> ?big" | "\<not> (?probe \<or> ?big)" "\<not> ?esc" | "\<not> (?probe \<or> ?big)" ?esc by blast
    then show thesis
    proof cases
      case 1
      then show thesis by (intro raw) (auto simp: ch)
    next
      case 2
      then show thesis by (intro zstd3 [of z _ "pc_escalation_attempts c0"]) (auto simp: ch)
    next
      case 3
      show thesis
      proof (cases "\<exists>z9. compress_zstd Z chunk (escalate_level cfg) = Ok z9 \<and> length z9 < length z")
        case True
        then obtain z9 where "compress_zstd Z chunk (escalate_level cfg) = Ok z9" "length z9 < length z" by blast
        with 3 show thesis by (intro escalated [of z9 _ z]) (auto simp: ch)
      next
        case no: False
        with 3 show thesis
          by (intro zstd3 [of z _ "pc_escalation_attempts c0 + 1"])
            (auto simp: ch split: sum.split)
      qed
    qed
  qed
qed

lemma decode_frame:
  "decode_chunk Z (frame codec payload) = (case codec of Raw \<Rightarrow> Ok payload | Zstd \<Rightarrow> decompress_zstd Z payload)"
  by (cases codec) (simp_all add: decode_chunk_def frame_def unframe_def codec_to_byte_def codec_from_byte_def)

lemma decompress_compress: "zstd_laws Z \<Longrightarrow> compress_zstd Z d l = Ok z \<Longrightarrow> decompress_zstd Z z = Ok d"
  by (auto simp: zstd_laws_def compress_zstd_def decompress_zstd_def)

lemma decode_encode_chunk:
  assumes "zstd_laws Z"
  shows "decode_chunk Z (fst (encode_chunk Z chunk phase cfg c)) = Ok chunk"
  by (cases rule: choose_codec_cases [of Z chunk phase cfg c])
    (simp_all add: encode_chunk_def decode_frame store_raw_def store_zstd3_def store_escalated_def
      decompress_compress [OF assms])

lemma ilog2_less:
  assumes "0 < q"
  shows "q < pow2 (ilog2 q + 1)"
proof -
  obtain n d where nd: "quotient_of q = (n, d)" by force
  have d: "0 < d" using quotient_of_denom_pos [OF nd] .
  have q: "q = of_int n / of_int d" using quotient_of_div [OF nd] .
  then have n: "0 < n" using assms d by (simp add: zero_less_divide_iff)
  have "n < 2 ^ nat (bitlen n)" "2 ^ nat (bitlen d - 1) \<le> d"
    using bitlen_bounds [OF n] bitlen_bounds [OF d] by simp_all
  then have "(of_int n :: rat) < of_int (2 ^ nat (bitlen n))" "of_int (2 ^ nat (bitlen d - 1)) \<le> (of_int d :: rat)"
    by (simp_all only: of_int_le_iff of_int_less_iff)
  then have nd': "of_int n < pow2 (bitlen n)" "pow2 (bitlen d - 1) \<le> of_int d"
    using bitlen_ge_iff_power [of d 1] d bitlen_nonneg [of n] by (simp_all add: pow2_def bitlen_def split: if_splits)
  have "pow2 (bitlen n - bitlen d + 1) * pow2 (bitlen d - 1) = pow2 (bitlen n)"
    by (simp flip: pow2_mult)
  moreover have "pow2 (bitlen n - bitlen d + 1) * pow2 (bitlen d - 1) \<le> pow2 (bitlen n - bitlen d + 1) * of_int d"
    using nd'(2) less_imp_le [OF pow2_pos] by (rule mult_left_mono)
  ultimately have "of_int n < pow2 (bitlen n - bitlen d + 1) * of_int d" using nd'(1) by simp
  then have "q < pow2 (bitlen n - bitlen d + 1)" using d by (simp add: q pos_divide_less_eq)
  then show ?thesis by (simp add: ilog2_def nd Let_def not_le)
qed

lemma round_half_even_ge: "of_int k \<le> q \<Longrightarrow> k \<le> round_half_even q"
  unfolding round_half_even_def Let_def by (auto simp: le_floor_iff intro: order_trans [of k "\<lfloor>q\<rfloor>"])

lemma f64_of_nat_big:
  assumes "2 ^ 53 \<le> n"
  shows "f64_of_nat n = PosInf \<or> (\<exists>x. f64_of_nat n = Fin x \<and> 2 ^ 53 \<le> x)"
proof -
  let ?q = "of_nat n :: rat"
  have "(2 ^ 53 :: rat) \<le> ?q" using of_nat_le_iff [of "2 ^ 53" n, where 'a = rat] assms by simp
  then have q: "pow2 53 \<le> ?q" "0 < ?q" by (simp_all add: pow2_def)
  have "\<not> ilog2 ?q + 1 \<le> 53" using ilog2_less [OF q(2)] q(1) pow2_mono [of "ilog2 ?q + 1" 53] by auto
  then have u: "max (ilog2 ?q - 52) (- 1074) = ilog2 ?q - 52" and e: "53 \<le> ilog2 ?q" by simp_all
  have split: "of_int (2 ^ 52) * pow2 (ilog2 ?q - 52) = pow2 (ilog2 ?q)"
    using pow2_mult [of 52 "ilog2 ?q - 52"] by (simp add: pow2_def [of 52])
  then have "of_int (2 ^ 52) \<le> ?q / pow2 (ilog2 ?q - 52)"
    using ilog2_le [OF q(2)] by (simp add: pos_le_divide_eq)
  from round_half_even_ge [OF this]
  have r: "(of_int (2 ^ 52) :: rat) \<le> of_int (round_half_even (?q / pow2 (ilog2 ?q - 52)))"
    by (simp only: of_int_le_iff)
  have "(2 ^ 53 :: rat) \<le> pow2 (ilog2 ?q)" using pow2_mono [OF e] by (simp add: pow2_def [of 53])
  also have "\<dots> \<le> of_int (round_half_even (?q / pow2 (ilog2 ?q - 52))) * pow2 (ilog2 ?q - 52)"
    unfolding split [symmetric] using r less_imp_le [OF pow2_pos] by (rule mult_right_mono)
  finally show ?thesis using q(2) by (simp add: f64_of_nat_def f64_round_def round_pos_def u Let_def)
qed

lemma kept_not_longer:
  assumes "\<not> f64_mul (f64_of_nat n) (Fin t) < f64_of_nat m" and "t \<le> 1" and "n < 2 ^ 53"
  shows "m \<le> n"
proof -
  have "of_nat n * t \<le> of_nat n" using assms(2) by (simp add: mult_left_le)
  then have prod: "\<exists>x. f64_mul (f64_of_nat n) (Fin t) = NegInf \<or> f64_mul (f64_of_nat n) (Fin t) = Fin x \<and> x \<le> of_nat n"
    using f64_round_le_nat [OF _ assms(3)] by (simp add: f64_of_nat_exact [OF assms(3)])
  show ?thesis
  proof (cases "m < 2 ^ 53")
    case True
    then show ?thesis using prod assms(1) by (auto simp: f64_of_nat_exact)
  next
    case False
    have "(of_nat n :: rat) < 2 ^ 53" using of_nat_less_iff [of n "2 ^ 53", where 'a = rat] assms(3) by simp
    then show ?thesis using prod assms(1) f64_of_nat_big [of m] False by auto
  qed
qed

text \<open>C16: Compression loses nothing: whatever the policy decides, decoding the framed payload gives the
  chunk back.\<close>

theorem compression_roundtrip:
  assumes "zstd_laws Z"
  shows "decode_chunk Z (fst (encode_chunk Z chunk phase cfg c)) = Ok chunk"
  by (rule decode_encode_chunk [OF assms])

text \<open>The counters account for every chunk: exactly one of raw, zstd3 and escalated grows, the bytes
  in and out grow by the chunk and the stored payload, a raw chunk is stored unchanged, and in the
  initial full backup, or with escalation configured off, no escalation is even attempted.\<close>

theorem choose_codec_accounting:
  assumes "choose_codec Z chunk phase cfg c = ((codec, payload), c')"
  shows "(pc_raw c', pc_zstd3 c', pc_escalated c') \<in>
      {(pc_raw c + 1, pc_zstd3 c, pc_escalated c), (pc_raw c, pc_zstd3 c + 1, pc_escalated c),
       (pc_raw c, pc_zstd3 c, pc_escalated c + 1)} \<and>
    counters_total c' = counters_total c + 1 \<and>
    pc_bytes_in c' = pc_bytes_in c + word_of_nat (length chunk) \<and>
    pc_bytes_out c' = pc_bytes_out c + word_of_nat (length payload) \<and>
    (codec = Raw \<longleftrightarrow> pc_raw c' \<noteq> pc_raw c) \<and> (codec = Raw \<longrightarrow> payload = chunk) \<and>
    (phase = InitialFull \<or> \<not> escalate cfg \<longrightarrow>
       pc_escalation_attempts c' = pc_escalation_attempts c \<and> pc_escalated c' = pc_escalated c)"
  using assms
  by (cases rule: choose_codec_cases [of Z chunk phase cfg c])
    (auto simp: store_raw_def store_zstd3_def store_escalated_def counters_total_def)

text \<open>The stored payload is never longer than the chunk when the keep threshold is at most one: the
  double-precision comparison with its roundings implies the exact one for chunks below \<open>2 ^ 53\<close> bytes.\<close>

theorem choose_codec_never_grows:
  assumes "choose_codec Z chunk phase cfg c = ((codec, payload), c')"
    and "keep_threshold cfg = Fin t" and "t \<le> 1" and "length chunk < 2 ^ 53"
  shows "length payload \<le> length chunk"
  using assms(1) kept_not_longer [OF _ assms(3,4)]
  by (cases rule: choose_codec_cases [of Z chunk phase cfg c])
    (fastforce simp: store_raw_def store_zstd3_def store_escalated_def assms(2))+

section \<open>Witnesses\<close>

text \<open>A compressor that knows one chunk.\<close>

definition run_codec :: codecs where
  "run_codec = \<lparr>zstd_encode_all = (\<lambda>d l. if d = replicate 8 7 then Inr [1] else Inr (0 # d)),
     zstd_decode_all = (\<lambda>c. case c of [] \<Rightarrow> Inl ''empty'' | b # d \<Rightarrow> if b = 1 then Inr (replicate 8 7) else Inr d),
     lz4_compress = id\<rparr>"

lemma run_codec_laws: "zstd_laws run_codec"
  by (auto simp: zstd_laws_def run_codec_def split: if_splits)

definition zero_counters :: policy_counters where
  "zero_counters = \<lparr>pc_raw = 0, pc_zstd3 = 0, pc_escalated = 0, pc_escalation_attempts = 0, pc_bytes_in = 0, pc_bytes_out = 0\<rparr>"

definition half_config :: policy_config where "half_config = policy_config_default\<lparr>keep_threshold := Fin (1 / 2)\<rparr>"

lemma run_choice:
  "choose_codec run_codec (replicate 8 7) InitialFull half_config zero_counters =
     ((Zstd, [1]), zero_counters\<lparr>pc_zstd3 := 1, pc_bytes_in := 8, pc_bytes_out := 1\<rparr>)"
proof -
  have f: "f64_of_nat 8 = Fin 8" "f64_of_nat 1 = Fin 1" "f64_round 4 = Fin 4"
    using f64_of_nat_exact [of 8] f64_of_nat_exact [of 1] f64_of_nat_exact [of 4] by (simp_all add: f64_of_nat_def)
  have "compress_zstd run_codec (replicate 8 7) l = Ok [1]" for l by (simp add: compress_zstd_def run_codec_def)
  then show ?thesis
    using f by (simp add: choose_codec_def half_config_def policy_config_default_def zero_counters_def
        store_zstd3_def)
qed

theorem compression_roundtrip_witness:
  "decode_chunk run_codec (fst (encode_chunk run_codec (replicate 8 7) InitialFull half_config zero_counters)) =
     Ok (replicate 8 7)"
  by (rule compression_roundtrip [OF run_codec_laws])

theorem choose_codec_accounting_witness:
  "counters_total (zero_counters\<lparr>pc_zstd3 := 1, pc_bytes_in := 8, pc_bytes_out := 1\<rparr>) = counters_total zero_counters + 1"
  using choose_codec_accounting [OF run_choice] by blast

theorem choose_codec_never_grows_witness: "length [1 :: byte] \<le> length (replicate 8 (7 :: byte))"
  by (rule choose_codec_never_grows [OF run_choice, of "1 / 2"]) (simp_all add: half_config_def)

end
