(* ===== verification/F64_Arith.thy ===== *)
theory F64_Arith
  imports Compression
begin

text \<open>
  More of double arithmetic, on the numbers of \<open>Compression\<close>: addition, \<open>min\<close>, \<open>max\<close> and \<open>clamp\<close> with their treatment
  of NaN, \<open>round\<close>, the saturating conversion \<open>as u64\<close>, and the conversions between \<open>Duration\<close> and seconds. The lemmas
  are the two facts about rounding that the projections and the scheduler rest on: it is monotone, and it does not
  move a number that is already a double.
\<close>

section \<open>Operations\<close>

fun f64_add :: "f64 \<Rightarrow> f64 \<Rightarrow> f64" where
  "f64_add (Fin a) (Fin b) = f64_round (a + b)"
| "f64_add NaN _ = NaN"
| "f64_add _ NaN = NaN"
| "f64_add PosInf NegInf = NaN"
| "f64_add NegInf PosInf = NaN"
| "f64_add PosInf _ = PosInf"
| "f64_add NegInf _ = NegInf"
| "f64_add _ PosInf = PosInf"
| "f64_add _ NegInf = NegInf"

definition is_finite :: "f64 \<Rightarrow> bool" where
  "is_finite x = (case x of Fin _ \<Rightarrow> True | _ \<Rightarrow> False)"

text \<open>\<open>f64::max\<close> and \<open>f64::min\<close> return the other operand when one is NaN.\<close>

definition f64_max :: "f64 \<Rightarrow> f64 \<Rightarrow> f64" where
  "f64_max x y = (if x = NaN then y else if y = NaN then x else if x < y then y else x)"

definition f64_min :: "f64 \<Rightarrow> f64 \<Rightarrow> f64" where
  "f64_min x y = (if x = NaN then y else if y = NaN then x else if y < x then y else x)"

definition f64_clamp :: "f64 \<Rightarrow> f64 \<Rightarrow> f64 \<Rightarrow> f64" where
  "f64_clamp x lo hi = (if x < lo then lo else if hi < x then hi else x)"

text \<open>\<open>round\<close>, half away from zero, followed by the saturating \<open>as u64\<close>.\<close>

definition round_half_away :: "rat \<Rightarrow> int" where
  "round_half_away q = (if 0 \<le> q then \<lfloor>q + 1 / 2\<rfloor> else \<lceil>q - 1 / 2\<rceil>)"

definition f64_round_u64 :: "f64 \<Rightarrow> u64" where
  "f64_round_u64 x = (case x of
      NaN \<Rightarrow> 0 | NegInf \<Rightarrow> 0 | PosInf \<Rightarrow> - 1
    | Fin q \<Rightarrow> word_of_int (max 0 (min (2 ^ 64 - 1) (round_half_away q))))"

text \<open>\<open>Duration::as_secs_f64\<close>, and \<open>Duration::from_secs_f64\<close>, which panics (\<open>None\<close>) on a negative, non-finite or too large
  argument and otherwise rounds to the nearest nanosecond.\<close>

definition as_secs_f64 :: "duration \<Rightarrow> f64" where
  "as_secs_f64 d = f64_add (f64_of_nat (d div 10 ^ 9)) (f64_div (f64_of_nat (d mod 10 ^ 9)) (Fin (10 ^ 9)))"

definition from_secs_f64 :: "f64 \<Rightarrow> duration option" where
  "from_secs_f64 x = (case x of
      Fin q \<Rightarrow> (let n = round_half_even (q * 10 ^ 9)
                in if q < 0 \<or> 2 ^ 64 * 10 ^ 9 \<le> n then None else Some (nat n))
    | _ \<Rightarrow> None)"

section \<open>Comparison\<close>

lemma f64_le_simps [simp]:
  "Fin a \<le> Fin b \<longleftrightarrow> a \<le> b" "x \<le> PosInf \<longleftrightarrow> x \<noteq> NaN" "NegInf \<le> x \<longleftrightarrow> x \<noteq> NaN"
  "\<not> NaN \<le> x" "\<not> x \<le> NaN" "\<not> PosInf \<le> Fin a" "\<not> Fin a \<le> NegInf"
  by (auto simp: less_eq_f64_def; cases x; simp)+

lemma f64_le_refl [simp]: "x \<le> x \<longleftrightarrow> x \<noteq> (NaN :: f64)"
  by (cases x) (simp_all add: less_eq_f64_def)

lemma f64_le_trans: "x \<le> y \<Longrightarrow> y \<le> z \<Longrightarrow> x \<le> (z :: f64)"
  by (cases x; cases y; cases z) (auto simp: less_eq_f64_def)

lemma f64_not_less: "x \<noteq> NaN \<Longrightarrow> y \<noteq> NaN \<Longrightarrow> \<not> x < y \<longleftrightarrow> y \<le> (x :: f64)"
  by (cases x; cases y) (auto simp: less_eq_f64_def)

lemma f64_max_ge: "x \<noteq> NaN \<Longrightarrow> x \<le> f64_max x y" "y \<noteq> NaN \<Longrightarrow> y \<le> f64_max x y"
  by (cases x; cases y; auto simp: f64_max_def less_eq_f64_def)+

lemma f64_max_mono: "x \<le> x' \<Longrightarrow> y \<le> y' \<Longrightarrow> f64_max x y \<le> f64_max x' y'"
  by (cases x; cases x'; cases y; cases y') (auto simp: f64_max_def less_eq_f64_def)

section \<open>Rounding is monotone\<close>

lemma pow2_sign [simp]: "pow2 k \<noteq> 0" "0 \<le> pow2 k" "\<not> pow2 k \<le> 0"
  using pow2_pos [of k] by (simp_all only: order_less_imp_not_eq2 less_imp_le not_le simp_thms)

lemma f64_round_0 [simp]: "f64_round 0 = Fin 0"
  by (simp add: f64_round_def)

lemma round_half_even_mono: "q \<le> r \<Longrightarrow> round_half_even q \<le> round_half_even r"
proof (cases "\<lfloor>q\<rfloor> = \<lfloor>r\<rfloor>")
  case True
  assume "q \<le> r"
  then show ?thesis using True by (auto simp: round_half_even_def Let_def)
next
  case False
  assume "q \<le> r"
  then have "\<lfloor>q\<rfloor> + 1 \<le> \<lfloor>r\<rfloor>" using False floor_mono [of q r] by linarith
  moreover have "round_half_even q \<le> \<lfloor>q\<rfloor> + 1" by (auto simp: round_half_even_def Let_def)
  moreover have "\<lfloor>r\<rfloor> \<le> round_half_even r" by (auto simp: round_half_even_def Let_def)
  ultimately show ?thesis by linarith
qed

definition ulp_exp :: "rat \<Rightarrow> int" where "ulp_exp q = max (ilog2 q - 52) (- 1074)"

definition rnd :: "rat \<Rightarrow> rat" where
  "rnd q = of_int (round_half_even (q / pow2 (ulp_exp q))) * pow2 (ulp_exp q)"

lemma round_pos_rnd: "round_pos q = (if pow2 1024 \<le> rnd q then PosInf else Fin (rnd q))"
  by (simp add: round_pos_def rnd_def ulp_exp_def Let_def)

lemma ilog2_mono: "0 < q \<Longrightarrow> q \<le> r \<Longrightarrow> ilog2 q \<le> ilog2 r"
proof (rule ccontr)
  assume a: "0 < q" "q \<le> r" "\<not> ilog2 q \<le> ilog2 r"
  then have "pow2 (ilog2 r + 1) \<le> pow2 (ilog2 q)" by (intro pow2_mono) simp
  also have "\<dots> \<le> q" using a by (intro ilog2_le)
  finally show False using a ilog2_less [of r] by simp
qed

lemma pow2_quotient: "b \<le> a \<Longrightarrow> pow2 a / pow2 b = of_int (2 ^ nat (a - b))"
proof -
  assume "b \<le> a"
  then have "pow2 a = pow2 b * of_int (2 ^ nat (a - b))"
    using pow2_mult [of b "a - b"] by (simp add: pow2_def [of "a - b"])
  then show ?thesis by (simp add: field_simps)
qed

text \<open>A number on one side of a power of two that both grids contain stays on that side.\<close>

lemma rnd_le_pow2: "q \<le> pow2 e \<Longrightarrow> ulp_exp q \<le> e \<Longrightarrow> rnd q \<le> pow2 e"
proof -
  assume a: "q \<le> pow2 e" "ulp_exp q \<le> e"
  let ?u = "pow2 (ulp_exp q)"
  have "q / ?u \<le> of_int (2 ^ nat (e - ulp_exp q))"
    unfolding pow2_quotient [OF a(2), symmetric] using a(1) less_imp_le [OF pow2_pos] by (rule divide_right_mono)
  from round_half_even_le [OF this] have "of_int (round_half_even (q / ?u)) \<le> pow2 e / ?u"
    unfolding pow2_quotient [OF a(2)] by (simp only: of_int_le_iff)
  then show ?thesis unfolding rnd_def using pow2_pos [of "ulp_exp q"] by (simp add: pos_le_divide_eq)
qed

lemma rnd_ge_pow2: "pow2 e \<le> q \<Longrightarrow> ulp_exp q \<le> e \<Longrightarrow> pow2 e \<le> rnd q"
proof -
  assume a: "pow2 e \<le> q" "ulp_exp q \<le> e"
  let ?u = "pow2 (ulp_exp q)"
  have "of_int (2 ^ nat (e - ulp_exp q)) \<le> q / ?u"
    unfolding pow2_quotient [OF a(2), symmetric] using a(1) less_imp_le [OF pow2_pos] by (rule divide_right_mono)
  from round_half_even_ge [OF this] have "pow2 e / ?u \<le> of_int (round_half_even (q / ?u))"
    unfolding pow2_quotient [OF a(2)] by (simp only: of_int_le_iff)
  then show ?thesis unfolding rnd_def using pow2_pos [of "ulp_exp q"] by (simp add: pos_divide_le_eq)
qed

lemma rnd_mono: "0 < q \<Longrightarrow> q \<le> r \<Longrightarrow> rnd q \<le> rnd r"
proof (cases "ulp_exp q = ulp_exp r")
  case True
  assume "0 < q" "q \<le> r"
  then have "q / pow2 (ulp_exp q) \<le> r / pow2 (ulp_exp q)" using less_imp_le [OF pow2_pos] by (intro divide_right_mono)
  from round_half_even_mono [OF this] show ?thesis
    unfolding rnd_def True [symmetric] using less_imp_le [OF pow2_pos [of "ulp_exp q"]]
    by (intro mult_right_mono) simp_all
next
  case False
  assume a: "0 < q" "q \<le> r"
  have e: "ilog2 q < ilog2 r" and u: "ulp_exp r = ilog2 r - 52" "ulp_exp q \<le> ilog2 r"
    using ilog2_mono [OF a] False by (auto simp: ulp_exp_def max_def split: if_splits)
  have "pow2 (ilog2 q + 1) \<le> pow2 (ilog2 r)" using e by (intro pow2_mono) simp
  then have "q \<le> pow2 (ilog2 r)" using ilog2_less [OF a(1)] by simp
  then have "rnd q \<le> pow2 (ilog2 r)" using u(2) by (rule rnd_le_pow2)
  also have "\<dots> \<le> rnd r" using ilog2_le [of r] a u(1) by (intro rnd_ge_pow2) simp_all
  finally show ?thesis .
qed

lemma rnd_nonneg: "0 \<le> q \<Longrightarrow> 0 \<le> rnd q"
  unfolding rnd_def using less_imp_le [OF pow2_pos [of "ulp_exp q"]]
  by (intro mult_nonneg_nonneg) (simp_all add: round_half_even_nonneg)

lemma f64_round_pos: "0 \<le> q \<Longrightarrow> f64_round q = (if pow2 1024 \<le> rnd q then PosInf else Fin (rnd q))"
proof (cases "q = 0")
  case True
  then show ?thesis using pow2_pos [of 1024] by (simp add: f64_round_def rnd_def round_half_even_def)
qed (simp add: f64_round_def round_pos_rnd)

lemma f64_round_neg: "q < 0 \<Longrightarrow> f64_round q = (if pow2 1024 \<le> rnd (- q) then NegInf else Fin (- rnd (- q)))"
  by (simp add: f64_round_def round_pos_rnd)

lemma f64_round_not_NaN [simp]: "f64_round q \<noteq> NaN"
  by (cases "0 \<le> q") (simp_all add: f64_round_pos f64_round_neg)

lemma f64_round_mono: "q \<le> r \<Longrightarrow> f64_round q \<le> f64_round r"
proof -
  assume qr: "q \<le> r"
  consider "0 < q" | "q = 0" | "q < 0" "0 \<le> r" | "q < 0" "r < 0" using qr by linarith
  then show ?thesis
  proof cases
    case 1
    then show ?thesis using qr rnd_mono [OF 1 qr] by (auto simp: f64_round_pos)
  next
    case 2
    then show ?thesis using qr rnd_nonneg [of r] f64_round_pos [of r] by simp
  next
    case 3
    then show ?thesis using rnd_nonneg [of r] rnd_nonneg [of "- q"] by (auto simp: f64_round_pos f64_round_neg)
  next
    case 4
    then show ?thesis using qr rnd_mono [of "- r" "- q"] by (auto simp: f64_round_neg)
  qed
qed

lemma f64_round_nonneg: "0 \<le> q \<Longrightarrow> Fin 0 \<le> f64_round q"
  using f64_round_mono [of 0 q] by (simp add: f64_round_def [of 0])

section \<open>Rounding keeps doubles\<close>

definition is_double :: "rat \<Rightarrow> bool" where "is_double q \<longleftrightarrow> f64_round q = Fin q"

lemma rnd_exact:
  assumes "0 < k" and "k \<le> 2 ^ 53" and "- 1074 \<le> u"
  shows "rnd (of_int k * pow2 u) = of_int k * pow2 u"
proof -
  let ?v = "of_int k * pow2 u"
  have v: "0 < ?v" using assms pow2_pos by simp
  have grid: "rnd ?v = ?v" if "ulp_exp ?v \<le> u"
  proof -
    have "?v / pow2 (ulp_exp ?v) = of_int (k * 2 ^ nat (u - ulp_exp ?v))"
      using pow2_quotient [OF that] by (simp only: times_divide_eq_right [symmetric] of_int_mult)
    then show ?thesis unfolding rnd_def
      by (simp only: round_half_even_int) (metis nonzero_eq_divide_eq pow2_pos less_irrefl)
  qed
  show ?thesis
  proof (cases "k = 2 ^ 53")
    case True
    then have "?v = pow2 (u + 53)" using pow2_mult [of u 53] by (simp add: pow2_def [of 53])
    moreover have "ulp_exp (pow2 (u + 53)) \<le> u + 53"
    proof -
      have "\<not> u + 53 < ilog2 (pow2 (u + 53))"
      proof
        assume "u + 53 < ilog2 (pow2 (u + 53))"
        then have "pow2 (u + 54) \<le> pow2 (ilog2 (pow2 (u + 53)))" by (intro pow2_mono) simp
        also have "\<dots> \<le> pow2 (u + 53)" by (intro ilog2_le) simp
        finally have "2 * pow2 (u + 53) \<le> pow2 (u + 53)" using pow2_mult [of 1 "u + 53"]
          by (simp add: pow2_def [of 1] add.commute)
        then show False by simp
      qed
      then show ?thesis using assms(3) by (simp add: ulp_exp_def)
    qed
    ultimately show ?thesis using rnd_le_pow2 [of ?v "u + 53"] rnd_ge_pow2 [of "u + 53" ?v] by simp
  next
    case False
    then have "?v < of_int (2 ^ 53) * pow2 u"
      using assms pow2_pos [of u] by (intro mult_strict_right_mono) (simp_all only: of_int_less_iff)
    also have "\<dots> = pow2 (u + 53)" using pow2_mult [of u 53] by (simp add: pow2_def [of 53])
    finally have "?v < pow2 (u + 53)" .
    then have "\<not> u + 53 \<le> ilog2 ?v" using ilog2_le [OF v] pow2_mono [of "u + 53" "ilog2 ?v"] by auto
    then show ?thesis using assms(3) by (intro grid) (simp add: ulp_exp_def)
  qed
qed

lemma rnd_idem: "0 < q \<Longrightarrow> rnd (rnd q) = rnd q"
proof -
  assume q: "0 < q"
  let ?u = "ulp_exp q" and ?k = "round_half_even (q / pow2 (ulp_exp q))"
  have "pow2 (ilog2 q + 1) \<le> pow2 (53 + ?u)" by (intro pow2_mono) (simp add: ulp_exp_def)
  then have "q / pow2 ?u \<le> of_int (2 ^ 53)"
    using ilog2_less [OF q] pow2_mult [of 53 ?u] pow2_pos [of ?u] by (simp add: pos_divide_le_eq pow2_def [of 53])
  then have k: "?k \<le> 2 ^ 53" by (rule round_half_even_le)
  have "0 \<le> ?k" using q pow2_pos [of ?u] by (intro round_half_even_nonneg) simp
  then consider "?k = 0" | "0 < ?k" by linarith
  then show ?thesis
  proof cases
    case 1
    then show ?thesis by (simp add: rnd_def round_half_even_def)
  next
    case 2
    then show ?thesis using rnd_exact [OF 2 k, of ?u] by (simp add: rnd_def ulp_exp_def)
  qed
qed

lemma f64_round_double: "f64_round q = Fin x \<Longrightarrow> is_double x"
proof -
  assume r: "f64_round q = Fin x"
  consider "0 < q" | "q = 0" | "q < 0" by linarith
  then show ?thesis
  proof cases
    case 1
    then have "x = rnd q" "\<not> pow2 1024 \<le> rnd q" using r by (simp_all add: f64_round_pos split: if_splits)
    then show ?thesis using rnd_idem [OF 1] rnd_nonneg [of q] 1 by (simp add: is_double_def f64_round_pos)
  next
    case 2
    then show ?thesis using r by (simp add: is_double_def f64_round_def)
  next
    case 3
    then have x: "x = - rnd (- q)" "\<not> pow2 1024 \<le> rnd (- q)" using r by (simp_all add: f64_round_neg split: if_splits)
    then show ?thesis
    proof (cases "rnd (- q) = 0")
      case False
      then have "x < 0" using x(1) rnd_nonneg [of "- q"] 3 by simp
      then show ?thesis using rnd_idem [of "- q"] 3 x by (simp add: is_double_def f64_round_neg)
    qed (simp add: is_double_def f64_round_def)
  qed
qed

lemma f64_round_ge_double: "is_double x \<Longrightarrow> x \<le> q \<Longrightarrow> Fin x \<le> f64_round q"
  using f64_round_mono [of x q] by (simp add: is_double_def)

lemma f64_round_le_double: "is_double x \<Longrightarrow> q \<le> x \<Longrightarrow> f64_round q \<le> Fin x"
  using f64_round_mono [of q x] by (simp add: is_double_def)

section \<open>Integers and durations\<close>

lemma f64_of_nat_pos: "0 < n \<Longrightarrow> Fin 0 < f64_of_nat n"
proof (cases "n < 2 ^ 53")
  case True
  assume "0 < n"
  then show ?thesis using f64_of_nat_exact [OF True] by simp
next
  case False
  then consider "f64_of_nat n = PosInf" | x where "f64_of_nat n = Fin x" "2 ^ 53 \<le> x"
    using f64_of_nat_big [of n] by (meson not_less)
  then show ?thesis by cases (simp_all add: less_le_trans [of 0 "2 ^ 53"])
qed

lemma f64_of_nat_cases: "f64_of_nat n = PosInf \<or> (\<exists>x \<ge> 0. f64_of_nat n = Fin x)"
  using f64_round_nonneg [of "of_nat n"] by (cases "f64_of_nat n") (auto simp: f64_of_nat_def)

lemma f64_mul_PosInf: "0 < n \<Longrightarrow> f64_mul (f64_of_nat n) PosInf = PosInf"
  using f64_of_nat_pos [of n] f64_of_nat_cases [of n] by (auto split: if_splits)

lemma is_double_pow2: "- 1074 \<le> e \<Longrightarrow> e < 1024 \<Longrightarrow> is_double (pow2 e)"
proof -
  assume e: "- 1074 \<le> e" "e < 1024"
  have "pow2 (e + 1) \<le> pow2 1024" using e by (intro pow2_mono) simp
  moreover have "pow2 e < pow2 (e + 1)" using pow2_mult [of e 1] by (simp add: pow2_def [of 1])
  ultimately have "\<not> pow2 1024 \<le> pow2 e" by simp
  then show ?thesis using rnd_exact [of 1 e] e by (simp add: is_double_def f64_round_pos)
qed

lemma f64_round_pow2_bound:
  assumes "0 \<le> q" and "q \<le> pow2 e" and "- 1074 \<le> e" and "e < 1024"
  obtains x where "f64_round q = Fin x" and "0 \<le> x" and "x \<le> pow2 e"
  using f64_round_le_double [OF is_double_pow2 [OF assms(3,4)] assms(2)] f64_round_nonneg [OF assms(1)]
  by (cases "f64_round q") auto

lemma as_secs_bound:
  assumes "d < 2 ^ n * 10 ^ 9" and "n \<le> 1000"
  obtains x where "as_secs_f64 d = Fin x" and "0 \<le> x" and "x \<le> pow2 (int n + 1)"
proof -
  have "d div 10 ^ 9 \<le> 2 ^ n" "d mod 10 ^ 9 \<le> 10 ^ 9"
    using assms less_mult_imp_div_less [of d "2 ^ n" "10 ^ 9"] by (simp_all add: less_imp_le)
  then have le: "(of_nat (d div 10 ^ 9) :: rat) \<le> of_nat (2 ^ n)" "(of_nat (d mod 10 ^ 9) :: rat) \<le> of_nat (10 ^ 9)"
    by (simp_all only: of_nat_le_iff)
  have pn: "pow2 (int n) = 2 ^ n" by (simp add: pow2_def)
  obtain s where s: "f64_of_nat (d div 10 ^ 9) = Fin s" "0 \<le> s" "s \<le> pow2 (int n)"
    using f64_round_pow2_bound [of "of_nat (d div 10 ^ 9)" "int n"] le(1) assms(2) by (auto simp: f64_of_nat_def pn)
  have "d mod 10 ^ 9 < 2 ^ 53" by (rule less_le_trans [OF mod_less_divisor]) simp_all
  then have m: "f64_of_nat (d mod 10 ^ 9) = Fin (of_nat (d mod 10 ^ 9))" by (rule f64_of_nat_exact)
  obtain f where f: "f64_div (f64_of_nat (d mod 10 ^ 9)) (Fin (10 ^ 9)) = Fin f" "0 \<le> f" "f \<le> pow2 0"
    using f64_round_pow2_bound [of "of_nat (d mod 10 ^ 9) / 10 ^ 9" 0] le(2)
    unfolding m by (auto simp: pow2_def [of 0])
  have "pow2 0 \<le> pow2 (int n)" by (intro pow2_mono) simp
  then have "s + f \<le> pow2 (int n + 1)" using s(3) f(3) pow2_mult [of "int n" 1] by (simp add: pow2_def [of 1])
  then obtain x where "f64_round (s + f) = Fin x" "0 \<le> x" "x \<le> pow2 (int n + 1)"
    using f64_round_pow2_bound [of "s + f" "int n + 1"] s f assms(2) by auto
  then show thesis using that s(1) f(1) by (simp add: as_secs_f64_def)
qed

lemma from_secs_total:
  assumes "0 \<le> q" and "q \<le> pow2 63"
  shows "\<exists>d. from_secs_f64 (Fin q) = Some d"
proof -
  have "q * 10 ^ 9 \<le> pow2 63 * 10 ^ 9" using assms(2) by (rule mult_right_mono) simp
  then have "q * 10 ^ 9 \<le> of_int (2 ^ 63 * 10 ^ 9)" by (simp add: pow2_def)
  from round_half_even_le [OF this] have "round_half_even (q * 10 ^ 9) < 2 ^ 64 * 10 ^ 9" by simp
  then show ?thesis using assms(1) by (simp add: from_secs_f64_def Let_def)
qed

section \<open>Evaluation\<close>

lemma ilog2_eqI: "pow2 e \<le> q \<Longrightarrow> q < pow2 (e + 1) \<Longrightarrow> ilog2 q = e"
proof -
  assume a: "pow2 e \<le> q" "q < pow2 (e + 1)"
  have q: "0 < q" using pow2_pos [of e] a(1) by (rule less_le_trans)
  have "\<not> e + 1 \<le> ilog2 q" using ilog2_le [OF q] a(2) pow2_mono [of "e + 1" "ilog2 q"] by auto
  moreover have "\<not> ilog2 q + 1 \<le> e" using ilog2_less [OF q] a(1) pow2_mono [of "ilog2 q + 1" e] by auto
  ultimately show ?thesis by linarith
qed

lemma round_half_even_eqI: "\<bar>q - of_int k\<bar> < 1 / 2 \<Longrightarrow> round_half_even q = k"
proof (cases "of_int k \<le> q")
  case True
  assume a: "\<bar>q - of_int k\<bar> < 1 / 2"
  then have "\<lfloor>q\<rfloor> = k" using True by (intro floor_unique) linarith+
  then show ?thesis using a True by (simp add: round_half_even_def)
next
  case False
  assume a: "\<bar>q - of_int k\<bar> < 1 / 2"
  then have "of_int k - 1 \<le> q" "q < of_int k" using False by linarith+
  then have f: "\<lfloor>q\<rfloor> = k - 1" by (intro floor_unique) simp_all
  have "1 / 2 < q - of_int (k - 1)" using a False by simp
  then show ?thesis using f by (simp add: round_half_even_def Let_def)
qed

lemma f64_round_eqI:
  assumes "pow2 e \<le> q" and "q < pow2 (e + 1)" and "- 1022 \<le> e" and "e \<le> 1022"
    and "\<bar>q / pow2 (e - 52) - of_int k\<bar> < 1 / 2"
  shows "f64_round q = Fin (of_int k * pow2 (e - 52))"
proof -
  have q: "0 < q" using pow2_pos [of e] assms(1) by (rule less_le_trans)
  have u: "ulp_exp q = e - 52" using ilog2_eqI [OF assms(1,2)] assms(3) by (simp add: ulp_exp_def)
  then have r: "rnd q = of_int k * pow2 (e - 52)" using round_half_even_eqI [OF assms(5)] by (simp add: rnd_def)
  have "rnd q \<le> pow2 (e + 1)" using assms(2) u by (intro rnd_le_pow2) simp_all
  also have "\<dots> < pow2 (e + 1 + 1)" using pow2_mult [of "e + 1" 1] by (simp add: pow2_def [of 1])
  also have "\<dots> \<le> pow2 1024" using assms(4) by (intro pow2_mono) simp
  finally show ?thesis using q r by (simp add: f64_round_pos)
qed

end
