(* ===== verification/Backup.thy ===== *)
theory Backup
  imports Client_State Compression
begin

text \<open>
  The backup pipeline, \<open>crates/busyncr-client/src/backup.rs\<close>: walking the folder trees, streaming each file
  through the chunker, deduplicating and uploading in batches, and storing the sealed manifest.

  \<^item> The daemon is reached through the generated client stub: a record of the six calls over a server state
    \<open>'s\<close>. A call returns a status or its result, and the new server state.
  \<^item> A folder tree is an \<open>fnode\<close>; a path is its list of components. What opening a path yields (its metadata and
    a reader \<open>'f\<close>, or a failure) is the function \<open>b_open\<close>; the chunker's stream over a reader is \<open>b_cdc\<close>.
  \<^item> The calls of \<open>on_progress\<close> are the log \<open>bk_log\<close>, with the flag of the last one. The totals it is also given
    are display only and not represented.
\<close>

section \<open>The daemon seen by the client\<close>

record 's stub =
  list_snapshots_call :: "'s \<Rightarrow> (grpc_code + bytes list) \<times> 's"
  has_chunks_call :: "bytes list \<Rightarrow> 's \<Rightarrow> (grpc_code + bytes list) \<times> 's"
  upload_chunks_call :: "chunk_blob list \<Rightarrow> 's \<Rightarrow> (grpc_code + u64 \<times> u64) \<times> 's"
  put_manifest_call :: "bytes \<Rightarrow> bytes \<Rightarrow> bytes list \<Rightarrow> 's \<Rightarrow> (grpc_code + unit) \<times> 's"
  get_manifest_call :: "bytes \<Rightarrow> 's \<Rightarrow> (grpc_code + bytes) \<times> 's"
  get_chunks_call :: "bytes list \<Rightarrow> 's \<Rightarrow> (grpc_code + (grpc_code + chunk_blob) list) \<times> 's"

section \<open>Data\<close>

definition BATCH_MAX_CHUNKS :: nat where "BATCH_MAX_CHUNKS = 64"
definition BATCH_MAX_BYTES :: nat where "BATCH_MAX_BYTES = 32 * 1024 * 1024"

type_synonym fpath = "bytes list"

datatype fnode = RegFile | Directory "(bytes \<times> fnode) list" | OtherNode

datatype bk_site = BkReadDir fpath | BkFileType fpath

datatype backup_error =
    BkIo fpath
  | BadRoot fpath
  | DuplicateRootName bytes
  | NonUtf8Path fpath
  | BkChunking chunking_error
  | BkCrypto crypto_error
  | BkManifest manifest_error
  | BkEnroll enroll_error
  | BkRpc grpc_code
  | BkBadResponse string

record backup_report =
  br_snapshot_id :: ulid
  br_files :: u64
  br_source_bytes :: u64
  br_chunks_total :: u64
  br_chunks_unique :: u64
  br_chunks_uploaded :: u64
  br_chunks_deduped :: u64
  br_upload_bytes :: u64
  br_manifest_bytes :: u64
  br_compression :: policy_counters

record file_spec =
  fs_abs :: fpath
  fs_rel :: bytes

text \<open>File metadata: the modification time in nanoseconds from the epoch if the platform reports one, and the
  mode word.\<close>

record src_meta =
  sm_modified :: "int option"
  sm_mode :: u32

record 'f opened =
  op_meta :: "src_meta option"
  op_reader :: 'f

record ('s, 'r, 'f) bk_env =
  b_stub :: "'s stub"
  b_aead :: aead
  b_fill :: "'r fill_bytes"
  b_codecs :: codecs
  b_cdc :: "'f cdc_stream"
  b_blake3 :: "bytes \<Rightarrow> hash32"
  b_keyed :: "hash32 \<Rightarrow> bytes \<Rightarrow> hash32"
  b_open :: "fpath \<Rightarrow> 'f opened option"
  b_walk_fails :: "bk_site \<Rightarrow> bool"

record backup_request =
  rq_daemon_url :: bytes
  rq_state_dir :: bytes
  rq_roots :: "(fpath \<times> fnode option) list"
  rq_chunker :: chunker_config
  rq_compression :: policy_config
  rq_snapshot_id :: ulid
  rq_created_at :: i64

section \<open>Walking the roots\<close>

definition slash :: byte where "slash = 0x2F"

fun nsize :: "fnode \<Rightarrow> nat" where
  "nsize (Directory es) = Suc (sum_list (map (\<lambda>(_, n). Suc (nsize n)) es))"
| "nsize _ = 1"

lemma nsize_sort: "sum_list (map (\<lambda>(_, n). Suc (nsize n)) (sort_key f es)) = sum_list (map (\<lambda>(_, n). Suc (nsize n)) es)"
  by (simp only: sum_mset_sum_list [symmetric] mset_map mset_sort)

function walk_dir :: "(bk_site \<Rightarrow> bool) \<Rightarrow> fpath \<Rightarrow> bytes \<Rightarrow> (bytes \<times> fnode) list \<Rightarrow> backup_error + file_spec list"
  and walk_entries :: "(bk_site \<Rightarrow> bool) \<Rightarrow> fpath \<Rightarrow> bytes \<Rightarrow> (bytes \<times> fnode) list \<Rightarrow> backup_error + file_spec list" where
  "walk_dir F dir rel_prefix entries =
     (if F (BkReadDir dir) then Err (BkIo dir) else walk_entries F dir rel_prefix (sort_key fst entries))"
| "walk_entries F dir rel_prefix [] = Ok []"
| "walk_entries F dir rel_prefix ((nm, node) # rest) =
     (let path = dir @ [nm]; rel = rel_prefix @ [slash] @ nm
      in if \<not> utf8_valid nm then Err (NonUtf8Path path)
         else if F (BkFileType path) then Err (BkIo path)
         else and_then (case node of
                  Directory es \<Rightarrow> walk_dir F path rel es
                | RegFile \<Rightarrow> Ok [\<lparr>fs_abs = path, fs_rel = rel\<rparr>]
                | OtherNode \<Rightarrow> Ok []) (\<lambda>here.
              and_then (walk_entries F dir rel_prefix rest) (\<lambda>there. Ok (here @ there))))"
  by pat_completeness auto
termination
  by (relation "measures [\<lambda>x. case x of Inl (F, dir, p, es) \<Rightarrow> Suc (sum_list (map (\<lambda>(_, n). Suc (nsize n)) es))
        | Inr (F, dir, p, es) \<Rightarrow> sum_list (map (\<lambda>(_, n). Suc (nsize n)) es)]")
    (auto simp: nsize_sort)

declare walk_dir.simps [simp del]

text \<open>\<open>Path::file_name\<close>, given the path's components.\<close>

definition root_file_name :: "fpath \<Rightarrow> bytes option" where
  "root_file_name path = (if path = [] \<or> last path = ascii ''..'' then None else Some (last path))"

fun collect_files :: "(bk_site \<Rightarrow> bool) \<Rightarrow> bytes list \<Rightarrow> (fpath \<times> fnode option) list \<Rightarrow> backup_error + file_spec list" where
  "collect_files F root_names [] = Ok []"
| "collect_files F root_names ((rt, node) # roots) =
     (case node of
        Some (Directory es) \<Rightarrow>
          (case root_file_name rt of
             None \<Rightarrow> Err (BadRoot rt)
           | Some nm \<Rightarrow>
              if \<not> utf8_valid nm then Err (BadRoot rt)
              else if nm \<in> set root_names then Err (DuplicateRootName nm)
              else and_then (walk_dir F rt nm es) (\<lambda>specs.
                   and_then (collect_files F (nm # root_names) roots) (\<lambda>rest. Ok (specs @ rest))))
      | _ \<Rightarrow> Err (BadRoot rt))"

section \<open>Metadata\<close>

definition mtime_parts :: "src_meta \<Rightarrow> i64 \<times> u32" where
  "mtime_parts m =
     (case sm_modified m of
        None \<Rightarrow> (0, 0)
      | Some t \<Rightarrow>
         if 0 \<le> t then (word_of_int (t div 10 ^ 9), word_of_int (t mod 10 ^ 9))
         else let d = - t; secs = word_of_int (d div 10 ^ 9) :: i64; nanos = word_of_int (d mod 10 ^ 9) :: u32
              in if nanos = 0 then (- secs, 0) else (- (secs + 1), 1000000000 - nanos))"

definition file_mode :: "src_meta \<Rightarrow> u32" where "file_mode m = sm_mode m"

section \<open>The session\<close>

record ('s, 'r) bk =
  bk_srv :: 's
  bk_rng :: 'r
  bk_key :: data_key
  bk_phase :: phase
  bk_policy :: policy_config
  bk_counters :: policy_counters
  bk_report :: backup_report
  bk_seen :: "chunk_id set"
  bk_pending :: "(chunk_id \<times> bytes) list"
  bk_pending_bytes :: nat
  bk_log :: "(backup_report \<times> bool) list"

definition bk_progress :: "bool \<Rightarrow> ('s, 'r) bk \<Rightarrow> ('s, 'r) bk" where
  "bk_progress fin st = st\<lparr>bk_log := bk_log st @ [(bk_report st, fin)]\<rparr>"

definition parse_missing :: "bytes list \<Rightarrow> backup_error + chunk_id set" where
  "parse_missing wire =
     and_then (collect_results (\<lambda>raw. case chunk_id_try_from raw of
          None \<Rightarrow> Err (BkBadResponse ''malformed chunk ID in HasChunks reply'') | Some c \<Rightarrow> Ok c) wire)
       (\<lambda>ids. Ok (set ids))"

text \<open>The loop of \<open>flush\<close> over the drained chunks: compress, frame and seal the missing ones.\<close>

fun seal_pending :: "('s, 'r, 'f) bk_env \<Rightarrow> chunk_id set \<Rightarrow> (chunk_id \<times> bytes) list \<Rightarrow> ('s, 'r) bk
    \<Rightarrow> (backup_error + chunk_blob list) \<times> ('s, 'r) bk" where
  "seal_pending E missing [] st = (Ok [], st)"
| "seal_pending E missing ((cid, data) # rest) st =
     (if cid \<in> missing then
        (case choose_codec (b_codecs E) data (bk_phase st) (bk_policy st) (bk_counters st) of
           ((codec, payload), counters) \<Rightarrow>
             (case encrypt_chunk (b_aead E) (b_fill E) (bk_key st) cid (frame codec payload) (bk_rng st) of
                (Err e, rng) \<Rightarrow> (Err (BkCrypto e), st\<lparr>bk_counters := counters, bk_rng := rng\<rparr>)
              | (Ok ciphertext, rng) \<Rightarrow>
                 (let rep = bk_report st;
                      st1 = st\<lparr>bk_counters := counters, bk_rng := rng,
                        bk_report := rep\<lparr>br_upload_bytes := br_upload_bytes rep + word_of_nat (length ciphertext),
                                         br_chunks_uploaded := br_chunks_uploaded rep + 1\<rparr>\<rparr>
                  in case seal_pending E missing rest st1 of
                       (Err e, st2) \<Rightarrow> (Err e, st2)
                     | (Ok blobs, st2) \<Rightarrow>
                        (Ok (\<lparr>cb_chunk_id = chunk_id_as_bytes cid, cb_data = ciphertext\<rparr> # blobs), st2))))
      else
        seal_pending E missing rest
          (st\<lparr>bk_report := (bk_report st)\<lparr>br_chunks_deduped := br_chunks_deduped (bk_report st) + 1\<rparr>\<rparr>))"

definition upload_blobs :: "('s, 'r, 'f) bk_env \<Rightarrow> chunk_blob list \<Rightarrow> ('s, 'r) bk \<Rightarrow> (backup_error + unit) \<times> ('s, 'r) bk" where
  "upload_blobs E blobs st =
     (if blobs = [] then (Ok (), st)
      else case upload_chunks_call (b_stub E) blobs (bk_srv st) of
          (Err code, srv) \<Rightarrow> (Err (BkRpc code), st\<lparr>bk_srv := srv\<rparr>)
        | (Ok (stored, already), srv) \<Rightarrow>
           (if stored + already \<noteq> word_of_nat (length blobs)
            then (Err (BkBadResponse ''UploadChunks acknowledged a different number of blobs than were sent''), st\<lparr>bk_srv := srv\<rparr>)
            else (Ok (), st\<lparr>bk_srv := srv\<rparr>)))"

definition flush :: "('s, 'r, 'f) bk_env \<Rightarrow> ('s, 'r) bk \<Rightarrow> (backup_error + unit) \<times> ('s, 'r) bk" where
  "flush E st =
     (if bk_pending st = [] then (Ok (), st)
      else case has_chunks_call (b_stub E) (map (chunk_id_as_bytes \<circ> fst) (bk_pending st)) (bk_srv st) of
          (Err code, srv) \<Rightarrow> (Err (BkRpc code), st\<lparr>bk_srv := srv\<rparr>)
        | (Ok wire, srv) \<Rightarrow>
           (case parse_missing wire of
              Err e \<Rightarrow> (Err e, st\<lparr>bk_srv := srv\<rparr>)
            | Ok missing \<Rightarrow>
               (case seal_pending E missing (bk_pending st) (st\<lparr>bk_srv := srv, bk_pending := []\<rparr>) of
                  (Err e, st1) \<Rightarrow> (Err e, st1)
                | (Ok blobs, st1) \<Rightarrow> upload_blobs E blobs st1)))"

section \<open>The run\<close>

text \<open>One chunk of the stream: count it, and queue it when it is new to this run.\<close>

definition take_chunk :: "('s, 'r, 'f) bk_env \<Rightarrow> chunk \<Rightarrow> ('s, 'r) bk \<Rightarrow> (backup_error + unit) \<times> ('s, 'r) bk" where
  "take_chunk E c st0 =
     (let st = st0\<lparr>bk_report := (bk_report st0)\<lparr>br_chunks_total := br_chunks_total (bk_report st0) + 1\<rparr>\<rparr>
      in if chunk_ident c \<in> bk_seen st then (Ok (), st)
         else
           let st1 = st\<lparr>bk_seen := insert (chunk_ident c) (bk_seen st),
                 bk_report := (bk_report st)\<lparr>br_chunks_unique := br_chunks_unique (bk_report st) + 1\<rparr>,
                 bk_pending_bytes := bk_pending_bytes st + length (chunk_data c),
                 bk_pending := bk_pending st @ [(chunk_ident c, chunk_data c)]\<rparr>
           in if BATCH_MAX_CHUNKS \<le> length (bk_pending st1) \<or> BATCH_MAX_BYTES \<le> bk_pending_bytes st1
              then (case flush E st1 of
                      (Err e, st2) \<Rightarrow> (Err e, st2)
                    | (Ok _, st2) \<Rightarrow> (Ok (), bk_progress False (st2\<lparr>bk_pending_bytes := 0\<rparr>)))
              else (Ok (), st1))"

fun take_chunks :: "('s, 'r, 'f) bk_env \<Rightarrow> (chunking_error + chunk) list \<Rightarrow> chunk_id list \<Rightarrow> u64 \<Rightarrow> ('s, 'r) bk
    \<Rightarrow> (backup_error + chunk_id list \<times> u64) \<times> ('s, 'r) bk" where
  "take_chunks E [] chunk_ids content_len st = (Ok (chunk_ids, content_len), st)"
| "take_chunks E (Err e # cs) chunk_ids content_len st = (Err (BkChunking e), st)"
| "take_chunks E (Ok c # cs) chunk_ids content_len st =
     (case take_chunk E c st of
        (Err e, st1) \<Rightarrow> (Err e, st1)
      | (Ok _, st1) \<Rightarrow>
         take_chunks E cs (chunk_ids @ [chunk_ident c]) (content_len + word_of_nat (length (chunk_data c))) st1)"

definition backup_file :: "('s, 'r, 'f) bk_env \<Rightarrow> chunker_config \<Rightarrow> chunk_id_key \<Rightarrow> file_spec \<Rightarrow> ('s, 'r) bk
    \<Rightarrow> (backup_error + file_entry) \<times> ('s, 'r) bk" where
  "backup_file E cfg id_key spec st =
     (case b_open E (fs_abs spec) of
        None \<Rightarrow> (Err (BkIo (fs_abs spec)), st)
      | Some o' \<Rightarrow>
         (case op_meta o' of
            None \<Rightarrow> (Err (BkIo (fs_abs spec)), st)
          | Some m \<Rightarrow>
             (case take_chunks E (chunk_reader_keyed (b_cdc E) (b_blake3 E) (b_keyed E) (op_reader o') cfg id_key) [] 0 st of
                (Err e, st1) \<Rightarrow> (Err e, st1)
              | (Ok (ids, len), st1) \<Rightarrow>
                 (let rep = bk_report st1;
                      st2 = st1\<lparr>bk_report := rep\<lparr>br_files := br_files rep + 1, br_source_bytes := br_source_bytes rep + len\<rparr>\<rparr>
                  in (Ok \<lparr>fe_path = fs_rel spec, fe_size = len, fe_mtime_secs = fst (mtime_parts m),
                          fe_mtime_nanos = snd (mtime_parts m), fe_mode = file_mode m, fe_chunks = ids\<rparr>,
                      bk_progress False st2)))))"

fun backup_files :: "('s, 'r, 'f) bk_env \<Rightarrow> chunker_config \<Rightarrow> chunk_id_key \<Rightarrow> file_spec list \<Rightarrow> ('s, 'r) bk
    \<Rightarrow> (backup_error + file_entry list) \<times> ('s, 'r) bk" where
  "backup_files E cfg id_key [] st = (Ok [], st)"
| "backup_files E cfg id_key (spec # specs) st =
     (case backup_file E cfg id_key spec st of
        (Err e, st1) \<Rightarrow> (Err e, st1)
      | (Ok entry, st1) \<Rightarrow>
         (case backup_files E cfg id_key specs st1 of
            (Err e, st2) \<Rightarrow> (Err e, st2) | (Ok entries, st2) \<Rightarrow> (Ok (entry # entries), st2)))"

definition counters_zero :: policy_counters where
  "counters_zero = \<lparr>pc_raw = 0, pc_zstd3 = 0, pc_escalated = 0, pc_escalation_attempts = 0, pc_bytes_in = 0, pc_bytes_out = 0\<rparr>"

definition report_zero :: "ulid \<Rightarrow> backup_report" where
  "report_zero u = \<lparr>br_snapshot_id = u, br_files = 0, br_source_bytes = 0, br_chunks_total = 0, br_chunks_unique = 0,
     br_chunks_uploaded = 0, br_chunks_deduped = 0, br_upload_bytes = 0, br_manifest_bytes = 0, br_compression = counters_zero\<rparr>"

definition session_start :: "backup_request \<Rightarrow> data_key \<Rightarrow> bytes list \<Rightarrow> 's \<Rightarrow> 'r \<Rightarrow> ('s, 'r) bk" where
  "session_start req key existing srv rng =
     \<lparr>bk_srv = srv, bk_rng = rng, bk_key = key,
      bk_phase = (if existing = [] then InitialFull else Incremental), bk_policy = rq_compression req,
      bk_counters = counters_zero, bk_report = report_zero (rq_snapshot_id req), bk_seen = {}, bk_pending = [],
      bk_pending_bytes = 0, bk_log = []\<rparr>"

text \<open>The end of the run: seal the manifest and hand it over with the snapshot ID and the references.\<close>

definition finish_backup :: "('s, 'r, 'f) bk_env \<Rightarrow> backup_request \<Rightarrow> file_entry list \<Rightarrow> ('s, 'r) bk
    \<Rightarrow> (backup_error + backup_report) \<times> ('s, 'r) bk" where
  "finish_backup E req entries st0 =
     (let st = st0\<lparr>bk_report := (bk_report st0)\<lparr>br_compression := bk_counters st0\<rparr>\<rparr>;
          m = \<lparr>snapshot_id = rq_snapshot_id req, created_at = rq_created_at req, files = entries\<rparr>
      in case encode m of
           Err e \<Rightarrow> (Err (BkManifest e), st)
         | Ok encoded \<Rightarrow>
            (case encrypt_manifest (b_aead E) (b_fill E) (bk_key st) (rq_snapshot_id req) encoded (bk_rng st) of
               (Err e, rng) \<Rightarrow> (Err (BkCrypto e), st\<lparr>bk_rng := rng\<rparr>)
             | (Ok sealed, rng) \<Rightarrow>
                (let st1 = st\<lparr>bk_rng := rng, bk_report := (bk_report st)\<lparr>br_manifest_bytes := word_of_nat (length sealed)\<rparr>\<rparr>
                 in case put_manifest_call (b_stub E) sealed (ulid_to_bytes (rq_snapshot_id req))
                           (map chunk_id_as_bytes (chunk_refs m)) (bk_srv st1) of
                      (Err code, srv) \<Rightarrow> (Err (BkRpc code), st1\<lparr>bk_srv := srv\<rparr>)
                    | (Ok _, srv) \<Rightarrow> (Ok (bk_report st1), st1\<lparr>bk_srv := srv\<rparr>))))"

definition backup_session :: "('s, 'r, 'f) bk_env \<Rightarrow> backup_request \<Rightarrow> chunk_id_key \<Rightarrow> file_spec list \<Rightarrow> ('s, 'r) bk
    \<Rightarrow> (backup_error + backup_report) \<times> ('s, 'r) bk" where
  "backup_session E req id_key specs st =
     (case backup_files E (rq_chunker req) id_key specs st of
        (Err e, st1) \<Rightarrow> (Err e, st1)
      | (Ok entries, st1) \<Rightarrow>
         (case flush E st1 of
            (Err e, st2) \<Rightarrow> (Err e, st2)
          | (Ok _, st2) \<Rightarrow> finish_backup E req entries (bk_progress True st2)))"

definition run_backup :: "('s, 'r, 'f) bk_env \<Rightarrow> (bytes \<Rightarrow> bytes \<Rightarrow> bytes \<Rightarrow> bytes \<Rightarrow> bool) \<Rightarrow> cs_faults \<Rightarrow> cdisk
    \<Rightarrow> backup_request \<Rightarrow> 's \<Rightarrow> 'r \<Rightarrow> (backup_error + backup_report) \<times> 's \<times> 'r \<times> (backup_report \<times> bool) list" where
  "run_backup E dial F d req srv rng =
     (case and_then (load_data_key F d (rq_state_dir req)) (\<lambda>k.
           and_then (load_chunk_id_key F d (rq_state_dir req)) (\<lambda>ik.
           and_then (connect_authenticated dial F d (rq_daemon_url req) (rq_state_dir req)) (\<lambda>_. Ok (k, ik)))) of
        Err e \<Rightarrow> (Err (BkEnroll e), srv, rng, [])
      | Ok (k, ik) \<Rightarrow>
     (case list_snapshots_call (b_stub E) srv of
        (Err code, srv1) \<Rightarrow> (Err (BkRpc code), srv1, rng, [])
      | (Ok existing, srv1) \<Rightarrow>
     (case collect_files (b_walk_fails E) [] (rq_roots req) of
        Err e \<Rightarrow> (Err e, srv1, rng, [])
      | Ok specs \<Rightarrow>
         (case backup_session E req ik specs (session_start req k existing srv1 rng) of
            (r, st) \<Rightarrow> (r, bk_srv st, bk_rng st, bk_log st)))))"

end
