(* ===== verification/Scheduler.thy ===== *)
theory Scheduler
  imports F64_Arith Backup
begin

text \<open>
  The backup schedule, \<open>crates/busyncr-core/src/scheduler.rs\<close>, and the loop that runs backups on it,
  \<open>crates/busyncr-client/src/run.rs\<close>.

  \<^item> The random generator's \<open>random_range\<close> is an argument; \<open>range_laws\<close> is what the code relies on: the drawn number
    lies in the requested range.
  \<^item> One turn of the loop meets a clock reading, a fresh snapshot id, the folder trees and the client's files as they
    are at that moment, and ends with the shutdown signal or with the end of the sleep, whichever \<open>select!\<close> took.
    \<open>run_scheduler\<close> runs over a list of such turns; that list ending without a shutdown means that the loop is still
    waiting.
\<close>

section \<open>The schedule\<close>

definition DEFAULT_INTERVAL :: duration where "DEFAULT_INTERVAL = from_secs (3 * 60 * 60)"
definition DEFAULT_JITTER :: f64 where "DEFAULT_JITTER = f64_round (1 / 10)"

datatype schedule_error = ZeroInterval | JitterOutOfRange f64

record schedule_policy =
  sch_interval :: duration
  sch_jitter :: f64

definition schedule_new :: "duration \<Rightarrow> f64 \<Rightarrow> schedule_error + schedule_policy" where
  "schedule_new interval jitter =
     (if interval = 0 then Err ZeroInterval
      else if \<not> (Fin 0 \<le> jitter \<and> jitter \<le> Fin 1) then Err (JitterOutOfRange jitter)
      else Ok \<lparr>sch_interval = interval, sch_jitter = jitter\<rparr>)"

definition default_policy :: schedule_policy where
  "default_policy = \<lparr>sch_interval = DEFAULT_INTERVAL, sch_jitter = DEFAULT_JITTER\<rparr>"

type_synonym 'r random_range = "f64 \<Rightarrow> f64 \<Rightarrow> 'r \<Rightarrow> f64 \<times> 'r"

definition range_laws :: "'r random_range \<Rightarrow> bool" where
  "range_laws draw \<longleftrightarrow> (\<forall>lo hi rng. lo \<le> hi \<longrightarrow> lo \<le> fst (draw lo hi rng) \<and> fst (draw lo hi rng) \<le> hi)"

text \<open>The delay for a drawn offset; \<open>None\<close> where \<open>from_secs_f64\<close> panics.\<close>

definition jittered :: "duration \<Rightarrow> f64 \<Rightarrow> duration option" where
  "jittered interval offset =
     from_secs_f64 (f64_max (f64_mul (as_secs_f64 interval) (f64_add (Fin 1) offset)) (Fin 0))"

definition next_delay :: "'r random_range \<Rightarrow> schedule_policy \<Rightarrow> 'r \<Rightarrow> duration option \<times> 'r" where
  "next_delay draw p rng =
     (if sch_jitter p = Fin 0 then (Some (sch_interval p), rng)
      else case draw (f64_neg (sch_jitter p)) (sch_jitter p) rng of
          (offset, rng') \<Rightarrow> (jittered (sch_interval p) offset, rng'))"

section \<open>The loop\<close>

record run_request =
  rr_daemon_url :: bytes
  rr_state_dir :: bytes
  rr_chunker :: chunker_config
  rr_compression :: policy_config
  rr_schedule :: schedule_policy

record ('s, 'r, 'f) turn =
  tn_now_ms :: i64
  tn_ulid :: ulid
  tn_roots :: "(fpath \<times> fnode option) list"
  tn_env :: "('s, 'r, 'f) bk_env"
  tn_faults :: cs_faults
  tn_disk :: cdisk
  tn_shutdown :: bool

record tick =
  tk_started_at_ms :: i64
  tk_result :: "backup_error + backup_report"

datatype loop_end = Stopped | Waiting | Panicked

record ('s, 'r) sched_out =
  so_ticks :: "tick list"
  so_delays :: "duration list"
  so_end :: loop_end
  so_srv :: 's
  so_rng :: 'r

definition scheduled_request :: "run_request \<Rightarrow> ('s, 'r, 'f) turn \<Rightarrow> backup_request" where
  "scheduled_request req t =
     \<lparr>rq_daemon_url = rr_daemon_url req, rq_state_dir = rr_state_dir req, rq_roots = tn_roots t,
      rq_chunker = rr_chunker req, rq_compression = rr_compression req, rq_snapshot_id = tn_ulid t,
      rq_created_at = i64_div_euclid (tn_now_ms t) 1000\<rparr>"

fun run_scheduler :: "(bytes \<Rightarrow> bytes \<Rightarrow> bytes \<Rightarrow> bytes \<Rightarrow> bool) \<Rightarrow> 'r random_range \<Rightarrow> run_request
    \<Rightarrow> ('s, 'r, 'f) turn list \<Rightarrow> 's \<Rightarrow> 'r \<Rightarrow> ('s, 'r) sched_out" where
  "run_scheduler dial draw req [] srv rng =
     \<lparr>so_ticks = [], so_delays = [], so_end = Waiting, so_srv = srv, so_rng = rng\<rparr>"
| "run_scheduler dial draw req (t # ts) srv rng =
     (case run_backup (tn_env t) dial (tn_faults t) (tn_disk t) (scheduled_request req t) srv rng of
        (result, srv1, rng1, _) \<Rightarrow>
          let tick = \<lparr>tk_started_at_ms = tn_now_ms t, tk_result = result\<rparr>
          in case next_delay draw (rr_schedule req) rng1 of
               (None, rng2) \<Rightarrow> \<lparr>so_ticks = [tick], so_delays = [], so_end = Panicked, so_srv = srv1, so_rng = rng2\<rparr>
             | (Some delay, rng2) \<Rightarrow>
                 if tn_shutdown t
                 then \<lparr>so_ticks = [tick], so_delays = [delay], so_end = Stopped, so_srv = srv1, so_rng = rng2\<rparr>
                 else let out = run_scheduler dial draw req ts srv1 rng2
                      in out\<lparr>so_ticks := tick # so_ticks out, so_delays := delay # so_delays out\<rparr>)"

section \<open>The delay\<close>


lemma f64_mul_mono: "0 \<le> b \<Longrightarrow> x \<le> y \<Longrightarrow> (\<exists>q. y = Fin q) \<Longrightarrow> (\<exists>q. x = Fin q) \<Longrightarrow> f64_mul (Fin b) x \<le> f64_mul (Fin b) y"
  by (auto intro!: f64_round_mono mult_left_mono)

lemma from_secs_f64_mono:
  assumes "x \<le> y" and "from_secs_f64 x = Some d" and "from_secs_f64 y = Some d'"
  shows "d \<le> d'"
proof -
  obtain q r where qr: "x = Fin q" "y = Fin r" "q \<le> r"
    using assms by (cases x; cases y) (auto simp: from_secs_f64_def)
  then have "d = nat (round_half_even (q * 10 ^ 9))" "d' = nat (round_half_even (r * 10 ^ 9))"
    using assms(2,3) by (auto simp: from_secs_f64_def Let_def split: if_splits)
  then show ?thesis using round_half_even_mono [of "q * 10 ^ 9" "r * 10 ^ 9"] qr(3) by (simp add: nat_mono)
qed

text \<open>A factor of a jittered delay is a double between zero and two.\<close>

lemma jitter_factor:
  assumes "\<bar>x\<bar> \<le> 1"
  obtains f where "f64_add (Fin 1) (Fin x) = Fin f" and "0 \<le> f" and "f \<le> 2"
proof -
  have "f64_round 2 = Fin 2" using f64_of_nat_exact [of 2] by (simp add: f64_of_nat_def)
  then have "f64_round (1 + x) \<le> Fin 2" using assms f64_round_mono [of "1 + x" 2] by simp
  moreover have "Fin 0 \<le> f64_round (1 + x)" using assms by (intro f64_round_nonneg) simp
  ultimately show thesis using that by (cases "f64_round (1 + x)") auto
qed

text \<open>The exact delay behind the floating-point one, and its bounds.\<close>

lemma jittered_value:
  assumes "interval < 2 ^ 61 * 10 ^ 9" and "\<bar>x\<bar> \<le> 1"
  obtains b f y where "as_secs_f64 interval = Fin b" and "0 \<le> b" and "f64_add (Fin 1) (Fin x) = Fin f" and "0 \<le> f"
    and "f64_max (f64_mul (as_secs_f64 interval) (f64_add (Fin 1) (Fin x))) (Fin 0) = Fin y"
    and "f64_round (b * f) = Fin y" and "0 \<le> y" and "y \<le> pow2 63"
proof -
  obtain b where b: "as_secs_f64 interval = Fin b" "0 \<le> b" "b \<le> pow2 62" using as_secs_bound [OF assms(1)] by auto
  obtain f where f: "f64_add (Fin 1) (Fin x) = Fin f" "0 \<le> f" "f \<le> 2" using jitter_factor [OF assms(2)] .
  have "b * f \<le> pow2 62 * 2" using b f by (intro mult_mono) simp_all
  then have "b * f \<le> pow2 63" by (simp add: pow2_def)
  then obtain y where y: "f64_round (b * f) = Fin y" "0 \<le> y" "y \<le> pow2 63"
    using f64_round_pow2_bound [of "b * f" 63] b f by auto
  then have "f64_max (f64_mul (as_secs_f64 interval) (f64_add (Fin 1) (Fin x))) (Fin 0) = Fin y"
    using b f by (simp add: f64_max_def)
  then show thesis using that b f y by blast
qed

lemma jittered_mono:
  assumes "interval < 2 ^ 61 * 10 ^ 9" and "\<bar>x\<bar> \<le> 1" and "\<bar>x'\<bar> \<le> 1" and "x \<le> x'"
    and "jittered interval (Fin x) = Some d" and "jittered interval (Fin x') = Some d'"
  shows "d \<le> d'"
proof -
  obtain b f y where v: "as_secs_f64 interval = Fin b" "0 \<le> b" "f64_add (Fin 1) (Fin x) = Fin f"
    "f64_max (f64_mul (as_secs_f64 interval) (f64_add (Fin 1) (Fin x))) (Fin 0) = Fin y" "f64_round (b * f) = Fin y"
    using jittered_value [OF assms(1,2)] by metis
  obtain b' f' y' where v': "as_secs_f64 interval = Fin b'" "f64_add (Fin 1) (Fin x') = Fin f'"
    "f64_max (f64_mul (as_secs_f64 interval) (f64_add (Fin 1) (Fin x'))) (Fin 0) = Fin y'" "f64_round (b' * f') = Fin y'"
    using jittered_value [OF assms(1,3)] by metis
  have "b' = b" using v(1) v'(1) by simp
  have "f \<le> f'" using f64_round_mono [of "1 + x" "1 + x'"] assms(4) v(3) v'(2) by simp
  then have "y \<le> y'"
    using f64_round_mono [of "b * f" "b * f'"] v(2,5) v'(4) \<open>b' = b\<close> by (simp add: mult_left_mono)
  then show ?thesis
    using from_secs_f64_mono [of "Fin y" "Fin y'"] assms(5,6) v(4) v'(3) by (simp add: jittered_def)
qed

lemma jittered_total:
  assumes "interval < 2 ^ 61 * 10 ^ 9" and "\<bar>x\<bar> \<le> 1"
  shows "\<exists>d. jittered interval (Fin x) = Some d"
proof -
  obtain y where "f64_max (f64_mul (as_secs_f64 interval) (f64_add (Fin 1) (Fin x))) (Fin 0) = Fin y" "0 \<le> y" "y \<le> pow2 63"
    using jittered_value [OF assms] by metis
  then show ?thesis using from_secs_total by (simp add: jittered_def)
qed

lemma drawn_offset:
  assumes "range_laws draw" and "draw (f64_neg (Fin j)) (Fin j) rng = (offset, rng')" and "0 \<le> j"
  obtains x where "offset = Fin x" and "- j \<le> x" and "x \<le> j"
proof -
  have "Fin (- j) \<le> offset" "offset \<le> Fin j"
    using assms(1) [unfolded range_laws_def, rule_format, of "Fin (- j)" "Fin j" rng] assms(2,3) by simp_all
  then show thesis using that by (cases offset) auto
qed


text \<open>The default schedule, to the nanosecond.\<close>

lemma default_jitter: "DEFAULT_JITTER = Fin (3602879701896397 / 36028797018963968)"
  unfolding DEFAULT_JITTER_def using f64_round_eqI [of "- 4" "1 / 10" 7205759403792794] by (simp add: pow2_def)

lemma default_base: "as_secs_f64 DEFAULT_INTERVAL = Fin 10800"
  using f64_of_nat_exact [of 10800] f64_of_nat_exact [of 0]
  by (simp add: as_secs_f64_def DEFAULT_INTERVAL_def from_secs_def f64_of_nat_def)

lemma default_band:
  "jittered DEFAULT_INTERVAL (f64_neg DEFAULT_JITTER) = Some (from_secs 9720)"
  "jittered DEFAULT_INTERVAL DEFAULT_JITTER = Some (from_secs 11880)"
proof -
  have lo: "f64_round (32425917317067571 / 36028797018963968) = Fin (8106479329266893 / 9007199254740992)"
    using f64_round_eqI [of "- 1" "32425917317067571 / 36028797018963968" 8106479329266893] by (simp add: pow2_def)
  have lo': "f64_round (5471873547255152775 / 562949953421312) = Fin 9720"
    using f64_round_eqI [of 13 "5471873547255152775 / 562949953421312" 5343626510991360] by (simp add: pow2_def)
  have hi: "f64_round (39631676720860365 / 36028797018963968) = Fin (2476979795053773 / 2251799813685248)"
    using f64_round_eqI [of 0 "39631676720860365 / 36028797018963968" 4953959590107546] by (simp add: pow2_def)
  have hi': "f64_round (1671961361661296775 / 140737488355328) = Fin (6531099068989441 / 549755813888)"
    using f64_round_eqI [of 13 "1671961361661296775 / 140737488355328" 6531099068989441] by (simp add: pow2_def)
  have "round_half_even 9720000000000 = 9720000000000" using round_half_even_int [of 9720000000000] by simp
  then show "jittered DEFAULT_INTERVAL (f64_neg DEFAULT_JITTER) = Some (from_secs 9720)"
    by (simp add: jittered_def default_jitter default_base lo lo' f64_max_def from_secs_f64_def from_secs_def Let_def)
  have "round_half_even (6531099068989441 / 549755813888 * 10 ^ 9) = 11880000000000"
    by (rule round_half_even_eqI) simp
  then show "jittered DEFAULT_INTERVAL DEFAULT_JITTER = Some (from_secs 11880)"
    by (simp add: jittered_def default_jitter default_base hi hi' f64_max_def from_secs_f64_def from_secs_def Let_def)
qed

section \<open>The loop\<close>

text \<open>The turns the loop takes: all up to the first that ends with the shutdown signal, that one included.\<close>

fun turns_taken :: "('s, 'r, 'f) turn list \<Rightarrow> ('s, 'r, 'f) turn list" where
  "turns_taken [] = []"
| "turns_taken (t # ts) = (if tn_shutdown t then [t] else t # turns_taken ts)"

lemma next_delay_exists:
  assumes "range_laws draw" and "schedule_new interval jitter = Ok p" and "interval < 2 ^ 61 * 10 ^ 9"
  obtains d rng' where "next_delay draw p rng = (Some d, rng')"
proof -
  obtain j where j: "jitter = Fin j" "0 \<le> j" "j \<le> 1" "p = \<lparr>sch_interval = interval, sch_jitter = jitter\<rparr>"
    using assms(2) by (cases jitter) (auto simp: schedule_new_def split: if_splits)
  obtain offset rng' where o: "draw (f64_neg (Fin j)) (Fin j) rng = (offset, rng')" by force
  obtain x where "offset = Fin x" "- j \<le> x" "x \<le> j" using drawn_offset [OF assms(1) o j(2)] .
  then have "\<exists>d. jittered interval offset = Some d" using jittered_total [OF assms(3), of x] j by auto
  then obtain d where d: "jittered interval offset = Some d" by blast
  have "next_delay draw p rng = (if j = 0 then (Some interval, rng) else (Some d, rng'))"
    using o d by (simp add: next_delay_def j)
  then show thesis using that by (cases "j = 0") simp_all
qed

text \<open>The state the loop hands from one attempt to the next.\<close>

fun attempts :: "(bytes \<Rightarrow> bytes \<Rightarrow> bytes \<Rightarrow> bytes \<Rightarrow> bool) \<Rightarrow> 'r random_range \<Rightarrow> run_request
    \<Rightarrow> ('s, 'r, 'f) turn list \<Rightarrow> 's \<Rightarrow> 'r \<Rightarrow> (backup_error + backup_report) list" where
  "attempts dial draw req [] srv rng = []"
| "attempts dial draw req (t # ts) srv rng =
     (case run_backup (tn_env t) dial (tn_faults t) (tn_disk t) (scheduled_request req t) srv rng of
        (result, srv1, rng1, _) \<Rightarrow> result # attempts dial draw req ts srv1 (snd (next_delay draw (rr_schedule req) rng1)))"

text \<open>C24: The loop never gives up: whatever the outcomes of the attempts, it makes one attempt for every turn up to the
  shutdown signal, the first at once, each starting from the server and generator state the previous one left; it ends
  only when the signal arrives, and no delay computation panics.\<close>

theorem scheduler_keeps_trying:
  assumes "range_laws draw" and "schedule_new interval jitter = Ok (rr_schedule req)" and "interval < 2 ^ 61 * 10 ^ 9"
  shows "map tk_started_at_ms (so_ticks (run_scheduler dial draw req ts srv rng)) = map tn_now_ms (turns_taken ts) \<and>
    map tk_result (so_ticks (run_scheduler dial draw req ts srv rng)) = attempts dial draw req (turns_taken ts) srv rng \<and>
    so_end (run_scheduler dial draw req ts srv rng) = (if \<exists>t \<in> set ts. tn_shutdown t then Stopped else Waiting) \<and>
    length (so_delays (run_scheduler dial draw req ts srv rng)) = length (turns_taken ts)"
proof (induction ts arbitrary: srv rng)
  case (Cons t ts)
  obtain result srv1 rng1 lg where r:
    "run_backup (tn_env t) dial (tn_faults t) (tn_disk t) (scheduled_request req t) srv rng = (result, srv1, rng1, lg)"
    by (metis prod.exhaust)
  obtain d rng2 where d: "next_delay draw (rr_schedule req) rng1 = (Some d, rng2)"
    using next_delay_exists [OF assms] .
  show ?case using Cons [of srv1 rng2] r d by (simp add: Let_def)
qed simp

text \<open>The snapshot a turn asks for carries the second its clock reading falls into, before the epoch too, and the
  schedule's own chunker and compression settings.\<close>

theorem scheduled_snapshot_time:
  "sint (rq_created_at (scheduled_request req t)) = sint (tn_now_ms t) div 1000 \<and>
   rq_snapshot_id (scheduled_request req t) = tn_ulid t \<and>
   rq_chunker (scheduled_request req t) = rr_chunker req \<and> rq_compression (scheduled_request req t) = rr_compression req"
proof -
  have "sint (1000 :: i64) = 1000" by simp
  moreover have "- (2 ^ 63) \<le> sint (tn_now_ms t) div 1000" "sint (tn_now_ms t) div 1000 < 2 ^ 63"
    using sint_range_i64 [of "tn_now_ms t"] by linarith+
  ultimately show ?thesis
    by (simp add: scheduled_request_def i64_div_euclid_def sint_sbintrunc' signed_take_bit_int_eq_self)
qed

section \<open>Witnesses\<close>

text \<open>A generator that always draws the lower end.\<close>

definition low_draw :: "unit random_range" where "low_draw lo hi rng = (lo, rng)"

lemma low_draw_laws: "range_laws low_draw"
  by (auto simp: range_laws_def low_draw_def)

lemma default_ok: "schedule_new DEFAULT_INTERVAL DEFAULT_JITTER = Ok default_policy" "DEFAULT_INTERVAL < 2 ^ 61 * 10 ^ 9"
  by (simp_all add: schedule_new_def default_policy_def default_jitter DEFAULT_INTERVAL_def from_secs_def)


definition demo_request :: run_request where
  "demo_request = \<lparr>rr_daemon_url = [], rr_state_dir = [], rr_chunker = chunker_config_default,
     rr_compression = policy_config_default, rr_schedule = default_policy\<rparr>"

definition demo_turn :: "bool \<Rightarrow> (unit, unit, unit) turn" where
  "demo_turn sh = \<lparr>tn_now_ms = 1500, tn_ulid = 0, tn_roots = [], tn_env = undefined, tn_faults = cs_no_faults,
     tn_disk = [], tn_shutdown = sh\<rparr>"

theorem scheduler_keeps_trying_witness:
  "length (so_ticks (run_scheduler (\<lambda>_ _ _ _. False) low_draw demo_request
       [demo_turn False, demo_turn False, demo_turn True, demo_turn False] () ())) = 3 \<and>
   so_end (run_scheduler (\<lambda>_ _ _ _. False) low_draw demo_request
       [demo_turn False, demo_turn False, demo_turn True, demo_turn False] () ()) = Stopped"
proof -
  have s: "schedule_new DEFAULT_INTERVAL DEFAULT_JITTER = Ok (rr_schedule demo_request)"
    using default_ok(1) by (simp add: demo_request_def)
  let ?out = "run_scheduler (\<lambda>_ _ _ _. False) low_draw demo_request
      [demo_turn False, demo_turn False, demo_turn True, demo_turn False] () ()"
  note k = scheduler_keeps_trying [OF low_draw_laws s default_ok(2), of "\<lambda>_ _ _ _. False"
      "[demo_turn False, demo_turn False, demo_turn True, demo_turn False]" "()" "()"]
  have "length (map tk_started_at_ms (so_ticks ?out)) = 3" using k by (simp only: length_map) (simp add: demo_turn_def)
  moreover have "so_end ?out = Stopped" using k by (simp add: demo_turn_def)
  ultimately show ?thesis by simp
qed

end
