(* ===== verification/Client_Config.thy ===== *)
theory Client_Config
  imports Scheduler
begin

text \<open>
  The client's settings: \<open>crates/busyncr-client/src/config.rs\<close> (the configuration file, the committed chunk size), the
  interval parsers of \<open>main.rs\<close> and \<open>service.rs\<close>, and the sizes of the benchmark command (\<open>bench_cmd.rs\<close>).

  \<^item> The TOML parser is the argument \<open>toml\<close>, reading the file the argument \<open>read\<close>.
  \<^item> A path is its components and whether it is absolute.
\<close>

section \<open>Numbers\<close>

text \<open>\<open>u64::from_str\<close>: an optional plus sign and decimal digits, each step checked for overflow.\<close>

definition is_digit :: "byte \<Rightarrow> bool" where "is_digit b \<longleftrightarrow> 48 \<le> b \<and> b \<le> 57"

fun digits_from :: "nat \<Rightarrow> bytes \<Rightarrow> nat option" where
  "digits_from acc [] = Some acc"
| "digits_from acc (b # bs) =
     (let v = acc * 10 + (unat b - 48) in if is_digit b \<and> v < 2 ^ 64 then digits_from v bs else None)"

definition parse_u64 :: "bytes \<Rightarrow> nat option" where
  "parse_u64 s =
     (if s = [] \<or> s = [0x2B] \<or> s = [0x2D] then None
      else if hd s = 0x2B then digits_from 0 (tl s) else digits_from 0 s)"

definition checked_mul :: "nat \<Rightarrow> nat \<Rightarrow> nat option" where
  "checked_mul a b = (if a * b < 2 ^ 64 then Some (a * b) else None)"

section \<open>Sizes and intervals\<close>

definition size_unit :: "bytes \<Rightarrow> bytes \<times> nat" where
  "size_unit t =
     (if last t \<in> {0x6B, 0x4B} then (butlast t, 1024)
      else if last t \<in> {0x6D, 0x4D} then (butlast t, 1024 * 1024) else (t, 1))"

datatype config_error =
    ConfigIo
  | ConfigParse
  | NoFolders
  | ChunkSizeUnset
  | BadChunkSize bytes string
  | ConfigChunking chunking_error

definition parse_size :: "bytes \<Rightarrow> config_error + nat" where
  "parse_size s =
     (let t = trim s
      in if t = [] then Err (BadChunkSize s ''empty size'')
         else case size_unit t of (digits, multiplier) \<Rightarrow>
           (case parse_u64 digits of
              None \<Rightarrow> Err (BadChunkSize s ''not a number'')
            | Some v \<Rightarrow>
               (case checked_mul v multiplier of None \<Rightarrow> Err (BadChunkSize s ''overflows'') | Some n \<Rightarrow> Ok n)))"

datatype bench_arg_error = EmptySize | InvalidSize bytes | SizeOverflows bytes | SizeNotUsable bytes chunking_error | NoCandidates

definition bench_parse_size :: "bytes \<Rightarrow> bench_arg_error + nat" where
  "bench_parse_size s =
     (let t = trim s
      in if t = [] then Err EmptySize
         else case size_unit t of (digits, multiplier) \<Rightarrow>
           (case parse_u64 digits of
              None \<Rightarrow> Err (InvalidSize t)
            | Some v \<Rightarrow> (case checked_mul v multiplier of None \<Rightarrow> Err (SizeOverflows t) | Some n \<Rightarrow> Ok n)))"

definition size_label :: "u64 \<Rightarrow> bytes" where
  "size_label bs =
     (let n = unat bs
      in if 1024 * 1024 \<le> n \<and> n mod (1024 * 1024) = 0 then decimal (n div (1024 * 1024)) @ [0x4D]
         else if 1024 \<le> n \<and> n mod 1024 = 0 then decimal (n div 1024) @ [0x4B]
         else decimal n @ [0x42])"

definition interval_unit :: "bytes \<Rightarrow> bytes \<times> nat" where
  "interval_unit t =
     (if last t \<in> {0x68, 0x48} then (butlast t, 3600)
      else if last t \<in> {0x6D, 0x4D} then (butlast t, 60)
      else if last t \<in> {0x73, 0x53} then (butlast t, 1) else (t, 1))"

datatype interval_error = EmptyInterval | NotAnInterval bytes | IntervalOverflows

definition parse_duration :: "bytes \<Rightarrow> interval_error + duration" where
  "parse_duration s =
     (let t = trim s
      in if t = [] then Err EmptyInterval
         else case interval_unit t of (digits, multiplier) \<Rightarrow>
           (case parse_u64 digits of
              None \<Rightarrow> Err (NotAnInterval s)
            | Some v \<Rightarrow> (case checked_mul v multiplier of None \<Rightarrow> Err IntervalOverflows | Some secs \<Rightarrow> Ok (from_secs secs))))"

datatype 'e service_error =
    UnsupportedPlatform
  | NotConfigured
  | ExecutablePath
  | Runtime
  | BadInterval bytes
  | IntervalOverflow
  | SvcSchedule schedule_error
  | SvcConfig config_error
  | Scm 'e

definition parse_interval :: "bytes \<Rightarrow> 'e service_error + duration" where
  "parse_interval s =
     (let t = trim s
      in if t = [] then Err (BadInterval s)
         else case interval_unit t of (digits, multiplier) \<Rightarrow>
           (case parse_u64 digits of
              None \<Rightarrow> Err (BadInterval s)
            | Some v \<Rightarrow> (case checked_mul v multiplier of None \<Rightarrow> Err IntervalOverflow | Some secs \<Rightarrow> Ok (from_secs secs))))"

section \<open>The configuration file\<close>

record rpath =
  rp_abs :: bool
  rp_comps :: "bytes list"

definition path_parent :: "rpath \<Rightarrow> rpath option" where
  "path_parent p = (if rp_comps p = [] then None else Some (p\<lparr>rp_comps := butlast (rp_comps p)\<rparr>))"

definition path_join :: "rpath \<Rightarrow> rpath \<Rightarrow> rpath" where
  "path_join base p = (if rp_abs p then p else base\<lparr>rp_comps := rp_comps base @ rp_comps p\<rparr>)"

record client_config =
  cf_daemon :: bytes
  cf_folders :: "rpath list"
  cf_chunk_target_size :: "bytes option"
  cf_compression :: policy_config

definition client_config_load :: "(rpath \<Rightarrow> bytes option) \<Rightarrow> (bytes \<Rightarrow> client_config option) \<Rightarrow> rpath
    \<Rightarrow> config_error + client_config" where
  "client_config_load read toml path =
     (case read path of
        None \<Rightarrow> Err ConfigIo
      | Some txt \<Rightarrow> if \<not> utf8_valid txt then Err ConfigIo else
     (case toml txt of
        None \<Rightarrow> Err ConfigParse
      | Some config \<Rightarrow>
         if cf_folders config = [] then Err NoFolders
         else case path_parent path of
             None \<Rightarrow> Ok config
           | Some base \<Rightarrow> Ok (config\<lparr>cf_folders := map (\<lambda>f. if \<not> rp_abs f then path_join base f else f) (cf_folders config)\<rparr>)))"

definition chunker :: "cdc_limits \<Rightarrow> client_config \<Rightarrow> bool \<Rightarrow> config_error + chunker_config" where
  "chunker L config allow_default =
     (case cf_chunk_target_size config of
        Some value \<Rightarrow>
          and_then (parse_size value) (\<lambda>n. map_err ConfigChunking (chunker_config_with_target L n))
      | None \<Rightarrow>
          if allow_default then map_err ConfigChunking (chunker_config_with_target L DEFAULT_TARGET_SIZE)
          else Err ChunkSizeUnset)"

fun candidate_configs_from :: "cdc_limits \<Rightarrow> nat list \<Rightarrow> bytes list \<Rightarrow> bench_arg_error + chunker_config list" where
  "candidate_configs_from L seen [] = Ok []"
| "candidate_configs_from L seen (raw # rest) =
     and_then (bench_parse_size raw) (\<lambda>target.
       if target \<in> set seen then candidate_configs_from L seen rest
       else and_then (map_err (SizeNotUsable raw) (chunker_config_with_target L target)) (\<lambda>config.
         and_then (candidate_configs_from L (seen @ [target]) rest) (\<lambda>configs. Ok (config # configs))))"

definition candidate_configs :: "cdc_limits \<Rightarrow> bytes list \<Rightarrow> bench_arg_error + chunker_config list" where
  "candidate_configs L sizes =
     and_then (candidate_configs_from L [] sizes) (\<lambda>configs. if configs = [] then Err NoCandidates else Ok configs)"

section \<open>Starting the scheduled loop\<close>

text \<open>The part of \<open>run_scheduled\<close> and of the Windows service that resolves the settings into a request for
  \<open>run_scheduler\<close> and the folders its turns walk.\<close>

record service_run_args =
  sa_config :: rpath
  sa_state :: bytes
  sa_default_chunking :: bool
  sa_interval :: bytes
  sa_jitter :: f64

datatype run_error = RunConfig config_error | RunInterval interval_error | RunSchedule schedule_error

definition run_request_of :: "bytes \<Rightarrow> client_config \<Rightarrow> chunker_config \<Rightarrow> schedule_policy \<Rightarrow> run_request \<times> rpath list" where
  "run_request_of state config ck schedule =
     (\<lparr>rr_daemon_url = cf_daemon config, rr_state_dir = state, rr_chunker = ck, rr_compression = cf_compression config,
       rr_schedule = schedule\<rparr>, cf_folders config)"

definition run_scheduled :: "(rpath \<Rightarrow> bytes option) \<Rightarrow> (bytes \<Rightarrow> client_config option) \<Rightarrow> cdc_limits \<Rightarrow> service_run_args
    \<Rightarrow> run_error + (run_request \<times> rpath list)" where
  "run_scheduled read toml L a =
     and_then (map_err RunConfig (client_config_load read toml (sa_config a))) (\<lambda>config.
     and_then (map_err RunConfig (chunker L config (sa_default_chunking a))) (\<lambda>ck.
     and_then (map_err RunInterval (parse_duration (sa_interval a))) (\<lambda>interval.
     and_then (map_err RunSchedule (schedule_new interval (sa_jitter a))) (\<lambda>schedule.
       Ok (run_request_of (sa_state a) config ck schedule)))))"

definition service_settings :: "(rpath \<Rightarrow> bytes option) \<Rightarrow> (bytes \<Rightarrow> client_config option) \<Rightarrow> cdc_limits \<Rightarrow> service_run_args
    \<Rightarrow> 'e service_error + (run_request \<times> rpath list)" where
  "service_settings read toml L a =
     and_then (map_err SvcConfig (client_config_load read toml (sa_config a))) (\<lambda>config.
     and_then (map_err SvcConfig (chunker L config (sa_default_chunking a))) (\<lambda>ck.
     and_then (parse_interval (sa_interval a)) (\<lambda>interval.
     and_then (map_err SvcSchedule (schedule_new interval (sa_jitter a))) (\<lambda>schedule.
       Ok (run_request_of (sa_state a) config ck schedule)))))"

section \<open>What the parsers accept\<close>

definition numeral_val :: "nat \<Rightarrow> bytes \<Rightarrow> nat" where
  "numeral_val acc ds = foldl (\<lambda>a b. a * 10 + (unat b - 48)) acc ds"

definition signed_numeral :: "bytes \<Rightarrow> nat \<Rightarrow> bool" where
  "signed_numeral s v \<longleftrightarrow>
     (\<exists>ds. (s = ds \<or> s = 0x2B # ds) \<and> ds \<noteq> [] \<and> list_all is_digit ds \<and> v = numeral_val 0 ds)"

lemma numeral_val_simps [simp]: "numeral_val a [] = a" "numeral_val a (b # bs) = numeral_val (a * 10 + (unat b - 48)) bs"
  by (simp_all add: numeral_val_def)

lemma numeral_val_ge: "acc \<le> numeral_val acc ds"
proof (induction ds arbitrary: acc)
  case (Cons b bs)
  have "acc \<le> acc * 10 + (unat b - 48)" by simp
  also have "\<dots> \<le> numeral_val (acc * 10 + (unat b - 48)) bs" by (rule Cons.IH)
  finally show ?case by simp
qed simp

lemma digits_from_iff:
  "acc < 2 ^ 64 \<Longrightarrow> digits_from acc ds = Some v \<longleftrightarrow> list_all is_digit ds \<and> v = numeral_val acc ds \<and> v < 2 ^ 64"
proof (induction ds arbitrary: acc)
  case (Cons b bs)
  let ?a = "acc * 10 + (unat b - 48)"
  have "\<not> ?a < 2 ^ 64 \<Longrightarrow> \<not> numeral_val ?a bs < 2 ^ 64" using numeral_val_ge [of ?a bs] by linarith
  then show ?case using Cons.IH [of ?a] by (cases "?a < 2 ^ 64") (auto simp: Let_def)
qed auto

lemma is_digit_byte: "is_digit b \<Longrightarrow> b \<noteq> 0x2B \<and> b \<noteq> 0x2D"
  unfolding is_digit_def by (auto simp: word_le_nat_alt)

lemma parse_u64_iff: "parse_u64 s = Some v \<longleftrightarrow> signed_numeral s v \<and> v < 2 ^ 64"
proof (cases s)
  case Nil
  then show ?thesis by (simp add: parse_u64_def signed_numeral_def)
next
  case (Cons b bs)
  show ?thesis
  proof (cases "b = 0x2B")
    case True
    have "signed_numeral s v \<longleftrightarrow> bs \<noteq> [] \<and> list_all is_digit bs \<and> v = numeral_val 0 bs"
      using Cons True is_digit_byte [of b] by (auto simp: signed_numeral_def)
    then show ?thesis using Cons True by (auto simp: parse_u64_def digits_from_iff)
  next
    case False
    have "signed_numeral s v \<longleftrightarrow> list_all is_digit s \<and> v = numeral_val 0 s"
      using Cons False by (auto simp: signed_numeral_def)
    moreover have "is_digit b \<Longrightarrow> s \<noteq> [0x2D]" using Cons is_digit_byte by auto
    ultimately show ?thesis using Cons False by (auto simp: parse_u64_def digits_from_iff simp del: digits_from.simps)
  qed
qed

lemma signed_numeral_last: "signed_numeral s v \<Longrightarrow> s \<noteq> [] \<and> is_digit (last s)"
  by (auto simp: signed_numeral_def list_all_iff)

text \<open>A number with a unit: the table of units a splitting function implements.\<close>

locale unit_split =
  fixes U :: "bytes \<Rightarrow> bytes \<times> nat" and units :: "(bytes \<times> nat) list"
  assumes split_sound: "t \<noteq> [] \<Longrightarrow> \<exists>suf. t = fst (U t) @ suf \<and> (suf, snd (U t)) \<in> set units"
    and split_complete: "ds \<noteq> [] \<Longrightarrow> is_digit (last ds) \<Longrightarrow> (suf, m) \<in> set units \<Longrightarrow> U (ds @ suf) = (ds, m)"
    and unit_pos: "(suf, m) \<in> set units \<Longrightarrow> 0 < m"
begin

lemma scaled_iff:
  assumes "t \<noteq> []"
  shows "(\<exists>v. parse_u64 (fst (U t)) = Some v \<and> checked_mul v (snd (U t)) = Some n) \<longleftrightarrow>
    (\<exists>ds suf m v. t = ds @ suf \<and> (suf, m) \<in> set units \<and> signed_numeral ds v \<and> n = v * m \<and> n < 2 ^ 64)"
    (is "?parsed \<longleftrightarrow> ?grammar")
proof
  assume ?parsed
  then obtain v where "signed_numeral (fst (U t)) v" "n = v * snd (U t)" "n < 2 ^ 64"
    by (auto simp: parse_u64_iff checked_mul_def split: if_splits)
  moreover obtain suf where "t = fst (U t) @ suf" "(suf, snd (U t)) \<in> set units" using split_sound [OF assms] by blast
  ultimately show ?grammar by blast
next
  assume ?grammar
  then obtain ds suf m v where g: "t = ds @ suf" "(suf, m) \<in> set units" "signed_numeral ds v" "n = v * m" "n < 2 ^ 64" by blast
  have "U t = (ds, m)" using split_complete [OF _ _ g(2)] signed_numeral_last [OF g(3)] g(1) by simp
  moreover have "v \<le> n" using unit_pos [OF g(2)] g(4) by (cases m) auto
  then have "v < 2 ^ 64" using g(5) by (rule le_less_trans)
  ultimately have "parse_u64 (fst (U t)) = Some v \<and> checked_mul v (snd (U t)) = Some n"
    using g(3-5) by (simp add: parse_u64_iff checked_mul_def)
  then show ?parsed by blast
qed

end

definition SIZE_UNITS :: "(bytes \<times> nat) list" where
  "SIZE_UNITS = [([], 1), ([0x6B], 1024), ([0x4B], 1024), ([0x6D], 1024 * 1024), ([0x4D], 1024 * 1024)]"

definition INTERVAL_UNITS :: "(bytes \<times> nat) list" where
  "INTERVAL_UNITS = [([], 1), ([0x68], 3600), ([0x48], 3600), ([0x6D], 60), ([0x4D], 60), ([0x73], 1), ([0x53], 1)]"

lemma digit_not_unit:
  "is_digit b \<Longrightarrow> b \<notin> {0x6B, 0x4B, 0x6D, 0x4D, 0x68, 0x48, 0x73, 0x53}"
  unfolding is_digit_def by (auto simp: word_le_nat_alt)

interpretation sz: unit_split size_unit SIZE_UNITS
proof
  fix t :: bytes assume "t \<noteq> []"
  then show "\<exists>suf. t = fst (size_unit t) @ suf \<and> (suf, snd (size_unit t)) \<in> set SIZE_UNITS"
    by (cases t rule: rev_cases) (auto simp: size_unit_def SIZE_UNITS_def)
next
  fix ds suf :: bytes and m assume "ds \<noteq> []" "is_digit (last ds)" "(suf, m) \<in> set SIZE_UNITS"
  then show "size_unit (ds @ suf) = (ds, m)"
    using digit_not_unit [of "last ds"] by (auto simp: size_unit_def SIZE_UNITS_def)
qed (auto simp: SIZE_UNITS_def)

interpretation iv: unit_split interval_unit INTERVAL_UNITS
proof
  fix t :: bytes assume "t \<noteq> []"
  then show "\<exists>suf. t = fst (interval_unit t) @ suf \<and> (suf, snd (interval_unit t)) \<in> set INTERVAL_UNITS"
    by (cases t rule: rev_cases) (auto simp: interval_unit_def INTERVAL_UNITS_def)
next
  fix ds suf :: bytes and m assume "ds \<noteq> []" "is_digit (last ds)" "(suf, m) \<in> set INTERVAL_UNITS"
  then show "interval_unit (ds @ suf) = (ds, m)"
    using digit_not_unit [of "last ds"] by (auto simp: interval_unit_def INTERVAL_UNITS_def)
qed (auto simp: INTERVAL_UNITS_def)

lemma parse_size_iff:
  "parse_size s = Ok n \<longleftrightarrow>
     trim s \<noteq> [] \<and> (\<exists>v. parse_u64 (fst (size_unit (trim s))) = Some v \<and> checked_mul v (snd (size_unit (trim s))) = Some n)"
  "bench_parse_size s = Ok n \<longleftrightarrow> parse_size s = Ok n"
  by (auto simp: parse_size_def bench_parse_size_def Let_def split_beta split: option.splits)

lemma parse_duration_iff:
  "parse_duration s = Ok d \<longleftrightarrow> trim s \<noteq> [] \<and> (\<exists>n. d = from_secs n \<and>
     (\<exists>v. parse_u64 (fst (interval_unit (trim s))) = Some v \<and> checked_mul v (snd (interval_unit (trim s))) = Some n))"
  "parse_interval s = Ok d \<longleftrightarrow> parse_duration s = Ok d"
  by (auto simp: parse_duration_def parse_interval_def Let_def split_beta split: option.splits)

text \<open>C39: The size parsers of the configuration file and of the benchmark command accept the same texts: white space
  around an optional plus sign, decimal digits and an optional unit, the value being below \<open>2 ^ 64\<close>; the interval
  parsers of the foreground loop and of the Windows service agree in the same way, with hours, minutes and seconds.\<close>

theorem parsers_accept_grammar:
  "(parse_size s = Ok n \<longleftrightarrow> (\<exists>ds suf m v. trim s = ds @ suf \<and> (suf, m) \<in> set SIZE_UNITS \<and> signed_numeral ds v \<and>
      n = v * m \<and> n < 2 ^ 64)) \<and>
   (bench_parse_size s = Ok n \<longleftrightarrow> parse_size s = Ok n) \<and>
   (parse_duration s = Ok d \<longleftrightarrow> (\<exists>ds suf m v. trim s = ds @ suf \<and> (suf, m) \<in> set INTERVAL_UNITS \<and> signed_numeral ds v \<and>
      d = from_secs (v * m) \<and> v * m < 2 ^ 64)) \<and>
   (parse_interval s = Ok d \<longleftrightarrow> parse_duration s = Ok d)"
proof -
  have ne: "trim s \<noteq> []" if "trim s = ds @ suf" "signed_numeral ds v" for ds suf v
    using signed_numeral_last [OF that(2)] that(1) by auto
  have "parse_size s = Ok n \<longleftrightarrow> (\<exists>ds suf m v. trim s = ds @ suf \<and> (suf, m) \<in> set SIZE_UNITS \<and> signed_numeral ds v \<and>
      n = v * m \<and> n < 2 ^ 64)"
    unfolding parse_size_iff(1) using sz.scaled_iff [of "trim s" n] ne by blast
  moreover have "parse_duration s = Ok d \<longleftrightarrow> (\<exists>ds suf m v. trim s = ds @ suf \<and> (suf, m) \<in> set INTERVAL_UNITS \<and>
      signed_numeral ds v \<and> d = from_secs (v * m) \<and> v * m < 2 ^ 64)"
  proof
    assume "parse_duration s = Ok d"
    then obtain n where n: "d = from_secs n" "trim s \<noteq> []"
      "\<exists>v. parse_u64 (fst (interval_unit (trim s))) = Some v \<and> checked_mul v (snd (interval_unit (trim s))) = Some n"
      unfolding parse_duration_iff(1) by blast
    show "\<exists>ds suf m v. trim s = ds @ suf \<and> (suf, m) \<in> set INTERVAL_UNITS \<and>
        signed_numeral ds v \<and> d = from_secs (v * m) \<and> v * m < 2 ^ 64"
      using iffD1 [OF iv.scaled_iff [OF n(2)] n(3)] n(1) by blast
  next
    assume "\<exists>ds suf m v. trim s = ds @ suf \<and> (suf, m) \<in> set INTERVAL_UNITS \<and>
        signed_numeral ds v \<and> d = from_secs (v * m) \<and> v * m < 2 ^ 64"
    then obtain ds suf m v where g: "trim s = ds @ suf" "(suf, m) \<in> set INTERVAL_UNITS" "signed_numeral ds v"
      "d = from_secs (v * m)" "v * m < 2 ^ 64" by blast
    show "parse_duration s = Ok d"
      unfolding parse_duration_iff(1)
      using iv.scaled_iff [OF ne [OF g(1,3)], of "v * m"] ne [OF g(1,3)] g by blast
  qed
  ultimately show ?thesis by (simp only: parse_size_iff(2) parse_duration_iff(2) simp_thms)
qed

section \<open>Labels\<close>

lemma numeral_val_append: "numeral_val a (xs @ ys) = numeral_val (numeral_val a xs) ys"
  by (simp add: numeral_val_def)

lemma digit_byte: "k < 10 \<Longrightarrow> is_digit (word_of_nat (48 + k)) \<and> unat (word_of_nat (48 + k) :: byte) - 48 = k"
proof -
  assume "k < 10"
  then have "unat (word_of_nat (48 + k) :: byte) = 48 + k"
    by (simp only: unsigned_of_nat) (simp add: take_bit_nat_eq_self)
  then show ?thesis using \<open>k < 10\<close> by (simp add: is_digit_def word_le_nat_alt del: of_nat_add)
qed

lemma decimal_spec: "decimal n \<noteq> [] \<and> list_all is_digit (decimal n) \<and> numeral_val 0 (decimal n) = n"
proof (induction n rule: less_induct)
  case (less n)
  show ?case
  proof (cases "n < 10")
    case True
    then show ?thesis using digit_byte [of n] by (simp add: decimal.simps [of n])
  next
    case False
    then have "decimal n = decimal (n div 10) @ [word_of_nat (48 + n mod 10)]" by (simp add: decimal.simps [of n])
    then show ?thesis using less [of "n div 10"] digit_byte [of "n mod 10"] False by (simp add: numeral_val_append)
  qed
qed

lemma decimal_numeral: "signed_numeral (decimal n) n"
  unfolding signed_numeral_def using decimal_spec [of n] by metis

lemma ws_chars_bounds: "list_all (\<lambda>w. w \<noteq> [] \<and> \<not> (48 \<le> hd w \<and> hd w \<le> 90) \<and> \<not> (48 \<le> last w \<and> last w \<le> 90)) ws_chars"
  by code_simp

lemma trim_with_id:
  assumes "bs \<noteq> []" and "\<forall>w \<in> set ws. w \<noteq> [] \<and> hd w \<noteq> hd bs"
  shows "trim_with ws bs = bs"
proof -
  have "find (\<lambda>w. w \<noteq> [] \<and> w = take (length w) bs) ws = None"
    using assms by (auto simp: find_None_iff) (metis hd_take length_greater_0_conv)
  then show ?thesis by (simp add: trim_with.simps)
qed

lemma trim_id:
  assumes "s \<noteq> []" and "48 \<le> hd s" and "hd s \<le> 90" and "48 \<le> last s" and "last s \<le> 90"
  shows "trim s = s"
proof -
  have "w \<noteq> [] \<and> hd w \<noteq> hd s \<and> last w \<noteq> last s" if "w \<in> set ws_chars" for w
  proof -
    have "w \<noteq> []" "\<not> (48 \<le> hd w \<and> hd w \<le> 90)" "\<not> (48 \<le> last w \<and> last w \<le> 90)"
      using ws_chars_bounds that by (simp_all add: list_all_iff)
    then show ?thesis using assms(2-5) by metis
  qed
  then have "trim_with ws_chars s = s" "trim_with (map rev ws_chars) (rev s) = rev s"
    using trim_with_id [OF assms(1), of ws_chars] trim_with_id [of "rev s" "map rev ws_chars"] assms(1)
    by (auto simp: hd_rev)
  then show ?thesis by (simp add: trim_def)
qed

lemma trim_label: "b \<in> {0x4D, 0x4B, 0x42} \<Longrightarrow> trim (decimal n @ [b]) = decimal n @ [b]"
proof (rule trim_id)
  have "is_digit (hd (decimal n))" using decimal_spec [of n] by (cases "decimal n") auto
  then have "48 \<le> hd (decimal n) \<and> hd (decimal n) \<le> 57" by (simp add: is_digit_def)
  then show "48 \<le> hd (decimal n @ [b])" "hd (decimal n @ [b]) \<le> 90"
    using decimal_spec [of n] by (auto simp: word_le_nat_alt)
qed auto

lemma parse_size_unit:
  assumes "(suf, m) \<in> set SIZE_UNITS" and "trim (decimal v @ suf) = decimal v @ suf" and "v * m < 2 ^ 64"
  shows "parse_size (decimal v @ suf) = Ok (v * m)"
proof -
  have "decimal v @ suf \<noteq> []" using decimal_spec by simp
  then show ?thesis
    unfolding parse_size_iff(1) assms(2) using sz.scaled_iff [of "decimal v @ suf" "v * m"] assms(1,3) decimal_numeral by blast
qed

lemma parse_size_label:
  "parse_size (size_label b) = (if 1024 \<le> unat b \<and> unat b mod 1024 = 0 then Ok (unat b)
     else Err (BadChunkSize (size_label b) ''not a number''))"
proof -
  have lt: "unat b < 2 ^ 64" using unsigned_less [of b] by simp
  consider (mib) "1024 * 1024 \<le> unat b \<and> unat b mod (1024 * 1024) = 0"
    | (kib) "\<not> (1024 * 1024 \<le> unat b \<and> unat b mod (1024 * 1024) = 0)" "1024 \<le> unat b \<and> unat b mod 1024 = 0"
    | (plain) "\<not> (1024 \<le> unat b \<and> unat b mod 1024 = 0)" "\<not> (1024 * 1024 \<le> unat b \<and> unat b mod (1024 * 1024) = 0)"
    by blast
  then show ?thesis
  proof cases
    case mib
    then have "unat b mod 1024 = 0" by (auto simp: mod_eq_0_iff_dvd intro: dvd_trans [of 1024 "1024 * 1024"])
    moreover have v: "unat b div (1024 * 1024) * (1024 * 1024) = unat b" using mib by auto
    ultimately show ?thesis
      using parse_size_unit [of "[0x4D]" "1024 * 1024" "unat b div (1024 * 1024)"] mib lt
      by (simp add: size_label_def Let_def trim_label SIZE_UNITS_def)
  next
    case kib
    then have v: "unat b div 1024 * 1024 = unat b" by auto
    then show ?thesis
      using parse_size_unit [of "[0x4B]" 1024 "unat b div 1024"] kib lt
      by (auto simp: size_label_def Let_def trim_label SIZE_UNITS_def)
  next
    case plain
    have "\<not> signed_numeral (decimal (unat b) @ [0x42]) v" for v
      using signed_numeral_last [of "decimal (unat b) @ [0x42]" v] by (auto simp: is_digit_def word_le_nat_alt)
    then have "parse_u64 (decimal (unat b) @ [0x42]) = None" by (simp add: parse_u64_iff flip: not_Some_eq)
    then show ?thesis
      using plain by (auto simp: size_label_def Let_def parse_size_def trim_label size_unit_def)
  qed
qed

section \<open>Committing a size\<close>

lemma parse_size_bound: "parse_size s = Ok n \<Longrightarrow> n < 2 ^ 64"
  unfolding parse_size_iff(1) by (auto simp: checked_mul_def split: if_splits)

lemma with_target_target: "chunker_config_with_target L n = Ok c \<Longrightarrow> target_size c = n"
  by (auto simp: chunker_config_with_target_def chunker_config_new_def split: if_splits)

lemma candidate_configs_from_Ok:
  "candidate_configs_from L seen sizes = Ok configs \<Longrightarrow>
     distinct (map target_size configs) \<and> set seen \<inter> target_size ` set configs = {} \<and>
     (\<forall>c \<in> set configs. target_size c < 2 ^ 64 \<and> chunker_config_with_target L (target_size c) = Ok c) \<and>
     (\<forall>raw \<in> set sizes. \<exists>n. parse_size raw = Ok n \<and> n \<in> set seen \<union> target_size ` set configs)"
proof (induction L seen sizes arbitrary: configs rule: candidate_configs_from.induct)
  case (2 L seen raw rest)
  obtain tgt where tgt: "parse_size raw = Ok tgt" "bench_parse_size raw = Ok tgt"
    using "2.prems" parse_size_iff(2) [of raw] by (auto simp: and_then_Ok_iff)
  show ?case
  proof (cases "tgt \<in> set seen")
    case True
    then show ?thesis using "2.IH"(1) [OF True, of configs] "2.prems" tgt by auto
  next
    case False
    obtain c cs where c: "chunker_config_with_target L tgt = Ok c" "configs = c # cs"
      "candidate_configs_from L (seen @ [tgt]) rest = Ok cs"
      using "2.prems" tgt(2) False by (auto simp: and_then_Ok_iff)
    then show ?thesis
      using "2.IH"(2) [OF False c(3)] with_target_target [OF c(1)] parse_size_bound [OF tgt(1)] tgt(1) False
      by auto
  qed
qed auto

text \<open>C40: The candidates of a benchmark are distinct, cover every size asked for, and committing a candidate's printed
  label in the configuration file selects exactly that chunker, when its size is a positive number of KiB; the label
  of any other size is refused by the configuration.\<close>

theorem committed_candidate:
  assumes "candidate_configs L sizes = Ok configs" and "c \<in> set configs"
  shows "distinct (map target_size configs) \<and>
    (\<forall>raw \<in> set sizes. \<exists>n. parse_size raw = Ok n \<and> n \<in> target_size ` set configs) \<and>
    chunker L (config\<lparr>cf_chunk_target_size := Some (size_label (word_of_nat (target_size c)))\<rparr>) allow_default =
      (if 1024 \<le> target_size c \<and> target_size c mod 1024 = 0 then Ok c
       else Err (BadChunkSize (size_label (word_of_nat (target_size c))) ''not a number''))"
proof -
  have all: "candidate_configs_from L [] sizes = Ok configs"
    using assms(1) by (auto simp: candidate_configs_def and_then_Ok_iff split: if_splits)
  note k = candidate_configs_from_Ok [OF all]
  have "unat (word_of_nat (target_size c) :: u64) = target_size c"
    using k assms(2) by (simp add: unat_of_nat take_bit_nat_eq_self)
  then show ?thesis using k assms(2) parse_size_label [of "word_of_nat (target_size c)"] by (simp add: chunker_def)
qed

section \<open>The two ways to run the loop\<close>

lemma client_config_load_Ok:
  assumes "client_config_load read toml path = Ok config"
  shows "cf_folders config \<noteq> [] \<and> (rp_abs path \<longrightarrow> rp_comps path \<noteq> [] \<longrightarrow> (\<forall>f \<in> set (cf_folders config). rp_abs f)) \<and>
    (\<exists>txt c. read path = Some txt \<and> toml txt = Some c \<and> cf_daemon config = cf_daemon c)"
  using assms
  by (auto simp: client_config_load_def path_parent_def path_join_def split: option.splits if_splits)

text \<open>The foreground loop and the Windows service resolve the same settings to the same request and the same
  folders, and refuse the same settings. An accepted request has a valid schedule and at least one folder, and with
  an absolute configuration path every folder is absolute.\<close>

theorem service_runs_same_schedule:
  "(service_settings read toml L a = Ok (req, folders) \<longleftrightarrow> run_scheduled read toml L a = Ok (req, folders)) \<and>
   (run_scheduled read toml L a = Ok (req, folders) \<longrightarrow>
     folders \<noteq> [] \<and> schedule_new (sch_interval (rr_schedule req)) (sch_jitter (rr_schedule req)) = Ok (rr_schedule req) \<and>
     parse_duration (sa_interval a) = Ok (sch_interval (rr_schedule req)) \<and>
     (rp_abs (sa_config a) \<and> rp_comps (sa_config a) \<noteq> [] \<longrightarrow> (\<forall>f \<in> set folders. rp_abs f)))"
proof -
  have fields: "schedule_new i j = Ok p \<Longrightarrow> sch_interval p = i \<and> sch_jitter p = j" for i j p
    by (auto simp: schedule_new_def split: if_splits)
  have "service_settings read toml L a = Ok x \<longleftrightarrow> run_scheduled read toml L a = Ok x" for x
    by (auto simp: service_settings_def run_scheduled_def and_then_Ok_iff parse_duration_iff(2))
  moreover have "folders \<noteq> [] \<and> schedule_new (sch_interval (rr_schedule req)) (sch_jitter (rr_schedule req)) = Ok (rr_schedule req) \<and>
     parse_duration (sa_interval a) = Ok (sch_interval (rr_schedule req)) \<and>
     (rp_abs (sa_config a) \<and> rp_comps (sa_config a) \<noteq> [] \<longrightarrow> (\<forall>f \<in> set folders. rp_abs f))"
    if run: "run_scheduled read toml L a = Ok (req, folders)"
  proof -
    obtain config ck i p where c: "client_config_load read toml (sa_config a) = Ok config" "parse_duration (sa_interval a) = Ok i"
      "schedule_new i (sa_jitter a) = Ok p" "run_request_of (sa_state a) config ck p = (req, folders)"
      using run unfolding run_scheduled_def and_then_Ok_iff map_err_Ok_iff by blast
    then show ?thesis
      using client_config_load_Ok [OF c(1)] fields [OF c(3)] by (auto simp: run_request_of_def)
  qed
  ultimately show ?thesis by blast
qed

text \<open>The longest interval the parser takes makes an accepted schedule whose first delay panics: its length in seconds
  rounds up to \<open>2 ^ 64\<close>, which no \<open>Duration\<close> holds.\<close>

definition high_draw :: "unit random_range" where "high_draw lo hi rng = (hi, rng)"

lemma parse_decimal_seconds:
  assumes "n < 2 ^ 64"
  shows "parse_duration (decimal n) = Ok (from_secs n)"
proof -
  have d: "decimal n \<noteq> []" "is_digit (hd (decimal n))" "is_digit (last (decimal n))"
    using decimal_spec [of n] by (cases "decimal n"; auto simp: list_all_iff)+
  then have bounds: "48 \<le> hd (decimal n)" "hd (decimal n) \<le> 90" "48 \<le> last (decimal n)" "last (decimal n) \<le> 90"
    by (simp_all add: is_digit_def word_le_nat_alt)
  have "interval_unit (decimal n) = (decimal n, 1)"
    using iv.split_complete [OF d(1,3), of "[]" 1] by (simp add: INTERVAL_UNITS_def)
  moreover have "parse_u64 (decimal n) = Some n" using assms decimal_numeral by (simp add: parse_u64_iff)
  ultimately show ?thesis
    using d(1) assms by (simp add: parse_duration_def trim_id [OF d(1) bounds] checked_mul_def)
qed

lemma longest_base: "as_secs_f64 (from_secs (2 ^ 64 - 1)) = Fin (pow2 64)"
proof -
  have "f64_round 18446744073709551615 = Fin (pow2 64)"
    using f64_round_eqI [of 63 18446744073709551615 "2 ^ 53"] by (simp add: pow2_def)
  moreover have "f64_round 18446744073709551616 = Fin (pow2 64)"
    using f64_round_eqI [of 64 18446744073709551616 "2 ^ 52"] by (simp add: pow2_def)
  ultimately show ?thesis
    using f64_of_nat_exact [of 0] by (simp add: as_secs_f64_def from_secs_def f64_of_nat_def pow2_def)
qed

lemma longest_interval_panics:
  "\<exists>d p. parse_duration (decimal (2 ^ 64 - 1)) = Ok d \<and> schedule_new d DEFAULT_JITTER = Ok p \<and> range_laws high_draw \<and>
     fst (next_delay high_draw p ()) = None"
proof -
  obtain j where j: "DEFAULT_JITTER = Fin j" "0 < j" "j \<le> 1" by (rule that [OF default_jitter]) simp_all
  let ?p = "\<lparr>sch_interval = from_secs (2 ^ 64 - 1), sch_jitter = DEFAULT_JITTER\<rparr>"
  have s: "schedule_new (from_secs (2 ^ 64 - 1)) DEFAULT_JITTER = Ok ?p" using j(2,3) by (simp add: schedule_new_def from_secs_def j(1))
  obtain f where f: "f64_add (Fin 1) (Fin j) = Fin f" using jitter_factor [of j] j by auto
  have "Fin 1 \<le> f64_round (1 + j)" using j is_double_pow2 [of 0] by (intro f64_round_ge_double) (simp_all add: pow2_def)
  then have "pow2 64 \<le> pow2 64 * f" using f by simp
  then have ge: "Fin (pow2 64) \<le> f64_round (pow2 64 * f)" by (intro f64_round_ge_double is_double_pow2) simp_all
  have jit: "jittered (from_secs (2 ^ 64 - 1)) (Fin j) = from_secs_f64 (f64_max (f64_round (pow2 64 * f)) (Fin 0))"
    unfolding jittered_def longest_base f by simp
  have "jittered (from_secs (2 ^ 64 - 1)) (Fin j) = None"
    unfolding jit
  proof (cases "f64_round (pow2 64 * f)")
    case (Fin y)
    then have y: "pow2 64 \<le> y" using ge by simp
    have "round_half_even (pow2 64 * 10 ^ 9) = 2 ^ 64 * 10 ^ 9"
      using round_half_even_int [of "2 ^ 64 * 10 ^ 9"] by (simp add: pow2_def)
    then have "2 ^ 64 * 10 ^ 9 \<le> round_half_even (y * 10 ^ 9)"
      using round_half_even_mono [of "pow2 64 * 10 ^ 9" "y * 10 ^ 9"] y by simp
    moreover have "\<not> y < 0" using y pow2_sign(2) [of 64] by linarith
    ultimately show "from_secs_f64 (f64_max (f64_round (pow2 64 * f)) (Fin 0)) = None" by (simp add: Fin f64_max_def from_secs_f64_def)
  qed (use ge in \<open>auto simp: f64_max_def from_secs_f64_def\<close>)
  moreover have "range_laws high_draw" by (auto simp: range_laws_def high_draw_def)
  moreover have "DEFAULT_JITTER \<noteq> Fin 0" using j(2) by (simp add: j(1))
  ultimately show ?thesis
    using s j parse_decimal_seconds [of "2 ^ 64 - 1"] by (auto simp: next_delay_def high_draw_def)
qed

section \<open>Witnesses\<close>

definition demo_limits :: cdc_limits where
  "demo_limits = \<lparr>MIN_SIZE_FLOOR = 64, MIN_SIZE_CEILING = 1048576, TARGET_SIZE_FLOOR = 256, TARGET_SIZE_CEILING = 4194304,
     MAX_SIZE_FLOOR = 1024, MAX_SIZE_CEILING = 16777216\<rparr>"

definition demo_config :: client_config where
  "demo_config = \<lparr>cf_daemon = [], cf_folders = [\<lparr>rp_abs = False, rp_comps = [[100]]\<rparr>], cf_chunk_target_size = Some (ascii ''1M''),
     cf_compression = policy_config_default\<rparr>"

lemma demo_candidates:
  "candidate_configs demo_limits [size_label 4096, size_label 4096] = Ok [\<lparr>min_size = 1024, target_size = 4096, max_size = 16384\<rparr>]"
proof -
  have "bench_parse_size (size_label 4096) = Ok 4096" using parse_size_label [of 4096] by (simp add: parse_size_iff(2))
  then show ?thesis
    by (simp add: candidate_configs_def chunker_config_with_target_def chunker_config_new_def
        demo_limits_def usize_saturating_mul_def)
qed

theorem committed_candidate_witness:
  "chunker demo_limits (demo_config\<lparr>cf_chunk_target_size := Some (size_label 4096)\<rparr>) False =
     Ok \<lparr>min_size = 1024, target_size = 4096, max_size = 16384\<rparr>"
  using committed_candidate [OF demo_candidates list.set_intros(1), of demo_config False] by simp

definition demo_args :: service_run_args where
  "demo_args = \<lparr>sa_config = \<lparr>rp_abs = True, rp_comps = [[101], [99]]\<rparr>, sa_state = [], sa_default_chunking = True,
     sa_interval = decimal 5400, sa_jitter = Fin 0\<rparr>"

theorem service_runs_same_schedule_witness:
  "\<exists>req folders. service_settings (\<lambda>_. Some []) (\<lambda>_. Some (demo_config\<lparr>cf_chunk_target_size := None\<rparr>)) demo_limits demo_args =
     (Ok (req, folders) :: unit service_error + _) \<and> sch_interval (rr_schedule req) = from_secs 5400 \<and> (\<forall>f \<in> set folders. rp_abs f)"
proof -
  have i: "parse_duration (decimal 5400) = Ok (from_secs 5400)" by (rule parse_decimal_seconds) simp
  then obtain req folders where r: "run_scheduled (\<lambda>_. Some []) (\<lambda>_. Some (demo_config\<lparr>cf_chunk_target_size := None\<rparr>)) demo_limits demo_args =
     Ok (req, folders)"
    by (simp add: run_scheduled_def client_config_load_def demo_config_def demo_args_def demo_limits_def chunker_def path_parent_def
        DEFAULT_TARGET_SIZE_def chunker_config_with_target_def chunker_config_new_def usize_saturating_mul_def schedule_new_def
        from_secs_def run_request_of_def)
  show ?thesis
    using r i service_runs_same_schedule [where 'a = unit, of "\<lambda>_. Some []" "\<lambda>_. Some (demo_config\<lparr>cf_chunk_target_size := None\<rparr>)" demo_limits demo_args req folders]
    by (auto simp: demo_args_def)
qed

end
