(* ===== verification/Calendar.thy ===== *)
theory Calendar
  imports Client_State "HOL-Library.Signed_Division"
begin

text \<open>
  The dates of the snapshot listing: \<open>civil_from_days\<close> and \<open>format_utc_ms\<close> of \<open>crates/busyncr-client/src/snapshots.rs\<close>,
  and their agreement with the Gregorian calendar, stated by counting days.

  \<^item> The \<open>i64\<close> arithmetic of \<open>civil_from_days\<close> is on integers with the truncating division of the source. Its caller passes
    fewer than \<open>2 ^ 38\<close> days, so no step leaves the range of \<open>i64\<close>.
\<close>

section \<open>The conversion\<close>

definition civil_from_days :: "int \<Rightarrow> int \<times> int \<times> int" where
  "civil_from_days z =
     (let z = z + 719468;
          era = (if 0 \<le> z then z else z - 146096) sdiv 146097;
          doe = z - era * 146097;
          yoe = (doe - doe sdiv 1460 + doe sdiv 36524 - doe sdiv 146096) sdiv 365;
          year = yoe + era * 400;
          doy = doe - (365 * yoe + yoe sdiv 4 - yoe sdiv 100);
          mp = (5 * doy + 2) sdiv 153;
          day = doy - (153 * mp + 2) sdiv 5 + 1;
          month = (if mp < 10 then mp + 3 else mp - 9)
      in (year + (if month \<le> 2 then 1 else 0), month, day))"

text \<open>The width-padded decimal of a formatting directive such as \<open>{:04}\<close>.\<close>

definition padded :: "nat \<Rightarrow> nat \<Rightarrow> bytes" where
  "padded w n = replicate (w - length (decimal n)) 0x30 @ decimal n"

definition format_utc_ms :: "u64 \<Rightarrow> bytes" where
  "format_utc_ms timestamp_ms =
     (let secs = unat timestamp_ms div 1000;
          days = int (secs div 86400);
          rem = secs mod 86400
      in case civil_from_days days of (year, month, day) \<Rightarrow>
           padded 4 (nat year) @ [0x2D] @ padded 2 (nat month) @ [0x2D] @ padded 2 (nat day) @ [0x20] @
           padded 2 (rem div 3600) @ [0x3A] @ padded 2 (rem mod 3600 div 60) @ [0x3A] @ padded 2 (rem mod 60) @ ascii '' UTC'')"

section \<open>The Gregorian calendar\<close>

definition leap_year :: "int \<Rightarrow> bool" where
  "leap_year y \<longleftrightarrow> y mod 4 = 0 \<and> (y mod 100 \<noteq> 0 \<or> y mod 400 = 0)"

definition month_length :: "bool \<Rightarrow> int \<Rightarrow> int" where
  "month_length leap m = (if m = 2 then (if leap then 29 else 28) else if m \<in> {4, 6, 9, 11} then 30 else 31)"

fun next_day :: "int \<times> int \<times> int \<Rightarrow> int \<times> int \<times> int" where
  "next_day (y, m, d) =
     (if d < month_length (leap_year y) m then (y, m, d + 1) else if m < 12 then (y, m + 1, 1) else (y + 1, 1, 1))"

section \<open>Years of an era\<close>

text \<open>The years of a cycle of 400 start in March. \<open>year_start y\<close> is the day on which year \<open>y\<close> starts, also for the end of
  the cycle.\<close>

definition year_start :: "int \<Rightarrow> int" where
  "year_start y = (if y = 400 then 146097 else 365 * y + y div 4 - y div 100)"

definition scaled_day :: "int \<Rightarrow> int" where
  "scaled_day d = d - d div 1460 + d div 36524 - d div 146096"

lemma scaled_day_step: "scaled_day (int n) \<le> scaled_day (int (Suc n))"
proof -
  have s: "scaled_day (int k) = int k - int (k div 1460) + int (k div 36524) - int (k div 146096)" for k
    by (simp add: scaled_day_def zdiv_int)
  have "Suc n mod 146096 = 0 \<Longrightarrow> Suc n mod 36524 = 0" by (auto simp: mod_eq_0_iff_dvd intro: dvd_trans [of 36524 146096])
  then show ?thesis unfolding s by (auto simp: div_Suc)
qed

lemma scaled_day_mono:
  assumes "0 \<le> a" and "a \<le> b"
  shows "scaled_day a \<le> scaled_day b"
proof -
  have "mono (\<lambda>n. scaled_day (int n))" using scaled_day_step by (intro mono_iff_le_Suc [THEN iffD2]) auto
  then show ?thesis using assms by (metis monoD nat_0_le nat_mono order.trans)
qed

lemma year_table:
  "list_all (\<lambda>y. scaled_day (year_start y) div 365 = y \<and> scaled_day (year_start (y + 1) - 1) div 365 = y \<and>
     year_start (y + 1) = year_start y + (if leap_year (y + 1) then 366 else 365)) [0..399]"
  by code_simp

text \<open>Month and day of a day of the year, counted from March; \<open>month_table\<close> covers every step within a year but the last
  of February.\<close>

definition month_day :: "int \<Rightarrow> int \<times> int" where
  "month_day doy =
     (let mp = (5 * doy + 2) div 153
      in (if mp < 10 then mp + 3 else mp - 9, doy - (153 * mp + 2) div 5 + 1))"

lemma month_table:
  "list_all (\<lambda>doy. case (month_day doy, month_day (doy + 1)) of ((m, d), (m', d')) \<Rightarrow>
     1 \<le> m \<and> 1 \<le> d \<and> d \<le> 31 \<and>
     (if d < month_length False m then m' = m \<and> d' = d + 1
      else m \<noteq> 2 \<and> d = month_length False m \<and> d' = 1 \<and> (if m < 12 then m' = m + 1 \<and> (m \<le> 2 \<longleftrightarrow> m' \<le> 2) else m = 12 \<and> m' = 1)))
     [0..363] \<and> month_day 364 = (2, 28) \<and> month_day 365 = (2, 29) \<and> month_day 0 = (3, 1)"
  by code_simp

definition year_length :: "int \<Rightarrow> int" where
  "year_length y = (if leap_year (y + 1) then 366 else 365)"

lemma year_facts:
  assumes "0 \<le> y" and "y < 400"
  shows "scaled_day (year_start y) div 365 = y" and "scaled_day (year_start (y + 1) - 1) div 365 = y"
    and "year_start (y + 1) = year_start y + year_length y"
proof -
  have "y \<in> set [0..399]" using assms by simp
  from bspec [OF year_table [unfolded list_all_iff] this]
  show "scaled_day (year_start y) div 365 = y" "scaled_day (year_start (y + 1) - 1) div 365 = y"
    "year_start (y + 1) = year_start y + year_length y"
    unfolding year_length_def by blast+
qed

lemma year_start_bounds [simp]: "year_start 0 = 0" "year_start 400 = 146097"
  by (simp_all add: year_start_def)

lemma year_start_nonneg: "0 \<le> y \<Longrightarrow> y \<le> 400 \<Longrightarrow> 0 \<le> year_start y"
  by (auto simp: year_start_def)

lemma year_of_day:
  assumes "0 \<le> y" and "y < 400" and "year_start y \<le> doe" and "doe < year_start (y + 1)"
  shows "scaled_day doe div 365 = y"
proof -
  have "scaled_day (year_start y) div 365 \<le> scaled_day doe div 365"
    using assms year_start_nonneg [of y] by (intro zdiv_mono1 scaled_day_mono) auto
  moreover have "scaled_day doe div 365 \<le> scaled_day (year_start (y + 1) - 1) div 365"
    using assms year_start_nonneg [of y] by (intro zdiv_mono1 scaled_day_mono) auto
  ultimately show ?thesis using year_facts(1,2) [OF assms(1,2)] by simp
qed

lemma year_exists:
  assumes "0 \<le> doe" and "doe < year_start (int k)"
  shows "\<exists>y \<ge> 0. y < int k \<and> year_start y \<le> doe \<and> doe < year_start (y + 1)"
  using assms(2)
proof (induction k)
  case (Suc k)
  show ?case
  proof (cases "doe < year_start (int k)")
    case True
    then show ?thesis using Suc.IH by (metis less_trans of_nat_less_iff lessI)
  next
    case False
    then show ?thesis using Suc.prems by (intro exI [of _ "int k"]) (simp add: add.commute)
  qed
qed (use assms(1) in simp)

section \<open>The conversion counts days\<close>

lemma sdiv_nonneg: "0 \<le> a \<Longrightarrow> 0 < b \<Longrightarrow> a sdiv b = a div (b :: int)"
  by (cases "a = 0") (simp_all add: signed_divide_int_def)

lemma era_floor: "(if 0 \<le> z then z else z - 146096) sdiv 146097 = z div (146097 :: int)"
proof (cases "0 \<le> z")
  case False
  then have "(z - 146096) sdiv 146097 = - ((146096 - z) div 146097)" by (simp add: signed_divide_int_def)
  also have "\<dots> = z div 146097"
  proof -
    let ?q = "(146096 - z) div 146097" and ?r = "(146096 - z) mod 146097"
    have "146096 - z = 146097 * ?q + ?r" "0 \<le> ?r" "?r < 146097" by simp_all
    then have "z = 146097 * (- ?q) + (146096 - ?r)" "0 \<le> 146096 - ?r" "146096 - ?r < 146097" by linarith+
    then show ?thesis by (rule int_div_pos_eq [symmetric])
  qed
  finally show ?thesis using False by simp
qed (simp add: sdiv_nonneg)

lemma civil_of_parts:
  assumes "0 \<le> y" and "y < 400" and "0 \<le> doy" and "doy < year_length y"
  shows "civil_from_days (era * 146097 + year_start y + doy - 719468) =
    (case month_day doy of (m, d) \<Rightarrow> (y + era * 400 + (if m \<le> 2 then 1 else 0), m, d))"
proof -
  let ?doe = "year_start y + doy"
  have e: "year_start (y + 1) = year_start y + year_length y" by (rule year_facts(3) [OF assms(1,2)])
  have le: "year_start (y + 1) \<le> 146097"
    using assms by (cases "y = 399") (auto simp: year_start_def)
  have doe: "0 \<le> ?doe" "?doe < 146097" using assms e le year_start_nonneg [of y] by auto
  have era: "(if 0 \<le> era * 146097 + ?doe then era * 146097 + ?doe else era * 146097 + ?doe - 146096) sdiv 146097 = era"
    unfolding era_floor using doe by simp
  have yoe: "(?doe - ?doe sdiv 1460 + ?doe sdiv 36524 - ?doe sdiv 146096) sdiv 365 = y"
  proof -
    have "scaled_day ?doe div 365 = y" using assms e by (intro year_of_day) auto
    moreover have "0 \<le> scaled_day ?doe" using scaled_day_mono [of 0 ?doe] doe by (simp add: scaled_day_def)
    ultimately show ?thesis using doe by (simp add: sdiv_nonneg scaled_day_def)
  qed
  have doy: "?doe - (365 * y + y sdiv 4 - y sdiv 100) = doy" using assms by (simp add: sdiv_nonneg year_start_def)
  have z: "era * 146097 + year_start y + doy - 719468 + 719468 = era * 146097 + ?doe" by simp
  have mp: "0 \<le> (5 * doy + 2) div 153" using assms(3) by simp
  have m: "(5 * doy + 2) sdiv 153 = (5 * doy + 2) div 153"
    "(153 * ((5 * doy + 2) div 153) + 2) sdiv 5 = (153 * ((5 * doy + 2) div 153) + 2) div 5"
    using assms(3) mp by (simp_all only: sdiv_nonneg)
  show ?thesis
    unfolding civil_from_days_def Let_def z era add_diff_cancel_left' yoe doy m month_day_def by simp
qed

lemma day_parts:
  obtains era y doy where "z = era * 146097 + year_start y + doy - 719468" and "0 \<le> y" and "y < 400" and "0 \<le> doy" and "doy < year_length y"
proof -
  let ?doe = "(z + 719468) mod 146097"
  have "0 \<le> ?doe" "?doe < year_start (int 400)" by simp_all
  then obtain y where y: "0 \<le> y" "y < 400" "year_start y \<le> ?doe" "?doe < year_start (y + 1)"
    using year_exists [of ?doe 400] by auto
  have "z + 719468 = (z + 719468) div 146097 * 146097 + ?doe" by simp
  then have "z = (z + 719468) div 146097 * 146097 + year_start y + (?doe - year_start y) - 719468" by linarith
  from that [OF this y(1,2)] show thesis using y year_facts(3) [OF y(1,2)] by simp
qed

lemma leap_year_era: "leap_year (y + era * 400 + 1) = leap_year (y + 1)"
proof -
  have "(y + era * 400 + 1) mod 4 = (y + 1) mod 4" using mod_mult_self1 [of "y + 1" "era * 100" 4] by (simp add: algebra_simps)
  moreover have "(y + era * 400 + 1) mod 100 = (y + 1) mod 100"
    using mod_mult_self1 [of "y + 1" "era * 4" 100] by (simp add: algebra_simps)
  moreover have "(y + era * 400 + 1) mod 400 = (y + 1) mod 400"
    using mod_mult_self1 [of "y + 1" era 400] by (simp add: algebra_simps)
  ultimately show ?thesis by (simp add: leap_year_def)
qed

lemma month_step:
  assumes "0 \<le> doy" and "doy < 364"
  shows "next_day (case month_day doy of (m, d) \<Rightarrow> (y + (if m \<le> 2 then 1 else 0), m, d)) =
    (case month_day (doy + 1) of (m, d) \<Rightarrow> (y + (if m \<le> 2 then 1 else 0), m, d))"
proof -
  obtain m d m' d' where md: "month_day doy = (m, d)" "month_day (doy + 1) = (m', d')" by fastforce
  have "doy \<in> set [0..363]" using assms by simp
  from bspec [OF month_table [THEN conjunct1, unfolded list_all_iff] this]
  have s: "1 \<le> m" "if d < month_length False m then m' = m \<and> d' = d + 1
      else m \<noteq> 2 \<and> d = month_length False m \<and> d' = 1 \<and> (if m < 12 then m' = m + 1 \<and> (m \<le> 2 \<longleftrightarrow> m' \<le> 2) else m = 12 \<and> m' = 1)"
    unfolding md prod.case by blast+
  have l: "month_length False m \<le> month_length b m" "m \<noteq> 2 \<Longrightarrow> month_length b m = month_length False m" for b
    by (simp_all add: month_length_def)
  show ?thesis
  proof (cases "d < month_length False m")
    case True
    then show ?thesis using s(2) l(1) [of "leap_year (y + (if m \<le> 2 then 1 else 0))"] by (simp add: md)
  next
    case False
    then have s': "m \<noteq> 2" "d = month_length False m" "d' = 1" "if m < 12 then m' = m + 1 \<and> (m \<le> 2 \<longleftrightarrow> m' \<le> 2) else m = 12 \<and> m' = 1"
      using s(2) by simp_all
    then show ?thesis using l(2) [OF s'(1), of "leap_year (y + 1)"] l(2) [OF s'(1), of "leap_year y"] by (auto simp: md split: if_splits)
  qed
qed

lemma civil_step: "civil_from_days (z + 1) = next_day (civil_from_days z)"
proof -
  obtain era y doy where z: "z = era * 146097 + year_start y + doy - 719468" and y: "0 \<le> y" "y < 400" and d: "0 \<le> doy" "doy < year_length y"
    by (rule day_parts)
  note c = civil_of_parts [OF y]
  have len: "year_length y = (if leap_year (y + era * 400 + 1) then 366 else 365)" by (simp add: year_length_def leap_year_era)
  have tbl: "month_day 364 = (2, 28)" "month_day 365 = (2, 29)" "month_day 0 = (3, 1)" using month_table by blast+
  show ?thesis
  proof (cases "doy + 1 < year_length y")
    case True
    have z1: "z + 1 = era * 146097 + year_start y + (doy + 1) - 719468" using z by simp
    have d1: "0 \<le> doy + 1" using d(1) by simp
    show ?thesis
    proof (cases "doy < 364")
      case lt: True
      show ?thesis unfolding z1 c [OF d1 True] unfolding z c [OF d] by (rule month_step [OF d(1) lt, symmetric])
    next
      case False
      then have "doy = 364" "leap_year (y + era * 400 + 1)" using True len d by (auto split: if_splits)
      then show ?thesis
        unfolding z1 c [OF d1 True] unfolding z c [OF d] by (simp add: tbl month_length_def)
    qed
  next
    case False
    then have lst: "doy = year_length y - 1" using d by simp
    have fin: "civil_from_days z = (y + era * 400 + 1, 2, month_length (leap_year (y + era * 400 + 1)) 2)"
      unfolding z c [OF d] unfolding lst len by (simp add: tbl month_length_def)
    have z1: "z + 1 = era * 146097 + year_start (y + 1) - 719468" using z lst year_facts(3) [OF y] by simp
    have "civil_from_days (z + 1) = (y + 1 + era * 400, 3, 1)"
    proof (cases "y = 399")
      case True
      have z2: "z + 1 = (era + 1) * 146097 + year_start 0 + 0 - 719468" using z1 True by (simp add: algebra_simps)
      have "civil_from_days (z + 1) = (0 + (era + 1) * 400, 3, 1)"
        unfolding z2 using civil_of_parts [of 0 0 "era + 1"] by (simp only: tbl prod.case) (simp add: year_length_def)
      then show ?thesis using True by simp
    next
      case False
      have "0 < year_length (y + 1)" by (simp add: year_length_def)
      then show ?thesis unfolding z1 using civil_of_parts [of "y + 1" 0 era] False y by (simp add: tbl)
    qed
    then show ?thesis unfolding fin by (simp add: month_length_def)
  qed
qed

lemma civil_counts: "civil_from_days (int n) = (next_day ^^ n) (1970, 1, 1)"
proof (induction n)
  case 0
  show ?case by code_simp
next
  case (Suc n)
  have "civil_from_days (int (Suc n)) = civil_from_days (int n + 1)" by (simp add: add.commute)
  then show ?case unfolding civil_step Suc by simp
qed

section \<open>Formatting\<close>

lemma time_of_day: "r = 3600 * (r div 3600) + 60 * (r mod 3600 div 60) + r mod (60 :: nat)"
proof -
  have "r mod 60 = r mod 3600 mod 60" by (simp add: mod_mod_cancel)
  moreover have "r mod 3600 = 60 * (r mod 3600 div 60) + r mod 3600 mod 60" by simp
  moreover have "r = 3600 * (r div 3600) + r mod 3600" by simp
  ultimately show ?thesis by linarith
qed

text \<open>C38: The printed time of a snapshot is the right one: its date is the one reached from 1970-01-01 by stepping day by
  day through the Gregorian calendar, leap years included, its time of day splits the remaining seconds, and both are
  printed with fixed widths.\<close>

theorem format_utc_ms_correct:
  "\<exists>y m d h mi s. (next_day ^^ (unat t div 86400000)) (1970, 1, 1) = (y, m, d) \<and>
     unat t div 1000 mod 86400 = 3600 * h + 60 * mi + s \<and> h < 24 \<and> mi < 60 \<and> s < 60 \<and>
     format_utc_ms t = padded 4 (nat y) @ [0x2D] @ padded 2 (nat m) @ [0x2D] @ padded 2 (nat d) @ [0x20] @
       padded 2 h @ [0x3A] @ padded 2 mi @ [0x3A] @ padded 2 s @ ascii '' UTC''"
proof -
  let ?r = "unat t div 1000 mod 86400"
  obtain y m d where c: "civil_from_days (int (unat t div 1000 div 86400)) = (y, m, d)" by (metis prod.exhaust)
  have days: "unat t div 86400000 = unat t div 1000 div 86400" by (simp add: div_mult2_eq [symmetric])
  have f: "format_utc_ms t = padded 4 (nat y) @ [0x2D] @ padded 2 (nat m) @ [0x2D] @ padded 2 (nat d) @ [0x20] @
      padded 2 (?r div 3600) @ [0x3A] @ padded 2 (?r mod 3600 div 60) @ [0x3A] @ padded 2 (?r mod 60) @ ascii '' UTC''"
    by (simp only: format_utc_ms_def Let_def c prod.case)
  have "?r < 86400" by simp
  then have b: "?r div 3600 < 24" "?r mod 3600 div 60 < 60" "?r mod 60 < 60" by (simp_all add: less_mult_imp_div_less)
  have n: "(next_day ^^ (unat t div 86400000)) (1970, 1, 1) = (y, m, d)" using c by (simp only: days civil_counts)
  show ?thesis
    by (intro exI [of _ y] exI [of _ m] exI [of _ d] exI [of _ "?r div 3600"] exI [of _ "?r mod 3600 div 60"] exI [of _ "?r mod 60"])
      (intro conjI n time_of_day b f)
qed

end
