(* ===== verification/Restore.thy ===== *)
theory Restore
  imports Backup
begin

text \<open>
  The restore pipeline, \<open>crates/busyncr-client/src/restore.rs\<close>: checking the target, fetching and opening the
  manifest, and reassembling each file chunk by chunk under full verification, on a Unix host.

  The target tree is the list of its files by path below the target directory and the set of its
  directories. A file has the bytes written so far, and the modification time and mode once they are set.
  Every file system call is an \<open>rs_site\<close> that can fail; a failing write leaves \<open>rs_partial\<close> of its bytes.
\<close>

section \<open>Data\<close>

datatype rs_site = RsStat | RsReadDir | RsMakeTarget | RsCreateDir fpath | RsCreate fpath | RsWrite fpath nat | RsSync fpath
  | RsMtime fpath | RsMode fpath

record rs_faults =
  rs_fails :: "rs_site \<Rightarrow> bool"
  rs_partial :: nat

definition rs_no_faults :: rs_faults where "rs_no_faults = \<lparr>rs_fails = (\<lambda>_. False), rs_partial = 0\<rparr>"

datatype restore_error =
    RsIo fpath
  | TargetNotEmpty
  | UnsafePath bytes
  | RsEnroll enroll_error
  | RsRpc grpc_code
  | RsBadResponse string
  | RsManifest manifest_error
  | RsCrypto crypto_error
  | ChunkIdMismatch chunk_id chunk_id
  | CodecDecode chunk_id compression_error
  | SizeMismatch bytes u64 u64

record rfile =
  rf_data :: bytes
  rf_mtime :: "(i64 \<times> u32) option"
  rf_mode :: "u32 option"

record rtree =
  rt_files :: "(fpath \<times> rfile) list"
  rt_dirs :: "fpath set"

datatype target = TargetAbsent | TargetFile | TargetDir bool

record restore_report =
  rr_snapshot_id :: ulid
  rr_files :: u64
  rr_bytes :: u64
  rr_chunks_fetched :: u64

record 's rs_env =
  r_stub :: "'s stub"
  r_aead :: aead
  r_codecs :: codecs
  r_keyed :: "hash32 \<Rightarrow> bytes \<Rightarrow> hash32"

record restore_request =
  rs_daemon_url :: bytes
  rs_state_dir :: bytes
  rs_snapshot_id :: ulid
  rs_target :: target

section \<open>The target\<close>

definition ensure_empty_target :: "rs_faults \<Rightarrow> target \<Rightarrow> restore_error + unit" where
  "ensure_empty_target F t =
     (if rs_fails F RsStat then Err (RsIo [])
      else case t of
          TargetFile \<Rightarrow> Err TargetNotEmpty
        | TargetDir occupied \<Rightarrow> if rs_fails F RsReadDir then Err (RsIo []) else if occupied then Err TargetNotEmpty else Ok ()
        | TargetAbsent \<Rightarrow> if rs_fails F RsMakeTarget then Err (RsIo []) else Ok ())"

text \<open>\<open>str::split('/')\<close>.\<close>

fun split_slash :: "bytes \<Rightarrow> bytes list" where
  "split_slash [] = [[]]"
| "split_slash (b # bs) =
     (if b = slash then [] # split_slash bs
      else case split_slash bs of [] \<Rightarrow> [[b]] | w # ws \<Rightarrow> (b # w) # ws)"

definition unsafe_part :: "bytes \<Rightarrow> bool" where
  "unsafe_part part \<longleftrightarrow> part = [] \<or> part = ascii ''.'' \<or> part = ascii ''..''"

definition sanitize_path :: "bytes \<Rightarrow> restore_error + fpath" where
  "sanitize_path path =
     (let parts = split_slash path
      in if list_ex unsafe_part parts then Err (UnsafePath path)
         else if parts = [] then Err (UnsafePath path)
         else Ok parts)"

section \<open>One file\<close>

definition prefixes_of :: "fpath \<Rightarrow> fpath list" where
  "prefixes_of p = map (\<lambda>n. take n p) [0..<Suc (length p)]"

text \<open>\<open>create_dir_all\<close> fails over a file in the way, and may have created the directories above by then.\<close>

definition make_dirs :: "rs_faults \<Rightarrow> rtree \<Rightarrow> fpath \<Rightarrow> rtree \<times> (restore_error + unit)" where
  "make_dirs F t parent =
     (let free = takeWhile (\<lambda>p. map_of (rt_files t) p = None) (prefixes_of parent)
      in if rs_fails F (RsCreateDir parent)
         then (t\<lparr>rt_dirs := rt_dirs t \<union> set (take (rs_partial F) free)\<rparr>, Err (RsIo parent))
         else if length free < length (prefixes_of parent)
         then (t\<lparr>rt_dirs := rt_dirs t \<union> set free\<rparr>, Err (RsIo parent))
         else (t\<lparr>rt_dirs := rt_dirs t \<union> set (prefixes_of parent)\<rparr>, Ok ()))"

definition create_file :: "rs_faults \<Rightarrow> rtree \<Rightarrow> fpath \<Rightarrow> rtree \<times> (restore_error + unit)" where
  "create_file F t path =
     (if rs_fails F (RsCreate path) \<or> path \<in> rt_dirs t then (t, Err (RsIo path))
      else (t\<lparr>rt_files := AList.update path \<lparr>rf_data = [], rf_mtime = None, rf_mode = None\<rparr> (rt_files t)\<rparr>, Ok ()))"

definition update_file :: "rtree \<Rightarrow> fpath \<Rightarrow> (rfile \<Rightarrow> rfile) \<Rightarrow> rtree" where
  "update_file t path g =
     (case map_of (rt_files t) path of
        None \<Rightarrow> t | Some f \<Rightarrow> t\<lparr>rt_files := AList.update path (g f) (rt_files t)\<rparr>)"

definition append_file :: "rtree \<Rightarrow> fpath \<Rightarrow> bytes \<Rightarrow> rtree" where
  "append_file t path bs = update_file t path (\<lambda>f. f\<lparr>rf_data := rf_data f @ bs\<rparr>)"

record 's rs =
  rs_srv :: 's
  rs_tree :: rtree
  rs_report :: restore_report
  rs_log :: "(restore_report \<times> bool) list"

definition rs_progress :: "bool \<Rightarrow> 's rs \<Rightarrow> 's rs" where
  "rs_progress fin st = st\<lparr>rs_log := rs_log st @ [(rs_report st, fin)]\<rparr>"

definition rs_parse_chunk_id :: "bytes \<Rightarrow> restore_error + chunk_id" where
  "rs_parse_chunk_id bs = (case chunk_id_try_from bs of
     None \<Rightarrow> Err (RsBadResponse ''malformed chunk ID in GetChunks reply'') | Some c \<Rightarrow> Ok c)"

text \<open>Checking one blob against the chunk it must be: it opens only under that identity, decodes, and hashes to it.\<close>

definition open_chunk :: "'s rs_env \<Rightarrow> data_key \<Rightarrow> chunk_id_key \<Rightarrow> chunk_id \<Rightarrow> chunk_blob \<Rightarrow> restore_error + bytes" where
  "open_chunk E key id_key expected blob =
     and_then (rs_parse_chunk_id (cb_chunk_id blob)) (\<lambda>got.
     if got \<noteq> expected then Err (RsBadResponse ''GetChunks streamed a chunk out of the requested order'')
     else
     and_then (map_err RsCrypto (decrypt_chunk (r_aead E) key expected (cb_data blob))) (\<lambda>framed.
     and_then (map_err (CodecDecode expected) (decode_chunk (r_codecs E) framed)) (\<lambda>plaintext.
     let actual = chunk_id_keyed (r_keyed E) id_key plaintext
     in if actual \<noteq> expected then Err (ChunkIdMismatch expected actual) else Ok plaintext)))"

fun receive_chunks :: "'s rs_env \<Rightarrow> rs_faults \<Rightarrow> data_key \<Rightarrow> chunk_id_key \<Rightarrow> fpath \<Rightarrow> nat \<Rightarrow> chunk_id list
    \<Rightarrow> (grpc_code + chunk_blob) list \<Rightarrow> u64 \<Rightarrow> 's rs \<Rightarrow> (restore_error + u64) \<times> 's rs" where
  "receive_chunks E F key id_key path n [] items written st =
     (case items of
        [] \<Rightarrow> (Ok written, st)
      | Err code # _ \<Rightarrow> (Err (RsRpc code), st)
      | Ok _ # _ \<Rightarrow> (Err (RsBadResponse ''GetChunks streamed more chunks than were requested''), st))"
| "receive_chunks E F key id_key path n (expected # ids) items written st =
     (case items of
        [] \<Rightarrow> (Err (RsBadResponse ''GetChunks stream ended before every requested chunk arrived''), st)
      | Err code # _ \<Rightarrow> (Err (RsRpc code), st)
      | Ok blob # items' \<Rightarrow>
         (case open_chunk E key id_key expected blob of
            Err e \<Rightarrow> (Err e, st)
          | Ok plaintext \<Rightarrow>
             if rs_fails F (RsWrite path n)
             then (Err (RsIo path), st\<lparr>rs_tree := append_file (rs_tree st) path (take (rs_partial F) plaintext)\<rparr>)
             else
               let len = word_of_nat (length plaintext); rep = rs_report st
               in receive_chunks E F key id_key path (Suc n) ids items' (written + len)
                    (rs_progress False (st\<lparr>rs_tree := append_file (rs_tree st) path plaintext,
                       rs_report := rep\<lparr>rr_bytes := rr_bytes rep + len, rr_chunks_fetched := rr_chunks_fetched rep + 1\<rparr>\<rparr>))))"

definition fetch_file :: "'s rs_env \<Rightarrow> rs_faults \<Rightarrow> data_key \<Rightarrow> chunk_id_key \<Rightarrow> fpath \<Rightarrow> chunk_id list \<Rightarrow> 's rs
    \<Rightarrow> (restore_error + u64) \<times> 's rs" where
  "fetch_file E F key id_key path ids st =
     (if ids = [] then (Ok 0, st)
      else case get_chunks_call (r_stub E) (map chunk_id_as_bytes ids) (rs_srv st) of
          (Err code, srv) \<Rightarrow> (Err (RsRpc code), st\<lparr>rs_srv := srv\<rparr>)
        | (Ok items, srv) \<Rightarrow> receive_chunks E F key id_key path 0 ids items 0 (st\<lparr>rs_srv := srv\<rparr>))"

definition finish_file :: "rs_faults \<Rightarrow> fpath \<Rightarrow> file_entry \<Rightarrow> 's rs \<Rightarrow> (restore_error + unit) \<times> 's rs" where
  "finish_file F path f st =
     (if rs_fails F (RsSync path) \<or> rs_fails F (RsMtime path) then (Err (RsIo path), st)
      else
        let st1 = st\<lparr>rs_tree := update_file (rs_tree st) path (\<lambda>r. r\<lparr>rf_mtime := Some (fe_mtime_secs f, fe_mtime_nanos f)\<rparr>)\<rparr>
        in if rs_fails F (RsMode path) then (Err (RsIo path), st1)
           else (Ok (), st1\<lparr>rs_tree := update_file (rs_tree st1) path (\<lambda>r. r\<lparr>rf_mode := Some (fe_mode f)\<rparr>)\<rparr>))"

definition restore_file :: "'s rs_env \<Rightarrow> rs_faults \<Rightarrow> data_key \<Rightarrow> chunk_id_key \<Rightarrow> file_entry \<Rightarrow> 's rs
    \<Rightarrow> (restore_error + u64) \<times> 's rs" where
  "restore_file E F key id_key f st =
     (case sanitize_path (fe_path f) of
        Err e \<Rightarrow> (Err e, st)
      | Ok path \<Rightarrow>
     (case make_dirs F (rs_tree st) (butlast path) of
        (t, Err e) \<Rightarrow> (Err e, st\<lparr>rs_tree := t\<rparr>)
      | (t, Ok _) \<Rightarrow>
     (case create_file F t path of
        (t', Err e) \<Rightarrow> (Err e, st\<lparr>rs_tree := t'\<rparr>)
      | (t', Ok _) \<Rightarrow>
     (case fetch_file E F key id_key path (fe_chunks f) (st\<lparr>rs_tree := t'\<rparr>) of
        (Err e, st1) \<Rightarrow> (Err e, st1)
      | (Ok written, st1) \<Rightarrow>
         (case finish_file F path f st1 of
            (Err e, st2) \<Rightarrow> (Err e, st2) | (Ok _, st2) \<Rightarrow> (Ok written, st2))))))"

fun restore_files :: "'s rs_env \<Rightarrow> rs_faults \<Rightarrow> data_key \<Rightarrow> chunk_id_key \<Rightarrow> file_entry list \<Rightarrow> 's rs
    \<Rightarrow> (restore_error + unit) \<times> 's rs" where
  "restore_files E F key id_key [] st = (Ok (), st)"
| "restore_files E F key id_key (f # fs) st =
     (case restore_file E F key id_key f st of
        (Err e, st1) \<Rightarrow> (Err e, st1)
      | (Ok written, st1) \<Rightarrow>
         if written \<noteq> fe_size f then (Err (SizeMismatch (fe_path f) (fe_size f) written), st1)
         else restore_files E F key id_key fs
                (rs_progress False (st1\<lparr>rs_report := (rs_report st1)\<lparr>rr_files := rr_files (rs_report st1) + 1\<rparr>\<rparr>)))"

section \<open>The run\<close>

definition empty_tree :: rtree where "empty_tree = \<lparr>rt_files = [], rt_dirs = {[]}\<rparr>"

definition run_restore :: "'s rs_env \<Rightarrow> (bytes \<Rightarrow> bytes \<Rightarrow> bytes \<Rightarrow> bytes \<Rightarrow> bool) \<Rightarrow> cs_faults \<Rightarrow> cdisk \<Rightarrow> rs_faults
    \<Rightarrow> restore_request \<Rightarrow> 's \<Rightarrow> (restore_error + restore_report) \<times> 's rs" where
  "run_restore E dial Fc d F req srv =
     (let u = rs_snapshot_id req;
          st0 = \<lparr>rs_srv = srv, rs_tree = empty_tree,
                 rs_report = \<lparr>rr_snapshot_id = u, rr_files = 0, rr_bytes = 0, rr_chunks_fetched = 0\<rparr>, rs_log = []\<rparr>
      in case ensure_empty_target F (rs_target req) of
           Err e \<Rightarrow> (Err e, st0)
         | Ok _ \<Rightarrow>
     (case and_then (load_data_key Fc d (rs_state_dir req)) (\<lambda>k.
           and_then (load_chunk_id_key Fc d (rs_state_dir req)) (\<lambda>ik.
           and_then (connect_authenticated dial Fc d (rs_daemon_url req) (rs_state_dir req)) (\<lambda>_. Ok (k, ik)))) of
        Err e \<Rightarrow> (Err (RsEnroll e), st0)
      | Ok (k, ik) \<Rightarrow>
     (case get_manifest_call (r_stub E) (ulid_to_bytes u) srv of
        (Err code, srv1) \<Rightarrow> (Err (RsRpc code), st0\<lparr>rs_srv := srv1\<rparr>)
      | (Ok blob, srv1) \<Rightarrow>
     (case and_then (map_err RsCrypto (decrypt_manifest (r_aead E) k u blob)) (\<lambda>plain. map_err RsManifest (decode plain)) of
        Err e \<Rightarrow> (Err e, st0\<lparr>rs_srv := srv1\<rparr>)
      | Ok m \<Rightarrow>
         (case restore_files E F k ik (files m) (st0\<lparr>rs_srv := srv1\<rparr>) of
            (Err e, st1) \<Rightarrow> (Err e, st1)
          | (Ok _, st1) \<Rightarrow> (Ok (rs_report st1), rs_progress True st1))))))"

end
