(* ===== verification/Restore_Props.thy ===== *)
theory Restore_Props
  imports Restore
begin

text \<open>
  What a restore guarantees: paths stay below the target, only verified bytes are written, and a restore that
  succeeds is complete.
\<close>

section \<open>Paths\<close>

text \<open>Joining components with slashes, the way \<open>walk_dir\<close> builds manifest paths.\<close>

fun join_slash :: "fpath \<Rightarrow> bytes" where
  "join_slash [] = []"
| "join_slash [w] = w"
| "join_slash (w # ws) = w @ slash # join_slash ws"

lemma split_slash_ne [simp]: "split_slash bs \<noteq> []"
  by (induction bs) (auto split: list.splits)

lemma join_split [simp]: "join_slash (split_slash bs) = bs"
proof (induction bs)
  case (Cons b bs)
  obtain w ws where s: "split_slash bs = w # ws" by (cases "split_slash bs") auto
  show ?case
  proof (cases "b = slash")
    case True
    then show ?thesis using Cons s by (cases ws) auto
  next
    case False
    then show ?thesis using Cons s by (cases ws) auto
  qed
qed simp

lemma split_no_slash: "w \<in> set (split_slash bs) \<Longrightarrow> slash \<notin> set w"
  by (induction bs arbitrary: w) (auto split: list.splits if_splits)

lemma split_word: "slash \<notin> set w \<Longrightarrow> split_slash w = [w]"
  by (induction w) auto

lemma split_append: "slash \<notin> set w \<Longrightarrow> split_slash (w @ slash # bs) = w # split_slash bs"
  by (induction w) auto

lemma split_join: "ws \<noteq> [] \<Longrightarrow> (\<forall>w \<in> set ws. slash \<notin> set w) \<Longrightarrow> split_slash (join_slash ws) = ws"
  by (induction ws rule: join_slash.induct) (auto simp: split_word split_append)

lemma sanitize_path_Ok_iff:
  "sanitize_path p = Ok comps \<longleftrightarrow> comps = split_slash p \<and> (\<forall>c \<in> set comps. \<not> unsafe_part c)"
  by (auto simp: sanitize_path_def list_ex_iff Let_def)

lemma sanitize_path_inj: "sanitize_path p = Ok c \<Longrightarrow> sanitize_path q = Ok c \<Longrightarrow> p = q"
  by (metis join_split sanitize_path_Ok_iff)

text \<open>C22: \<open>sanitize_path\<close> accepts exactly the slash-separated paths none of whose components is empty, a dot or two
  dots; the components it returns contain no slash and spell the manifest path again. So an accepted path never
  leaves the target directory, and two entries meet in one file only if their manifest paths are equal.\<close>

theorem sanitize_path_safe:
  "(\<exists>comps. sanitize_path p = Ok comps \<and> comps \<noteq> [] \<and> join_slash comps = p \<and>
      (\<forall>c \<in> set comps. c \<notin> {[], ascii ''.'', ascii ''..''} \<and> slash \<notin> set c)) \<or>
   sanitize_path p = Err (UnsafePath p) \<and> (\<exists>c \<in> set (split_slash p). c \<in> {[], ascii ''.'', ascii ''..''})"
proof (cases "list_ex unsafe_part (split_slash p)")
  case True
  then show ?thesis by (auto simp: sanitize_path_def list_ex_iff unsafe_part_def Let_def)
next
  case False
  then have "sanitize_path p = Ok (split_slash p)" "\<forall>c \<in> set (split_slash p). \<not> unsafe_part c"
    by (auto simp: sanitize_path_def list_ex_iff Let_def)
  then show ?thesis by (auto simp: unsafe_part_def dest: split_no_slash intro!: exI [of _ "split_slash p"])
qed

section \<open>The tree\<close>

lemma map_of_update_file:
  "map_of (rt_files (update_file t path g)) = (map_of (rt_files t))(path := map_option g (map_of (rt_files t) path))"
  by (auto simp: update_file_def fun_eq_iff split: option.split)

lemma dirs_update_file [simp]: "rt_dirs (update_file t path g) = rt_dirs t"
  by (simp add: update_file_def split: option.split)

text \<open>Data that has been verified as far as it goes: the start of the concatenation of chunks whose identities are
  the first ones of the list.\<close>

definition verified :: "(bytes \<Rightarrow> chunk_id) \<Rightarrow> chunk_id list \<Rightarrow> bytes \<Rightarrow> bool" where
  "verified h ids data \<longleftrightarrow> (\<exists>ps n. map h ps = take (length ps) ids \<and> data = take n (concat ps))"

lemma open_chunk_Ok:
  assumes "open_chunk E key ik expected blob = Ok p"
  shows "chunk_id_keyed (r_keyed E) ik p = expected"
  using assms by (auto simp: open_chunk_def and_then_Ok_iff Let_def split: if_splits)

lemma verified_Nil [simp]: "verified h ids []"
  unfolding verified_def by (intro exI [of _ "[]"] exI [of _ 0]) simp

lemma verified_take: "h p = c \<Longrightarrow> verified h (c # ids) (take n p)"
  unfolding verified_def by (intro exI [of _ "[p]"] exI [of _ n]) simp

lemma verified_Cons: "h p = c \<Longrightarrow> verified h ids data \<Longrightarrow> verified h (c # ids) (p @ data)"
  unfolding verified_def
proof (elim exE conjE)
  fix ps n
  assume "h p = c" "map h ps = take (length ps) ids" "data = take n (concat ps)"
  then show "\<exists>ps n. map h ps = take (length ps) (c # ids) \<and> p @ data = take n (concat ps)"
    by (intro exI [of _ "p # ps"] exI [of _ "length p + n"]) simp
qed

lemma verified_concat: "map h ps = ids \<Longrightarrow> verified h ids (concat ps)"
  unfolding verified_def by (intro exI [of _ ps] exI [of _ "length (concat ps)"]) auto

lemma map_of_append_file:
  "map_of (rt_files (append_file t path bs)) =
     (map_of (rt_files t))(path := map_option (\<lambda>f. f\<lparr>rf_data := rf_data f @ bs\<rparr>) (map_of (rt_files t) path))"
  by (simp add: append_file_def map_of_update_file)

lemma dirs_append_file [simp]: "rt_dirs (append_file t path bs) = rt_dirs t"
  by (simp add: append_file_def)

text \<open>Whatever the stream holds, only verified bytes reach the file; when all is received, exactly the chunks asked for.\<close>

lemma receive_chunks_tree:
  assumes "receive_chunks E F key ik path n ids items w st = (r, st')" and "map_of (rt_files (rs_tree st)) path = Some f"
  shows "\<exists>bs. map_of (rt_files (rs_tree st')) = (map_of (rt_files (rs_tree st)))(path \<mapsto> f\<lparr>rf_data := rf_data f @ bs\<rparr>) \<and>
     rt_dirs (rs_tree st') = rt_dirs (rs_tree st) \<and> verified (chunk_id_keyed (r_keyed E) ik) ids bs \<and>
     (\<forall>w'. r = Ok w' \<longrightarrow> (\<exists>ps. map (chunk_id_keyed (r_keyed E) ik) ps = ids \<and> bs = concat ps) \<and>
        w' = w + word_of_nat (length bs))"
  using assms
proof (induction ids arbitrary: n items w st f)
  case Nil
  then have "st' = st" "\<forall>w'. r = Ok w' \<longrightarrow> w' = w" by (auto split: list.splits sum.splits)
  then show ?case using Nil.prems(2) by (intro exI [of _ "[]"]) auto
next
  case (Cons c ids)
  note IH = Cons.IH
  show ?case
  proof (cases "\<exists>blob items' p. items = Ok blob # items' \<and> open_chunk E key ik c blob = Ok p")
    case False
    then have "st' = st" "\<forall>w'. r \<noteq> Ok w'" using Cons.prems(1) by (auto split: list.splits sum.splits)
    then show ?thesis using Cons.prems(2) by (intro exI [of _ "[]"]) auto
  next
    case True
    then obtain blob items' p where items: "items = Ok blob # items'" and p: "open_chunk E key ik c blob = Ok p" by blast
    note h = open_chunk_Ok [OF p]
    show ?thesis
    proof (cases "rs_fails F (RsWrite path n)")
      case True
      then show ?thesis using Cons.prems items p h
        by (intro exI [of _ "take (rs_partial F) p"]) (auto simp: map_of_append_file verified_take)
    next
      case False
      define st1 where "st1 = rs_progress False (st\<lparr>rs_tree := append_file (rs_tree st) path p,
         rs_report := (rs_report st)\<lparr>rr_bytes := rr_bytes (rs_report st) + word_of_nat (length p),
           rr_chunks_fetched := rr_chunks_fetched (rs_report st) + 1\<rparr>\<rparr>)"
      have t1: "rs_tree st1 = append_file (rs_tree st) path p" by (simp add: st1_def rs_progress_def)
      have call: "receive_chunks E F key ik path (Suc n) ids items' (w + word_of_nat (length p)) st1 = (r, st')"
        using Cons.prems(1) items p False by (simp add: Let_def st1_def)
      have "map_of (rt_files (rs_tree st1)) path = Some (f\<lparr>rf_data := rf_data f @ p\<rparr>)"
        using Cons.prems(2) by (simp add: t1 map_of_append_file)
      from IH [OF call this] obtain bs where bs:
        "map_of (rt_files (rs_tree st')) = (map_of (rt_files (rs_tree st1)))(path \<mapsto>
           (f\<lparr>rf_data := rf_data f @ p\<rparr>)\<lparr>rf_data := rf_data (f\<lparr>rf_data := rf_data f @ p\<rparr>) @ bs\<rparr>)"
        "rt_dirs (rs_tree st') = rt_dirs (rs_tree st1)" "verified (chunk_id_keyed (r_keyed E) ik) ids bs"
        "\<forall>w'. r = Ok w' \<longrightarrow> (\<exists>ps. map (chunk_id_keyed (r_keyed E) ik) ps = ids \<and> bs = concat ps) \<and>
           w' = w + word_of_nat (length p) + word_of_nat (length bs)"
        by blast
      have ok: "(\<exists>ps. map (chunk_id_keyed (r_keyed E) ik) ps = c # ids \<and> p @ bs = concat ps)" if eq: "r = Ok w'" for w'
      proof -
        obtain ps where "map (chunk_id_keyed (r_keyed E) ik) ps = ids" "bs = concat ps" using bs(4) eq by blast
        then show ?thesis using h by (intro exI [of _ "p # ps"]) simp
      qed
      have "map_of (rt_files (rs_tree st')) = (map_of (rt_files (rs_tree st)))(path \<mapsto> f\<lparr>rf_data := rf_data f @ p @ bs\<rparr>)"
        using bs(1) by (simp add: t1 map_of_append_file)
      moreover have "rt_dirs (rs_tree st') = rt_dirs (rs_tree st)" using bs(2) by (simp add: t1)
      moreover have "verified (chunk_id_keyed (r_keyed E) ik) (c # ids) (p @ bs)" using h bs(3) by (rule verified_Cons)
      ultimately show ?thesis using bs(4) ok by (intro exI [of _ "p @ bs"]) (simp add: add.assoc)
    qed
  qed
qed

lemma fetch_file_tree:
  assumes "fetch_file E F key ik path ids st = (r, st')" and "map_of (rt_files (rs_tree st)) path = Some f"
  shows "\<exists>bs. map_of (rt_files (rs_tree st')) = (map_of (rt_files (rs_tree st)))(path \<mapsto> f\<lparr>rf_data := rf_data f @ bs\<rparr>) \<and>
     rt_dirs (rs_tree st') = rt_dirs (rs_tree st) \<and> verified (chunk_id_keyed (r_keyed E) ik) ids bs \<and>
     (\<forall>w'. r = Ok w' \<longrightarrow> (\<exists>ps. map (chunk_id_keyed (r_keyed E) ik) ps = ids \<and> bs = concat ps) \<and>
        w' = word_of_nat (length bs))"
proof (cases "ids = []")
  case True
  then show ?thesis using assms by (intro exI [of _ "[]"]) (auto simp: fetch_file_def)
next
  case False
  show ?thesis
  proof (cases "get_chunks_call (r_stub E) (map chunk_id_as_bytes ids) (rs_srv st)")
    case (Pair res srv)
    show ?thesis
    proof (cases res)
      case (Inl code)
      then show ?thesis using assms Pair False by (intro exI [of _ "[]"]) (auto simp: fetch_file_def)
    next
      case (Inr items)
      then have call: "receive_chunks E F key ik path 0 ids items 0 (st\<lparr>rs_srv := srv\<rparr>) = (r, st')"
        using assms(1) Pair False by (simp add: fetch_file_def)
      have "map_of (rt_files (rs_tree (st\<lparr>rs_srv := srv\<rparr>))) path = Some f" using assms(2) by simp
      from receive_chunks_tree [OF call this] show ?thesis by simp
    qed
  qed
qed

definition new_file :: rfile where "new_file = \<lparr>rf_data = [], rf_mtime = None, rf_mode = None\<rparr>"

lemma restore_file_cases:
  assumes "restore_file E F key ik f st = (r, st')"
  obtains (untouched) e where "rt_files (rs_tree st') = rt_files (rs_tree st)" "r = Err e"
  | (opened) path t r3 st1 where "sanitize_path (fe_path f) = Ok path"
      "map_of (rt_files t) = (map_of (rt_files (rs_tree st)))(path \<mapsto> new_file)"
      "fetch_file E F key ik path (fe_chunks f) (st\<lparr>rs_tree := t\<rparr>) = (r3, st1)"
      "case r3 of Err e \<Rightarrow> r = Err e \<and> st' = st1
        | Ok w \<Rightarrow> \<exists>r4. finish_file F path f st1 = (r4, st') \<and> r = (case r4 of Err e \<Rightarrow> Err e | Ok _ \<Rightarrow> Ok w)"
proof (cases "sanitize_path (fe_path f)")
  case (Inl e)
  then show thesis using assms by (intro untouched) (auto simp: restore_file_def)
next
  case path: (Inr path)
  obtain t r1 where t: "make_dirs F (rs_tree st) (butlast path) = (t, r1)" by force
  obtain t' r2 where t': "create_file F t path = (t', r2)" by force
  have tf: "rt_files t = rt_files (rs_tree st)" using t by (auto simp: make_dirs_def Let_def split: if_splits)
  show thesis
  proof (cases "(\<exists>u. r1 = Ok u) \<and> (\<exists>u. r2 = Ok u)")
    case False
    then have "rt_files (rs_tree st') = rt_files (rs_tree st)" "\<exists>e. r = Err e"
      using assms path t t' tf
      by (auto simp: restore_file_def create_file_def split: sum.splits if_splits)
    then show thesis using untouched by blast
  next
    case True
    obtain r3 st1 where fetch: "fetch_file E F key ik path (fe_chunks f) (st\<lparr>rs_tree := t'\<rparr>) = (r3, st1)" by force
    have "map_of (rt_files t') = (map_of (rt_files (rs_tree st)))(path \<mapsto> new_file)"
      using t' True by (auto simp: create_file_def new_file_def tf split: if_splits)
    then show thesis using True assms path t t' fetch
      by (intro opened [of path t' r3 st1]) (auto simp: restore_file_def split: sum.splits prod.splits)
  qed
qed

lemma finish_file_tree:
  assumes "finish_file F path f st = (r, st')" and "map_of (rt_files (rs_tree st)) path = Some g"
  shows "\<exists>g'. map_of (rt_files (rs_tree st')) = (map_of (rt_files (rs_tree st)))(path \<mapsto> g') \<and> rf_data g' = rf_data g \<and>
     (r = Ok () \<longrightarrow> g' = \<lparr>rf_data = rf_data g, rf_mtime = Some (fe_mtime_secs f, fe_mtime_nanos f), rf_mode = Some (fe_mode f)\<rparr>)"
  using assms by (auto simp: finish_file_def Let_def map_of_update_file fun_eq_iff split: if_splits)

abbreviation restored :: "bytes \<Rightarrow> file_entry \<Rightarrow> rfile" where
  "restored data f \<equiv> \<lparr>rf_data = data, rf_mtime = Some (fe_mtime_secs f, fe_mtime_nanos f), rf_mode = Some (fe_mode f)\<rparr>"

lemma restore_file_tree:
  assumes "restore_file E F key ik f st = (r, st')"
  shows "(\<forall>p. map_of (rt_files (rs_tree st')) p = map_of (rt_files (rs_tree st)) p \<or>
       (sanitize_path (fe_path f) = Ok p \<and> (\<exists>g. map_of (rt_files (rs_tree st')) p = Some g \<and>
          verified (chunk_id_keyed (r_keyed E) ik) (fe_chunks f) (rf_data g)))) \<and>
     (\<forall>w. r = Ok w \<longrightarrow> (\<exists>path ps. sanitize_path (fe_path f) = Ok path \<and>
        map (chunk_id_keyed (r_keyed E) ik) ps = fe_chunks f \<and> w = word_of_nat (length (concat ps)) \<and>
        map_of (rt_files (rs_tree st')) = (map_of (rt_files (rs_tree st)))(path \<mapsto> restored (concat ps) f)))"
  using assms
proof (cases rule: restore_file_cases)
  case untouched
  then show ?thesis by simp
next
  case (opened path t r3 st1)
  let ?h = "chunk_id_keyed (r_keyed E) ik"
  have "map_of (rt_files (rs_tree (st\<lparr>rs_tree := t\<rparr>))) path = Some new_file" by (simp add: opened(2))
  from fetch_file_tree [OF opened(3) this] obtain bs where
    bs: "map_of (rt_files (rs_tree st1)) = (map_of (rt_files (rs_tree st)))(path \<mapsto> new_file\<lparr>rf_data := bs\<rparr>)"
    and v: "verified ?h (fe_chunks f) bs"
    and ok: "\<And>w. r3 = Ok w \<Longrightarrow> (\<exists>ps. map ?h ps = fe_chunks f \<and> bs = concat ps) \<and> w = word_of_nat (length bs)"
    by (auto simp: opened(2) new_file_def)
  show ?thesis
  proof (cases r3)
    case (Inl e)
    then show ?thesis using opened bs v by auto
  next
    case (Inr w)
    then obtain r4 where fin: "finish_file F path f st1 = (r4, st')" and r: "r = (case r4 of Err e \<Rightarrow> Err e | Ok _ \<Rightarrow> Ok w)"
      using opened(4) by auto
    have "map_of (rt_files (rs_tree st1)) path = Some (new_file\<lparr>rf_data := bs\<rparr>)" by (simp add: bs)
    from finish_file_tree [OF fin this] obtain g where
      g: "map_of (rt_files (rs_tree st')) = (map_of (rt_files (rs_tree st)))(path \<mapsto> g)" "rf_data g = bs"
        "r4 = Ok () \<Longrightarrow> g = restored bs f"
      by (auto simp: bs)
    then show ?thesis using opened(1) v ok [OF Inr] r by (auto split: sum.splits)
  qed
qed

lemma restore_files_safe:
  assumes "restore_files E F key ik fs st = (r, st')"
    and "map_of (rt_files (rs_tree st')) p = Some g"
  shows "map_of (rt_files (rs_tree st)) p = Some g \<or>
     (\<exists>f \<in> set fs. sanitize_path (fe_path f) = Ok p \<and> verified (chunk_id_keyed (r_keyed E) ik) (fe_chunks f) (rf_data g))"
  using assms
proof (induction fs arbitrary: st)
  case (Cons f fs)
  obtain r1 st1 where one: "restore_file E F key ik f st = (r1, st1)" by force
  note tree = conjunct1 [OF restore_file_tree [OF one], rule_format, of p]
  show ?case
  proof (cases "\<exists>w. r1 = Ok w \<and> w = fe_size f")
    case False
    then have "st' = st1" using Cons.prems(1) one by (auto split: sum.splits if_splits)
    then show ?thesis using tree Cons.prems(2) by auto
  next
    case True
    let ?st2 = "rs_progress False (st1\<lparr>rs_report := (rs_report st1)\<lparr>rr_files := rr_files (rs_report st1) + 1\<rparr>\<rparr>)"
    have "restore_files E F key ik fs ?st2 = (r, st')" using Cons.prems(1) one True by auto
    moreover have "rs_tree ?st2 = rs_tree st1" by (simp add: rs_progress_def)
    ultimately show ?thesis using Cons.IH [of ?st2] Cons.prems(2) tree by auto
  qed
qed simp

lemma restore_files_complete:
  assumes "restore_files E F key ik fs st = (Ok u, st')" and "distinct (map fe_path fs)"
  shows "(\<forall>f \<in> set fs. \<exists>path ps. sanitize_path (fe_path f) = Ok path \<and>
        map (chunk_id_keyed (r_keyed E) ik) ps = fe_chunks f \<and> fe_size f = word_of_nat (length (concat ps)) \<and>
        map_of (rt_files (rs_tree st')) path = Some (restored (concat ps) f)) \<and>
     (\<forall>p. (\<forall>f \<in> set fs. sanitize_path (fe_path f) \<noteq> Ok p) \<longrightarrow> map_of (rt_files (rs_tree st')) p = map_of (rt_files (rs_tree st)) p)"
  using assms
proof (induction fs arbitrary: st)
  case (Cons f fs)
  obtain r1 st1 where one: "restore_file E F key ik f st = (r1, st1)" by force
  then have r1: "r1 = Ok (fe_size f)" using Cons.prems(1) by (auto split: sum.splits if_splits)
  let ?st2 = "rs_progress False (st1\<lparr>rs_report := (rs_report st1)\<lparr>rr_files := rr_files (rs_report st1) + 1\<rparr>\<rparr>)"
  have st2: "rs_tree ?st2 = rs_tree st1" by (simp add: rs_progress_def)
  have rest: "restore_files E F key ik fs ?st2 = (Ok u, st')" using Cons.prems(1) one r1 by simp
  obtain path ps where p: "sanitize_path (fe_path f) = Ok path" "map (chunk_id_keyed (r_keyed E) ik) ps = fe_chunks f"
    "fe_size f = word_of_nat (length (concat ps))"
    "map_of (rt_files (rs_tree st1)) = (map_of (rt_files (rs_tree st)))(path \<mapsto> restored (concat ps) f)"
    using restore_file_tree [OF one] r1 by blast
  have ih: "\<forall>f \<in> set fs. \<exists>path ps. sanitize_path (fe_path f) = Ok path \<and>
        map (chunk_id_keyed (r_keyed E) ik) ps = fe_chunks f \<and> fe_size f = word_of_nat (length (concat ps)) \<and>
        map_of (rt_files (rs_tree st')) path = Some (restored (concat ps) f)"
    "\<And>p. (\<forall>f \<in> set fs. sanitize_path (fe_path f) \<noteq> Ok p) \<Longrightarrow> map_of (rt_files (rs_tree st')) p = map_of (rt_files (rs_tree st1)) p"
    using Cons.IH [OF rest] Cons.prems(2) st2 by auto
  have "\<forall>f' \<in> set fs. sanitize_path (fe_path f') \<noteq> Ok path"
    using Cons.prems(2) p(1) sanitize_path_inj by fastforce
  then have "map_of (rt_files (rs_tree st')) path = Some (restored (concat ps) f)" using ih(2) [of path] p(4) by simp
  then show ?case using ih p by auto
qed simp

section \<open>What a restore writes\<close>

lemma run_restore_cases:
  assumes "run_restore E dial Fc d F req srv = (r, st)"
  obtains (early) e where "rs_tree st = empty_tree" "r = Err e"
  | (ran) k ik blob srv1 plain m r' st1 where "load_data_key Fc d (rs_state_dir req) = Ok k"
      "load_chunk_id_key Fc d (rs_state_dir req) = Ok ik"
      "get_manifest_call (r_stub E) (ulid_to_bytes (rs_snapshot_id req)) srv = (Ok blob, srv1)"
      "decrypt_manifest (r_aead E) k (rs_snapshot_id req) blob = Ok plain" "decode plain = Ok m"
      "restore_files E F k ik (files m) \<lparr>rs_srv = srv1, rs_tree = empty_tree, rs_report = \<lparr>rr_snapshot_id = rs_snapshot_id req,
         rr_files = 0, rr_bytes = 0, rr_chunks_fetched = 0\<rparr>, rs_log = []\<rparr> = (r', st1)"
      "rs_tree st = rs_tree st1" "(\<exists>u. r' = Ok u) \<longleftrightarrow> (\<exists>rep. r = Ok rep)"
  using assms
  by (auto simp: run_restore_def Let_def and_then_Ok_iff rs_progress_def split: sum.splits prod.splits)

text \<open>C3: A restore writes only verified bytes. Whatever the daemon answers and whichever call fails, every file in
  the target belongs to an entry of the manifest, which opened under the client's key for this snapshot, and
  holds the start of a concatenation of plaintexts whose keyed hashes are the chunk identities of that entry, in
  order.\<close>

theorem restore_writes_only_verified:
  assumes "run_restore E dial Fc d F req srv = (r, st)" and "map_of (rt_files (rs_tree st)) p = Some g"
  shows "\<exists>k ik blob srv1 plain m f. load_data_key Fc d (rs_state_dir req) = Ok k \<and>
    load_chunk_id_key Fc d (rs_state_dir req) = Ok ik \<and>
    get_manifest_call (r_stub E) (ulid_to_bytes (rs_snapshot_id req)) srv = (Ok blob, srv1) \<and>
    decrypt_manifest (r_aead E) k (rs_snapshot_id req) blob = Ok plain \<and> decode plain = Ok m \<and>
    f \<in> set (files m) \<and> sanitize_path (fe_path f) = Ok p \<and>
    verified (chunk_id_keyed (r_keyed E) ik) (fe_chunks f) (rf_data g)"
  using assms(1)
proof (cases rule: run_restore_cases)
  case early
  then show ?thesis using assms(2) by (simp add: empty_tree_def)
next
  case (ran k ik blob srv1 plain m r' st1)
  have "\<exists>f \<in> set (files m). sanitize_path (fe_path f) = Ok p \<and> verified (chunk_id_keyed (r_keyed E) ik) (fe_chunks f) (rf_data g)"
    using restore_files_safe [OF ran(6), of p g] assms(2) ran(7) by (simp add: empty_tree_def)
  then show ?thesis using ran(1-5) by blast
qed

text \<open>C12: A restore that succeeds is complete. If the manifest paths are distinct, every entry's file exists with
  the recorded modification time and mode, its bytes are chunks that hash to exactly the entry's identities and
  add up to the recorded size, and there are no other files.\<close>

theorem restore_complete:
  assumes "run_restore E dial Fc d F req srv = (Ok rep, st)"
  shows "\<exists>k ik blob srv1 plain m. load_data_key Fc d (rs_state_dir req) = Ok k \<and>
    load_chunk_id_key Fc d (rs_state_dir req) = Ok ik \<and>
    get_manifest_call (r_stub E) (ulid_to_bytes (rs_snapshot_id req)) srv = (Ok blob, srv1) \<and>
    decrypt_manifest (r_aead E) k (rs_snapshot_id req) blob = Ok plain \<and> decode plain = Ok m \<and>
    (distinct (map fe_path (files m)) \<longrightarrow>
      (\<forall>f \<in> set (files m). \<exists>path ps. sanitize_path (fe_path f) = Ok path \<and>
        map (chunk_id_keyed (r_keyed E) ik) ps = fe_chunks f \<and> fe_size f = word_of_nat (length (concat ps)) \<and>
        map_of (rt_files (rs_tree st)) path = Some \<lparr>rf_data = concat ps,
          rf_mtime = Some (fe_mtime_secs f, fe_mtime_nanos f), rf_mode = Some (fe_mode f)\<rparr>) \<and>
      (\<forall>p g. map_of (rt_files (rs_tree st)) p = Some g \<longrightarrow> (\<exists>f \<in> set (files m). sanitize_path (fe_path f) = Ok p)))"
  using assms
proof (cases rule: run_restore_cases)
  case (ran k ik blob srv1 plain m r' st1)
  then obtain u where r': "r' = Ok u" by auto
  let ?st0 = "\<lparr>rs_srv = srv1, rs_tree = empty_tree, rs_report = \<lparr>rr_snapshot_id = rs_snapshot_id req,
         rr_files = 0, rr_bytes = 0, rr_chunks_fetched = 0\<rparr>, rs_log = []\<rparr>"
  have none: "map_of (rt_files (rs_tree ?st0)) p = None" for p by (simp add: empty_tree_def)
  show ?thesis
  proof (rule exI [of _ k], rule exI [of _ ik], rule exI [of _ blob], rule exI [of _ srv1], rule exI [of _ plain],
      rule exI [of _ m], intro conjI impI)
    assume d: "distinct (map fe_path (files m))"
    note c = restore_files_complete [OF ran(6) [unfolded r'] d]
    show "\<forall>f \<in> set (files m). \<exists>path ps. sanitize_path (fe_path f) = Ok path \<and>
        map (chunk_id_keyed (r_keyed E) ik) ps = fe_chunks f \<and> fe_size f = word_of_nat (length (concat ps)) \<and>
        map_of (rt_files (rs_tree st)) path = Some (restored (concat ps) f)"
      using conjunct1 [OF c] ran(7) by simp
    show "\<forall>p g. map_of (rt_files (rs_tree st)) p = Some g \<longrightarrow> (\<exists>f \<in> set (files m). sanitize_path (fe_path f) = Ok p)"
    proof (intro allI impI)
      fix p g
      assume "map_of (rt_files (rs_tree st)) p = Some g"
      then have "map_of (rt_files (rs_tree st1)) p \<noteq> map_of (rt_files (rs_tree ?st0)) p" using none ran(7) by simp
      then show "\<exists>f \<in> set (files m). sanitize_path (fe_path f) = Ok p" using conjunct2 [OF c] by blast
    qed
  qed (fact ran(1-5))+
qed simp

section \<open>A concrete restore\<close>

text \<open>One file of two bytes, whose chunk is stored as it is, served by a daemon that answers nothing else.\<close>

definition demo_entry :: file_entry where
  "demo_entry = \<lparr>fe_path = ascii ''r/a'', fe_size = 2, fe_mtime_secs = 1, fe_mtime_nanos = 3, fe_mode = 0x1A4, fe_chunks = [0]\<rparr>"

definition demo_keys :: cdisk where
  "demo_keys = [(([], DATA_KEY_FILE), replicate 32 0), (([], CHUNK_ID_KEY_FILE), replicate 32 0),
     (([], CLIENT_CA_FILE), []), (([], CLIENT_CERT_FILE), []), (([], CLIENT_KEY_FILE), [])]"

definition demo_stub :: "unit stub" where
  "demo_stub = \<lparr>list_snapshots_call = (\<lambda>s. (Ok [], s)), has_chunks_call = (\<lambda>_ s. (Ok [], s)),
     upload_chunks_call = (\<lambda>_ s. (Ok (0, 0), s)), put_manifest_call = (\<lambda>_ _ _ s. (Ok (), s)),
     get_manifest_call = (\<lambda>_ s. (and_then (map_err (\<lambda>_. Internal) (encode \<lparr>snapshot_id = 7, created_at = 0, files = [demo_entry]\<rparr>))
        (\<lambda>bs. map_err (\<lambda>_. Internal) (fst (encrypt_manifest tag_aead zero_fill 0 7 bs ()))), s)),
     get_chunks_call = (\<lambda>_ s. (Ok [Ok \<lparr>cb_chunk_id = chunk_id_as_bytes 0,
        cb_data = replicate 24 0 @ [0, 5, 6] @ replicate 16 0\<rparr>], s))\<rparr>"

abbreviation demo_rs_env :: "unit rs_env" where
  "demo_rs_env \<equiv> \<lparr>r_stub = demo_stub, r_aead = tag_aead, r_codecs = run_codec, r_keyed = (\<lambda>_ _. 0)\<rparr>"

definition demo_restore :: "(restore_error + restore_report) \<times> unit rs" where
  "demo_restore = run_restore demo_rs_env (\<lambda>_ _ _ _. True) cs_no_faults demo_keys rs_no_faults
     \<lparr>rs_daemon_url = [], rs_state_dir = [], rs_snapshot_id = 7, rs_target = TargetAbsent\<rparr> ()"

lemma demo_load:
  "and_then (load_data_key cs_no_faults demo_keys []) (\<lambda>k. and_then (load_chunk_id_key cs_no_faults demo_keys []) (\<lambda>ik.
     and_then (connect_authenticated (\<lambda>_ _ _ _. True) cs_no_faults demo_keys [] []) (\<lambda>_. Ok (k, ik)))) = Ok (0, 0)"
  by code_simp

lemma demo_open_chunk:
  "open_chunk demo_rs_env 0 0 0 \<lparr>cb_chunk_id = chunk_id_as_bytes 0, cb_data = replicate 24 0 @ [0, 5, 6] @ replicate 16 0\<rparr> = Ok [5, 6]"
  by (simp add: open_chunk_def rs_parse_chunk_id_def decrypt_chunk_def open_blob_def crypto_lens tag_aead_def
     decode_chunk_def unframe_def codec_from_byte_def chunk_id_keyed_def Let_def)

lemma demo_manifest_served:
  obtains blob plain where "get_manifest_call demo_stub bs () = (Ok blob, ())" "decrypt_manifest tag_aead 0 7 blob = Ok plain"
    "decode plain = Ok \<lparr>snapshot_id = 7, created_at = 0, files = [demo_entry]\<rparr>"
proof -
  let ?m = "\<lparr>snapshot_id = 7, created_at = 0, files = [demo_entry]\<rparr>"
  have wf: "wf_manifest ?m" by code_simp
  obtain plain where plain: "encode ?m = Ok plain"
    by (simp add: encode_def encode_file_def fit_u32_def demo_entry_def ascii_def)
  have "decrypt_manifest tag_aead 0 7 (replicate 24 0 @ plain @ replicate 16 0) = Ok plain"
    by (simp add: decrypt_manifest_def open_blob_def crypto_lens tag_aead_def)
  moreover have "get_manifest_call demo_stub bs () = (Ok (replicate 24 0 @ plain @ replicate 16 0), ())"
    by (simp add: demo_stub_def plain encrypt_manifest_def seal_def tag_aead_def zero_fill_def crypto_lens)
  ultimately show thesis using that decode_encode_append [OF plain wf, of "[]"] by simp
qed

lemma demo_path: "sanitize_path (fe_path demo_entry) = Ok [ascii ''r'', ascii ''a'']"
  by code_simp

lemma demo_restore_runs:
  "fst demo_restore = Ok \<lparr>rr_snapshot_id = 7, rr_files = 1, rr_bytes = 2, rr_chunks_fetched = 1\<rparr> \<and>
   map_of (rt_files (rs_tree (snd demo_restore))) [ascii ''r'', ascii ''a''] =
     Some \<lparr>rf_data = [5, 6], rf_mtime = Some (1, 3), rf_mode = Some 0x1A4\<rparr>"
proof -
  obtain blob plain where m: "get_manifest_call demo_stub (ulid_to_bytes 7) () = (Ok blob, ())" "decrypt_manifest tag_aead 0 7 blob = Ok plain"
    "decode plain = Ok \<lparr>snapshot_id = 7, created_at = 0, files = [demo_entry]\<rparr>"
    by (rule demo_manifest_served)
  have ids: "fe_chunks demo_entry = [0]" "fe_size demo_entry = 2" "fe_mtime_secs demo_entry = 1" "fe_mtime_nanos demo_entry = 3"
    "fe_mode demo_entry = 0x1A4" by (simp_all add: demo_entry_def)
  have call: "get_chunks_call demo_stub ids s = (Ok [Ok \<lparr>cb_chunk_id = chunk_id_as_bytes 0,
        cb_data = replicate 24 0 @ [0, 5, 6] @ replicate 16 0\<rparr>], s)" for ids s
    by (simp add: demo_stub_def)
  show ?thesis
    using demo_load demo_open_chunk m demo_path
    by (simp add: demo_restore_def run_restore_def ensure_empty_target_def rs_no_faults_def restore_file_def
      make_dirs_def prefixes_of_def create_file_def empty_tree_def fetch_file_def ids call finish_file_def update_file_def append_file_def
      rs_progress_def Let_def)
qed

theorem sanitize_path_safe_witness:
  "sanitize_path (ascii ''r/../a'') = Err (UnsafePath (ascii ''r/../a''))"
proof -
  have "split_slash (ascii ''r/../a'') = [ascii ''r'', ascii ''..'', ascii ''a'']" by code_simp
  then have s: "sanitize_path (ascii ''r/../a'') \<noteq> Ok [ascii ''r'', ascii ''..'', ascii ''a'']"
    "\<And>c. sanitize_path (ascii ''r/../a'') = Ok c \<Longrightarrow> c = [ascii ''r'', ascii ''..'', ascii ''a'']"
    by (auto simp: sanitize_path_Ok_iff unsafe_part_def)
  then show ?thesis using sanitize_path_safe [of "ascii ''r/../a''"] by blast
qed

theorem restore_writes_only_verified_witness:
  "\<exists>plain m f. decode plain = Ok m \<and> f \<in> set (files m) \<and> sanitize_path (fe_path f) = Ok [ascii ''r'', ascii ''a''] \<and>
     verified (chunk_id_keyed (\<lambda>_ _. 0) 0) (fe_chunks f) [5, 6]"
proof -
  have k: "load_chunk_id_key cs_no_faults demo_keys [] = Ok ik \<Longrightarrow> ik = 0" for ik
    using demo_load by (auto simp: and_then_Ok_iff)
  have "run_restore demo_rs_env (\<lambda>_ _ _ _. True) cs_no_faults demo_keys rs_no_faults
     \<lparr>rs_daemon_url = [], rs_state_dir = [], rs_snapshot_id = 7, rs_target = TargetAbsent\<rparr> () = (fst demo_restore, snd demo_restore)"
    by (simp add: demo_restore_def)
  from restore_writes_only_verified [OF this conjunct2 [OF demo_restore_runs]] show ?thesis using k by auto
qed

theorem restore_complete_witness:
  "\<exists>blob plain m. get_manifest_call demo_stub (ulid_to_bytes 7) () = (Ok blob, ()) \<and>
     decrypt_manifest tag_aead 0 7 blob = Ok plain \<and> decode plain = Ok m \<and>
     (distinct (map fe_path (files m)) \<longrightarrow> (\<forall>f \<in> set (files m). \<exists>path ps. sanitize_path (fe_path f) = Ok path \<and>
        map_of (rt_files (rs_tree (snd demo_restore))) path = Some \<lparr>rf_data = concat ps,
          rf_mtime = Some (fe_mtime_secs f, fe_mtime_nanos f), rf_mode = Some (fe_mode f)\<rparr>))"
proof -
  have k: "load_data_key cs_no_faults demo_keys [] = Ok k \<Longrightarrow> k = 0" for k
    using demo_load by (auto simp: and_then_Ok_iff)
  obtain rep where "run_restore demo_rs_env (\<lambda>_ _ _ _. True) cs_no_faults demo_keys rs_no_faults
     \<lparr>rs_daemon_url = [], rs_state_dir = [], rs_snapshot_id = 7, rs_target = TargetAbsent\<rparr> () = (Ok rep, snd demo_restore)"
    using demo_restore_runs unfolding demo_restore_def by (metis prod.collapse)
  from restore_complete [OF this] show ?thesis
  proof (elim exE conjE)
    fix k ik blob plain m and srv1 :: unit
    assume a: "load_data_key cs_no_faults demo_keys
        (rs_state_dir \<lparr>rs_daemon_url = [], rs_state_dir = [], rs_snapshot_id = 7, rs_target = TargetAbsent\<rparr>) = Ok k"
      "get_manifest_call (r_stub demo_rs_env) (ulid_to_bytes (rs_snapshot_id
        \<lparr>rs_daemon_url = [], rs_state_dir = [], rs_snapshot_id = 7, rs_target = TargetAbsent\<rparr>)) () = (Ok blob, srv1)"
      "decrypt_manifest (r_aead demo_rs_env) k (rs_snapshot_id
        \<lparr>rs_daemon_url = [], rs_state_dir = [], rs_snapshot_id = 7, rs_target = TargetAbsent\<rparr>) blob = Ok plain" "decode plain = Ok m"
      and c: "distinct (map fe_path (files m)) \<longrightarrow> (\<forall>f \<in> set (files m). \<exists>path ps. sanitize_path (fe_path f) = Ok path \<and>
        map (chunk_id_keyed (r_keyed demo_rs_env) ik) ps = fe_chunks f \<and> fe_size f = word_of_nat (length (concat ps)) \<and>
        map_of (rt_files (rs_tree (snd demo_restore))) path = Some (restored (concat ps) f)) \<and>
        (\<forall>p g. map_of (rt_files (rs_tree (snd demo_restore))) p = Some g \<longrightarrow> (\<exists>f \<in> set (files m). sanitize_path (fe_path f) = Ok p))"
    from c have "distinct (map fe_path (files m)) \<longrightarrow> (\<forall>f \<in> set (files m). \<exists>path ps. sanitize_path (fe_path f) = Ok path \<and>
        map_of (rt_files (rs_tree (snd demo_restore))) path = Some (restored (concat ps) f))" by meson
    then show ?thesis using a k by (intro exI [of _ blob] exI [of _ plain] exI [of _ m] conjI) simp_all
  qed
qed

end
