(* ===== verification/Backup_Walk.thy ===== *)
theory Backup_Walk
  imports Restore_Props
begin

text \<open>
  The walk over the configured roots finds every regular file exactly once, and the split of modification times
  is exact.
\<close>

section \<open>Walking\<close>

inductive file_in :: "(bytes \<times> fnode) list \<Rightarrow> fpath \<Rightarrow> bool" where
  file_here: "(nm, RegFile) \<in> set es \<Longrightarrow> file_in es [nm]"
| file_below: "(nm, Directory es') \<in> set es \<Longrightarrow> file_in es' p \<Longrightarrow> file_in es (nm # p)"

inductive_simps file_in_iff: "file_in es p"

lemma file_in_Nil [simp]: "\<not> file_in [] p"
  by (simp add: file_in_iff [of "[]" p])

lemma file_in_cong: "set es = set es' \<Longrightarrow> file_in es p = file_in es' p"
  by (simp add: file_in_iff [of es p] file_in_iff [of es' p])

lemma file_in_Cons:
  "file_in ((nm, node) # es) p \<longleftrightarrow>
     node = RegFile \<and> p = [nm] \<or> (\<exists>es' p'. node = Directory es' \<and> p = nm # p' \<and> file_in es' p') \<or> file_in es p"
  unfolding file_in_iff [of "(nm, node) # es" p] file_in_iff [of es p] by auto

definition spec_of :: "fpath \<Rightarrow> bytes \<Rightarrow> fpath \<Rightarrow> file_spec" where
  "spec_of dir pre p = \<lparr>fs_abs = dir @ p, fs_rel = pre @ concat (map ((#) slash) p)\<rparr>"

lemma join_slash_Cons: "join_slash (w # p) = w @ concat (map ((#) slash) p)"
proof (induction p arbitrary: w)
  case (Cons v p)
  then show ?case using Cons [of v] by simp
qed simp

lemma walk_set:
  "walk_dir F dir pre es = Ok specs \<Longrightarrow> set specs = spec_of dir pre ` {p. file_in es p}"
  "walk_entries F dir pre es = Ok specs \<Longrightarrow> set specs = spec_of dir pre ` {p. file_in es p}"
proof (induction F dir pre es and F dir pre es arbitrary: specs and specs rule: walk_dir_walk_entries.induct)
  case (1 F dir pre es)
  then have "walk_entries F dir pre (sort_key fst es) = Ok specs" by (simp add: walk_dir.simps split: if_splits)
  then show ?case using 1 file_in_cong [of "sort_key fst es" es] by (auto simp: walk_dir.simps split: if_splits)
next
  case (2 F dir pre)
  then show ?case by simp
next
  case (3 F dir pre nm node rest)
  let ?path = "dir @ [nm]" and ?rel = "pre @ slash # nm"
  obtain here there where h: "(case node of Directory es \<Rightarrow> walk_dir F ?path ?rel es
      | RegFile \<Rightarrow> Ok [\<lparr>fs_abs = ?path, fs_rel = ?rel\<rparr>] | OtherNode \<Rightarrow> Ok []) = Ok here"
    and t: "walk_entries F dir pre rest = Ok there" and s: "specs = here @ there"
    and ok: "utf8_valid nm" "\<not> F (BkFileType ?path)"
    using 3(3) by (auto simp: Let_def and_then_Ok_iff split: if_splits)
  have "set there = spec_of dir pre ` {p. file_in rest p}"
    using 3(2) [OF refl refl _ _ t] ok by auto
  moreover have "set here = spec_of dir pre ` {p. node = RegFile \<and> p = [nm] \<or> (\<exists>es' p'. node = Directory es' \<and> p = nm # p' \<and> file_in es' p')}"
  proof (cases node)
    case (Directory es)
    then have "set here = spec_of ?path ?rel ` {p. file_in es p}" using 3(1) [OF refl refl _ _ Directory] ok h by auto
    also have "\<dots> = spec_of dir pre ` ((#) nm ` {p. file_in es p})" by (auto simp: spec_of_def image_iff)
    finally show ?thesis using Directory by (simp add: image_def Collect_conj_eq [symmetric]) (auto simp: image_iff)
  next
    case RegFile
    then show ?thesis using h by (auto simp: spec_of_def)
  next
    case OtherNode
    then show ?thesis using h by auto
  qed
  ultimately show ?case using s by (auto simp: file_in_Cons)
qed

text \<open>Names as a directory holds them: not empty, no slash, not a dot or two dots, and pairwise different.\<close>

definition name_ok :: "bytes \<Rightarrow> bool" where
  "name_ok nm \<longleftrightarrow> slash \<notin> set nm \<and> \<not> unsafe_part nm"

fun tree_ok :: "(bytes \<times> fnode) list \<Rightarrow> bool" where
  "tree_ok es = (distinct (map fst es) \<and>
     (\<forall>x \<in> set es. name_ok (fst x) \<and> (case snd x of Directory es' \<Rightarrow> tree_ok es' | _ \<Rightarrow> True)))"

declare tree_ok.simps [simp del]

lemma tree_ok_set_cong: "tree_ok es \<Longrightarrow> mset es = mset es' \<Longrightarrow> tree_ok es'"
  by (subst tree_ok.simps, subst (asm) tree_ok.simps) (metis distinct_map mset_eq_imp_distinct_iff mset_map set_mset_mset)

lemma tree_ok_Cons:
  "tree_ok ((nm, node) # es) \<Longrightarrow>
     name_ok nm \<and> nm \<notin> fst ` set es \<and> tree_ok es \<and> (\<forall>es'. node = Directory es' \<longrightarrow> tree_ok es')"
  by (subst (asm) tree_ok.simps, subst tree_ok.simps [of es]) auto

lemma tree_ok_below: "tree_ok es \<Longrightarrow> (nm, Directory es') \<in> set es \<Longrightarrow> tree_ok es' \<and> name_ok nm"
  by (subst (asm) tree_ok.simps) auto

lemma file_in_names: "file_in es p \<Longrightarrow> tree_ok es \<Longrightarrow> p \<noteq> [] \<and> (\<forall>c \<in> set p. name_ok c) \<and> hd p \<in> fst ` set es"
proof (induction rule: file_in.induct)
  case (file_here nm es)
  then show ?case by (subst (asm) tree_ok.simps) force
next
  case (file_below nm es' es p)
  then show ?case using tree_ok_below [OF file_below.prems file_below.hyps(1)] by force
qed

lemma distinct_names: "tree_ok es \<Longrightarrow> (nm, a) \<in> set es \<Longrightarrow> (nm, b) \<in> set es \<Longrightarrow> a = b"
  by (subst (asm) tree_ok.simps) (auto dest: eq_key_imp_eq_value)

text \<open>A file is never on the way to another one.\<close>

lemma file_in_prefix_free: "file_in es p \<Longrightarrow> tree_ok es \<Longrightarrow> file_in es (p @ q) \<Longrightarrow> q = []"
proof (induction arbitrary: q rule: file_in.induct)
  case (file_here nm es)
  show ?case
  proof (rule ccontr)
    assume "q \<noteq> []"
    then obtain es' where "(nm, Directory es') \<in> set es"
      using file_here.prems(2) by (auto simp: file_in_iff [of es])
    then show False using distinct_names [OF file_here.prems(1) file_here.hyps] by blast
  qed
next
  case (file_below nm es' es p)
  from file_below.prems(2) have "p @ q \<noteq> []" using file_in_names [OF file_below.hyps(2)] tree_ok_below file_below by blast
  then obtain es'' where e: "(nm, Directory es'') \<in> set es" "file_in es'' (p @ q)"
    using file_below.prems(2) by (auto simp: file_in_iff [of es])
  then have "es'' = es'" using distinct_names [OF file_below.prems(1) file_below.hyps(1)] by blast
  then show ?case using file_below.IH tree_ok_below [OF file_below.prems(1) file_below.hyps(1)] e(2) by simp
qed

lemma walk_distinct:
  "walk_dir F dir pre es = Ok specs \<Longrightarrow> tree_ok es \<Longrightarrow> distinct (map fs_abs specs)"
  "walk_entries F dir pre es = Ok specs \<Longrightarrow> tree_ok es \<Longrightarrow> distinct (map fs_abs specs)"
proof (induction F dir pre es and F dir pre es arbitrary: specs and specs rule: walk_dir_walk_entries.induct)
  case (1 F dir pre es)
  then show ?case using tree_ok_set_cong [of es "sort_key fst es"] by (auto simp: walk_dir.simps split: if_splits)
next
  case (2 F dir pre)
  then show ?case by simp
next
  case (3 F dir pre nm node rest)
  let ?path = "dir @ [nm]" and ?rel = "pre @ slash # nm"
  note ok = tree_ok_Cons [OF 3(4)]
  obtain here there where h: "(case node of Directory es \<Rightarrow> walk_dir F ?path ?rel es
      | RegFile \<Rightarrow> Ok [\<lparr>fs_abs = ?path, fs_rel = ?rel\<rparr>] | OtherNode \<Rightarrow> Ok []) = Ok here"
    and t: "walk_entries F dir pre rest = Ok there" and s: "specs = here @ there"
    and u: "utf8_valid nm" "\<not> F (BkFileType ?path)"
    using 3(3) by (auto simp: Let_def and_then_Ok_iff split: if_splits)
  have "distinct (map fs_abs there)" using 3(2) [OF refl refl _ _ t] u ok by auto
  moreover have "distinct (map fs_abs here)"
    using 3(1) [OF refl refl] u h ok by (cases node) auto
  moreover have "\<exists>p. fs_abs x = dir @ nm # p" if "x \<in> set here" for x
    using h that walk_set(1) [of F ?path ?rel _ here] by (cases node) (auto simp: spec_of_def)
  moreover have "\<exists>nm' p. fs_abs x = dir @ nm' # p \<and> nm' \<noteq> nm" if x: "x \<in> set there" for x
  proof -
    obtain p where p: "file_in rest p" "x = spec_of dir pre p" using walk_set(2) [OF t] x by auto
    then have "p \<noteq> []" "hd p \<noteq> nm" using file_in_names [OF p(1)] ok by auto
    then show ?thesis using p(2) by (cases p) (auto simp: spec_of_def)
  qed
  ultimately show ?case using s by fastforce
qed

text \<open>The paths a walk over the roots has to find: a root's name and a file below it.\<close>

definition source_path :: "(fpath \<times> fnode option) list \<Rightarrow> fpath \<Rightarrow> fpath \<Rightarrow> bool" where
  "source_path roots rt p \<longleftrightarrow> (\<exists>es. (rt, Some (Directory es)) \<in> set roots \<and> file_in es p)"

definition roots_ok :: "(fpath \<times> fnode option) list \<Rightarrow> bool" where
  "roots_ok roots \<longleftrightarrow> (\<forall>(rt, node) \<in> set roots. (rt \<noteq> [] \<longrightarrow> name_ok (last rt)) \<and>
     (case node of Some (Directory es) \<Rightarrow> tree_ok es | _ \<Rightarrow> True))"

lemma spec_of_rel: "fs_rel (spec_of dir nm p) = join_slash (nm # p)"
  by (simp add: spec_of_def join_slash_Cons)

lemma collect_files_Cons:
  assumes "collect_files F names ((rt, node) # roots) = Ok specs"
  obtains es nm here there where "node = Some (Directory es)" "rt \<noteq> []" "nm = last rt" "utf8_valid nm" "nm \<notin> set names"
    "walk_dir F rt nm es = Ok here" "collect_files F (nm # names) roots = Ok there" "specs = here @ there"
  using assms
  by (auto simp: root_file_name_def and_then_Ok_iff split: option.splits fnode.splits if_splits)

lemma collect_files_set:
  assumes "collect_files F names roots = Ok specs"
  shows "set specs = {spec_of rt (last rt) p | rt p. source_path roots rt p}"
  using assms
proof (induction roots arbitrary: names specs)
  case (Cons r roots)
  obtain rt node where r: "r = (rt, node)" by (cases r)
  from Cons.prems [unfolded r] obtain es nm here there where c: "node = Some (Directory es)" "nm = last rt"
    "walk_dir F rt nm es = Ok here" "collect_files F (nm # names) roots = Ok there" "specs = here @ there"
    by (rule collect_files_Cons)
  show ?case using walk_set(1) [OF c(3)] Cons.IH [OF c(4)] c r by (auto simp: source_path_def)
qed (simp add: source_path_def)

lemma spec_components:
  assumes "roots_ok roots" and "source_path roots rt p" and "rt \<noteq> []"
  shows "split_slash (fs_rel (spec_of rt (last rt) p)) = last rt # p \<and> (\<forall>c \<in> set (last rt # p). name_ok c)"
proof -
  obtain es where es: "(rt, Some (Directory es)) \<in> set roots" "file_in es p" using assms(2) by (auto simp: source_path_def)
  then have "name_ok (last rt)" "tree_ok es" using assms(1,3) by (auto simp: roots_ok_def)
  then have "\<forall>c \<in> set (last rt # p). name_ok c" using file_in_names [OF es(2)] by auto
  then show ?thesis by (auto simp: spec_of_rel name_ok_def intro!: split_join)
qed

lemma collect_files_names:
  assumes "collect_files F names roots = Ok specs" and "source_path roots rt p"
  shows "rt \<noteq> [] \<and> utf8_valid (last rt) \<and> last rt \<notin> set names"
  using assms
proof (induction roots arbitrary: names specs)
  case (Cons r roots)
  obtain rt' node where r: "r = (rt', node)" by (cases r)
  from Cons.prems(1) [unfolded r] obtain nm there where c: "rt' \<noteq> []" "nm = last rt'" "utf8_valid nm"
    "nm \<notin> set names" "collect_files F (nm # names) roots = Ok there"
    by (rule collect_files_Cons)
  show ?case
  proof (cases "rt = rt'")
    case True
    then show ?thesis using c by simp
  next
    case False
    then have "source_path roots rt p" using Cons.prems(2) r by (auto simp: source_path_def)
    then show ?thesis using Cons.IH [OF c(5)] by auto
  qed
qed (simp add: source_path_def)

lemma collect_files_distinct:
  assumes "collect_files F names roots = Ok specs" and "roots_ok roots"
  shows "distinct (map fs_rel specs)"
  using assms
proof (induction roots arbitrary: names specs)
  case (Cons r roots)
  obtain rt node where r: "r = (rt, node)" by (cases r)
  from Cons.prems(1) [unfolded r] obtain es nm here there where c: "node = Some (Directory es)" "rt \<noteq> []" "nm = last rt"
    "walk_dir F rt nm es = Ok here" "collect_files F (nm # names) roots = Ok there" "specs = here @ there"
    by (rule collect_files_Cons)
  have ok: "tree_ok es" "roots_ok roots" using Cons.prems(2) r c(1) by (auto simp: roots_ok_def)
  have comp: "split_slash (fs_rel x) = nm # p" if "x = spec_of rt nm p" "file_in es p" for x p
    using spec_components [OF Cons.prems(2), of rt p] that c r by (auto simp: source_path_def)
  have "inj_on fs_rel (set here)"
  proof (rule inj_onI)
    fix x y
    assume "x \<in> set here" "y \<in> set here" and eq: "fs_rel x = fs_rel y"
    then obtain p q where "x = spec_of rt nm p" "file_in es p" "y = spec_of rt nm q" "file_in es q"
      using walk_set(1) [OF c(4)] by auto
    with comp eq show "x = y" by (metis list.inject)
  qed
  then have "distinct (map fs_rel here)" using walk_distinct(1) [OF c(4) ok(1)] by (auto simp: distinct_map)
  moreover have "distinct (map fs_rel there)" by (rule Cons.IH [OF c(5) ok(2)])
  moreover have "fs_rel x \<noteq> fs_rel y" if x: "x \<in> set here" and y: "y \<in> set there" for x y
  proof -
    obtain p where "split_slash (fs_rel x) = nm # p" using walk_set(1) [OF c(4)] x comp by auto
    moreover obtain rt' q where q: "source_path roots rt' q" "y = spec_of rt' (last rt') q"
      using collect_files_set [OF c(5)] y by auto
    moreover have "rt' \<noteq> []" "last rt' \<noteq> nm" using collect_files_names [OF c(5) q(1)] by auto
    ultimately show ?thesis using spec_components [OF ok(2) q(1)] by auto
  qed
  ultimately show ?case using c(6) by fastforce
qed simp

text \<open>C21: The walk captures every regular file under the configured roots exactly once: a successful run lists
  precisely the files below the roots, each under its root's name and its path, all manifest paths are different,
  and every one of them is accepted by the restoring side. Symbolic links and other entries are left out.\<close>

theorem collect_files_exact:
  assumes "collect_files F [] roots = Ok specs" and "roots_ok roots"
  shows "set specs = {\<lparr>fs_abs = rt @ p, fs_rel = join_slash (last rt # p)\<rparr> | rt p. source_path roots rt p} \<and>
    distinct (map fs_rel specs) \<and>
    (\<forall>rt p. source_path roots rt p \<longrightarrow> sanitize_path (join_slash (last rt # p)) = Ok (last rt # p))"
proof (intro conjI allI impI)
  have "spec_of rt (last rt) p = \<lparr>fs_abs = rt @ p, fs_rel = join_slash (last rt # p)\<rparr>" for rt p
    by (simp add: spec_of_def join_slash_Cons)
  then show "set specs = {\<lparr>fs_abs = rt @ p, fs_rel = join_slash (last rt # p)\<rparr> | rt p. source_path roots rt p}"
    using collect_files_set [OF assms(1)] by simp
  show "distinct (map fs_rel specs)" by (rule collect_files_distinct [OF assms])
  fix rt p
  assume sp: "source_path roots rt p"
  then have "rt \<noteq> []" using collect_files_names [OF assms(1)] by blast
  from spec_components [OF assms(2) sp this] show "sanitize_path (join_slash (last rt # p)) = Ok (last rt # p)"
    by (auto simp: sanitize_path_Ok_iff spec_of_rel name_ok_def)
qed

section \<open>Modification times\<close>

lemma sint_small: "- (2 ^ 63) \<le> x \<Longrightarrow> x < 2 ^ 63 \<Longrightarrow> sint (word_of_int x :: i64) = x"
  by (simp add: sint_sbintrunc' signed_take_bit_int_eq_self)

lemma uint_small: "0 \<le> x \<Longrightarrow> x < 2 ^ 32 \<Longrightarrow> uint (word_of_int x :: u32) = x"
  by (simp add: unsigned_of_int take_bit_int_eq_self)

text \<open>\<open>mtime_parts\<close> splits a time before or after the epoch into whole seconds, rounded down, and nanoseconds
  below one second, exactly.\<close>

theorem mtime_parts_exact:
  assumes "sm_modified m = Some t" and "\<bar>t\<bar> < 2 ^ 62 * 10 ^ 9"
  shows "sint (fst (mtime_parts m)) = t div 10 ^ 9 \<and> uint (snd (mtime_parts m)) = t mod 10 ^ 9"
proof (cases "0 \<le> t")
  case True
  then have "0 \<le> t div 10 ^ 9" "t div 10 ^ 9 < 2 ^ 63" "0 \<le> t mod 10 ^ 9" "t mod 10 ^ 9 < 2 ^ 32" using assms(2) by auto
  then show ?thesis using True assms(1) by (simp add: mtime_parts_def sint_small uint_small)
next
  case False
  define s n where "s = (- t) div 10 ^ 9" and "n = (- t) mod 10 ^ 9"
  have t: "- t = s * 10 ^ 9 + n" and n: "0 \<le> n" "n < 10 ^ 9" by (simp_all add: s_def n_def)
  have s: "0 \<le> s" "s < 2 ^ 62" using False assms(2) by (auto simp: s_def)
  show ?thesis
  proof (cases "n = 0")
    case True
    then have "t = (- s) * 10 ^ 9" using t by simp
    then have "t div 10 ^ 9 = - s" "t mod 10 ^ 9 = 0" by simp_all
    moreover have "mtime_parts m = (word_of_int (- s), 0)"
      using False assms(1) True by (simp add: mtime_parts_def Let_def s_def n_def)
    ultimately show ?thesis using s sint_small [of "- s"] by simp
  next
    case nz: False
    have "uint (word_of_int n :: u32) = n" using n by (intro uint_small) auto
    then have w: "(word_of_int n :: u32) \<noteq> 0" using nz by auto
    have e: "t = 10 ^ 9 * (- (s + 1)) + (10 ^ 9 - n)" "0 \<le> 10 ^ 9 - n" "10 ^ 9 - n < 10 ^ 9" using t n nz by auto
    have "t div 10 ^ 9 = - (s + 1)" by (rule int_div_pos_eq [OF e])
    moreover have "t mod 10 ^ 9 = 10 ^ 9 - n" by (rule int_mod_pos_eq [OF e])
    moreover have "mtime_parts m = (word_of_int (- (s + 1)), word_of_int (10 ^ 9 - n))"
      using False assms(1) w by (simp add: mtime_parts_def Let_def s_def n_def)
    ultimately show ?thesis using s n sint_small [of "- (s + 1)"] uint_small [of "10 ^ 9 - n"] by simp
  qed
qed

section \<open>Witnesses\<close>

definition demo_tree :: "(bytes \<times> fnode) list" where
  "demo_tree = [(ascii ''b'', Directory [(ascii ''c'', RegFile)]), (ascii ''a'', RegFile), (ascii ''l'', OtherNode)]"

lemma demo_tree_ok: "roots_ok [([ascii ''h'', ascii ''r''], Some (Directory demo_tree))]"
  by code_simp

lemma demo_collect:
  "collect_files (\<lambda>_. False) [] [([ascii ''h'', ascii ''r''], Some (Directory demo_tree))] =
     Ok [\<lparr>fs_abs = [ascii ''h'', ascii ''r'', ascii ''a''], fs_rel = ascii ''r/a''\<rparr>,
         \<lparr>fs_abs = [ascii ''h'', ascii ''r'', ascii ''b'', ascii ''c''], fs_rel = ascii ''r/b/c''\<rparr>]"
  by code_simp

theorem collect_files_exact_witness:
  "{\<lparr>fs_abs = [ascii ''h'', ascii ''r'', ascii ''a''], fs_rel = ascii ''r/a''\<rparr>,
    \<lparr>fs_abs = [ascii ''h'', ascii ''r'', ascii ''b'', ascii ''c''], fs_rel = ascii ''r/b/c''\<rparr>} =
   {\<lparr>fs_abs = rt @ p, fs_rel = join_slash (last rt # p)\<rparr> | rt p.
      source_path [([ascii ''h'', ascii ''r''], Some (Directory demo_tree))] rt p}"
  using collect_files_exact [OF demo_collect demo_tree_ok] by simp

theorem mtime_parts_exact_witness:
  "sint (fst (mtime_parts \<lparr>sm_modified = Some (- 1500000000), sm_mode = 0\<rparr>)) = - 2 \<and>
   uint (snd (mtime_parts \<lparr>sm_modified = Some (- 1500000000), sm_mode = 0\<rparr>)) = 500000000"
  using mtime_parts_exact [of "\<lparr>sm_modified = Some (- 1500000000), sm_mode = 0\<rparr>" "- 1500000000"] by simp

end
