(* ===== verification/Backup_Session.thy ===== *)
theory Backup_Session
  imports Backup_Walk
begin

text \<open>
  What a backup run achieves. The client side is proved once, against the contract \<open>backup_server\<close> of the daemon
  behind the stub: the invariant \<open>session_ok\<close> holds through every batch, and a run that succeeds leaves the sealed manifest
  and every chunk it names on the server, each under a blob that opens to the source data.
\<close>

section \<open>Readable blobs\<close>

text \<open>What the holder of the data key reads out of a stored blob, given the blobs \<open>B\<close> a server holds.\<close>

definition plain_of :: "aead \<Rightarrow> codecs \<Rightarrow> data_key \<Rightarrow> (chunk_id \<rightharpoonup> bytes) \<Rightarrow> chunk_id \<rightharpoonup> bytes" where
  "plain_of A Z key B c =
     (case B c of None \<Rightarrow> None
      | Some blob \<Rightarrow> (case and_then (map_err Inl (decrypt_chunk A key c blob)) (\<lambda>framed. map_err Inr (decode_chunk Z framed)) of
           Ok d \<Rightarrow> Some d | Err _ \<Rightarrow> None))"

text \<open>The blobs held under the identities of the data in \<open>S\<close> open to that data.\<close>

definition faithful :: "aead \<Rightarrow> codecs \<Rightarrow> data_key \<Rightarrow> (bytes \<Rightarrow> chunk_id) \<Rightarrow> bytes set \<Rightarrow> (chunk_id \<rightharpoonup> bytes) \<Rightarrow> bool" where
  "faithful A Z key h S B \<longleftrightarrow> (\<forall>d \<in> S. B (h d) \<noteq> None \<longrightarrow> plain_of A Z key B (h d) = Some d)"

lemma plain_of_cong: "B c = B' c \<Longrightarrow> plain_of A Z key B c = plain_of A Z key B' c"
  by (simp add: plain_of_def)

section \<open>Sealing a batch\<close>

definition blob_of :: "chunk_id \<times> bytes \<Rightarrow> chunk_blob" where
  "blob_of x = \<lparr>cb_chunk_id = chunk_id_as_bytes (fst x), cb_data = snd x\<rparr>"

text \<open>The state of a session that sealing a batch leaves alone.\<close>

definition same_session :: "('s, 'r) bk \<Rightarrow> ('s, 'r) bk \<Rightarrow> bool" where
  "same_session st st' \<longleftrightarrow> bk_srv st' = bk_srv st \<and> bk_key st' = bk_key st \<and> bk_seen st' = bk_seen st \<and>
     bk_pending st' = bk_pending st"

lemma same_session_refl [simp]: "same_session st st"
  by (simp add: same_session_def)

lemma same_session_trans: "same_session a b \<Longrightarrow> same_session b c \<Longrightarrow> same_session a c"
  by (simp add: same_session_def)

definition pipeline_laws :: "('s, 'r, 'f) bk_env \<Rightarrow> bool" where
  "pipeline_laws E \<longleftrightarrow> aead_laws (b_aead E) \<and> fill_laws (b_fill E) \<and> zstd_laws (b_codecs E)"

text \<open>A blob the session sealed, wherever it ends up, opens to the data it was made from.\<close>

definition sealed_as :: "('s, 'r, 'f) bk_env \<Rightarrow> data_key \<Rightarrow> chunk_id \<Rightarrow> bytes \<Rightarrow> bytes \<Rightarrow> bool" where
  "sealed_as E key c d ct \<longleftrightarrow> plain_of (b_aead E) (b_codecs E) key [c \<mapsto> ct] c = Some d"

lemma encrypt_encoded_opens:
  assumes "pipeline_laws E"
    and "choose_codec (b_codecs E) data ph pol cnt = ((codec, payload), cnt')"
    and "encrypt_chunk (b_aead E) (b_fill E) key cid (frame codec payload) rng = (Ok ct, rng')"
  shows "sealed_as E key cid data ct"
proof -
  have "decrypt_chunk (b_aead E) key cid ct = Ok (frame codec payload)"
    using seal_open [of "b_aead E" "b_fill E"] assms(1,3) by (simp add: pipeline_laws_def encrypt_chunk_def decrypt_chunk_def)
  moreover have "decode_chunk (b_codecs E) (frame codec payload) = Ok data"
    using decode_encode_chunk [of "b_codecs E" data ph pol cnt] assms(1,2) by (simp add: pipeline_laws_def encode_chunk_def)
  ultimately show ?thesis by (simp add: sealed_as_def plain_of_def)
qed

lemma seal_pending_missing:
  assumes "cid \<in> missing" and "seal_pending E missing ((cid, data) # pend) st = (Ok bl, st')"
  obtains codec payload cnt ct rng st1 bl' where
    "choose_codec (b_codecs E) data (bk_phase st) (bk_policy st) (bk_counters st) = ((codec, payload), cnt)"
    "encrypt_chunk (b_aead E) (b_fill E) (bk_key st) cid (frame codec payload) (bk_rng st) = (Ok ct, rng)"
    "same_session st st1" "seal_pending E missing pend st1 = (Ok bl', st')" "bl = blob_of (cid, ct) # bl'"
proof -
  obtain codec payload cnt where c:
    "choose_codec (b_codecs E) data (bk_phase st) (bk_policy st) (bk_counters st) = ((codec, payload), cnt)"
    by (metis prod.exhaust)
  obtain ct rng where e: "encrypt_chunk (b_aead E) (b_fill E) (bk_key st) cid (frame codec payload) (bk_rng st) = (Ok ct, rng)"
    using assms c by (auto split: prod.splits sum.splits)
  define st1 where "st1 = st\<lparr>bk_counters := cnt, bk_rng := rng,
    bk_report := (bk_report st)\<lparr>br_upload_bytes := br_upload_bytes (bk_report st) + word_of_nat (length ct),
      br_chunks_uploaded := br_chunks_uploaded (bk_report st) + 1\<rparr>\<rparr>"
  obtain bl' where "seal_pending E missing pend st1 = (Ok bl', st')" "bl = blob_of (cid, ct) # bl'"
    using assms c e by (auto simp: Let_def st1_def blob_of_def split: prod.splits sum.splits)
  moreover have "same_session st st1" by (simp add: same_session_def st1_def)
  ultimately show thesis using that c e by blast
qed

lemma seal_pending_Ok:
  assumes laws: "pipeline_laws E" and "seal_pending E missing pend st = (Ok bl, st')"
  shows "same_session st st' \<and> (\<exists>kvs. bl = map blob_of kvs \<and> map fst kvs = filter (\<lambda>c. c \<in> missing) (map fst pend) \<and>
     (\<forall>x \<in> set kvs. \<exists>d. (fst x, d) \<in> set pend \<and> sealed_as E (bk_key st) (fst x) d (snd x)))"
  using assms(2)
proof (induction pend arbitrary: st bl)
  case Nil
  then show ?case by simp
next
  case (Cons x pend)
  obtain cid data where x: "x = (cid, data)" by (cases x)
  show ?case
  proof (cases "cid \<in> missing")
    case False
    define st1 where "st1 = st\<lparr>bk_report := (bk_report st)\<lparr>br_chunks_deduped := br_chunks_deduped (bk_report st) + 1\<rparr>\<rparr>"
    have s1: "same_session st st1" by (simp add: same_session_def st1_def)
    have "seal_pending E missing pend st1 = (Ok bl, st')" using Cons.prems x False by (simp add: st1_def)
    from Cons.IH [OF this] obtain kvs where "same_session st1 st'" "bl = map blob_of kvs"
      "map fst kvs = filter (\<lambda>c. c \<in> missing) (map fst pend)"
      "\<forall>x \<in> set kvs. \<exists>d. (fst x, d) \<in> set pend \<and> sealed_as E (bk_key st1) (fst x) d (snd x)" by blast
    moreover have "bk_key st1 = bk_key st" by (simp add: st1_def)
    ultimately show ?thesis using x False same_session_trans [OF s1] by (intro conjI exI [of _ kvs]) auto
  next
    case True
    from Cons.prems [unfolded x] obtain codec payload cnt ct rng st1 bl' where
      c: "choose_codec (b_codecs E) data (bk_phase st) (bk_policy st) (bk_counters st) = ((codec, payload), cnt)"
      and e: "encrypt_chunk (b_aead E) (b_fill E) (bk_key st) cid (frame codec payload) (bk_rng st) = (Ok ct, rng)"
      and s1: "same_session st st1" and rest: "seal_pending E missing pend st1 = (Ok bl', st')" and bl: "bl = blob_of (cid, ct) # bl'"
      by (rule seal_pending_missing [OF True])
    from Cons.IH [OF rest] obtain kvs where ih: "same_session st1 st'" "bl' = map blob_of kvs"
      "map fst kvs = filter (\<lambda>c. c \<in> missing) (map fst pend)"
      "\<forall>x \<in> set kvs. \<exists>d. (fst x, d) \<in> set pend \<and> sealed_as E (bk_key st1) (fst x) d (snd x)" by blast
    have "bk_key st1 = bk_key st" using s1 by (simp add: same_session_def)
    moreover have "sealed_as E (bk_key st) cid data ct" by (rule encrypt_encoded_opens [OF laws c e])
    ultimately show ?thesis using ih bl x True same_session_trans [OF s1] by (intro conjI exI [of _ "(cid, ct) # kvs"]) auto
  qed
qed

section \<open>The contract of the server\<close>

text \<open>
  What a backup relies on of the daemon behind the stub: \<open>blobs\<close> and \<open>manifests\<close> say what it holds, \<open>HasChunks\<close>
  tells the truth, an acknowledged upload keeps the first blob of an identity, and an acknowledged manifest is
  stored. Nothing is promised about calls that fail.
\<close>

locale backup_server =
  fixes stub :: "'s stub" and inv :: "'s \<Rightarrow> bool" and blobs :: "'s \<Rightarrow> chunk_id \<rightharpoonup> bytes" and manifests :: "'s \<Rightarrow> ulid \<rightharpoonup> bytes"
  assumes list_spec: "inv s \<Longrightarrow> list_snapshots_call stub s = (Ok ids, s') \<Longrightarrow>
      inv s' \<and> blobs s' = blobs s \<and> manifests s' = manifests s"
    and has_spec: "inv s \<Longrightarrow> has_chunks_call stub (map chunk_id_as_bytes cs) s = (Ok wire, s') \<Longrightarrow>
      inv s' \<and> blobs s' = blobs s \<and> manifests s' = manifests s \<and>
      wire = map chunk_id_as_bytes (filter (\<lambda>c. blobs s c = None) cs)"
    and upload_spec: "inv s \<Longrightarrow> upload_chunks_call stub (map blob_of kvs) s = (Ok n, s') \<Longrightarrow>
      inv s' \<and> manifests s' = manifests s \<and>
      (\<forall>c. blobs s' c = (case blobs s c of Some d \<Rightarrow> Some d | None \<Rightarrow> map_of kvs c))"
    and put_spec: "inv s \<Longrightarrow> put_manifest_call stub m (ulid_to_bytes u) refs s = (Ok x, s') \<Longrightarrow>
      inv s' \<and> blobs s' = blobs s \<and> manifests s' = (manifests s)(u \<mapsto> m)"

text \<open>
  The invariant of a session over the source data \<open>S\<close>: every identity met so far is on the server or queued, what is
  queued is source data under its own identity, and the server's blobs open to the source data.
\<close>

definition session_ok :: "('s \<Rightarrow> bool) \<Rightarrow> ('s \<Rightarrow> chunk_id \<rightharpoonup> bytes) \<Rightarrow> ('s, 'r, 'f) bk_env \<Rightarrow> (bytes \<Rightarrow> chunk_id) \<Rightarrow> bytes set
    \<Rightarrow> ('s, 'r) bk \<Rightarrow> bool" where
  "session_ok okay blobs E h S st \<longleftrightarrow> okay (bk_srv st) \<and>
     faithful (b_aead E) (b_codecs E) (bk_key st) h S (blobs (bk_srv st)) \<and>
     (\<forall>x \<in> set (bk_pending st). snd x \<in> S \<and> fst x = h (snd x)) \<and>
     (\<forall>c \<in> bk_seen st. blobs (bk_srv st) c \<noteq> None \<or> c \<in> fst ` set (bk_pending st))"

definition grows :: "('s \<Rightarrow> ulid \<rightharpoonup> bytes) \<Rightarrow> ('s, 'r) bk \<Rightarrow> ('s, 'r) bk \<Rightarrow> bool" where
  "grows manifests st st' \<longleftrightarrow> bk_seen st \<subseteq> bk_seen st' \<and> bk_key st' = bk_key st \<and> manifests (bk_srv st') = manifests (bk_srv st)"

lemma session_ok_seen:
  "session_ok okay blobs E h S st \<Longrightarrow> c \<in> bk_seen st \<Longrightarrow> blobs (bk_srv st) c = None \<Longrightarrow> c \<in> fst ` set (bk_pending st)"
  unfolding session_ok_def by blast

lemma grows_refl [simp]: "grows m st st"
  by (simp add: grows_def)

lemma grows_trans [trans]: "grows m a b \<Longrightarrow> grows m b c \<Longrightarrow> grows m a c"
  by (auto simp: grows_def)

lemma parse_missing_ids [simp]: "parse_missing (map chunk_id_as_bytes ids) = Ok (set ids)"
proof -
  have "collect_results (\<lambda>raw. case chunk_id_try_from raw of
      None \<Rightarrow> Err (BkBadResponse ''malformed chunk ID in HasChunks reply'') | Some c \<Rightarrow> Ok c) (map chunk_id_as_bytes ids) = Ok ids"
    by (induction ids) auto
  then show ?thesis by (simp add: parse_missing_def)
qed

lemma flush_cases:
  assumes "flush E st = (Ok u, st')"
  obtains (nothing) "bk_pending st = []" "st' = st"
  | (asked) wire srv missing bl st1 where "bk_pending st \<noteq> []"
      "has_chunks_call (b_stub E) (map chunk_id_as_bytes (map fst (bk_pending st))) (bk_srv st) = (Ok wire, srv)"
      "parse_missing wire = Ok missing"
      "seal_pending E missing (bk_pending st) (st\<lparr>bk_srv := srv, bk_pending := []\<rparr>) = (Ok bl, st1)"
      "upload_blobs E bl st1 = (Ok (), st')"
  using assms by (auto simp: flush_def split: if_splits prod.splits sum.splits)

lemma upload_blobs_cases:
  assumes "upload_blobs E bl st = (Ok u, st')"
  obtains "bl = []" "st' = st"
  | n srv where "bl \<noteq> []" "upload_chunks_call (b_stub E) bl (bk_srv st) = (Ok n, srv)" "st' = st\<lparr>bk_srv := srv\<rparr>"
  using assms by (auto simp: upload_blobs_def split: if_splits prod.splits sum.splits)

text \<open>Storing sealed blobs of source data keeps the blobs faithful.\<close>

lemma faithful_stored:
  assumes "faithful (b_aead E) (b_codecs E) key h S B" and "inj_on h S"
    and B': "\<And>c. B' c = (case B c of Some d \<Rightarrow> Some d | None \<Rightarrow> map_of kvs c)"
    and kvs: "\<And>x. x \<in> set kvs \<Longrightarrow> \<exists>d \<in> S. fst x = h d \<and> sealed_as E key (fst x) d (snd x)"
  shows "faithful (b_aead E) (b_codecs E) key h S B'"
  unfolding faithful_def
proof (intro ballI impI)
  fix d
  assume d: "d \<in> S" and n: "B' (h d) \<noteq> None"
  show "plain_of (b_aead E) (b_codecs E) key B' (h d) = Some d"
  proof (cases "B (h d)")
    case (Some v)
    then have "B' (h d) = B (h d)" by (simp add: B')
    then show ?thesis using assms(1) d Some plain_of_cong [of B' "h d" B] by (simp add: faithful_def)
  next
    case None
    then obtain ct where ct: "map_of kvs (h d) = Some ct" "B' (h d) = Some ct" using n by (auto simp: B')
    then obtain d' where d': "d' \<in> S" "h d = h d'" "sealed_as E key (h d) d' ct" using kvs [OF map_of_SomeD [OF ct(1)]] by auto
    then have "d' = d" using assms(2) d by (auto dest: inj_onD)
    moreover have "plain_of (b_aead E) (b_codecs E) key B' (h d) = plain_of (b_aead E) (b_codecs E) key [h d \<mapsto> ct] (h d)"
      by (rule plain_of_cong) (simp add: ct(2))
    ultimately show ?thesis using d'(3) by (simp add: sealed_as_def)
  qed
qed

context backup_server
begin

lemma flush_Ok:
  assumes env: "pipeline_laws E" "b_stub E = stub" "inj_on h S" and ok: "session_ok inv blobs E h S st"
    and flush: "flush E st = (Ok u, st')"
  shows "session_ok inv blobs E h S st' \<and> bk_pending st' = [] \<and> bk_seen st' = bk_seen st \<and> grows manifests st st'"
  using flush
proof (cases rule: flush_cases)
  case nothing
  then show ?thesis using ok by simp
next
  case (asked wire srv missing bl st1)
  have s: "inv srv" "blobs srv = blobs (bk_srv st)" "manifests srv = manifests (bk_srv st)"
    "wire = map chunk_id_as_bytes (filter (\<lambda>c. blobs (bk_srv st) c = None) (map fst (bk_pending st)))"
    using has_spec [of "bk_srv st" "map fst (bk_pending st)" wire srv] asked(2) ok env(2) by (auto simp: session_ok_def)
  then have missing: "missing = {c \<in> fst ` set (bk_pending st). blobs (bk_srv st) c = None}" using asked(3) by auto
  from seal_pending_Ok [OF env(1) asked(4)] obtain kvs where same: "same_session (st\<lparr>bk_srv := srv, bk_pending := []\<rparr>) st1"
    and kvs: "bl = map blob_of kvs" "map fst kvs = filter (\<lambda>c. c \<in> missing) (map fst (bk_pending st))"
    and seal: "\<forall>x \<in> set kvs. \<exists>d. (fst x, d) \<in> set (bk_pending st) \<and> sealed_as E (bk_key st) (fst x) d (snd x)"
    by auto
  have key: "bk_srv st1 = srv" "bk_key st1 = bk_key st" "bk_seen st1 = bk_seen st" "bk_pending st1 = []"
    using same by (auto simp: same_session_def)
  have dom: "c \<in> fst ` set kvs" if "c \<in> fst ` set (bk_pending st)" "blobs (bk_srv st) c = None" for c
  proof -
    have "c \<in> set (map fst kvs)" unfolding kvs(2) using that missing by auto
    then show ?thesis by simp
  qed
  have st': "inv (bk_srv st') \<and> manifests (bk_srv st') = manifests (bk_srv st) \<and> bk_key st' = bk_key st \<and>
      bk_seen st' = bk_seen st \<and> bk_pending st' = [] \<and>
      (\<forall>c. blobs (bk_srv st') c = (case blobs (bk_srv st) c of Some d \<Rightarrow> Some d | None \<Rightarrow> map_of kvs c))"
    using asked(5)
  proof (cases rule: upload_blobs_cases)
    case 1
    then show ?thesis using s key kvs(1) by (auto split: option.splits)
  next
    case (2 n srv')
    have "upload_chunks_call stub (map blob_of kvs) srv = (Ok n, srv')" using 2(2) key(1) kvs(1) env(2) by simp
    from upload_spec [OF s(1) this] show ?thesis using s 2(3) key by simp
  qed
  have "faithful (b_aead E) (b_codecs E) (bk_key st') h S (blobs (bk_srv st'))"
  proof (rule faithful_stored [of E _ h S "blobs (bk_srv st)" _ kvs])
    show "faithful (b_aead E) (b_codecs E) (bk_key st') h S (blobs (bk_srv st))" using ok st' by (simp add: session_ok_def)
    show "\<exists>d \<in> S. fst x = h d \<and> sealed_as E (bk_key st') (fst x) d (snd x)" if "x \<in> set kvs" for x
      using seal that ok st' by (fastforce simp: session_ok_def)
  qed (use env st' in auto)
  moreover have "blobs (bk_srv st') c \<noteq> None" if "c \<in> bk_seen st" for c
    using session_ok_seen [OF ok that] dom [of c] st' map_of_eq_None_iff [of kvs c] by (cases "blobs (bk_srv st) c") auto
  ultimately show ?thesis using st' by (simp add: session_ok_def grows_def)
qed

end

section \<open>A run against the contract\<close>

abbreviation ident_of :: "('s, 'r, 'f) bk_env \<Rightarrow> chunk_id_key \<Rightarrow> bytes \<Rightarrow> chunk_id" where
  "ident_of E ik \<equiv> chunk_id_keyed (b_keyed E) ik"

abbreviation stream_of :: "('s, 'r, 'f) bk_env \<Rightarrow> chunker_config \<Rightarrow> chunk_id_key \<Rightarrow> 'f \<Rightarrow> (chunking_error + chunk) list" where
  "stream_of E cfg ik reader \<equiv> chunk_reader_keyed (b_cdc E) (b_blake3 E) (b_keyed E) reader cfg ik"

lemma stream_of_ident: "Ok c \<in> set (stream_of E cfg ik reader) \<Longrightarrow> chunk_ident c = ident_of E ik (chunk_data c)"
  by (auto simp: chunk_reader_keyed_def chunk_id_with_key_def dest: chunk_stream_ident)

lemma session_ok_progress [simp]: "session_ok okay blobs E h S (bk_progress b st) = session_ok okay blobs E h S st"
  "session_ok okay blobs E h S (st\<lparr>bk_report := rep\<rparr>) = session_ok okay blobs E h S st"
  "session_ok okay blobs E h S (st\<lparr>bk_pending_bytes := n\<rparr>) = session_ok okay blobs E h S st"
  by (simp_all add: session_ok_def bk_progress_def)

lemma grows_progress [simp]: "grows m st (bk_progress b st') = grows m st st'"
  "grows m st (st'\<lparr>bk_report := rep\<rparr>) = grows m st st'" "grows m st (st'\<lparr>bk_pending_bytes := n\<rparr>) = grows m st st'"
  "grows m (st\<lparr>bk_report := rep\<rparr>) st' = grows m st st'"
  by (simp_all add: grows_def bk_progress_def)

lemma seen_progress [simp]: "bk_seen (bk_progress b st) = bk_seen st"
  by (simp add: bk_progress_def)

text \<open>What an entry of the manifest records of a source file.\<close>

definition captures :: "('s, 'r, 'f) bk_env \<Rightarrow> chunker_config \<Rightarrow> chunk_id_key \<Rightarrow> file_spec \<Rightarrow> file_entry \<Rightarrow> bool" where
  "captures E cfg ik spec f \<longleftrightarrow> (\<exists>o' m cs. b_open E (fs_abs spec) = Some o' \<and> op_meta o' = Some m \<and>
     stream_of E cfg ik (op_reader o') = map Ok cs \<and>
     f = \<lparr>fe_path = fs_rel spec, fe_size = word_of_nat (length (concat (map chunk_data cs))),
          fe_mtime_secs = fst (mtime_parts m), fe_mtime_nanos = snd (mtime_parts m), fe_mode = file_mode m,
          fe_chunks = map chunk_ident cs\<rparr>)"

text \<open>The data of the chunks a run meets.\<close>

definition run_data :: "('s, 'r, 'f) bk_env \<Rightarrow> chunker_config \<Rightarrow> chunk_id_key \<Rightarrow> file_spec list \<Rightarrow> bytes set" where
  "run_data E cfg ik specs = {chunk_data c | c spec o'. spec \<in> set specs \<and> b_open E (fs_abs spec) = Some o' \<and>
     Ok c \<in> set (stream_of E cfg ik (op_reader o'))}"

context backup_server
begin

lemma take_chunk_Ok:
  assumes env: "pipeline_laws E" "b_stub E = stub" "inj_on h S" and ok: "session_ok inv blobs E h S st"
    and c: "chunk_data c \<in> S" "chunk_ident c = h (chunk_data c)" and take: "take_chunk E c st = (Ok u, st')"
  shows "session_ok inv blobs E h S st' \<and> chunk_ident c \<in> bk_seen st' \<and> grows manifests st st'"
proof (cases "chunk_ident c \<in> bk_seen st")
  case True
  then show ?thesis using take ok by (auto simp: take_chunk_def Let_def)
next
  case False
  define st1 where "st1 = (let s = st\<lparr>bk_report := (bk_report st)\<lparr>br_chunks_total := br_chunks_total (bk_report st) + 1\<rparr>\<rparr>
     in s\<lparr>bk_seen := insert (chunk_ident c) (bk_seen s),
          bk_report := (bk_report s)\<lparr>br_chunks_unique := br_chunks_unique (bk_report s) + 1\<rparr>,
          bk_pending_bytes := bk_pending_bytes s + length (chunk_data c),
          bk_pending := bk_pending s @ [(chunk_ident c, chunk_data c)]\<rparr>)"
  have f1: "bk_srv st1 = bk_srv st" "bk_key st1 = bk_key st" "bk_seen st1 = insert (chunk_ident c) (bk_seen st)"
    "bk_pending st1 = bk_pending st @ [(chunk_ident c, chunk_data c)]" by (simp_all add: st1_def Let_def)
  have s1: "grows manifests st st1" "chunk_ident c \<in> bk_seen st1" by (auto simp: f1 grows_def)
  have ok1: "session_ok inv blobs E h S st1"
    using ok c session_ok_seen [OF ok] by (fastforce simp: session_ok_def f1)
  show ?thesis
  proof (cases "BATCH_MAX_CHUNKS \<le> length (bk_pending st1) \<or> BATCH_MAX_BYTES \<le> bk_pending_bytes st1")
    case full: False
    then have "st' = st1" using take False by (simp add: take_chunk_def Let_def st1_def)
    then show ?thesis using s1 ok1 by simp
  next
    case full: True
    then obtain st2 where st2: "flush E st1 = (Ok (), st2)" "st' = bk_progress False (st2\<lparr>bk_pending_bytes := 0\<rparr>)"
      using take False by (auto simp: take_chunk_def Let_def st1_def split: prod.splits sum.splits)
    from flush_Ok [OF env ok1 st2(1)] show ?thesis using s1 st2(2) grows_trans [OF s1(1)] by simp
  qed
qed

lemma take_chunks_Ok:
  assumes env: "pipeline_laws E" "b_stub E = stub" "inj_on h S" and ok: "session_ok inv blobs E h S st"
    and "\<And>c. Ok c \<in> set items \<Longrightarrow> chunk_data c \<in> S \<and> chunk_ident c = h (chunk_data c)"
    and "take_chunks E items ids len st = (Ok (ids', len'), st')"
  shows "\<exists>cs. items = map Ok cs \<and> ids' = ids @ map chunk_ident cs \<and> len' = len + word_of_nat (length (concat (map chunk_data cs))) \<and>
    session_ok inv blobs E h S st' \<and> set (map chunk_ident cs) \<subseteq> bk_seen st' \<and> grows manifests st st'"
  using ok assms(5,6)
proof (induction items arbitrary: ids len st)
  case Nil
  then show ?case by simp
next
  case (Cons item items)
  then obtain c where item: "item = Ok c" by (cases item) auto
  obtain st1 where one: "take_chunk E c st = (Ok (), st1)"
    and rest: "take_chunks E items (ids @ [chunk_ident c]) (len + word_of_nat (length (chunk_data c))) st1 = (Ok (ids', len'), st')"
    using Cons.prems(3) item by (auto split: prod.splits sum.splits)
  have s1: "session_ok inv blobs E h S st1" "chunk_ident c \<in> bk_seen st1" "grows manifests st st1"
    using take_chunk_Ok [OF env Cons.prems(1) _ _ one] Cons.prems(2) [of c] item by auto
  from Cons.IH [OF s1(1) Cons.prems(2) rest] obtain cs where cs: "items = map Ok cs" "ids' = ids @ [chunk_ident c] @ map chunk_ident cs"
    "len' = len + word_of_nat (length (chunk_data c)) + word_of_nat (length (concat (map chunk_data cs)))"
    "session_ok inv blobs E h S st'" "set (map chunk_ident cs) \<subseteq> bk_seen st'" "grows manifests st1 st'"
    by auto
  have "chunk_ident c \<in> bk_seen st'" using s1(2) cs(6) by (auto simp: grows_def)
  then show ?case using cs item grows_trans [OF s1(3)] by (intro exI [of _ "c # cs"]) (simp add: add.assoc)
qed

lemma backup_file_Ok:
  assumes env: "pipeline_laws E" "b_stub E = stub" "inj_on (ident_of E ik) S" and ok: "session_ok inv blobs E (ident_of E ik) S st"
    and S: "run_data E cfg ik [spec] \<subseteq> S" and run: "backup_file E cfg ik spec st = (Ok f, st')"
  shows "captures E cfg ik spec f \<and> session_ok inv blobs E (ident_of E ik) S st' \<and> set (fe_chunks f) \<subseteq> bk_seen st' \<and> grows manifests st st'"
proof -
  obtain o' m ids len st1 where o': "b_open E (fs_abs spec) = Some o'" "op_meta o' = Some m"
    and t: "take_chunks E (stream_of E cfg ik (op_reader o')) [] 0 st = (Ok (ids, len), st1)"
    and f: "f = \<lparr>fe_path = fs_rel spec, fe_size = len, fe_mtime_secs = fst (mtime_parts m),
      fe_mtime_nanos = snd (mtime_parts m), fe_mode = file_mode m, fe_chunks = ids\<rparr>"
    and st': "st' = bk_progress False (st1\<lparr>bk_report := (bk_report st1)\<lparr>br_files := br_files (bk_report st1) + 1,
      br_source_bytes := br_source_bytes (bk_report st1) + len\<rparr>\<rparr>)"
    using run by (auto simp: backup_file_def Let_def split: option.splits prod.splits sum.splits)
  have good: "chunk_data c \<in> S \<and> chunk_ident c = ident_of E ik (chunk_data c)" if "Ok c \<in> set (stream_of E cfg ik (op_reader o'))" for c
    using that stream_of_ident [OF that] S o'(1) by (auto simp: run_data_def)
  from take_chunks_Ok [OF env ok good t] obtain cs where "stream_of E cfg ik (op_reader o') = map Ok cs"
    "ids = map chunk_ident cs" "len = word_of_nat (length (concat (map chunk_data cs)))"
    "session_ok inv blobs E (ident_of E ik) S st1" "set (map chunk_ident cs) \<subseteq> bk_seen st1" "grows manifests st st1"
    by auto
  then show ?thesis using o' f st' by (auto simp: captures_def)
qed

lemma backup_files_Ok:
  assumes env: "pipeline_laws E" "b_stub E = stub" "inj_on (ident_of E ik) S" and ok: "session_ok inv blobs E (ident_of E ik) S st"
    and S: "run_data E cfg ik specs \<subseteq> S" and run: "backup_files E cfg ik specs st = (Ok fs, st')"
  shows "list_all2 (captures E cfg ik) specs fs \<and> session_ok inv blobs E (ident_of E ik) S st' \<and>
    (\<forall>f \<in> set fs. set (fe_chunks f) \<subseteq> bk_seen st') \<and> grows manifests st st'"
  using ok S run
proof (induction specs arbitrary: st fs)
  case Nil
  then show ?case by simp
next
  case (Cons spec specs)
  obtain f fs' st1 where one: "backup_file E cfg ik spec st = (Ok f, st1)"
    and rest: "backup_files E cfg ik specs st1 = (Ok fs', st')" and fs: "fs = f # fs'"
    using Cons.prems(3) by (auto split: prod.splits sum.splits)
  have S: "run_data E cfg ik [spec] \<subseteq> S" "run_data E cfg ik specs \<subseteq> S" using Cons.prems(2) by (auto simp: run_data_def)
  note f = backup_file_Ok [OF env Cons.prems(1) S(1) one]
  note ih = Cons.IH [OF _ S(2) rest]
  show ?case using f ih fs grows_trans [of manifests st st1 st'] by (auto simp: grows_def)
qed

end

lemma finish_backup_cases:
  assumes "finish_backup E req entries st = (Ok rep, st')"
  obtains encoded sealed rng where
    "encode \<lparr>snapshot_id = rq_snapshot_id req, created_at = rq_created_at req, files = entries\<rparr> = Ok encoded"
    "encrypt_manifest (b_aead E) (b_fill E) (bk_key st) (rq_snapshot_id req) encoded (bk_rng st) = (Ok sealed, rng)"
    "put_manifest_call (b_stub E) sealed (ulid_to_bytes (rq_snapshot_id req)) (map chunk_id_as_bytes
       (chunk_refs \<lparr>snapshot_id = rq_snapshot_id req, created_at = rq_created_at req, files = entries\<rparr>)) (bk_srv st) = (Ok (), bk_srv st')"
  using assms by (auto simp: finish_backup_def Let_def split: sum.splits prod.splits)

lemma run_backup_cases:
  assumes "run_backup E dial F d req srv rng = (Ok rep, srv', rng', obs)"
  obtains k ik existing srv1 specs entries st1 st2 st3 where
    "load_data_key F d (rq_state_dir req) = Ok k" "load_chunk_id_key F d (rq_state_dir req) = Ok ik"
    "connect_authenticated dial F d (rq_daemon_url req) (rq_state_dir req) = Ok ()"
    "list_snapshots_call (b_stub E) srv = (Ok existing, srv1)"
    "collect_files (b_walk_fails E) [] (rq_roots req) = Ok specs"
    "backup_files E (rq_chunker req) ik specs (session_start req k existing srv1 rng) = (Ok entries, st1)"
    "flush E st1 = (Ok (), st2)" "finish_backup E req entries (bk_progress True st2) = (Ok rep, st3)" "srv' = bk_srv st3"
  using assms
  by (auto simp: run_backup_def backup_session_def and_then_Ok_iff split: sum.splits prod.splits)

lemma manifest_opens:
  assumes "pipeline_laws E" and "encrypt_manifest (b_aead E) (b_fill E) key u encoded rng = (Ok sealed, rng')"
  shows "decrypt_manifest (b_aead E) key u sealed = Ok encoded"
  using seal_open [of "b_aead E" "b_fill E"] assms
  by (simp add: pipeline_laws_def encrypt_manifest_def decrypt_manifest_def)

text \<open>What a successful backup leaves on the server: the sealed manifest of every source file, and every chunk it
  names under a blob that opens to the source data.\<close>

definition backed_up :: "('s, 'r, 'f) bk_env \<Rightarrow> backup_request \<Rightarrow> data_key \<Rightarrow> chunk_id_key \<Rightarrow> file_spec list \<Rightarrow> file_entry list
    \<Rightarrow> (chunk_id \<rightharpoonup> bytes) \<Rightarrow> (ulid \<rightharpoonup> bytes) \<Rightarrow> bool" where
  "backed_up E req k ik specs entries B M \<longleftrightarrow>
     list_all2 (captures E (rq_chunker req) ik) specs entries \<and>
     (\<exists>encoded sealed. M (rq_snapshot_id req) = Some sealed \<and>
        decrypt_manifest (b_aead E) k (rq_snapshot_id req) sealed = Ok encoded \<and>
        encode \<lparr>snapshot_id = rq_snapshot_id req, created_at = rq_created_at req, files = entries\<rparr> = Ok encoded) \<and>
     faithful (b_aead E) (b_codecs E) k (ident_of E ik) (run_data E (rq_chunker req) ik specs) B \<and>
     (\<forall>f \<in> set entries. \<forall>c \<in> set (fe_chunks f). B c \<noteq> None)"

context backup_server
begin

lemma run_backup_stores:
  assumes laws: "pipeline_laws E" "b_stub E = stub" and "inv srv"
    and run: "run_backup E dial F d req srv rng = (Ok rep, srv', rng', obs)"
    and keys: "load_data_key F d (rq_state_dir req) = Ok k" "load_chunk_id_key F d (rq_state_dir req) = Ok ik"
    and specs: "collect_files (b_walk_fails E) [] (rq_roots req) = Ok specs"
    and inj: "inj_on (ident_of E ik) (run_data E (rq_chunker req) ik specs)"
    and faith: "faithful (b_aead E) (b_codecs E) k (ident_of E ik) (run_data E (rq_chunker req) ik specs) (blobs srv)"
  shows "\<exists>entries. backed_up E req k ik specs entries (blobs srv') (manifests srv') \<and> inv srv' \<and>
    connect_authenticated dial F d (rq_daemon_url req) (rq_state_dir req) = Ok ()"
proof -
  let ?S = "run_data E (rq_chunker req) ik specs" and ?ok = "session_ok inv blobs E (ident_of E ik) (run_data E (rq_chunker req) ik specs)"
  from run obtain existing srv1 entries st1 st2 st3 where c: "connect_authenticated dial F d (rq_daemon_url req) (rq_state_dir req) = Ok ()"
    and l: "list_snapshots_call (b_stub E) srv = (Ok existing, srv1)"
    and b: "backup_files E (rq_chunker req) ik specs (session_start req k existing srv1 rng) = (Ok entries, st1)"
    and f: "flush E st1 = (Ok (), st2)" and fin: "finish_backup E req entries (bk_progress True st2) = (Ok rep, st3)"
    and srv': "srv' = bk_srv st3"
    using keys specs by (elim run_backup_cases) auto
  have srv1: "inv srv1" "blobs srv1 = blobs srv" using list_spec [OF assms(3)] l laws(2) by auto
  then have "?ok (session_start req k existing srv1 rng)" using faith by (simp add: session_ok_def session_start_def)
  note files = backup_files_Ok [OF laws inj this subset_refl b]
  then have "?ok st1" by blast
  note fl = flush_Ok [OF laws inj this f]
  have key: "bk_key (bk_progress True st2) = k" "bk_srv (bk_progress True st2) = bk_srv st2"
    using files fl by (auto simp: grows_def session_start_def bk_progress_def)
  from fin obtain encoded sealed rng2 where
    e: "encode \<lparr>snapshot_id = rq_snapshot_id req, created_at = rq_created_at req, files = entries\<rparr> = Ok encoded"
    "encrypt_manifest (b_aead E) (b_fill E) k (rq_snapshot_id req) encoded (bk_rng (bk_progress True st2)) = (Ok sealed, rng2)"
    "\<exists>refs. put_manifest_call stub sealed (ulid_to_bytes (rq_snapshot_id req)) refs (bk_srv st2) = (Ok (), srv')"
    unfolding srv' using key laws(2) by (elim finish_backup_cases) auto
  have put: "inv srv'" "blobs srv' = blobs (bk_srv st2)" "manifests srv' = (manifests (bk_srv st2))(rq_snapshot_id req \<mapsto> sealed)"
    using e(3) put_spec fl by (auto simp: session_ok_def)
  have "\<forall>g \<in> set entries. \<forall>c \<in> set (fe_chunks g). blobs srv' c \<noteq> None"
  proof (intro ballI)
    fix g c
    assume "g \<in> set entries" "c \<in> set (fe_chunks g)"
    then have "c \<in> bk_seen st2" using files fl by auto
    then show "blobs srv' c \<noteq> None" using session_ok_seen [of inv blobs E _ ?S st2 c] fl put(2) by auto
  qed
  moreover have "faithful (b_aead E) (b_codecs E) k (ident_of E ik) ?S (blobs srv')"
    using fl key put(2) by (simp add: session_ok_def bk_progress_def)
  ultimately have "backed_up E req k ik specs entries (blobs srv') (manifests srv')"
    using files e(1) put(3) manifest_opens [OF laws(1) e(2)] by (simp add: backed_up_def)
  then show ?thesis using put(1) c by blast
qed

end

end
