(* ===== verification/Restore_Session.thy ===== *)
theory Restore_Session
  imports Backup_Session
begin

text \<open>
  A restore without faults succeeds against the contract \<open>restore_server\<close>, and a backup followed by a restore gives
  the source tree back (locale \<open>backup_restore_server\<close>).
\<close>

section \<open>Restoring against the contract\<close>

locale restore_server =
  fixes stub :: "'s stub" and inv :: "'s \<Rightarrow> bool" and blobs :: "'s \<Rightarrow> chunk_id \<rightharpoonup> bytes" and manifests :: "'s \<Rightarrow> ulid \<rightharpoonup> bytes"
  assumes get_manifest_spec: "inv s \<Longrightarrow> manifests s u = Some m \<Longrightarrow>
      \<exists>s'. get_manifest_call stub (ulid_to_bytes u) s = (Ok m, s') \<and> inv s' \<and> blobs s' = blobs s"
    and get_chunks_spec: "inv s \<Longrightarrow> (\<And>c. c \<in> set ids \<Longrightarrow> blobs s c \<noteq> None) \<Longrightarrow>
      \<exists>s'. get_chunks_call stub (map chunk_id_as_bytes ids) s = (Ok (map (\<lambda>c. Ok (blob_of (c, the (blobs s c)))) ids), s') \<and>
        inv s' \<and> blobs s' = blobs s"

lemma open_chunk_plain:
  assumes "plain_of (r_aead E) (r_codecs E) key B c = Some d" and "chunk_id_keyed (r_keyed E) ik d = c"
  shows "open_chunk E key ik c (blob_of (c, the (B c))) = Ok d"
proof -
  obtain blob where blob: "B c = Some blob" using assms(1) by (auto simp: plain_of_def split: option.splits)
  obtain framed where "decrypt_chunk (r_aead E) key c blob = Ok framed" "decode_chunk (r_codecs E) framed = Ok d"
    using assms(1) blob by (auto simp: plain_of_def and_then_Ok_iff map_err_def split: sum.splits)
  then show ?thesis using assms(2) blob by (simp add: open_chunk_def rs_parse_chunk_id_def blob_of_def Let_def)
qed

text \<open>The data of an entry can be read back from the blobs \<open>B\<close>.\<close>

definition restorable :: "'s rs_env \<Rightarrow> data_key \<Rightarrow> chunk_id_key \<Rightarrow> (chunk_id \<rightharpoonup> bytes) \<Rightarrow> fpath \<Rightarrow> file_entry \<Rightarrow> bytes list \<Rightarrow> bool" where
  "restorable E key ik B path f ds \<longleftrightarrow> sanitize_path (fe_path f) = Ok path \<and>
     fe_chunks f = map (chunk_id_keyed (r_keyed E) ik) ds \<and> fe_size f = word_of_nat (length (concat ds)) \<and>
     (\<forall>d \<in> set ds. plain_of (r_aead E) (r_codecs E) key B (chunk_id_keyed (r_keyed E) ik d) = Some d)"

lemma no_rs_faults [simp]: "\<not> rs_fails rs_no_faults x"
  by (simp add: rs_no_faults_def)

lemma receive_chunks_runs:
  assumes "\<And>d. d \<in> set ds \<Longrightarrow> open_chunk E key ik (h d) (b d) = Ok d" and "map_of (rt_files (rs_tree st)) path = Some f"
  shows "\<exists>st'. receive_chunks E rs_no_faults key ik path n (map h ds) (map (\<lambda>d. Ok (b d)) ds) w st =
      (Ok (w + word_of_nat (length (concat ds))), st') \<and> rs_srv st' = rs_srv st \<and> rt_dirs (rs_tree st') = rt_dirs (rs_tree st) \<and>
      map_of (rt_files (rs_tree st')) = (map_of (rt_files (rs_tree st)))(path \<mapsto> f\<lparr>rf_data := rf_data f @ concat ds\<rparr>)"
  using assms
proof (induction ds arbitrary: n w st f)
  case Nil
  then show ?case by (intro exI [of _ st]) auto
next
  case (Cons d ds)
  define st1 where "st1 = rs_progress False (st\<lparr>rs_tree := append_file (rs_tree st) path d,
     rs_report := (rs_report st)\<lparr>rr_bytes := rr_bytes (rs_report st) + word_of_nat (length d),
       rr_chunks_fetched := rr_chunks_fetched (rs_report st) + 1\<rparr>\<rparr>)"
  have t: "rs_tree st1 = append_file (rs_tree st) path d" "rs_srv st1 = rs_srv st" by (simp_all add: st1_def rs_progress_def)
  have "map_of (rt_files (rs_tree st1)) path = Some (f\<lparr>rf_data := rf_data f @ d\<rparr>)" using Cons.prems(2) by (simp add: t map_of_append_file)
  from Cons.IH [OF _ this, of "Suc n" "w + word_of_nat (length d)"] Cons.prems(1) obtain st' where
    "receive_chunks E rs_no_faults key ik path (Suc n) (map h ds) (map (\<lambda>d. Ok (b d)) ds) (w + word_of_nat (length d)) st1 =
      (Ok (w + word_of_nat (length d) + word_of_nat (length (concat ds))), st')"
    "rs_srv st' = rs_srv st1" "rt_dirs (rs_tree st') = rt_dirs (rs_tree st1)"
    "map_of (rt_files (rs_tree st')) = (map_of (rt_files (rs_tree st1)))(path \<mapsto>
       (f\<lparr>rf_data := rf_data f @ d\<rparr>)\<lparr>rf_data := rf_data (f\<lparr>rf_data := rf_data f @ d\<rparr>) @ concat ds\<rparr>)"
    by (meson list.set_intros(2))
  then show ?case using Cons.prems
    by (intro exI [of _ st']) (simp add: st1_def [symmetric] Let_def t map_of_append_file add.assoc)
qed

context restore_server
begin

lemma restore_file_runs:
  assumes env: "r_stub E = stub" and "inv (rs_srv st)" and r: "restorable E key ik (blobs (rs_srv st)) path f ds"
    and free: "\<And>q. q \<in> set (prefixes_of (butlast path)) \<Longrightarrow> map_of (rt_files (rs_tree st)) q = None"
    and nodir: "path \<notin> rt_dirs (rs_tree st) \<union> set (prefixes_of (butlast path))"
  shows "\<exists>st'. restore_file E rs_no_faults key ik f st = (Ok (fe_size f), st') \<and> inv (rs_srv st') \<and>
    blobs (rs_srv st') = blobs (rs_srv st) \<and> rt_dirs (rs_tree st') = rt_dirs (rs_tree st) \<union> set (prefixes_of (butlast path)) \<and>
    map_of (rt_files (rs_tree st')) = (map_of (rt_files (rs_tree st)))(path \<mapsto> restored (concat ds) f)"
proof -
  let ?h = "chunk_id_keyed (r_keyed E) ik" and ?B = "blobs (rs_srv st)"
  define t1 where "t1 = (rs_tree st)\<lparr>rt_dirs := rt_dirs (rs_tree st) \<union> set (prefixes_of (butlast path))\<rparr>"
  define t2 where "t2 = t1\<lparr>rt_files := AList.update path new_file (rt_files t1)\<rparr>"
  have dirs: "make_dirs rs_no_faults (rs_tree st) (butlast path) = (t1, Ok ())"
    using free by (simp add: make_dirs_def t1_def Let_def takeWhile_eq_all_conv [THEN iffD2])
  have create: "create_file rs_no_faults t1 path = (t2, Ok ())" using nodir by (simp add: create_file_def t2_def t1_def new_file_def)
  have t2: "map_of (rt_files t2) = (map_of (rt_files (rs_tree st)))(path \<mapsto> new_file)" "rt_dirs t2 = rt_dirs t1"
    by (auto simp: t2_def t1_def update_conv)
  have open_ok: "open_chunk E key ik (?h d) (blob_of (?h d, the (?B (?h d)))) = Ok d" if "d \<in> set ds" for d
    using open_chunk_plain [of E key ?B "?h d" d ik] r that by (simp add: restorable_def)
  have present: "?B c \<noteq> None" if "c \<in> set (map ?h ds)" for c
    using r that by (auto simp: restorable_def plain_of_def split: option.splits)
  obtain st1 where fetch: "fetch_file E rs_no_faults key ik path (fe_chunks f) (st\<lparr>rs_tree := t2\<rparr>) = (Ok (fe_size f), st1)"
    "inv (rs_srv st1)" "blobs (rs_srv st1) = ?B" "rt_dirs (rs_tree st1) = rt_dirs t2"
    "map_of (rt_files (rs_tree st1)) = (map_of (rt_files t2))(path \<mapsto> new_file\<lparr>rf_data := concat ds\<rparr>)"
  proof (cases "ds = []")
    case True
    then show thesis using that [of "st\<lparr>rs_tree := t2\<rparr>"] r assms(2) t2 by (simp add: fetch_file_def restorable_def new_file_def)
  next
    case False
    from get_chunks_spec [OF assms(2), of "map ?h ds"] present obtain srv where
      call: "get_chunks_call stub (map chunk_id_as_bytes (map ?h ds)) (rs_srv st) =
        (Ok (map (\<lambda>d. Ok (blob_of (?h d, the (?B (?h d))))) ds), srv)" "inv srv" "blobs srv = ?B"
      unfolding map_map comp_def by blast
    have "map_of (rt_files (rs_tree (st\<lparr>rs_tree := t2, rs_srv := srv\<rparr>))) path = Some new_file" by (simp add: t2)
    from receive_chunks_runs [where h = ?h and b = "\<lambda>d. blob_of (?h d, the (?B (?h d)))" and n = 0 and w = 0, OF open_ok this] obtain st1 where
      "receive_chunks E rs_no_faults key ik path 0 (map ?h ds) (map (\<lambda>d. Ok (blob_of (?h d, the (?B (?h d))))) ds) 0
         (st\<lparr>rs_tree := t2, rs_srv := srv\<rparr>) = (Ok (word_of_nat (length (concat ds))), st1)"
      "rs_srv st1 = srv" "rt_dirs (rs_tree st1) = rt_dirs t2"
      "map_of (rt_files (rs_tree st1)) = (map_of (rt_files t2))(path \<mapsto> new_file\<lparr>rf_data := concat ds\<rparr>)"
      by (auto simp: new_file_def)
    then show thesis using that [of st1] call env r False by (simp add: fetch_file_def restorable_def comp_def)
  qed
  define st2 where "st2 = st1\<lparr>rs_tree := update_file (update_file (rs_tree st1) path
     (\<lambda>r. r\<lparr>rf_mtime := Some (fe_mtime_secs f, fe_mtime_nanos f)\<rparr>)) path (\<lambda>r. r\<lparr>rf_mode := Some (fe_mode f)\<rparr>)\<rparr>"
  have fin: "finish_file rs_no_faults path f st1 = (Ok (), st2)" by (simp add: finish_file_def Let_def st2_def)
  have "restore_file E rs_no_faults key ik f st = (Ok (fe_size f), st2)"
    using r dirs create fetch(1) fin by (simp add: restore_file_def restorable_def)
  moreover have "map_of (rt_files (rs_tree st2)) = (map_of (rt_files (rs_tree st)))(path \<mapsto> restored (concat ds) f)"
    using fetch(5) by (simp add: st2_def map_of_update_file t2 new_file_def)
  moreover have "rt_dirs (rs_tree st2) = rt_dirs (rs_tree st) \<union> set (prefixes_of (butlast path))"
    using fetch(4) by (simp add: st2_def t2 t1_def)
  ultimately show ?thesis using fetch(2,3) by (intro exI [of _ st2]) (simp add: st2_def)
qed

end

text \<open>No path of the set leads through another one.\<close>

definition prefix_free :: "fpath set \<Rightarrow> bool" where
  "prefix_free P \<longleftrightarrow> [] \<notin> P \<and> (\<forall>p \<in> P. \<forall>r. p @ r \<in> P \<longrightarrow> r = [])"

lemma prefixes_of_strict:
  assumes "q \<in> set (prefixes_of (butlast p))" and "p \<noteq> []"
  shows "\<exists>r. r \<noteq> [] \<and> p = q @ r"
proof -
  obtain n where "n < length p" "q = take n (butlast p)" using assms by (auto simp: prefixes_of_def)
  then have "q = take n p" by (simp add: take_butlast)
  then show ?thesis using \<open>n < length p\<close> by (intro exI [of _ "drop n p"]) simp
qed

text \<open>The state of the tree while the files of a prefix-free set are being restored.\<close>

definition tree_within :: "fpath set \<Rightarrow> rtree \<Rightarrow> bool" where
  "tree_within P t \<longleftrightarrow> (\<forall>p. map_of (rt_files t) p \<noteq> None \<longrightarrow> p \<in> P) \<and>
     (\<forall>q \<in> rt_dirs t. q = [] \<or> (\<exists>r. r \<noteq> [] \<and> q @ r \<in> P))"

lemma tree_within_free:
  assumes "prefix_free P" and "tree_within P t" and "path \<in> P"
  shows "q \<in> set (prefixes_of (butlast path)) \<Longrightarrow> map_of (rt_files t) q = None"
    and "path \<notin> rt_dirs t \<union> set (prefixes_of (butlast path))"
proof -
  have ne: "path \<noteq> []" using assms by (auto simp: prefix_free_def)
  show "map_of (rt_files t) q = None" if "q \<in> set (prefixes_of (butlast path))"
    using prefixes_of_strict [OF that ne] assms by (auto simp: prefix_free_def tree_within_def)
  have "path \<notin> set (prefixes_of (butlast path))" using prefixes_of_strict [OF _ ne, of path] by auto
  moreover have "path \<notin> rt_dirs t" using assms ne by (auto simp: prefix_free_def tree_within_def)
  ultimately show "path \<notin> rt_dirs t \<union> set (prefixes_of (butlast path))" by blast
qed

lemma tree_within_restored:
  assumes "prefix_free P" and "tree_within P t" and "path \<in> P"
    and "rt_dirs t' = rt_dirs t \<union> set (prefixes_of (butlast path))" and "map_of (rt_files t') = (map_of (rt_files t))(path \<mapsto> g)"
  shows "tree_within P t'"
proof -
  have "path \<noteq> []" using assms by (auto simp: prefix_free_def)
  then have "\<exists>r. r \<noteq> [] \<and> q @ r \<in> P" if "q \<in> set (prefixes_of (butlast path))" for q
    using prefixes_of_strict [OF that] assms(3) by auto
  then show ?thesis using assms by (auto simp: tree_within_def)
qed

context restore_server
begin

lemma restore_files_runs:
  assumes env: "r_stub E = stub" and P: "prefix_free P"
    and "inv (rs_srv st)" "tree_within P (rs_tree st)"
    and "\<And>x. x \<in> set xs \<Longrightarrow> fst x \<in> P \<and> restorable E key ik (blobs (rs_srv st)) (fst x) (fst (snd x)) (snd (snd x))"
    and "distinct (map fst xs)"
  shows "\<exists>st'. restore_files E rs_no_faults key ik (map (\<lambda>x. fst (snd x)) xs) st = (Ok (), st') \<and>
    (\<forall>x \<in> set xs. map_of (rt_files (rs_tree st')) (fst x) = Some (restored (concat (snd (snd x))) (fst (snd x)))) \<and>
    (\<forall>p. p \<notin> fst ` set xs \<longrightarrow> map_of (rt_files (rs_tree st')) p = map_of (rt_files (rs_tree st)) p)"
  using assms(3-)
proof (induction xs arbitrary: st)
  case Nil
  then show ?case by simp
next
  case (Cons x xs)
  obtain path f ds where x: "x = (path, f, ds)" by (cases x)
  have p: "path \<in> P" and r: "restorable E key ik (blobs (rs_srv st)) path f ds" using Cons.prems(3) [of x] x by auto
  from restore_file_runs [OF env Cons.prems(1) r tree_within_free [OF P Cons.prems(2) p]] obtain st1 where
    one: "restore_file E rs_no_faults key ik f st = (Ok (fe_size f), st1)" and s1: "inv (rs_srv st1)"
    "blobs (rs_srv st1) = blobs (rs_srv st)" "rt_dirs (rs_tree st1) = rt_dirs (rs_tree st) \<union> set (prefixes_of (butlast path))"
    "map_of (rt_files (rs_tree st1)) = (map_of (rt_files (rs_tree st)))(path \<mapsto> restored (concat ds) f)"
    by auto
  define st2 where "st2 = rs_progress False (st1\<lparr>rs_report := (rs_report st1)\<lparr>rr_files := rr_files (rs_report st1) + 1\<rparr>\<rparr>)"
  have s2: "rs_srv st2 = rs_srv st1" "rs_tree st2 = rs_tree st1" by (simp_all add: st2_def rs_progress_def)
  have "tree_within P (rs_tree st2)" unfolding s2 by (rule tree_within_restored [OF P Cons.prems(2) p s1(3,4)])
  from Cons.IH [of st2, OF _ this] obtain st' where
    "restore_files E rs_no_faults key ik (map (\<lambda>x. fst (snd x)) xs) st2 = (Ok (), st')"
    "\<forall>x \<in> set xs. map_of (rt_files (rs_tree st')) (fst x) = Some (restored (concat (snd (snd x))) (fst (snd x)))"
    "\<forall>p. p \<notin> fst ` set xs \<longrightarrow> map_of (rt_files (rs_tree st')) p = map_of (rt_files (rs_tree st2)) p"
    using Cons.prems(3,4) s1 s2 by auto
  then show ?case using Cons.prems(4) one x s1(4) s2 by (intro exI [of _ st']) (auto simp: st2_def)
qed

text \<open>A run on a snapshot whose manifest and data the server holds.\<close>

lemma run_restore_runs:
  assumes env: "r_stub E = stub" and P: "prefix_free P" and "inv srv"
    and m: "manifests srv (rs_snapshot_id req) = Some sealed"
      "decrypt_manifest (r_aead E) key (rs_snapshot_id req) sealed = Ok plain"
      "decode plain = Ok \<lparr>snapshot_id = u, created_at = t, files = map (\<lambda>x. fst (snd x)) xs\<rparr>"
    and x: "\<And>x. x \<in> set xs \<Longrightarrow> fst x \<in> P \<and> restorable E key ik (blobs srv) (fst x) (fst (snd x)) (snd (snd x))"
      "distinct (map fst xs)"
    and state: "load_data_key Fc d (rs_state_dir req) = Ok key" "load_chunk_id_key Fc d (rs_state_dir req) = Ok ik"
      "connect_authenticated dial Fc d (rs_daemon_url req) (rs_state_dir req) = Ok ()"
    and target: "rs_target req = TargetAbsent \<or> rs_target req = TargetDir False"
  shows "\<exists>rep st. run_restore E dial Fc d rs_no_faults req srv = (Ok rep, st) \<and>
    (\<forall>x \<in> set xs. map_of (rt_files (rs_tree st)) (fst x) = Some (restored (concat (snd (snd x))) (fst (snd x)))) \<and>
    (\<forall>p. p \<notin> fst ` set xs \<longrightarrow> map_of (rt_files (rs_tree st)) p = None)"
proof -
  from get_manifest_spec [OF \<open>inv srv\<close> m(1)] obtain srv1 where
    g: "get_manifest_call stub (ulid_to_bytes (rs_snapshot_id req)) srv = (Ok sealed, srv1)" "inv srv1" "blobs srv1 = blobs srv" by blast
  define st0 where "st0 = \<lparr>rs_srv = srv1, rs_tree = empty_tree, rs_report = \<lparr>rr_snapshot_id = rs_snapshot_id req,
     rr_files = 0, rr_bytes = 0, rr_chunks_fetched = 0\<rparr>, rs_log = []\<rparr>"
  have "tree_within P (rs_tree st0)" by (simp add: st0_def tree_within_def empty_tree_def)
  from restore_files_runs [OF env P _ this, of xs key ik] g x obtain st1 where
    run: "restore_files E rs_no_faults key ik (map (\<lambda>x. fst (snd x)) xs) st0 = (Ok (), st1)"
    and tree: "\<forall>x \<in> set xs. map_of (rt_files (rs_tree st1)) (fst x) = Some (restored (concat (snd (snd x))) (fst (snd x)))"
      "\<forall>p. p \<notin> fst ` set xs \<longrightarrow> map_of (rt_files (rs_tree st1)) p = None"
    by (auto simp: st0_def empty_tree_def)
  have "ensure_empty_target rs_no_faults (rs_target req) = Ok ()" using target by (auto simp: ensure_empty_target_def)
  then have "run_restore E dial Fc d rs_no_faults req srv = (Ok (rs_report st1), rs_progress True st1)"
    using state g(1) m env run by (simp add: run_restore_def Let_def st0_def)
  moreover have "rs_tree (rs_progress True st1) = rs_tree st1" by (simp add: rs_progress_def)
  ultimately show ?thesis using tree by (intro exI [of _ "rs_report st1"] exI [of _ "rs_progress True st1"]) simp
qed

end

section \<open>From source to target\<close>

text \<open>
  The law of the streaming chunker: unless an item is an error, the chunks of a reader, up to the end of its
  stream, make up the content it reads.
\<close>

fun item_data :: "cdc_item \<Rightarrow> bytes" where
  "item_data (CdcChunk off data) = data"
| "item_data _ = []"

definition cdc_reads :: "('f \<Rightarrow> bytes) \<Rightarrow> 'f cdc_stream \<Rightarrow> bool" where
  "cdc_reads content cdc \<longleftrightarrow> (\<forall>reader lo mid hi.
     (\<forall>i \<in> set (takeWhile (\<lambda>i. i \<noteq> CdcEmpty) (cdc reader lo mid hi)). \<exists>off data. i = CdcChunk off data) \<longrightarrow>
     concat (map item_data (takeWhile (\<lambda>i. i \<noteq> CdcEmpty) (cdc reader lo mid hi))) = content reader)"

lemma chunk_stream_items:
  "chunk_stream ident items = map Ok cs \<Longrightarrow>
     (\<forall>i \<in> set (takeWhile (\<lambda>i. i \<noteq> CdcEmpty) items). \<exists>off data. i = CdcChunk off data) \<and>
     map item_data (takeWhile (\<lambda>i. i \<noteq> CdcEmpty) items) = map chunk_data cs"
proof (induction items arbitrary: cs)
  case (Cons item items)
  then show ?case by (cases item; cases cs) auto
qed simp

lemma stream_content:
  assumes "cdc_reads content (b_cdc E)" and "stream_of E cfg ik reader = map Ok cs"
  shows "concat (map chunk_data cs) = content reader"
  using chunk_stream_items [OF assms(2) [unfolded chunk_reader_keyed_def]] assms(1) unfolding cdc_reads_def by metis

lemma walk_utf8:
  "walk_dir F dir pre es = Ok specs \<Longrightarrow> utf8_valid pre \<Longrightarrow> s \<in> set specs \<Longrightarrow> utf8_valid (fs_rel s)"
  "walk_entries F dir pre es = Ok specs \<Longrightarrow> utf8_valid pre \<Longrightarrow> s \<in> set specs \<Longrightarrow> utf8_valid (fs_rel s)"
proof (induction F dir pre es and F dir pre es arbitrary: specs and specs rule: walk_dir_walk_entries.induct)
  case (1 F dir pre es)
  then show ?case by (auto simp: walk_dir.simps split: if_splits)
next
  case (2 F dir pre)
  then show ?case by simp
next
  case (3 F dir pre nm node rest)
  let ?path = "dir @ [nm]" and ?rel = "pre @ slash # nm"
  obtain here there where h: "(case node of Directory es \<Rightarrow> walk_dir F ?path ?rel es
      | RegFile \<Rightarrow> Ok [\<lparr>fs_abs = ?path, fs_rel = ?rel\<rparr>] | OtherNode \<Rightarrow> Ok []) = Ok here"
    and t: "walk_entries F dir pre rest = Ok there" and s: "specs = here @ there"
    and ok: "utf8_valid nm" "\<not> F (BkFileType ?path)"
    using 3(3) by (auto simp: Let_def and_then_Ok_iff split: if_splits)
  have "utf8_valid (slash # nm)" using ok(1) by (simp add: slash_def)
  then have rel: "utf8_valid ?rel" using utf8_valid_append 3(4) by blast
  have "utf8_valid (fs_rel s)" if "s \<in> set there" using 3(2) [OF refl refl _ _ t 3(4) that] ok by simp
  moreover have "utf8_valid (fs_rel s)" if "s \<in> set here"
    using 3(1) [OF refl refl] ok h rel that by (cases node) auto
  ultimately show ?case using 3(5) s by auto
qed

lemma collect_utf8: "collect_files F names roots = Ok specs \<Longrightarrow> s \<in> set specs \<Longrightarrow> utf8_valid (fs_rel s)"
proof (induction roots arbitrary: names specs)
  case (Cons r roots)
  obtain rt node where r: "r = (rt, node)" by (cases r)
  from Cons.prems(1) [unfolded r] obtain es nm here there where "utf8_valid nm" "walk_dir F rt nm es = Ok here"
    "collect_files F (nm # names) roots = Ok there" "specs = here @ there" by (rule collect_files_Cons)
  then show ?case using Cons walk_utf8(1) by fastforce
qed simp

lemma collect_root_names:
  "collect_files F names roots = Ok specs \<Longrightarrow>
     distinct (map (\<lambda>r. last (fst r)) roots) \<and> set (map (\<lambda>r. last (fst r)) roots) \<inter> set names = {}"
proof (induction roots arbitrary: names specs)
  case (Cons r roots)
  obtain rt node where r: "r = (rt, node)" by (cases r)
  from Cons.prems [unfolded r] obtain nm there where "nm = last rt" "nm \<notin> set names"
    "collect_files F (nm # names) roots = Ok there" by (rule collect_files_Cons)
  then show ?case using Cons.IH [of "nm # names" there] r by auto
qed simp

definition target_paths :: "(fpath \<times> fnode option) list \<Rightarrow> fpath set" where
  "target_paths roots = {last rt # p | rt p. source_path roots rt p}"

lemma target_paths_prefix_free:
  assumes "collect_files F [] roots = Ok specs" and "roots_ok roots"
  shows "prefix_free (target_paths roots)"
  unfolding prefix_free_def
proof (intro conjI ballI allI impI)
  show "[] \<notin> target_paths roots" by (simp add: target_paths_def)
  fix q r
  assume "q \<in> target_paths roots" "q @ r \<in> target_paths roots"
  then obtain rt p rt' p' where q: "q = last rt # p" "source_path roots rt p" "last rt # p @ r = last rt' # p'" "source_path roots rt' p'"
    by (auto simp: target_paths_def)
  then obtain es es' where es: "(rt, Some (Directory es)) \<in> set roots" "file_in es p"
    "(rt', Some (Directory es')) \<in> set roots" "file_in es' p'" by (auto simp: source_path_def)
  have "inj_on (\<lambda>r. last (fst r)) (set roots)" using collect_root_names [OF assms(1)] by (simp add: distinct_map)
  then have "(rt, Some (Directory es)) = (rt', Some (Directory es'))" by (rule inj_onD) (use es q(3) in simp_all)
  moreover have "tree_ok es" using assms(2) es(1) by (auto simp: roots_ok_def)
  ultimately show "r = []" using file_in_prefix_free [OF es(2)] es(4) q(3) by auto
qed

text \<open>What the restore makes of an entry that captures a source file.\<close>

lemma captures_restorable:
  assumes "captures E cfg ik spec f" and "run_data E cfg ik [spec] \<subseteq> S"
    and "faithful (b_aead E) (b_codecs E) k (ident_of E ik) S B" and "\<forall>c \<in> set (fe_chunks f). B c \<noteq> None"
    and "sanitize_path (fs_rel spec) = Ok path"
    and "r_aead R = b_aead E" "r_codecs R = b_codecs E" "r_keyed R = b_keyed E" and "cdc_reads content (b_cdc E)"
  shows "\<exists>ds o' m. restorable R k ik B path f ds \<and> b_open E (fs_abs spec) = Some o' \<and> op_meta o' = Some m \<and>
    restored (concat ds) f = \<lparr>rf_data = content (op_reader o'), rf_mtime = Some (mtime_parts m), rf_mode = Some (file_mode m)\<rparr>"
proof -
  obtain o' m cs where o': "b_open E (fs_abs spec) = Some o'" "op_meta o' = Some m" and cs: "stream_of E cfg ik (op_reader o') = map Ok cs"
    and f: "f = \<lparr>fe_path = fs_rel spec, fe_size = word_of_nat (length (concat (map chunk_data cs))),
          fe_mtime_secs = fst (mtime_parts m), fe_mtime_nanos = snd (mtime_parts m), fe_mode = file_mode m,
          fe_chunks = map chunk_ident cs\<rparr>"
    using assms(1) by (auto simp: captures_def)
  have c: "chunk_ident c = ident_of E ik (chunk_data c) \<and> chunk_data c \<in> S" if "c \<in> set cs" for c
  proof -
    have "Ok c \<in> set (stream_of E cfg ik (op_reader o'))" using that cs by simp
    then show ?thesis using stream_of_ident assms(2) o'(1) by (auto simp: run_data_def)
  qed
  have "restorable R k ik B path f (map chunk_data cs)"
    using c assms(3-8) by (auto simp: restorable_def f faithful_def)
  then show ?thesis using o' f stream_content [OF assms(9) cs] by (intro exI [of _ "map chunk_data cs"] exI [of _ o'] exI [of _ m]) simp
qed

text \<open>The restored tree mirrors the source: every file below the roots is there, under its root's name, with the
  content, modification time and mode it had, and there is nothing else.\<close>

definition mirrors :: "('s, 'r, 'f) bk_env \<Rightarrow> ('f \<Rightarrow> bytes) \<Rightarrow> (fpath \<times> fnode option) list \<Rightarrow> rtree \<Rightarrow> bool" where
  "mirrors E content roots t \<longleftrightarrow>
     (\<forall>rt p. source_path roots rt p \<longrightarrow> (\<exists>o' m. b_open E (rt @ p) = Some o' \<and> op_meta o' = Some m \<and>
        map_of (rt_files t) (last rt # p) =
          Some \<lparr>rf_data = content (op_reader o'), rf_mtime = Some (mtime_parts m), rf_mode = Some (file_mode m)\<rparr>)) \<and>
     (\<forall>q. map_of (rt_files t) q \<noteq> None \<longrightarrow> (\<exists>rt p. q = last rt # p \<and> source_path roots rt p))"

definition same_setup :: "('s, 'r, 'f) bk_env \<Rightarrow> backup_request \<Rightarrow> 's rs_env \<Rightarrow> restore_request \<Rightarrow> bool" where
  "same_setup E req R rreq \<longleftrightarrow> r_aead R = b_aead E \<and> r_codecs R = b_codecs E \<and> r_keyed R = b_keyed E \<and>
     rs_daemon_url rreq = rq_daemon_url req \<and> rs_state_dir rreq = rq_state_dir req \<and> rs_snapshot_id rreq = rq_snapshot_id req \<and>
     rs_target rreq \<in> {TargetAbsent, TargetDir False}"

text \<open>The triples a restore of captured entries works through.\<close>

lemma captured_triples:
  assumes collect: "collect_files F [] roots = Ok specs" "roots_ok roots"
    and cap: "list_all2 (captures E cfg ik) specs entries"
    and faith: "faithful (b_aead E) (b_codecs E) k (ident_of E ik) (run_data E cfg ik specs) B"
    and have_all: "\<forall>f \<in> set entries. \<forall>c \<in> set (fe_chunks f). B c \<noteq> None"
    and R: "r_aead R = b_aead E" "r_codecs R = b_codecs E" "r_keyed R = b_keyed E" and cdc: "cdc_reads content (b_cdc E)"
  obtains xs where "map (\<lambda>x. fst (snd x)) xs = entries" "distinct (map fst xs)" "fst ` set xs = target_paths roots"
    "\<And>x. x \<in> set xs \<Longrightarrow> restorable R k ik B (fst x) (fst (snd x)) (snd (snd x))"
    "\<And>x rt p. x \<in> set xs \<Longrightarrow> source_path roots rt p \<Longrightarrow> fst x = last rt # p \<Longrightarrow> \<exists>o' m. b_open E (rt @ p) = Some o' \<and> op_meta o' = Some m \<and>
       restored (concat (snd (snd x))) (fst (snd x)) =
         \<lparr>rf_data = content (op_reader o'), rf_mtime = Some (mtime_parts m), rf_mode = Some (file_mode m)\<rparr>"
proof -
  let ?good = "\<lambda>y ds. restorable R k ik B (split_slash (fs_rel (fst y))) (snd y) ds \<and> (\<exists>o' m. b_open E (fs_abs (fst y)) = Some o' \<and>
     op_meta o' = Some m \<and> restored (concat ds) (snd y) =
       \<lparr>rf_data = content (op_reader o'), rf_mtime = Some (mtime_parts m), rf_mode = Some (file_mode m)\<rparr>)"
  have src: "\<exists>rt p. source_path roots rt p \<and> s = spec_of rt (last rt) p \<and> split_slash (fs_rel s) = last rt # p \<and>
      sanitize_path (fs_rel s) = Ok (last rt # p)" if "s \<in> set specs" for s
  proof -
    obtain rt p where s: "source_path roots rt p" "s = spec_of rt (last rt) p" using collect_files_set [OF collect(1)] \<open>s \<in> set specs\<close> by auto
    have "rt \<noteq> []" using collect_files_names [OF collect(1) s(1)] by blast
    from spec_components [OF collect(2) s(1) this] show ?thesis using s
      by (intro exI [of _ rt] exI [of _ p]) (auto simp: sanitize_path_Ok_iff name_ok_def)
  qed
  have "\<exists>ds. ?good y ds" if y: "y \<in> set (zip specs entries)" for y
  proof -
    have "captures E cfg ik (fst y) (snd y)" using cap y by (auto simp: list_all2_iff)
    moreover have s: "fst y \<in> set specs" "snd y \<in> set entries" using y by (metis in_set_zipE prod.collapse)+
    moreover have "run_data E cfg ik [fst y] \<subseteq> run_data E cfg ik specs" using s by (auto simp: run_data_def)
    moreover obtain rt p where "split_slash (fs_rel (fst y)) = last rt # p" "sanitize_path (fs_rel (fst y)) = Ok (last rt # p)"
      using src [OF s(1)] by blast
    ultimately show ?thesis using captures_restorable [OF _ _ faith _ _ R cdc] have_all by metis
  qed
  then obtain D where D: "\<And>y. y \<in> set (zip specs entries) \<Longrightarrow> ?good y (D y)" by metis
  define xs where "xs = map (\<lambda>y. (split_slash (fs_rel (fst y)), snd y, D y)) (zip specs entries)"
  have len: "length specs = length entries" using cap by (simp add: list_all2_lengthD)
  have "map fst xs = map (\<lambda>s. split_slash (fs_rel s)) (map fst (zip specs entries))" by (simp add: xs_def)
  then have paths: "map fst xs = map split_slash (map fs_rel specs)" using len by (simp add: comp_def)
  show thesis
  proof (rule that [of xs])
    show "map (\<lambda>x. fst (snd x)) xs = entries" using len by (simp add: xs_def comp_def map_snd_zip [unfolded snd_def])
    have "inj split_slash" by (metis injI join_split)
    then show "distinct (map fst xs)" using collect_files_distinct [OF collect] unfolding paths by (metis distinct_map inj_on_subset subset_UNIV)
    show "fst ` set xs = target_paths roots"
    proof -
      have "fst ` set xs = (\<lambda>s. split_slash (fs_rel s)) ` set specs" using arg_cong [OF paths, of set] by (simp add: image_image)
      also have "\<dots> = target_paths roots"
      proof (intro set_eqI iffI)
        fix q
        assume "q \<in> target_paths roots"
        then obtain rt p where q: "q = last rt # p" "source_path roots rt p" by (auto simp: target_paths_def)
        have "rt \<noteq> []" using collect_files_names [OF collect(1) q(2)] by blast
        from spec_components [OF collect(2) q(2) this] have "q = split_slash (fs_rel (spec_of rt (last rt) p))" using q(1) by simp
        moreover have "spec_of rt (last rt) p \<in> set specs" unfolding collect_files_set [OF collect(1)] using q(2) by blast
        ultimately show "q \<in> (\<lambda>s. split_slash (fs_rel s)) ` set specs" by blast
      next
        fix q
        assume "q \<in> (\<lambda>s. split_slash (fs_rel s)) ` set specs"
        then show "q \<in> target_paths roots" using src unfolding target_paths_def by blast
      qed
      finally show ?thesis .
    qed
    show "restorable R k ik B (fst x) (fst (snd x)) (snd (snd x))" if "x \<in> set xs" for x
      using that D by (auto simp: xs_def)
    fix x rt p
    assume x: "x \<in> set xs" and sp: "source_path roots rt p" and e: "fst x = last rt # p"
    then obtain y where y: "y \<in> set (zip specs entries)" "x = (split_slash (fs_rel (fst y)), snd y, D y)" by (auto simp: xs_def)
    have "spec_of rt (last rt) p \<in> set specs" using collect_files_set [OF collect(1)] sp by auto
    moreover have "fs_rel (fst y) = fs_rel (spec_of rt (last rt) p)"
      using e y(2) by (metis fst_conv join_split spec_of_rel)
    moreover have "fst y \<in> set specs" using y(1) by (metis in_set_zipE prod.collapse)
    ultimately have "fst y = spec_of rt (last rt) p" using collect_files_distinct [OF collect] by (metis distinct_map inj_onD)
    then show "\<exists>o' m. b_open E (rt @ p) = Some o' \<and> op_meta o' = Some m \<and> restored (concat (snd (snd x))) (fst (snd x)) =
         \<lparr>rf_data = content (op_reader o'), rf_mtime = Some (mtime_parts m), rf_mode = Some (file_mode m)\<rparr>"
      using D [OF y(1)] y(2) by (simp add: spec_of_def)
  qed
qed

lemma captured_wf:
  assumes "collect_files F [] roots = Ok specs" and "list_all2 (captures E cfg ik) specs entries"
  shows "wf_manifest \<lparr>snapshot_id = u, created_at = t, files = entries\<rparr>"
proof -
  have "utf8_valid (fe_path f)" if f: "f \<in> set entries" for f
  proof -
    obtain s where "(s, f) \<in> set (zip specs entries)" using f assms(2) by (metis in_set_impl_in_set_zip2 list_all2_lengthD)
    then have "s \<in> set specs" "captures E cfg ik s f" using assms(2) by (auto simp: list_all2_iff dest: set_zip_leftD)
    then show ?thesis using collect_utf8 [OF assms(1)] by (auto simp: captures_def)
  qed
  then show ?thesis by (simp add: wf_manifest_def list_all_iff)
qed

locale backup_restore_server = backup_server bstub inv blobs manifests + restore_server rstub inv blobs manifests
  for bstub :: "'s stub" and rstub :: "'s stub" and inv blobs manifests
begin

lemma backup_then_restore:
  assumes laws: "pipeline_laws E" "b_stub E = bstub" "cdc_reads content (b_cdc E)"
    and R: "same_setup E req R rreq" "r_stub R = rstub" and "inv srv"
    and run: "run_backup E dial Fc d req srv rng = (Ok rep, srv', rng', obs)"
    and keys: "load_data_key Fc d (rq_state_dir req) = Ok k" "load_chunk_id_key Fc d (rq_state_dir req) = Ok ik"
    and specs: "collect_files (b_walk_fails E) [] (rq_roots req) = Ok specs" "roots_ok (rq_roots req)"
    and inj: "inj_on (ident_of E ik) (run_data E (rq_chunker req) ik specs)"
    and faith: "faithful (b_aead E) (b_codecs E) k (ident_of E ik) (run_data E (rq_chunker req) ik specs) (blobs srv)"
  shows "\<exists>rrep st. run_restore R dial Fc d rs_no_faults rreq srv' = (Ok rrep, st) \<and> mirrors E content (rq_roots req) (rs_tree st)"
proof -
  from run_backup_stores [OF laws(1,2) \<open>inv srv\<close> run keys specs(1) inj faith] obtain entries where
    b: "backed_up E req k ik specs entries (blobs srv') (manifests srv')" and "inv srv'"
    and conn: "connect_authenticated dial Fc d (rq_daemon_url req) (rq_state_dir req) = Ok ()" by blast
  then obtain encoded sealed where cap: "list_all2 (captures E (rq_chunker req) ik) specs entries"
    and m: "manifests srv' (rq_snapshot_id req) = Some sealed" "decrypt_manifest (b_aead E) k (rq_snapshot_id req) sealed = Ok encoded"
      "encode \<lparr>snapshot_id = rq_snapshot_id req, created_at = rq_created_at req, files = entries\<rparr> = Ok encoded"
    and f: "faithful (b_aead E) (b_codecs E) k (ident_of E ik) (run_data E (rq_chunker req) ik specs) (blobs srv')"
      "\<forall>f \<in> set entries. \<forall>c \<in> set (fe_chunks f). blobs srv' c \<noteq> None"
    by (auto simp: backed_up_def)
  have dec: "decode encoded = Ok \<lparr>snapshot_id = rq_snapshot_id req, created_at = rq_created_at req, files = entries\<rparr>"
    using decode_encode_append [OF m(3) captured_wf [OF specs(1) cap], of "[]"] by simp
  have like: "r_aead R = b_aead E" "r_codecs R = b_codecs E" "r_keyed R = b_keyed E" using R(1) by (auto simp: same_setup_def)
  obtain xs where xs: "map (\<lambda>x. fst (snd x)) xs = entries" "distinct (map fst xs)" "fst ` set xs = target_paths (rq_roots req)"
    "\<And>x. x \<in> set xs \<Longrightarrow> restorable R k ik (blobs srv') (fst x) (fst (snd x)) (snd (snd x))"
    "\<And>x rt p. x \<in> set xs \<Longrightarrow> source_path (rq_roots req) rt p \<Longrightarrow> fst x = last rt # p \<Longrightarrow> \<exists>o' m. b_open E (rt @ p) = Some o' \<and>
       op_meta o' = Some m \<and> restored (concat (snd (snd x))) (fst (snd x)) =
         \<lparr>rf_data = content (op_reader o'), rf_mtime = Some (mtime_parts m), rf_mode = Some (file_mode m)\<rparr>"
    by (rule captured_triples [OF specs cap f like laws(3)]) blast
  have "\<exists>rrep st. run_restore R dial Fc d rs_no_faults rreq srv' = (Ok rrep, st) \<and>
    (\<forall>x \<in> set xs. map_of (rt_files (rs_tree st)) (fst x) = Some (restored (concat (snd (snd x))) (fst (snd x)))) \<and>
    (\<forall>p. p \<notin> fst ` set xs \<longrightarrow> map_of (rt_files (rs_tree st)) p = None)"
  proof (rule run_restore_runs [OF R(2) target_paths_prefix_free [OF specs] \<open>inv srv'\<close>])
    show "manifests srv' (rs_snapshot_id rreq) = Some sealed" "decrypt_manifest (r_aead R) k (rs_snapshot_id rreq) sealed = Ok encoded"
      "decode encoded = Ok \<lparr>snapshot_id = rq_snapshot_id req, created_at = rq_created_at req, files = map (\<lambda>x. fst (snd x)) xs\<rparr>"
      using R(1) m dec xs(1) by (simp_all add: same_setup_def)
    show "fst x \<in> target_paths (rq_roots req) \<and> restorable R k ik (blobs srv') (fst x) (fst (snd x)) (snd (snd x))" if "x \<in> set xs" for x
      using xs(3,4) that by auto
  qed (use R(1) keys conn xs(2) in \<open>auto simp: same_setup_def\<close>)
  then obtain rrep st where st: "run_restore R dial Fc d rs_no_faults rreq srv' = (Ok rrep, st)"
    "\<And>x. x \<in> set xs \<Longrightarrow> map_of (rt_files (rs_tree st)) (fst x) = Some (restored (concat (snd (snd x))) (fst (snd x)))"
    "\<And>p. p \<notin> fst ` set xs \<Longrightarrow> map_of (rt_files (rs_tree st)) p = None" by blast
  have "mirrors E content (rq_roots req) (rs_tree st)"
    unfolding mirrors_def
  proof (intro conjI allI impI)
    fix rt p
    assume sp: "source_path (rq_roots req) rt p"
    then have "last rt # p \<in> fst ` set xs" using xs(3) by (auto simp: target_paths_def)
    then obtain x where "x \<in> set xs" "fst x = last rt # p" by auto
    then show "\<exists>o' m. b_open E (rt @ p) = Some o' \<and> op_meta o' = Some m \<and> map_of (rt_files (rs_tree st)) (last rt # p) =
          Some \<lparr>rf_data = content (op_reader o'), rf_mtime = Some (mtime_parts m), rf_mode = Some (file_mode m)\<rparr>"
      using xs(5) [OF _ sp] st(2) by metis
  next
    fix q
    assume "map_of (rt_files (rs_tree st)) q \<noteq> None"
    then have "q \<in> target_paths (rq_roots req)" using st(3) [of q] xs(3) by auto
    then show "\<exists>rt p. q = last rt # p \<and> source_path (rq_roots req) rt p" by (auto simp: target_paths_def)
  qed
  then show ?thesis using st(1) by blast
qed

end

end
