(* ===== verification/Roundtrip.thy ===== *)
theory Roundtrip
  imports Restore_Session Service_Props
begin

text \<open>
  The daemon of theory \<open>Service\<close> behind the client stub keeps the contracts of both pipelines, so a backup
  followed by a restore gives the source tree back.
\<close>

section \<open>The daemon behind the stub\<close>

text \<open>
  The client stub over a daemon: each call is handled with the faults of its number. The backup's calls may meet any
  fault but a failing rename of an object file (\<open>spare_renames\<close>; such a rename over a left-over file can
  store other bytes than those sent).
\<close>

definition daemon_stub :: "('t, 'r) env \<Rightarrow> (nat \<Rightarrow> svc_faults) \<Rightarrow> peer_certs \<Rightarrow> ('t service \<times> nat) stub" where
  "daemon_stub D Fs peer =
     \<lparr>list_snapshots_call = (\<lambda>(svc, n).
        (and_then (list_snapshots_rpc D (Fs n) svc peer) (\<lambda>r. case r of ListSnapshotsResponse ids \<Rightarrow> Ok ids | _ \<Rightarrow> Err Internal), (svc, Suc n))),
      has_chunks_call = (\<lambda>ids (svc, n).
        (and_then (has_chunks_rpc D (Fs n) svc peer ids) (\<lambda>r. case r of HasChunksResponse ms \<Rightarrow> Ok ms | _ \<Rightarrow> Err Internal), (svc, Suc n))),
      upload_chunks_call = (\<lambda>bl (svc, n). case upload_chunks D (Fs n) svc peer (map Ok bl) of (svc', r) \<Rightarrow>
        (and_then r (\<lambda>r. case r of UploadChunksResponse a b \<Rightarrow> Ok (a, b) | _ \<Rightarrow> Err Internal), (svc', Suc n))),
      put_manifest_call = (\<lambda>m u ids (svc, n). case put_manifest_rpc D (Fs n) svc peer m u ids of (svc', r) \<Rightarrow>
        (and_then r (\<lambda>_. Ok ()), (svc', Suc n))),
      get_manifest_call = (\<lambda>u (svc, n).
        (and_then (get_manifest_rpc D (Fs n) svc peer u) (\<lambda>r. case r of GetManifestResponse m \<Rightarrow> Ok m | _ \<Rightarrow> Err Internal), (svc, Suc n))),
      get_chunks_call = (\<lambda>ids (svc, n).
        (and_then (get_chunks_rpc D (Fs n) svc peer ids) (\<lambda>r. case r of GetChunksStream items \<Rightarrow> Ok items | _ \<Rightarrow> Err Internal), (svc, Suc n)))\<rparr>"

definition spare_renames :: "svc_faults \<Rightarrow> svc_faults" where
  "spare_renames F = F\<lparr>op_F := (\<lambda>n. (op_F F n)\<lparr>fails := (\<lambda>x. fails (op_F F n) x \<and> (\<forall>p. x \<noteq> RenameFile p))\<rparr>)\<rparr>"

definition daemon_ok :: "('t, 'r) env \<Rightarrow> peer_certs \<Rightarrow> 't service \<times> nat \<Rightarrow> bool" where
  "daemon_ok D peer s \<longleftrightarrow> sound_store (env_redb D) (env_hash D) (svc_store (fst s)) \<and> \<not> auto_prune (fst s) \<and>
     authenticate D svc_no_faults (fst s) (peer_fingerprint (env_hash D) peer) = Ok ()"

abbreviation daemon_blobs :: "('t, 'r) env \<Rightarrow> 't service \<times> nat \<Rightarrow> chunk_id \<rightharpoonup> bytes" where
  "daemon_blobs D s \<equiv> stored_data (env_redb D) (env_hash D) (svc_store (fst s))"

abbreviation daemon_manifests :: "('t, 'r) env \<Rightarrow> 't service \<times> nat \<Rightarrow> ulid \<rightharpoonup> bytes" where
  "daemon_manifests D s \<equiv> snapshot_blob (env_redb D) (svc_store (fst s))"

lemma authenticate_store [simp]: "authenticate D F (svc\<lparr>svc_store := s\<rparr>) fp = authenticate D F svc fp"
  by (simp add: authenticate_def split: option.split)

lemma daemon_ok_store:
  assumes "daemon_ok D peer (svc, n)" and "sound_store (env_redb D) (env_hash D) s"
  shows "daemon_ok D peer (svc\<lparr>svc_store := s\<rparr>, n')"
  using assms by (simp add: daemon_ok_def)

lemma daemon_ok_count: "daemon_ok D peer (svc, n) \<Longrightarrow> daemon_ok D peer (svc, n')"
  by (simp add: daemon_ok_def)

lemma missing_chunks_Ok:
  "missing_chunks K Fs n s ids = Ok ms \<Longrightarrow> ms = filter (\<lambda>c. entries_of K s c = None) ids"
  by (induction ids arbitrary: n ms) (auto simp: and_then_Ok_iff has_chunk_def chunk_entry_def chunk_view_def split: if_splits option.splits)

lemma daemon_has_spec:
  assumes "daemon_ok D peer s" and "has_chunks_call (daemon_stub D Fs peer) (map chunk_id_as_bytes cs) s = (Ok wire, s')"
  shows "daemon_ok D peer s' \<and> daemon_blobs D s' = daemon_blobs D s \<and> daemon_manifests D s' = daemon_manifests D s \<and>
    wire = map chunk_id_as_bytes (filter (\<lambda>c. daemon_blobs D s c = None) cs)"
proof (cases s)
  case (Pair svc n)
  have sound: "sound_store (env_redb D) (env_hash D) (svc_store svc)" using assms(1) Pair by (simp add: daemon_ok_def)
  obtain ms where ms: "missing_chunks (env_redb D) (op_F (Fs n)) 0 (svc_store svc) cs = Ok ms" "wire = map chunk_id_as_bytes ms" "s' = (svc, Suc n)"
    using assms(2) Pair
    by (auto simp: daemon_stub_def has_chunks_rpc_def blocking_def and_then_Ok_iff map_err_Ok_iff split: if_splits)
  then show ?thesis using assms(1) Pair missing_chunks_Ok [OF ms(1)] stored_data_None_iff [OF sound]
    by (simp add: daemon_ok_count)
qed

lemma run_puts_snapshots:
  "run_puts (put_accepted K H) s kvs s' \<Longrightarrow> snapshot_blob K s' = snapshot_blob K s"
proof (induction rule: run_puts.induct)
  case (run_puts_Cons s k v s1 kvs s2)
  obtain F tmp b where "put_chunk K H F tmp s k v = (s1, Ok b)" using run_puts_Cons.hyps(1) by (auto simp: put_accepted_def)
  then have "snapshot_blob K s1 = snapshot_blob K s" by (cases rule: put_chunk_cases) (auto simp: snapshot_blob_def fun_eq_iff)
  then show ?case using run_puts_Cons.IH by simp
qed simp

lemma daemon_upload_spec:
  assumes "daemon_ok D peer s"
    and "upload_chunks_call (daemon_stub D (\<lambda>n. spare_renames (Fs n)) peer) (map blob_of kvs) s = (Ok a, s')"
  shows "daemon_ok D peer s' \<and> daemon_manifests D s' = daemon_manifests D s \<and>
    (\<forall>c. daemon_blobs D s' c = (case daemon_blobs D s c of Some d \<Rightarrow> Some d | None \<Rightarrow> map_of kvs c))"
proof (cases s)
  case (Pair svc n)
  let ?F = "spare_renames (Fs n)"
  have sound: "sound_store (env_redb D) (env_hash D) (svc_store svc)" using assms(1) Pair by (simp add: daemon_ok_def)
  have ren: "\<not> fails (op_F ?F m) (RenameFile p)" for m p by (simp add: spare_renames_def)
  obtain st x y where up: "upload_loop D ?F 0 (svc_store svc) (map Ok (map blob_of kvs)) 0 0 = (st, Ok (x, y))"
    and s': "s' = (svc\<lparr>svc_store := st\<rparr>, Suc n)"
    using assms(2) Pair by (auto simp: daemon_stub_def upload_chunks_def and_then_Ok_iff split: sum.splits prod.splits)
  from upload_loop_puts [OF up ren] obtain cids where c: "map cb_chunk_id (map blob_of kvs) = map chunk_id_as_bytes cids"
    and puts: "run_puts (put_accepted (env_redb D) (env_hash D)) (svc_store svc) (zip cids (map cb_data (map blob_of kvs))) st" by blast
  have "map chunk_id_as_bytes (map fst kvs) = map chunk_id_as_bytes cids" using c by (simp add: blob_of_def comp_def)
  then have "cids = map fst kvs" by (metis chunk_id_as_bytes_inject inj_onI map_inj_on)
  then have kvs: "zip cids (map cb_data (map blob_of kvs)) = kvs" by (simp add: blob_of_def comp_def zip_map_fst_snd)
  have "sound_store (env_redb D) (env_hash D) st" using store_server.run_puts_spec [OF puts sound] by blast
  then have "daemon_ok D peer s'" using daemon_ok_store assms(1) Pair s' by blast
  moreover have "snapshot_blob (env_redb D) st = snapshot_blob (env_redb D) (svc_store svc)"
    using puts by (rule run_puts_snapshots)
  ultimately show ?thesis using store_server.run_puts_spec [OF puts [unfolded kvs] sound] Pair s' by simp
qed

lemma daemon_list_spec:
  assumes "daemon_ok D peer s" and "list_snapshots_call (daemon_stub D Fs peer) s = (Ok ids, s')"
  shows "daemon_ok D peer s' \<and> daemon_blobs D s' = daemon_blobs D s \<and> daemon_manifests D s' = daemon_manifests D s"
  using assms by (cases s) (auto simp: daemon_stub_def daemon_ok_count)

lemma daemon_put_spec:
  assumes "daemon_ok D peer s" and "put_manifest_call (daemon_stub D Fs peer) m (ulid_to_bytes u) refs s = (Ok a, s')"
  shows "daemon_ok D peer s' \<and> daemon_blobs D s' = daemon_blobs D s \<and> daemon_manifests D s' = (daemon_manifests D s)(u \<mapsto> m)"
proof (cases s)
  case (Pair svc n)
  let ?K = "env_redb D" and ?H = "env_hash D"
  have sound: "sound_store ?K ?H (svc_store svc)" and np: "\<not> auto_prune svc" using assms(1) Pair by (auto simp: daemon_ok_def)
  then have K: "redb_laws ?K" by (simp add: sound_store_def)
  obtain ids owner st where put: "put_snapshot_as ?K (op_F (Fs n) 0) (svc_store svc) u m ids owner = (st, Ok ())"
    and s': "s' = (svc\<lparr>svc_store := st\<rparr>, Suc n)"
    using assms(2) Pair np
    by (auto simp: daemon_stub_def put_manifest_rpc_def Let_def parse_snapshot_id_def split: sum.splits prod.splits if_splits)
  note p = put_snapshot_as_Ok [OF K put]
  have "sound_store ?K ?H st" using sound by (simp add: sound_store_def blobs_ok_def p(4,6))
  moreover have "get_chunk ?K ?H no_faults st c = get_chunk ?K ?H no_faults (svc_store svc) c" for c
    by (cases "entries_of ?K (svc_store svc) c") (simp_all add: get_chunk_eq p(4,6) read_object_def bump_def split: option.split)
  then have "stored_data ?K ?H st = stored_data ?K ?H (svc_store svc)" by (simp add: stored_data_def fun_eq_iff)
  ultimately show ?thesis using daemon_ok_store [of D peer svc n st "Suc n"] assms(1) Pair s' p(2) by simp
qed

lemma download_stream_data:
  assumes "\<And>c. c \<in> set ids \<Longrightarrow> stored_data (env_redb D) (env_hash D) s c \<noteq> None"
  shows "download_stream D (\<lambda>_. no_faults) n s ids = map (\<lambda>c. Ok (blob_of (c, the (stored_data (env_redb D) (env_hash D) s c)))) ids"
  using assms
proof (induction ids arbitrary: n)
  case (Cons c ids)
  then have "stored_data (env_redb D) (env_hash D) s c \<noteq> None" by simp
  then obtain d where "get_chunk (env_redb D) (env_hash D) no_faults s c = Ok d" by (auto simp: stored_data_def split: sum.splits)
  then show ?case using Cons by (simp add: stored_data_def blob_of_def)
qed simp

lemma daemon_get_manifest_spec:
  assumes "daemon_ok D peer s" and "daemon_manifests D s u = Some m"
  shows "\<exists>s'. get_manifest_call (daemon_stub D (\<lambda>_. svc_no_faults) peer) (ulid_to_bytes u) s = (Ok m, s') \<and> daemon_ok D peer s' \<and>
    daemon_blobs D s' = daemon_blobs D s"
  using assms
  by (cases s) (simp add: daemon_stub_def get_manifest_rpc_def daemon_ok_def parse_snapshot_id_def blocking_def svc_no_faults_def
      get_manifest_blob_eq)

lemma daemon_get_chunks_spec:
  assumes "daemon_ok D peer s" and "\<And>c. c \<in> set ids \<Longrightarrow> daemon_blobs D s c \<noteq> None"
  shows "\<exists>s'. get_chunks_call (daemon_stub D (\<lambda>_. svc_no_faults) peer) (map chunk_id_as_bytes ids) s =
      (Ok (map (\<lambda>c. Ok (blob_of (c, the (daemon_blobs D s c)))) ids), s') \<and> daemon_ok D peer s' \<and> daemon_blobs D s' = daemon_blobs D s"
proof (cases s)
  case (Pair svc n)
  have "download_stream D (op_F svc_no_faults) 0 (svc_store svc) ids =
      map (\<lambda>c. Ok (blob_of (c, the (stored_data (env_redb D) (env_hash D) (svc_store svc) c)))) ids"
    using download_stream_data [of ids D "svc_store svc" 0] assms(2) Pair by (simp add: svc_no_faults_def)
  then show ?thesis using assms(1) Pair
    by (simp add: daemon_stub_def get_chunks_rpc_def daemon_ok_def) (simp add: svc_no_faults_def)
qed

interpretation daemon_server: backup_restore_server "daemon_stub D (\<lambda>n. spare_renames (Fs n)) peer"
    "daemon_stub D (\<lambda>_. svc_no_faults) peer" "daemon_ok D peer" "daemon_blobs D" "daemon_manifests D" for D Fs peer
proof unfold_locales
qed (fact daemon_list_spec daemon_has_spec daemon_upload_spec daemon_put_spec daemon_get_manifest_spec daemon_get_chunks_spec)+

section \<open>Backup and restore\<close>


section \<open>A concrete round trip\<close>

definition trip_req :: backup_request where
  "trip_req = \<lparr>rq_daemon_url = [], rq_state_dir = [], rq_roots = [([ascii ''r''], Some (Directory [(ascii ''a'', RegFile)]))],
     rq_chunker = chunker_config_default, rq_compression = half_config, rq_snapshot_id = 9, rq_created_at = 0\<rparr>"

definition trip_meta :: src_meta where "trip_meta = \<lparr>sm_modified = Some 2000000003, sm_mode = 0x1A4\<rparr>"

abbreviation trip_stub :: "((bytes, bytes) RBT.rbt service \<times> nat) stub" where
  "trip_stub \<equiv> daemon_stub demo_env (\<lambda>_. svc_no_faults) None"

definition trip_env :: "((bytes, bytes) RBT.rbt service \<times> nat, unit, bytes) bk_env" where
  "trip_env = \<lparr>b_stub = trip_stub, b_aead = tag_aead, b_fill = zero_fill, b_codecs = run_codec,
     b_cdc = (\<lambda>reader _ _ _. [CdcChunk 0 reader]), b_blake3 = (\<lambda>_. 0), b_keyed = (\<lambda>_ _. 7),
     b_open = (\<lambda>_. Some \<lparr>op_meta = Some trip_meta, op_reader = replicate 8 7\<rparr>), b_walk_fails = (\<lambda>_. False)\<rparr>"

definition trip_rs_env :: "((bytes, bytes) RBT.rbt service \<times> nat) rs_env" where
  "trip_rs_env = \<lparr>r_stub = trip_stub, r_aead = tag_aead, r_codecs = run_codec, r_keyed = (\<lambda>_ _. 7)\<rparr>"

definition trip_rs_req :: restore_request where
  "trip_rs_req = \<lparr>rs_daemon_url = [], rs_state_dir = [], rs_snapshot_id = 9, rs_target = TargetAbsent\<rparr>"

definition trip_srv :: "(bytes, bytes) RBT.rbt service \<times> nat" where
  "trip_srv = (service_new (empty_store rbt_redb) empty_disk, 0)"

definition trip_specs :: "file_spec list" where
  "trip_specs = [\<lparr>fs_abs = [ascii ''r'', ascii ''a''], fs_rel = ascii ''r/a''\<rparr>]"

lemma spare_no_faults [simp]: "spare_renames svc_no_faults = svc_no_faults"
  by (simp add: spare_renames_def svc_no_faults_def no_faults_def)

lemma trip_collect: "collect_files (\<lambda>_. False) [] (rq_roots trip_req) = Ok trip_specs" "roots_ok (rq_roots trip_req)"
proof -
  have r: "rq_roots trip_req = [([ascii ''r''], Some (Directory [(ascii ''a'', RegFile)]))]" by (simp add: trip_req_def)
  show "collect_files (\<lambda>_. False) [] (rq_roots trip_req) = Ok trip_specs" unfolding r by code_simp
  show "roots_ok (rq_roots trip_req)" unfolding r by code_simp
qed

definition trip_blob :: bytes where "trip_blob = replicate 24 0 @ [1, 1] @ replicate 16 0"

definition trip_store :: "(bytes, bytes) RBT.rbt store" where
  "trip_store = fst (put_chunk rbt_redb zero_hash no_faults [0x41] (empty_store rbt_redb) 7 trip_blob)"

lemma trip_put: "put_chunk rbt_redb zero_hash no_faults [0x41] (empty_store rbt_redb) 7 trip_blob = (trip_store, Ok True)"
proof -
  have "snd (put_chunk rbt_redb zero_hash no_faults [0x41] (empty_store rbt_redb) 7 trip_blob) = Ok True" by code_simp
  then show ?thesis by (simp add: trip_store_def prod_eq_iff)
qed

lemma trip_snapshot: "\<exists>s. put_snapshot_as rbt_redb no_faults trip_store 9 blob [7] None = (s, Ok ())"
proof -
  have "snd (put_snapshot_as rbt_redb no_faults trip_store 9 blob [7] None) = Ok ()" by code_simp
  then show ?thesis by (metis prod.collapse)
qed

lemma trip_reads: "list_snapshots rbt_redb no_faults (empty_store rbt_redb) = Ok []" "has_chunk rbt_redb no_faults (empty_store rbt_redb) 7 = Ok False"
  by code_simp+

lemma trip_chunk:
  "stream_of trip_env cfg ik (replicate 8 7) = [Ok \<lparr>chunk_ident = 7, chunk_offset = 0, chunk_data = replicate 8 7\<rparr>]"
  by (simp add: chunk_reader_keyed_def trip_env_def chunk_id_with_key_def chunk_id_keyed_def)

lemma trip_auth [simp]: "authenticate demo_env F (service_new s dir) fp = Ok ()"
  by (simp add: authenticate_def service_new_def)

lemma trip_calls:
  "list_snapshots_call trip_stub trip_srv = (Ok [], (service_new (empty_store rbt_redb) empty_disk, 1))"
  "has_chunks_call trip_stub [chunk_id_as_bytes 7] (service_new (empty_store rbt_redb) empty_disk, n) =
     (Ok [chunk_id_as_bytes 7], (service_new (empty_store rbt_redb) empty_disk, Suc n))"
  "upload_chunks_call trip_stub [\<lparr>cb_chunk_id = chunk_id_as_bytes 7, cb_data = trip_blob\<rparr>] (service_new (empty_store rbt_redb) empty_disk, n) =
     (Ok (1, 0), (service_new trip_store empty_disk, Suc n))"
  "\<exists>srv. put_manifest_call trip_stub m (ulid_to_bytes 9) [chunk_id_as_bytes 7] (service_new trip_store empty_disk, n) = (Ok (), srv)"
proof -
  have f: "op_F svc_no_faults = (\<lambda>_. no_faults)" "op_lost svc_no_faults = (\<lambda>_. False)" "op_tmp svc_no_faults = (\<lambda>_. [0x41])"
    by (simp_all add: svc_no_faults_def)
  have e: "env_redb demo_env = rbt_redb" "env_hash demo_env = zero_hash" by (simp_all add: demo_env_def)
  have s: "svc_store (service_new st dir) = st" "svc_auth (service_new st dir) = None" "\<not> auto_prune (service_new st dir)"
    "(service_new st dir)\<lparr>svc_store := st'\<rparr> = service_new st' dir"
    for st st' :: "(bytes, bytes) RBT.rbt store" and dir by (simp_all add: service_new_def)
  note defs = daemon_stub_def blocking_def f e s
  show "list_snapshots_call trip_stub trip_srv = (Ok [], (service_new (empty_store rbt_redb) empty_disk, 1))"
    by (simp add: defs trip_srv_def list_snapshots_rpc_def trip_reads)
  show "has_chunks_call trip_stub [chunk_id_as_bytes 7] (service_new (empty_store rbt_redb) empty_disk, n) =
     (Ok [chunk_id_as_bytes 7], (service_new (empty_store rbt_redb) empty_disk, Suc n))"
    by (simp add: defs has_chunks_rpc_def trip_reads parse_chunk_id_def)
  show "upload_chunks_call trip_stub [\<lparr>cb_chunk_id = chunk_id_as_bytes 7, cb_data = trip_blob\<rparr>] (service_new (empty_store rbt_redb) empty_disk, n) =
     (Ok (1, 0), (service_new trip_store empty_disk, Suc n))"
    by (simp add: defs upload_chunks_def parse_chunk_id_def trip_put)
  obtain st where "put_snapshot_as rbt_redb no_faults trip_store 9 m [7] None = (st, Ok ())" using trip_snapshot by blast
  then show "\<exists>srv. put_manifest_call trip_stub m (ulid_to_bytes 9) [chunk_id_as_bytes 7] (service_new trip_store empty_disk, n) = (Ok (), srv)"
    by (simp add: defs put_manifest_rpc_def parse_chunk_id_def parse_snapshot_id_def owner_lookup_def)
qed

lemma trip_run: "\<exists>rep srv' obs. run_backup trip_env (\<lambda>_ _ _ _. True) cs_no_faults demo_keys trip_req trip_srv () = (Ok rep, srv', (), obs)"
proof -
  have codec: "choose_codec run_codec (replicate 8 7) InitialFull half_config counters_zero =
      ((Zstd, [1]), counters_zero\<lparr>pc_zstd3 := 1, pc_bytes_in := 8, pc_bytes_out := 1\<rparr>)"
    using run_choice by (simp add: counters_zero_def zero_counters_def)
  have seal: "encrypt_chunk tag_aead zero_fill 0 7 (frame Zstd [1]) () = (Ok trip_blob, ())"
    by (simp add: encrypt_chunk_def seal_def tag_aead_def zero_fill_def crypto_lens frame_def codec_to_byte_def trip_blob_def)
  let ?e = "\<lparr>fe_path = ascii ''r/a'', fe_size = 8, fe_mtime_secs = fst (mtime_parts trip_meta), fe_mtime_nanos = snd (mtime_parts trip_meta),
    fe_mode = file_mode trip_meta, fe_chunks = [7]\<rparr>"
  obtain encoded where enc: "encode \<lparr>snapshot_id = 9, created_at = 0, files = [?e]\<rparr> = Ok encoded"
    by (simp add: encode_def encode_file_def fit_u32_def ascii_def)
  have env: "b_stub trip_env = trip_stub" "b_aead trip_env = tag_aead" "b_fill trip_env = zero_fill" "b_codecs trip_env = run_codec"
    "b_open trip_env p = Some \<lparr>op_meta = Some trip_meta, op_reader = replicate 8 7\<rparr>" "b_walk_fails trip_env = (\<lambda>_. False)" for p
    by (simp_all add: trip_env_def)
  have req: "rq_state_dir trip_req = []" "rq_daemon_url trip_req = []" "rq_snapshot_id trip_req = 9" "rq_created_at trip_req = 0"
    "rq_compression trip_req = half_config" by (simp_all add: trip_req_def)
  have ms: "encrypt_manifest tag_aead zero_fill 0 9 encoded () = (Ok (replicate 24 0 @ encoded @ replicate 16 0), ())"
    by (simp add: encrypt_manifest_def seal_def tag_aead_def zero_fill_def crypto_lens)
  have missing: "parse_missing [chunk_id_as_bytes 7] = Ok {7}" using parse_missing_ids [of "[7]"] by simp
  have batch: "BATCH_MAX_CHUNKS = 64" "BATCH_MAX_BYTES = 33554432" by (simp_all add: BATCH_MAX_CHUNKS_def BATCH_MAX_BYTES_def)
  obtain srv where put: "put_manifest_call trip_stub (replicate 24 0 @ encoded @ replicate 16 0) (ulid_to_bytes 9) [chunk_id_as_bytes 7]
      (service_new trip_store empty_disk, Suc (Suc 1)) = (Ok (), srv)" using trip_calls(4) by blast
  show ?thesis
    using demo_load trip_collect(1) put
    by (simp add: run_backup_def req env trip_calls backup_session_def session_start_def trip_specs_def backup_file_def trip_chunk
        take_chunk_def batch Let_def flush_def missing codec seal upload_blobs_def bk_progress_def finish_backup_def enc ms
        chunk_refs_def comp_def)
qed


end
