(* ===== verification/Client_Commands.thy ===== *)
theory Client_Commands
  imports Client_Config Calendar Roundtrip "HOL-Library.Product_Lexorder"
begin

text \<open>
  The commands of the client (\<open>crates/busyncr-client/src/main.rs\<close>) as compositions of the modelled operations, with the
  snapshot listing (\<open>snapshots.rs\<close>) and the record of the last backup (\<open>status.rs\<close>) they use.

  \<^item> The clock, the fresh snapshot identifier and the elapsed time are arguments. Printing is left out.
  \<^item> \<open>ts\<close>, \<open>show_ulid\<close> and \<open>parse_ulid\<close> are the timestamp, the text form and the parser of the ULID library; \<open>to_toml\<close> and
    \<open>of_toml\<close> are the TOML library's encoder and decoder of the record.
\<close>

section \<open>Listing\<close>

record snapshot_entry =
  se_id :: ulid
  se_timestamp_ms :: u64

datatype list_error = LsEnroll enroll_error | LsRpc grpc_code | LsBadSnapshotId nat

definition snapshot_entry_of :: "(ulid \<Rightarrow> u64) \<Rightarrow> bytes \<Rightarrow> list_error + snapshot_entry" where
  "snapshot_entry_of ts raw =
     (if length raw = 16
      then (let id = ulid_from_bytes raw in Ok \<lparr>se_id = id, se_timestamp_ms = ts id\<rparr>)
      else Err (LsBadSnapshotId (length raw)))"

definition list_snapshots_client :: "'s stub \<Rightarrow> (ulid \<Rightarrow> u64) \<Rightarrow> (bytes \<Rightarrow> bytes \<Rightarrow> bytes \<Rightarrow> bytes \<Rightarrow> bool) \<Rightarrow> cs_faults \<Rightarrow> cdisk
    \<Rightarrow> bytes \<Rightarrow> bytes \<Rightarrow> 's \<Rightarrow> (list_error + snapshot_entry list) \<times> 's" where
  "list_snapshots_client stub ts dial F d daemon_url state_dir srv =
     (case connect_authenticated dial F d daemon_url state_dir of
        Err e \<Rightarrow> (Err (LsEnroll e), srv)
      | Ok _ \<Rightarrow>
         (case list_snapshots_call stub srv of
            (Err code, srv1) \<Rightarrow> (Err (LsRpc code), srv1)
          | (Ok ids, srv1) \<Rightarrow>
              (and_then (collect_results (snapshot_entry_of ts) ids) (\<lambda>entries.
                 Ok (sort_key (\<lambda>e. (se_timestamp_ms e, se_id e)) entries)), srv1)))"

section \<open>The record of the last backup\<close>

definition LAST_BACKUP_FILE :: bytes where "LAST_BACKUP_FILE = ascii ''last-backup.toml''"

datatype status_error = StIo cpath | StParse cpath | StEncode

record last_backup_record =
  lb_snapshot_id :: bytes
  lb_created_at :: i64
  lb_files :: u64
  lb_upload_bytes :: u64
  lb_duration_ms :: u64

definition from_report :: "(ulid \<Rightarrow> bytes) \<Rightarrow> backup_report \<Rightarrow> i64 \<Rightarrow> u64 \<Rightarrow> last_backup_record" where
  "from_report show_ulid rep created duration_ms =
     \<lparr>lb_snapshot_id = show_ulid (br_snapshot_id rep), lb_created_at = created, lb_files = br_files rep,
      lb_upload_bytes = br_upload_bytes rep, lb_duration_ms = duration_ms\<rparr>"

definition record_save :: "(last_backup_record \<Rightarrow> bytes option) \<Rightarrow> cs_faults \<Rightarrow> cdisk \<Rightarrow> bytes \<Rightarrow> last_backup_record
    \<Rightarrow> cdisk \<times> (status_error + unit)" where
  "record_save to_toml F d state_dir r =
     (if cs_fails F (CsCreateDir state_dir) then (d, Err (StIo (state_dir, [])))
      else let path = (state_dir, LAST_BACKUP_FILE)
      in case to_toml r of
           None \<Rightarrow> (d, Err StEncode)
         | Some body \<Rightarrow>
            if cs_fails F (CsCreate path) then (d, Err (StIo path))
            else if cs_fails F (CsWrite path) then (AList.update path (take (cs_partial F) body) d, Err (StIo path))
            else (AList.update path body d, Ok ()))"

definition record_load :: "(bytes \<Rightarrow> last_backup_record option) \<Rightarrow> cs_faults \<Rightarrow> cdisk \<Rightarrow> bytes
    \<Rightarrow> status_error + last_backup_record option" where
  "record_load of_toml F d state_dir =
     (let path = (state_dir, LAST_BACKUP_FILE)
      in case cs_read_to_string F d path of
           Ok txt \<Rightarrow> (case of_toml txt of None \<Rightarrow> Err (StParse path) | Some r \<Rightarrow> Ok (Some r))
         | Err e \<Rightarrow> if e = EnIo NotFoundKind path then Ok None else Err (StIo path))"

definition record_toml_laws :: "(last_backup_record \<Rightarrow> bytes option) \<Rightarrow> (bytes \<Rightarrow> last_backup_record option) \<Rightarrow> bool" where
  "record_toml_laws to_toml of_toml \<longleftrightarrow> (\<forall>r. \<exists>b. to_toml r = Some b \<and> utf8_valid b \<and> of_toml b = Some r)"

section \<open>Backing up\<close>

datatype cmd_error = CmdConfig config_error | CmdBackup backup_error | CmdStatus status_error

record cmd_env =
  ce_read :: "rpath \<Rightarrow> bytes option"
  ce_toml :: "bytes \<Rightarrow> client_config option"
  ce_limits :: cdc_limits
  ce_tree :: "rpath \<Rightarrow> fpath \<times> fnode option"
  ce_ts :: "ulid \<Rightarrow> u64"
  ce_show_ulid :: "ulid \<Rightarrow> bytes"
  ce_to_toml :: "last_backup_record \<Rightarrow> bytes option"
  ce_of_toml :: "bytes \<Rightarrow> last_backup_record option"

definition run_backup_cmd :: "cmd_env \<Rightarrow> ('s, 'r, 'f) bk_env \<Rightarrow> (bytes \<Rightarrow> bytes \<Rightarrow> bytes \<Rightarrow> bytes \<Rightarrow> bool) \<Rightarrow> cs_faults \<Rightarrow> cdisk
    \<Rightarrow> rpath \<Rightarrow> bytes \<Rightarrow> bool \<Rightarrow> ulid \<Rightarrow> i64 \<Rightarrow> nat \<Rightarrow> 's \<Rightarrow> 'r \<Rightarrow> (cmd_error + backup_report) \<times> cdisk \<times> 's \<times> 'r" where
  "run_backup_cmd C E dial F d config_path state default_chunking fresh_id created elapsed_ms srv rng =
     (case and_then (client_config_load (ce_read C) (ce_toml C) config_path) (\<lambda>config.
           and_then (chunker (ce_limits C) config default_chunking) (\<lambda>ck. Ok (config, ck))) of
        Err e \<Rightarrow> (Err (CmdConfig e), d, srv, rng)
      | Ok (config, ck) \<Rightarrow>
     (case run_backup E dial F d
         \<lparr>rq_daemon_url = cf_daemon config, rq_state_dir = state, rq_roots = map (ce_tree C) (cf_folders config),
          rq_chunker = ck, rq_compression = cf_compression config, rq_snapshot_id = fresh_id, rq_created_at = created\<rparr>
         srv rng of
        (Err e, srv1, rng1, _) \<Rightarrow> (Err (CmdBackup e), d, srv1, rng1)
      | (Ok rep, srv1, rng1, _) \<Rightarrow>
         (case record_save (ce_to_toml C) F d state
             (from_report (ce_show_ulid C) rep created (word_of_nat (min elapsed_ms (2 ^ 64 - 1)))) of
            (d1, Err e) \<Rightarrow> (Err (CmdStatus e), d1, srv1, rng1)
          | (d1, Ok _) \<Rightarrow> (Ok rep, d1, srv1, rng1))))"

definition report_tick :: "cmd_env \<Rightarrow> cs_faults \<Rightarrow> i64 option \<Rightarrow> bytes \<Rightarrow> tick \<Rightarrow> cdisk \<Rightarrow> cdisk" where
  "report_tick C F now state t d =
     (case tk_result t of
        Err _ \<Rightarrow> d
      | Ok rep \<Rightarrow>
         let now_ms = (case now of None \<Rightarrow> tk_started_at_ms t | Some n \<Rightarrow> n);
             elapsed = now_ms - tk_started_at_ms t;
             duration_ms = (if 0 \<le> sint elapsed then elapsed else 0)
         in fst (record_save (ce_to_toml C) F d state
              (from_report (ce_show_ulid C) rep (i64_div_euclid (tk_started_at_ms t) 1000) duration_ms)))"

section \<open>Keys\<close>

datatype passphrase_error = PassphraseIo | PassphraseFileEmpty | PassphraseEmpty

definition trim_end_newlines :: "bytes \<Rightarrow> bytes" where
  "trim_end_newlines s = rev (dropWhile (\<lambda>b. b = 0x0D \<or> b = 0x0A) (rev s))"

definition resolve_passphrase :: "cs_faults \<Rightarrow> cdisk \<Rightarrow> bytes option \<Rightarrow> cpath option \<Rightarrow> bytes option
    \<Rightarrow> passphrase_error + bytes" where
  "resolve_passphrase F d passphrase passphrase_file stdin =
     (case passphrase of
        Some p \<Rightarrow> Ok p
      | None \<Rightarrow>
     (case passphrase_file of
        Some path \<Rightarrow>
          (case cs_read_to_string F d path of
             Err _ \<Rightarrow> Err PassphraseIo
           | Ok contents \<Rightarrow>
              let first = (case split_lf [] contents of [] \<Rightarrow> [] | l # _ \<Rightarrow> l)
              in if first = [] then Err PassphraseFileEmpty else Ok first)
      | None \<Rightarrow>
          (case stdin of
             None \<Rightarrow> Err PassphraseIo
           | Some line \<Rightarrow>
              let trimmed = trim_end_newlines line
              in if trimmed = [] then Err PassphraseEmpty else Ok trimmed)))"

datatype key_cmd_error = KeyPassphrase passphrase_error | KeyCommand key_error

definition run_export_key :: "aead \<Rightarrow> argon2id \<Rightarrow> 'r fill_bytes \<Rightarrow> cs_faults \<Rightarrow> cdisk \<Rightarrow> bytes \<Rightarrow> cpath \<Rightarrow> bytes option
    \<Rightarrow> cpath option \<Rightarrow> bytes option \<Rightarrow> 'r \<Rightarrow> (cdisk \<times> (key_cmd_error + unit)) \<times> 'r" where
  "run_export_key A kdf fill F d state output passphrase passphrase_file stdin rng =
     (case resolve_passphrase F d passphrase passphrase_file stdin of
        Err e \<Rightarrow> ((d, Err (KeyPassphrase e)), rng)
      | Ok p \<Rightarrow>
         (case export_key A kdf fill F d state output p kdf_params_default rng of
            ((d1, r), rng1) \<Rightarrow> ((d1, map_err KeyCommand r), rng1)))"

definition run_import_key :: "aead \<Rightarrow> argon2id \<Rightarrow> cs_faults \<Rightarrow> cdisk \<Rightarrow> bytes \<Rightarrow> cpath \<Rightarrow> bytes option
    \<Rightarrow> cpath option \<Rightarrow> bytes option \<Rightarrow> cdisk \<times> (key_cmd_error + import_outcome)" where
  "run_import_key A kdf F d state keyfile passphrase passphrase_file stdin =
     (case resolve_passphrase F d passphrase passphrase_file stdin of
        Err e \<Rightarrow> (d, Err (KeyPassphrase e))
      | Ok p \<Rightarrow> (case import_key A kdf F d state keyfile p of (d1, r) \<Rightarrow> (d1, map_err KeyCommand r)))"

section \<open>Enrolling, restoring and listing\<close>

definition run_enroll :: "'r rcgen \<Rightarrow> 'r fill_bytes \<Rightarrow> (bytes \<Rightarrow> bytes \<Rightarrow> bool)
    \<Rightarrow> (bytes \<Rightarrow> bytes \<Rightarrow> 's \<Rightarrow> (grpc_code + (bytes \<times> bytes)) \<times> 's) \<Rightarrow> cs_faults \<Rightarrow> cdisk \<Rightarrow> bytes \<Rightarrow> cpath \<Rightarrow> bytes \<Rightarrow> bytes \<Rightarrow> bytes
    \<Rightarrow> 's \<Rightarrow> 'r \<Rightarrow> (enroll_error + bool) \<times> cdisk \<times> 's \<times> 'r" where
  "run_enroll G fill dial call F d daemon ca token name state srv rng =
     (case cs_read_to_string F d ca of
        Err e \<Rightarrow> (Err e, d, srv, rng)
      | Ok ca_pem \<Rightarrow>
     (case request_enrollment G dial call
         \<lparr>er_daemon_url = daemon, er_ca_cert_pem = ca_pem, er_token = token, er_name = name\<rparr> srv rng of
        (Err e, srv1, rng1) \<Rightarrow> (Err e, d, srv1, rng1)
      | (Ok ident, srv1, rng1) \<Rightarrow>
     (case save_identity F d state ident of
        (d1, Err e) \<Rightarrow> (Err e, d1, srv1, rng1)
      | (d1, Ok _) \<Rightarrow>
         (case ensure_data_key fill F d1 state rng1 of ((d2, r), rng2) \<Rightarrow> (r, d2, srv1, rng2)))))"

datatype restore_cmd_error = RcConfig config_error | RcBadUlid bytes | RcRestore restore_error

definition run_restore_cmd :: "cmd_env \<Rightarrow> (bytes \<Rightarrow> ulid option) \<Rightarrow> 's rs_env \<Rightarrow> (bytes \<Rightarrow> bytes \<Rightarrow> bytes \<Rightarrow> bytes \<Rightarrow> bool)
    \<Rightarrow> cs_faults \<Rightarrow> cdisk \<Rightarrow> rs_faults \<Rightarrow> rpath \<Rightarrow> bytes \<Rightarrow> bytes \<Rightarrow> target \<Rightarrow> 's
    \<Rightarrow> (restore_cmd_error + restore_report) \<times> 's rs option" where
  "run_restore_cmd C parse_ulid E dial Fc d F config_path state snapshot tgt srv =
     (case client_config_load (ce_read C) (ce_toml C) config_path of
        Err e \<Rightarrow> (Err (RcConfig e), None)
      | Ok config \<Rightarrow>
     (case parse_ulid snapshot of
        None \<Rightarrow> (Err (RcBadUlid snapshot), None)
      | Some u \<Rightarrow>
         (case run_restore E dial Fc d F
             \<lparr>rs_daemon_url = cf_daemon config, rs_state_dir = state, rs_snapshot_id = u, rs_target = tgt\<rparr> srv of
            (r, st) \<Rightarrow> (map_err RcRestore r, Some st))))"

datatype list_cmd_error = LcConfig config_error | LcList list_error

definition run_list :: "cmd_env \<Rightarrow> 's stub \<Rightarrow> (bytes \<Rightarrow> bytes \<Rightarrow> bytes \<Rightarrow> bytes \<Rightarrow> bool) \<Rightarrow> cs_faults \<Rightarrow> cdisk \<Rightarrow> rpath \<Rightarrow> bytes \<Rightarrow> 's
    \<Rightarrow> (list_cmd_error + (bytes \<times> bytes) list) \<times> 's" where
  "run_list C stub dial F d config_path state srv =
     (case client_config_load (ce_read C) (ce_toml C) config_path of
        Err e \<Rightarrow> (Err (LcConfig e), srv)
      | Ok config \<Rightarrow>
         (case list_snapshots_client stub (ce_ts C) dial F d (cf_daemon config) state srv of
            (r, srv1) \<Rightarrow> (and_then (map_err LcList r) (\<lambda>entries.
               Ok (map (\<lambda>e. (ce_show_ulid C (se_id e), format_utc_ms (se_timestamp_ms e))) entries)), srv1)))"

section \<open>Status\<close>

record client_status_json =
  cs_enrolled :: bool
  cs_name :: "bytes option"
  cs_cert_fingerprint :: "bytes option"
  cs_daemon_url :: "bytes option"
  cs_chunk_target_size :: "bytes option"
  cs_last_backup :: "last_backup_record option"
  cs_recent_snapshots :: "(bytes \<times> bytes) list"
  cs_daemon_reachable :: bool

datatype status_cmd_error = ScConfig config_error | ScRecord status_error

definition to_option :: "'e + 'a \<Rightarrow> 'a option" where
  "to_option r = (case r of Err _ \<Rightarrow> None | Ok x \<Rightarrow> Some x)"

definition run_status :: "cmd_env \<Rightarrow> (bytes \<Rightarrow> hash32) \<Rightarrow> 's stub \<Rightarrow> (bytes \<Rightarrow> bytes \<Rightarrow> bytes \<Rightarrow> bytes \<Rightarrow> bool) \<Rightarrow> cs_faults \<Rightarrow> cdisk
    \<Rightarrow> bytes \<Rightarrow> rpath option \<Rightarrow> nat \<Rightarrow> 's \<Rightarrow> (status_cmd_error + client_status_json) \<times> 's" where
  "run_status C H stub dial F d state config_path limit srv =
     (let name = to_option (load_enrollment_name F d state);
          fingerprint = to_option (cert_fingerprint H F d state);
          enrolled = (name \<noteq> None \<and> fingerprint \<noteq> None)
      in case (case config_path of
                 None \<Rightarrow> Ok None
               | Some p \<Rightarrow> and_then (client_config_load (ce_read C) (ce_toml C) p) (\<lambda>c. Ok (Some c))) of
           Err e \<Rightarrow> (Err (ScConfig e), srv)
         | Ok config \<Rightarrow>
        (case record_load (ce_of_toml C) F d state of
           Err e \<Rightarrow> (Err (ScRecord e), srv)
         | Ok last_backup \<Rightarrow>
            (case (case config of
                     Some c \<Rightarrow> if enrolled then (case list_snapshots_client stub (ce_ts C) dial F d (cf_daemon c) state srv of
                         (r, srv1) \<Rightarrow> (to_option r, srv1)) else (None, srv)
                   | None \<Rightarrow> (None, srv)) of
               (fetched, srv1) \<Rightarrow>
                 (Ok \<lparr>cs_enrolled = enrolled, cs_name = name, cs_cert_fingerprint = fingerprint,
                      cs_daemon_url = map_option cf_daemon config,
                      cs_chunk_target_size = (case config of None \<Rightarrow> None | Some c \<Rightarrow> cf_chunk_target_size c),
                      cs_last_backup = last_backup,
                      cs_recent_snapshots = (case fetched of None \<Rightarrow> []
                        | Some entries \<Rightarrow> rev (map (\<lambda>e. (ce_show_ulid C (se_id e), format_utc_ms (se_timestamp_ms e)))
                            (take limit (rev entries)))),
                      cs_daemon_reachable = (fetched \<noteq> None)\<rparr>, srv1))))"

section \<open>The listing\<close>

lemma collect_entries:
  "collect_results (snapshot_entry_of ts) ids = Ok entries \<longleftrightarrow>
     (\<forall>raw \<in> set ids. length raw = 16) \<and>
     entries = map (\<lambda>raw. \<lparr>se_id = ulid_from_bytes raw, se_timestamp_ms = ts (ulid_from_bytes raw)\<rparr>) ids"
  by (induction ids arbitrary: entries) (auto simp: and_then_Ok_iff snapshot_entry_of_def Let_def split: if_splits)

lemma listed_entries:
  assumes "list_snapshots_client stub ts dial F d url state srv = (Ok entries, srv')"
  obtains ids where "list_snapshots_call stub srv = (Ok ids, srv')" and "\<forall>raw \<in> set ids. length raw = 16"
    and "entries = sort_key (\<lambda>e. (se_timestamp_ms e, se_id e))
      (map (\<lambda>raw. \<lparr>se_id = ulid_from_bytes raw, se_timestamp_ms = ts (ulid_from_bytes raw)\<rparr>) ids)"
  using assms
  by (auto simp: list_snapshots_client_def and_then_Ok_iff collect_entries split: sum.splits prod.splits)

text \<open>The timestamp of a ULID is its most significant part, so identifiers order as their timestamps do.\<close>

definition ulid_laws :: "(ulid \<Rightarrow> u64) \<Rightarrow> bool" where
  "ulid_laws ts \<longleftrightarrow> (\<forall>u v. u \<le> v \<longrightarrow> ts u \<le> ts v)"

text \<open>A listing that succeeds shows exactly the snapshots the daemon reported, each as often as it was reported,
  oldest first, whatever the order of the daemon's answer; with the timestamps of the ULID library this is also
  the order of the identifiers. A malformed identifier makes the listing fail.\<close>

theorem listing_complete_and_sorted:
  assumes "list_snapshots_client stub ts dial F d url state srv = (Ok entries, srv')"
  shows "\<exists>ids. list_snapshots_call stub srv = (Ok ids, srv') \<and> (\<forall>raw \<in> set ids. length raw = 16) \<and>
    mset (map (\<lambda>e. ulid_to_bytes (se_id e)) entries) = mset ids \<and>
    (\<forall>e \<in> set entries. se_timestamp_ms e = ts (se_id e)) \<and> sorted (map se_timestamp_ms entries) \<and>
    (ulid_laws ts \<longrightarrow> sorted (map se_id entries))"
proof -
  obtain ids where ids: "list_snapshots_call stub srv = (Ok ids, srv')" "\<forall>raw \<in> set ids. length raw = 16"
    and e: "entries = sort_key (\<lambda>e. (se_timestamp_ms e, se_id e))
      (map (\<lambda>raw. \<lparr>se_id = ulid_from_bytes raw, se_timestamp_ms = ts (ulid_from_bytes raw)\<rparr>) ids)"
    using listed_entries [OF assms] .
  have "ulid_to_bytes (ulid_from_bytes raw) = raw" if "raw \<in> set ids" for raw
    using ids(2) that be_bytes_of_be_bytes [of raw, where 'a = 128] by (simp add: ulid_to_bytes_def ulid_from_bytes_def)
  then have "map (\<lambda>raw. ulid_to_bytes (ulid_from_bytes raw)) ids = ids" by (rule map_idI)
  then have "mset (map (\<lambda>e. ulid_to_bytes (se_id e)) entries) = mset ids"
    unfolding e mset_map mset_sort by (simp only: mset_map [symmetric] map_map comp_def snapshot_entry.simps)
  moreover have ts: "\<forall>e \<in> set entries. se_timestamp_ms e = ts (se_id e)" unfolding e by auto
  moreover have s: "sorted (map (\<lambda>e. (se_timestamp_ms e, se_id e)) entries)" unfolding e by simp
  then have "sorted (map se_timestamp_ms entries)" by (auto simp: sorted_map less_eq_prod_def intro: sorted_wrt_mono_rel [rotated])
  moreover have "sorted (map se_id entries)" if "ulid_laws ts"
    unfolding sorted_map
  proof (rule sorted_wrt_mono_rel [OF _ s [unfolded sorted_map]])
    fix x y assume "x \<in> set entries" "y \<in> set entries" "(se_timestamp_ms x, se_id x) \<le> (se_timestamp_ms y, se_id y)"
    then have le: "ts (se_id x) < ts (se_id y) \<or> se_id x \<le> se_id y" using ts by (auto simp: less_eq_prod_def)
    show "se_id x \<le> se_id y"
    proof (rule ccontr)
      assume "\<not> se_id x \<le> se_id y"
      then have "ts (se_id y) \<le> ts (se_id x)" using that by (simp add: ulid_laws_def)
      then show False using le \<open>\<not> se_id x \<le> se_id y\<close> by auto
    qed
  qed
  ultimately show ?thesis using ids by blast
qed

text \<open>\<open>status\<close> shows the newest snapshots, at most \<open>limit\<close> of them, oldest first, as the listing has them; without a
  configuration or an enrolment it does not contact the daemon, and an unreachable daemon is reported, not an error.\<close>

theorem status_shows_newest:
  assumes "run_status C H stub dial F d state config_path limit srv = (Ok p, srv')"
  shows "(cs_daemon_reachable p \<longleftrightarrow> (\<exists>path config entries. config_path = Some path \<and> cs_enrolled p \<and>
      client_config_load (ce_read C) (ce_toml C) path = Ok config \<and>
      list_snapshots_client stub (ce_ts C) dial F d (cf_daemon config) state srv = (Ok entries, srv') \<and>
      cs_recent_snapshots p = map (\<lambda>e. (ce_show_ulid C (se_id e), format_utc_ms (se_timestamp_ms e)))
        (drop (length entries - limit) entries))) \<and>
    (\<not> cs_daemon_reachable p \<longrightarrow> cs_recent_snapshots p = []) \<and>
    (config_path = None \<or> \<not> cs_enrolled p \<longrightarrow> srv' = srv) \<and>
    (cs_enrolled p \<longleftrightarrow> cs_name p \<noteq> None \<and> cs_cert_fingerprint p \<noteq> None) \<and>
    record_load (ce_of_toml C) F d state = Ok (cs_last_backup p)"
proof -
  have newest: "rev (map f (take n (rev xs))) = map f (drop (length xs - n) xs)" for f :: "snapshot_entry \<Rightarrow> bytes \<times> bytes" and n xs
    by (simp add: rev_map [symmetric] take_rev)
  show ?thesis
    using assms
    by (cases config_path)
      (auto simp: run_status_def Let_def newest to_option_def and_then_def split: sum.splits prod.splits option.splits if_splits)
qed

section \<open>The record\<close>

lemma record_load_save:
  assumes "record_toml_laws to_toml of_toml" and "record_save to_toml F d state r = (d', Ok ())" and "\<not> cs_fails G (CsRead (state, LAST_BACKUP_FILE))"
  shows "record_load of_toml G d' state = Ok (Some r)"
proof -
  obtain b where b: "to_toml r = Some b" "utf8_valid b" "of_toml b = Some r" using assms(1) unfolding record_toml_laws_def by blast
  have "map_of d' (state, LAST_BACKUP_FILE) = Some b"
    using assms(2) b(1) by (auto simp: record_save_def Let_def update_conv' split: if_splits)
  then show ?thesis using b assms(3) by (simp add: record_load_def cs_read_to_string_def cs_read_def Let_def)
qed

lemma record_save_frame: "record_save to_toml F d state r = (d', x) \<Longrightarrow> p \<noteq> (state, LAST_BACKUP_FILE) \<Longrightarrow> map_of d' p = map_of d p"
  by (auto simp: record_save_def Let_def update_conv' split: if_splits option.splits)


text \<open>Whatever the scheduled attempts did, the record is that of the latest successful one: failed attempts leave it
  as it was.\<close>

theorem latest_success_recorded:
  assumes "record_toml_laws (ce_to_toml C) (ce_of_toml C)"
  shows "\<exists>dur. record_load (ce_of_toml C) cs_no_faults (fold (report_tick C cs_no_faults now state) ticks d) state =
    (case filter (\<lambda>t. \<exists>rep. tk_result t = Ok rep) (rev ticks) of
       [] \<Rightarrow> record_load (ce_of_toml C) cs_no_faults d state
     | t # _ \<Rightarrow> (case tk_result t of Ok rep \<Rightarrow>
         Ok (Some (from_report (ce_show_ulid C) rep (i64_div_euclid (tk_started_at_ms t) 1000) dur))))"
proof (induction ticks rule: rev_induct)
  case (snoc t ticks)
  show ?case
  proof (cases "tk_result t")
    case (Inl e)
    then show ?thesis using snoc by (simp add: report_tick_def)
  next
    case (Inr rep)
    define dur where "dur = (let e = (case now of None \<Rightarrow> tk_started_at_ms t | Some n \<Rightarrow> n) - tk_started_at_ms t in if 0 \<le> sint e then e else 0)"
    let ?rec = "from_report (ce_show_ulid C) rep (i64_div_euclid (tk_started_at_ms t) 1000) dur"
    let ?d = "fold (report_tick C cs_no_faults now state) ticks d"
    obtain b where "ce_to_toml C ?rec = Some b" using assms unfolding record_toml_laws_def by blast
    then obtain d' where d': "record_save (ce_to_toml C) cs_no_faults ?d state ?rec = (d', Ok ())"
      by (simp add: record_save_def Let_def cs_no_faults_def)
    then have "report_tick C cs_no_faults now state t ?d = d'" using Inr by (simp add: report_tick_def dur_def Let_def)
    moreover have "record_load (ce_of_toml C) cs_no_faults d' state = Ok (Some ?rec)"
      by (rule record_load_save [OF assms d']) (simp add: cs_no_faults_def)
    ultimately show ?thesis using Inr by auto
  qed
qed simp

text \<open>A passphrase read from a file or from the terminal is never empty; the empty passphrase gets through only as the
  command-line option.\<close>

theorem passphrase_nonempty:
  assumes "resolve_passphrase F d passphrase passphrase_file stdin = Ok p"
  shows "p = [] \<longleftrightarrow> passphrase = Some []"
  using assms
  by (auto simp: resolve_passphrase_def Let_def split: option.splits sum.splits if_splits)

section \<open>Witnesses\<close>

text \<open>A record codec with the laws: half bytes of the fields, one after the other.\<close>

definition nibbles :: "bytes \<Rightarrow> bytes" where
  "nibbles bs = concat (map (\<lambda>b. [drop_bit 4 b, take_bit 4 b]) bs)"

fun of_nibbles :: "bytes \<Rightarrow> bytes" where
  "of_nibbles (x # y # r) = (push_bit 4 x OR y) # of_nibbles r"
| "of_nibbles _ = []"

definition demo_to_toml :: "last_backup_record \<Rightarrow> bytes option" where
  "demo_to_toml r = Some (nibbles (le_bytes 8 (lb_created_at r) @ le_bytes 8 (lb_files r) @ le_bytes 8 (lb_upload_bytes r) @
     le_bytes 8 (lb_duration_ms r) @ lb_snapshot_id r))"

definition demo_of_toml :: "bytes \<Rightarrow> last_backup_record option" where
  "demo_of_toml b = (let bs = of_nibbles b in Some \<lparr>lb_snapshot_id = drop 32 bs, lb_created_at = of_le_bytes (take 8 bs),
     lb_files = of_le_bytes (take 8 (drop 8 bs)), lb_upload_bytes = of_le_bytes (take 8 (drop 16 bs)),
     lb_duration_ms = of_le_bytes (take 8 (drop 24 bs))\<rparr>)"

lemma of_nibbles_nibbles: "of_nibbles (nibbles bs) = bs"
proof (induction bs)
  case (Cons b bs)
  have "push_bit 4 (drop_bit 4 b) OR take_bit 4 b = b" by (auto simp: bit_eq_iff bit_simps not_less)
  then show ?case using Cons by (simp add: nibbles_def)
qed (simp add: nibbles_def)

lemma nibble_small: "drop_bit 4 (b :: byte) < 0x80" "take_bit 4 (b :: byte) < 0x80"
proof -
  have "unat b < 256" using unsigned_less [of b] by simp
  moreover have "unat (drop_bit 4 b) = unat b div 16" by (simp only: unat_drop_bit_eq) (simp add: drop_bit_eq_div)
  ultimately show "drop_bit 4 b < 0x80" by (simp add: word_less_nat_alt less_mult_imp_div_less)
  have "unat (take_bit 4 b) = unat b mod 16" by (simp only: unsigned_take_bit_eq) (simp add: take_bit_eq_mod)
  then show "take_bit 4 b < 0x80" by (simp add: word_less_nat_alt less_trans [OF mod_less_divisor])
qed

lemma nibbles_utf8: "utf8_valid (nibbles bs)"
proof (induction bs)
  case (Cons b bs)
  then show ?case using nibble_small [of b] by (simp add: nibbles_def)
qed (simp add: nibbles_def)

lemma demo_record_laws: "record_toml_laws demo_to_toml demo_of_toml"
  by (simp add: record_toml_laws_def demo_to_toml_def demo_of_toml_def of_nibbles_nibbles nibbles_utf8 le_bytes_inverse)

definition trip_config :: client_config where
  "trip_config = \<lparr>cf_daemon = [], cf_folders = [\<lparr>rp_abs = True, rp_comps = [ascii ''r'']\<rparr>], cf_chunk_target_size = None,
     cf_compression = half_config\<rparr>"

definition demo_cmd_env :: cmd_env where
  "demo_cmd_env = \<lparr>ce_read = (\<lambda>_. Some []), ce_toml = (\<lambda>_. Some trip_config), ce_limits = demo_limits,
     ce_tree = (\<lambda>p. (rp_comps p, Some (Directory [(ascii ''a'', RegFile)]))), ce_ts = (\<lambda>u. ucast (drop_bit 80 u)), ce_show_ulid = ulid_to_bytes,
     ce_to_toml = demo_to_toml, ce_of_toml = demo_of_toml\<rparr>"

lemma demo_cmd_laws: "record_toml_laws (ce_to_toml demo_cmd_env) (ce_of_toml demo_cmd_env)"
  by (simp add: demo_cmd_env_def demo_record_laws)

definition zero_report :: backup_report where "zero_report = report_zero 9"

theorem latest_success_recorded_witness:
  "\<exists>dur. record_load demo_of_toml cs_no_faults
     (fold (report_tick demo_cmd_env cs_no_faults None [1])
        [\<lparr>tk_started_at_ms = 5000, tk_result = Ok zero_report\<rparr>, \<lparr>tk_started_at_ms = 9000, tk_result = Err (BkRpc Internal)\<rparr>] []) [1] =
     Ok (Some (from_report ulid_to_bytes zero_report (i64_div_euclid 5000 1000) dur))"
proof -
  have f: "ce_of_toml demo_cmd_env = demo_of_toml" "ce_show_ulid demo_cmd_env = ulid_to_bytes" by (simp_all add: demo_cmd_env_def)
  show ?thesis
    using latest_success_recorded [OF demo_cmd_laws, of None "[1]" "[\<lparr>tk_started_at_ms = 5000, tk_result = Ok zero_report\<rparr>,
      \<lparr>tk_started_at_ms = 9000, tk_result = Err (BkRpc Internal)\<rparr>]" "[]"] unfolding f by simp
qed

text \<open>The backup of the round trip, from the command line.\<close>

lemma demo_command:
  "\<exists>rep d' srv'. run_backup_cmd demo_cmd_env trip_env (\<lambda>_ _ _ _. True) cs_no_faults demo_keys
     \<lparr>rp_abs = True, rp_comps = [[99]]\<rparr> [] True 9 0 7 trip_srv () = (Ok rep, d', srv', ())"
proof -
  obtain rep srv' obs where run: "run_backup trip_env (\<lambda>_ _ _ _. True) cs_no_faults demo_keys trip_req trip_srv () = (Ok rep, srv', (), obs)"
    using trip_run by blast
  have cfg: "and_then (client_config_load (ce_read demo_cmd_env) (ce_toml demo_cmd_env) \<lparr>rp_abs = True, rp_comps = [[99]]\<rparr>) (\<lambda>config.
      and_then (chunker (ce_limits demo_cmd_env) config True) (\<lambda>ck. Ok (config, ck))) = Ok (trip_config, chunker_config_default)"
    by (simp add: demo_cmd_env_def client_config_load_def trip_config_def path_parent_def chunker_def demo_limits_def
        DEFAULT_TARGET_SIZE_def chunker_config_with_target_def chunker_config_new_def usize_saturating_mul_def chunker_config_default_def)
  have req: "\<lparr>rq_daemon_url = cf_daemon trip_config, rq_state_dir = [], rq_roots = map (ce_tree demo_cmd_env) (cf_folders trip_config),
      rq_chunker = chunker_config_default, rq_compression = cf_compression trip_config, rq_snapshot_id = 9, rq_created_at = 0\<rparr> = trip_req"
    by (simp add: trip_config_def demo_cmd_env_def trip_req_def)
  obtain b where "ce_to_toml demo_cmd_env (from_report (ce_show_ulid demo_cmd_env) rep 0 7) = Some b"
    using demo_cmd_laws unfolding record_toml_laws_def by blast
  then show ?thesis
    unfolding run_backup_cmd_def cfg by (simp add: req run record_save_def cs_no_faults_def [symmetric] Let_def) (simp add: cs_no_faults_def)
qed


definition two_stub :: "unit stub" where
  "two_stub = \<lparr>list_snapshots_call = (\<lambda>s. (Ok [ulid_to_bytes 9, ulid_to_bytes 5], s)), has_chunks_call = (\<lambda>_ s. (Ok [], s)),
     upload_chunks_call = (\<lambda>_ s. (Ok (0, 0), s)), put_manifest_call = (\<lambda>_ _ _ s. (Ok (), s)),
     get_manifest_call = (\<lambda>_ s. (Ok [], s)), get_chunks_call = (\<lambda>_ s. (Ok [], s))\<rparr>"

lemma two_listed:
  "\<exists>entries. list_snapshots_client two_stub (\<lambda>_. 0) (\<lambda>_ _ _ _. True) cs_no_faults demo_keys [] [] () = (Ok entries, ())"
  using demo_load
  by (auto simp: list_snapshots_client_def and_then_Ok_iff two_stub_def snapshot_entry_of_def ulid_to_bytes_def)

theorem listing_complete_and_sorted_witness:
  "\<exists>entries. list_snapshots_client two_stub (\<lambda>_. 0) (\<lambda>_ _ _ _. True) cs_no_faults demo_keys [] [] () = (Ok entries, ()) \<and>
     mset (map (\<lambda>e. ulid_to_bytes (se_id e)) entries) = {#ulid_to_bytes 5, ulid_to_bytes 9#} \<and> sorted (map se_id entries)"
proof -
  obtain entries where e: "list_snapshots_client two_stub (\<lambda>_. 0) (\<lambda>_ _ _ _. True) cs_no_faults demo_keys [] [] () = (Ok entries, ())"
    using two_listed by blast
  show ?thesis using e listing_complete_and_sorted [OF e] by (auto simp: two_stub_def ulid_laws_def)
qed

theorem status_shows_newest_witness:
  "\<exists>p. run_status demo_cmd_env (\<lambda>_. 0) two_stub (\<lambda>_ _ _ _. True) cs_no_faults [] [1] None 5 () = (Ok p, ()) \<and>
     \<not> cs_daemon_reachable p \<and> cs_last_backup p = None"
proof -
  obtain p where p: "run_status demo_cmd_env (\<lambda>_. 0) two_stub (\<lambda>_ _ _ _. True) cs_no_faults [] [1] None 5 () = (Ok p, ())"
    by (simp add: run_status_def record_load_def cs_read_to_string_def cs_read_def cs_no_faults_def Let_def)
  have "record_load (ce_of_toml demo_cmd_env) cs_no_faults [] [1] = Ok None"
    by (simp add: record_load_def cs_read_to_string_def cs_read_def cs_no_faults_def Let_def)
  then show ?thesis using p status_shows_newest [OF p] by auto
qed

theorem passphrase_nonempty_witness:
  "resolve_passphrase cs_no_faults [] None None (Some (ascii ''pw'' @ [0x0D, 0x0A])) = Ok (ascii ''pw'')"
proof -
  have e: "resolve_passphrase cs_no_faults [] None None (Some (ascii ''pw'' @ [0x0D, 0x0A])) = Ok (ascii ''pw'')" by code_simp
  show ?thesis using e passphrase_nonempty [OF e] by simp
qed

end
