(* ===== verification/Windows_Service.thy ===== *)
theory Windows_Service
  imports Client_Commands
begin

text \<open>
  The Windows service, \<open>crates/busyncr-client/src/service.rs\<close>: the launch command, the actions on the service control manager
  and the service entry point around the scheduled loop.

  \<^item> The service control manager is third-party code: the record \<open>scm\<close> of its calls over a state \<open>'s\<close>, failing with \<open>'e\<close>.
    Handles are not represented: every call concerns the one service of this program. \<open>scm_sleep\<close> is the passing of one
    poll interval.
  \<^item> How paths and doubles print is the record \<open>arg_env\<close>.
  \<^item> The entry point is its trace: the states reported to the manager and the lines for the event log. The stop control is the
    shutdown of a turn of the loop.
\<close>

section \<open>The launch command\<close>

definition SERVICE_NAME :: bytes where "SERVICE_NAME = ascii ''BusyNCRClient''"
definition SERVICE_DISPLAY_NAME :: bytes where "SERVICE_DISPLAY_NAME = ascii ''BusyNCR Backup Client''"

record arg_env =
  ae_path :: "rpath \<Rightarrow> bytes"
  ae_state :: "bytes \<Rightarrow> bytes"
  ae_f64 :: "f64 \<Rightarrow> bytes"

definition to_args :: "arg_env \<Rightarrow> service_run_args \<Rightarrow> bytes list" where
  "to_args A a =
     [ascii ''--config'', ae_path A (sa_config a), ascii ''--state'', ae_state A (sa_state a),
      ascii ''--interval'', sa_interval a, ascii ''--jitter'', ae_f64 A (sa_jitter a)] @
     (if sa_default_chunking a then [ascii ''--default-chunking''] else [])"

definition launch_argv :: "arg_env \<Rightarrow> service_run_args \<Rightarrow> bytes list" where
  "launch_argv A a = [ascii ''service'', ascii ''run''] @ to_args A a"

datatype service_action = Install service_run_args | Uninstall | Start | Stop | Restart | Run service_run_args

section \<open>Actions\<close>

datatype service_state = SvcStopped | SvcStartPending | SvcStopPending | SvcRunning | SvcOther nat

record service_info =
  si_name :: bytes
  si_display_name :: bytes
  si_executable_path :: bytes
  si_launch_arguments :: "bytes list"
  si_auto_start :: bool

record ('s, 'e) scm =
  scm_connect :: "bool \<Rightarrow> 's \<Rightarrow> ('e + unit) \<times> 's"
  scm_create :: "service_info \<Rightarrow> 's \<Rightarrow> ('e + unit) \<times> 's"
  scm_describe :: "'s \<Rightarrow> ('e + unit) \<times> 's"
  scm_open :: "'s \<Rightarrow> ('e + unit) \<times> 's"
  scm_query :: "'s \<Rightarrow> ('e + service_state) \<times> 's"
  scm_stop :: "'s \<Rightarrow> ('e + unit) \<times> 's"
  scm_start :: "'s \<Rightarrow> ('e + unit) \<times> 's"
  scm_delete :: "'s \<Rightarrow> ('e + unit) \<times> 's"
  scm_sleep :: "'s \<Rightarrow> 's"
  scm_dispatch :: "service_run_args \<Rightarrow> 's \<Rightarrow> ('e + unit) \<times> 's"

text \<open>The \<open>?\<close> after a call: \<open>From\<close> wraps the manager's error.\<close>

definition scm_do :: "('e + 'a) \<times> 's \<Rightarrow> ('a \<Rightarrow> 's \<Rightarrow> ('e service_error + 'b) \<times> 's) \<Rightarrow> ('e service_error + 'b) \<times> 's" where
  "scm_do m k = (case m of (Err e, s) \<Rightarrow> (Err (Scm e), s) | (Ok x, s) \<Rightarrow> k x s)"

definition svc_install :: "('s, 'e) scm \<Rightarrow> arg_env \<Rightarrow> bytes option \<Rightarrow> service_run_args \<Rightarrow> 's \<Rightarrow> ('e service_error + unit) \<times> 's" where
  "svc_install M A exe a s =
     (case exe of
        None \<Rightarrow> (Err ExecutablePath, s)
      | Some path \<Rightarrow>
         scm_do (scm_connect M True s) (\<lambda>_ s.
         scm_do (scm_create M \<lparr>si_name = SERVICE_NAME, si_display_name = SERVICE_DISPLAY_NAME, si_executable_path = path,
             si_launch_arguments = launch_argv A a, si_auto_start = True\<rparr> s) (\<lambda>_ s.
         scm_do (scm_describe M s) (\<lambda>_ s. (Ok (), s)))))"

definition svc_uninstall :: "('s, 'e) scm \<Rightarrow> 's \<Rightarrow> ('e service_error + unit) \<times> 's" where
  "svc_uninstall M s =
     scm_do (scm_connect M False s) (\<lambda>_ s.
     scm_do (scm_open M s) (\<lambda>_ s.
     scm_do (scm_query M s) (\<lambda>st s.
     scm_do (if st \<noteq> SvcStopped then scm_stop M s else (Ok (), s)) (\<lambda>_ s.
     scm_do (scm_delete M s) (\<lambda>_ s. (Ok (), s))))))"

definition svc_start :: "('s, 'e) scm \<Rightarrow> 's \<Rightarrow> ('e service_error + unit) \<times> 's" where
  "svc_start M s =
     scm_do (scm_connect M False s) (\<lambda>_ s. scm_do (scm_open M s) (\<lambda>_ s. scm_do (scm_start M s) (\<lambda>_ s. (Ok (), s))))"

definition svc_stop :: "('s, 'e) scm \<Rightarrow> 's \<Rightarrow> ('e service_error + unit) \<times> 's" where
  "svc_stop M s =
     scm_do (scm_connect M False s) (\<lambda>_ s. scm_do (scm_open M s) (\<lambda>_ s. scm_do (scm_stop M s) (\<lambda>_ s. (Ok (), s))))"

definition RESTART_POLL_ATTEMPTS :: nat where "RESTART_POLL_ATTEMPTS = 30"

fun poll_stopped :: "('s, 'e) scm \<Rightarrow> nat \<Rightarrow> 's \<Rightarrow> ('e service_error + unit) \<times> 's" where
  "poll_stopped M 0 s = (Ok (), s)"
| "poll_stopped M (Suc n) s =
     scm_do (scm_query M s) (\<lambda>st s. if st = SvcStopped then (Ok (), s) else poll_stopped M n (scm_sleep M s))"

definition svc_restart :: "('s, 'e) scm \<Rightarrow> 's \<Rightarrow> ('e service_error + unit) \<times> 's" where
  "svc_restart M s =
     scm_do (scm_connect M False s) (\<lambda>_ s.
     scm_do (scm_open M s) (\<lambda>_ s.
     scm_do (scm_query M s) (\<lambda>st s.
     (case (if st \<noteq> SvcStopped then scm_do (scm_stop M s) (\<lambda>_ s. poll_stopped M RESTART_POLL_ATTEMPTS s) else (Ok (), s)) of
        (Err e, s) \<Rightarrow> (Err e, s)
      | (Ok _, s) \<Rightarrow> scm_do (scm_start M s) (\<lambda>_ s. (Ok (), s))))))"

text \<open>\<open>run\<close> stores the arguments for \<open>my_service_main\<close> and blocks in the dispatcher.\<close>

definition svc_run :: "('s, 'e) scm \<Rightarrow> service_run_args \<Rightarrow> 's \<Rightarrow> ('e service_error + unit) \<times> 's" where
  "svc_run M a s = scm_do (scm_dispatch M a s) (\<lambda>_ s. (Ok (), s))"

definition run_service_command :: "('s, 'e) scm \<Rightarrow> arg_env \<Rightarrow> bytes option \<Rightarrow> service_action \<Rightarrow> 's \<Rightarrow> ('e service_error + unit) \<times> 's" where
  "run_service_command M A exe action s =
     (case action of
        Install a \<Rightarrow> svc_install M A exe a s
      | Uninstall \<Rightarrow> svc_uninstall M s
      | Start \<Rightarrow> svc_start M s
      | Stop \<Rightarrow> svc_stop M s
      | Restart \<Rightarrow> svc_restart M s
      | Run a \<Rightarrow> svc_run M a s)"

section \<open>The service entry point\<close>

datatype 'e service_msg =
    MsgStarted
  | MsgSnapshot backup_report
  | MsgRecord status_error
  | MsgAttempt backup_error
  | MsgStopping
  | MsgExited "'e service_error"

datatype 'e service_event = Reported service_state | LogInfo "'e service_msg" | LogError "'e service_msg"

datatype 'e service_end = Returned "'e service_error + unit" | StillServing | LoopPanicked

text \<open>The observer of the loop: what it logs, and the client's files with the record saved.\<close>

definition service_tick :: "cmd_env \<Rightarrow> cs_faults \<Rightarrow> i64 option \<Rightarrow> bytes \<Rightarrow> tick \<Rightarrow> cdisk \<Rightarrow> 'e service_event list \<times> cdisk" where
  "service_tick C F now state t d =
     (case tk_result t of
        Err e \<Rightarrow> ([LogError (MsgAttempt e)], d)
      | Ok rep \<Rightarrow>
         let now_ms = (case now of None \<Rightarrow> tk_started_at_ms t | Some n \<Rightarrow> n);
             elapsed = now_ms - tk_started_at_ms t;
             duration_ms = (if 0 \<le> sint elapsed then elapsed else 0);
             created = i64_div_euclid (tk_started_at_ms t) 1000
         in case record_save (ce_to_toml C) F d state (from_report (ce_show_ulid C) rep created duration_ms) of
              (d', Err e) \<Rightarrow> ([LogInfo (MsgSnapshot rep), LogError (MsgRecord e)], d')
            | (d', Ok _) \<Rightarrow> ([LogInfo (MsgSnapshot rep)], d'))"

fun service_ticks :: "cmd_env \<Rightarrow> cs_faults \<Rightarrow> i64 option \<Rightarrow> bytes \<Rightarrow> tick list \<Rightarrow> cdisk \<Rightarrow> 'e service_event list \<times> cdisk" where
  "service_ticks C F now state [] d = ([], d)"
| "service_ticks C F now state (t # ts) d =
     (case service_tick C F now state t d of (ev, d1) \<Rightarrow>
      case service_ticks C F now state ts d1 of (evs, d2) \<Rightarrow> (ev @ evs, d2))"

record 'e service_faults =
  sf_register :: "'e option"
  sf_report :: "service_state \<Rightarrow> 'e option"
  sf_runtime :: bool
  sf_record :: cs_faults
  sf_now :: "i64 option"

definition run_service_body :: "cmd_env \<Rightarrow> 'e service_faults \<Rightarrow> (bytes \<Rightarrow> bytes \<Rightarrow> bytes \<Rightarrow> bytes \<Rightarrow> bool) \<Rightarrow> 'r random_range
    \<Rightarrow> service_run_args option \<Rightarrow> ('s, 'r, 'f) turn list \<Rightarrow> cdisk \<Rightarrow> 's \<Rightarrow> 'r \<Rightarrow> 'e service_event list \<times> 'e service_end \<times> cdisk" where
  "run_service_body C F dial draw run_args turns d srv rng =
     (case run_args of
        None \<Rightarrow> ([], Returned (Err NotConfigured), d)
      | Some a \<Rightarrow>
     (case sf_register F of
        Some e \<Rightarrow> ([], Returned (Err (Scm e)), d)
      | None \<Rightarrow>
     (case sf_report F SvcStartPending of
        Some e \<Rightarrow> ([], Returned (Err (Scm e)), d)
      | None \<Rightarrow>
     (case service_settings (ce_read C) (ce_toml C) (ce_limits C) a of
        Err e \<Rightarrow> ([Reported SvcStartPending], Returned (Err e), d)
      | Ok (req, folders) \<Rightarrow>
         if sf_runtime F then ([Reported SvcStartPending], Returned (Err Runtime), d)
         else
     (case sf_report F SvcRunning of
        Some e \<Rightarrow> ([Reported SvcStartPending], Returned (Err (Scm e)), d)
      | None \<Rightarrow>
         let out = run_scheduler dial draw req turns srv rng;
             (evs, d') = service_ticks C (sf_record F) (sf_now F) (sa_state a) (so_ticks out) d;
             upto = [Reported SvcStartPending, Reported SvcRunning, LogInfo MsgStarted] @ evs
         in case so_end out of
              Waiting \<Rightarrow> (upto, StillServing, d')
            | Panicked \<Rightarrow> (upto, LoopPanicked, d')
            | Stopped \<Rightarrow>
               (case sf_report F SvcStopped of
                  Some e \<Rightarrow> (upto @ [LogInfo MsgStopping], Returned (Err (Scm e)), d')
                | None \<Rightarrow> (upto @ [LogInfo MsgStopping, Reported SvcStopped], Returned (Ok ()), d')))))))"

definition my_service_main :: "cmd_env \<Rightarrow> 'e service_faults \<Rightarrow> (bytes \<Rightarrow> bytes \<Rightarrow> bytes \<Rightarrow> bytes \<Rightarrow> bool) \<Rightarrow> 'r random_range
    \<Rightarrow> service_run_args option \<Rightarrow> ('s, 'r, 'f) turn list \<Rightarrow> cdisk \<Rightarrow> 's \<Rightarrow> 'r \<Rightarrow> 'e service_event list \<times> cdisk" where
  "my_service_main C F dial draw run_args turns d srv rng =
     (case run_service_body C F dial draw run_args turns d srv rng of
        (evs, Returned (Err e), d') \<Rightarrow> (evs @ [LogError (MsgExited e)], d')
      | (evs, _, d') \<Rightarrow> (evs, d'))"

section \<open>Restarting\<close>

text \<open>What the code relies on: connecting and opening do not change the service, a query answers its state and changes
  nothing, and only a sleep lets time pass.\<close>

definition scm_laws :: "('s, 'e) scm \<Rightarrow> ('s \<Rightarrow> service_state) \<Rightarrow> bool" where
  "scm_laws M st \<longleftrightarrow> (\<forall>s b. scm_connect M b s = (Ok (), s)) \<and> (\<forall>s. scm_open M s = (Ok (), s)) \<and> (\<forall>s. scm_query M s = (Ok (st s), s))"

lemma poll_stopped_spec:
  assumes "scm_laws M st"
  obtains k where "k \<le> n" "poll_stopped M n s = (Ok (), (scm_sleep M ^^ k) s)"
    "\<forall>j < k. st ((scm_sleep M ^^ j) s) \<noteq> SvcStopped" "st ((scm_sleep M ^^ k) s) = SvcStopped \<or> k = n"
proof (induction n arbitrary: s thesis)
  case 0
  then show ?case by (auto intro: 0 [of 0])
next
  case (Suc n)
  have q: "scm_query M s = (Ok (st s), s)" using assms by (simp add: scm_laws_def)
  show ?case
  proof (cases "st s = SvcStopped")
    case True
    then show ?thesis using q by (intro Suc.prems [of 0]) (simp_all add: scm_do_def)
  next
    case False
    obtain k where k: "k \<le> n" "poll_stopped M n (scm_sleep M s) = (Ok (), (scm_sleep M ^^ k) (scm_sleep M s))"
      "\<forall>j < k. st ((scm_sleep M ^^ j) (scm_sleep M s)) \<noteq> SvcStopped"
      "st ((scm_sleep M ^^ k) (scm_sleep M s)) = SvcStopped \<or> k = n"
      using Suc.IH by blast
    show ?thesis
    proof (rule Suc.prems [of "Suc k"])
      show "\<forall>j < Suc k. st ((scm_sleep M ^^ j) s) \<noteq> SvcStopped"
        using k(3) False by (metis (no_types, lifting) funpow_0 funpow_Suc_right comp_apply less_Suc_eq_0_disj)
    qed (use k q False in \<open>simp_all add: scm_do_def funpow_Suc_right del: funpow.simps\<close>)
  qed
qed

text \<open>Restarting waits for the stop. A running service is asked to stop; then restart sleeps as long as the service is not
  stopped, at most thirty times, and only then asks for the start: on a stopped service, or after thirty sleeps without
  one. A stopped service is started at once.\<close>

theorem restart_waits_for_stop:
  assumes "scm_laws M st"
  shows "(st s = SvcStopped \<longrightarrow> svc_restart M s = scm_do (scm_start M s) (\<lambda>_ s. (Ok (), s))) \<and>
    (\<forall>s1. st s \<noteq> SvcStopped \<and> scm_stop M s = (Ok (), s1) \<longrightarrow>
      (\<exists>k \<le> 30. (\<forall>j < k. st ((scm_sleep M ^^ j) s1) \<noteq> SvcStopped) \<and>
         (st ((scm_sleep M ^^ k) s1) = SvcStopped \<or> k = 30) \<and>
         svc_restart M s = scm_do (scm_start M ((scm_sleep M ^^ k) s1)) (\<lambda>_ s. (Ok (), s)))) \<and>
    (\<forall>s1 e. st s \<noteq> SvcStopped \<and> scm_stop M s = (Err e, s1) \<longrightarrow> svc_restart M s = (Err (Scm e), s1))"
proof -
  have start: "svc_restart M s = (case (if st s \<noteq> SvcStopped then scm_do (scm_stop M s) (\<lambda>_ s. poll_stopped M 30 s) else (Ok (), s)) of
      (Err e, s) \<Rightarrow> (Err e, s) | (Ok _, s) \<Rightarrow> scm_do (scm_start M s) (\<lambda>_ s. (Ok (), s)))"
    using assms by (simp add: svc_restart_def scm_laws_def scm_do_def RESTART_POLL_ATTEMPTS_def)
  have "\<exists>k \<le> 30. (\<forall>j < k. st ((scm_sleep M ^^ j) s1) \<noteq> SvcStopped) \<and> (st ((scm_sleep M ^^ k) s1) = SvcStopped \<or> k = 30) \<and>
      svc_restart M s = scm_do (scm_start M ((scm_sleep M ^^ k) s1)) (\<lambda>_ s. (Ok (), s))"
    if run: "st s \<noteq> SvcStopped" "scm_stop M s = (Ok (), s1)" for s1
  proof -
    obtain k where k: "k \<le> 30" "poll_stopped M 30 s1 = (Ok (), (scm_sleep M ^^ k) s1)"
      "\<forall>j < k. st ((scm_sleep M ^^ j) s1) \<noteq> SvcStopped" "st ((scm_sleep M ^^ k) s1) = SvcStopped \<or> k = 30"
      by (rule poll_stopped_spec [OF assms])
    have "svc_restart M s = scm_do (scm_start M ((scm_sleep M ^^ k) s1)) (\<lambda>_ s. (Ok (), s))"
      unfolding start using run k(2) by (simp add: scm_do_def)
    then show ?thesis using k by blast
  qed
  then show ?thesis by (auto simp: start scm_do_def)
qed

section \<open>The life of the service\<close>

lemma service_tick_disk: "snd (service_tick C F now state t d) = report_tick C F now state t d"
  by (auto simp: service_tick_def report_tick_def Let_def split: sum.splits prod.splits)

lemma service_ticks_disk: "snd (service_ticks C F now state ts d) = fold (report_tick C F now state) ts d"
  by (induction ts arbitrary: d) (simp_all add: split_beta service_tick_disk)

lemma run_scheduler_stops:
  assumes "range_laws draw" and "schedule_new interval jitter = Ok (rr_schedule req)" and "interval < 2 ^ 61 * 10 ^ 9"
    and "\<exists>t \<in> set ts. tn_shutdown t"
  shows "so_end (run_scheduler dial draw req ts srv rng) = Stopped"
  using assms(4)
proof (induction ts arbitrary: srv rng)
  case (Cons t ts)
  obtain result srv1 rng1 lg where r:
    "run_backup (tn_env t) dial (tn_faults t) (tn_disk t) (scheduled_request req t) srv rng = (result, srv1, rng1, lg)"
    by (metis prod.exhaust)
  obtain d rng2 where "next_delay draw (rr_schedule req) rng1 = (Some d, rng2)"
    using next_delay_exists [OF assms(1-3)] .
  then show ?case using Cons r by (auto simp: Let_def)
qed simp

text \<open>The states a trace reports.\<close>

definition reported :: "'e service_event list \<Rightarrow> service_state list" where
  "reported evs = List.map_filter (\<lambda>ev. case ev of Reported st \<Rightarrow> Some st | _ \<Rightarrow> None) evs"

lemma reported_simps [simp]:
  "reported [] = []" "reported (Reported st # evs) = st # reported evs"
  "reported (LogInfo m # evs) = reported evs" "reported (LogError m # evs) = reported evs"
  "reported (xs @ ys) = reported xs @ reported ys"
  by (simp_all add: reported_def map_filter_simps map_filter_def)

lemma reported_tick: "reported (fst (service_tick C F now state t d)) = []"
  by (auto simp: service_tick_def Let_def split: sum.splits prod.splits)

lemma reported_ticks [simp]: "reported (fst (service_ticks C F now state ts d)) = []"
  by (induction ts arbitrary: d) (simp_all add: split_beta reported_tick)


section \<open>Witnesses\<close>

text \<open>A service that needs two sleeps to stop.\<close>

definition slow_scm :: "(service_state \<times> nat, unit) scm" where
  "slow_scm = \<lparr>scm_connect = (\<lambda>_ s. (Ok (), s)), scm_create = (\<lambda>_ s. (Ok (), s)), scm_describe = (\<lambda>s. (Ok (), s)),
     scm_open = (\<lambda>s. (Ok (), s)), scm_query = (\<lambda>s. (Ok (fst s), s)), scm_stop = (\<lambda>s. (Ok (), (SvcStopPending, 2))),
     scm_start = (\<lambda>s. if fst s = SvcStopped then (Ok (), (SvcRunning, 0)) else (Err (), s)), scm_delete = (\<lambda>s. (Ok (), s)),
     scm_sleep = (\<lambda>s. if snd s \<le> 1 then (SvcStopped, 0) else (fst s, snd s - 1)), scm_dispatch = (\<lambda>_ s. (Ok (), s))\<rparr>"

theorem restart_waits_for_stop_witness:
  "scm_laws slow_scm fst \<and> (\<exists>k \<le> 30. fst ((scm_sleep slow_scm ^^ k) (SvcStopPending, 2)) = SvcStopped \<or> k = 30) \<and>
   svc_restart slow_scm (SvcStopped, 0) = (Ok (), (SvcRunning, 0))"
proof -
  have l: "scm_laws slow_scm fst" by (simp add: scm_laws_def slow_scm_def)
  have "scm_stop slow_scm (SvcRunning, 0) = (Ok (), (SvcStopPending, 2))" by (simp add: slow_scm_def)
  then have "\<exists>k \<le> 30. fst ((scm_sleep slow_scm ^^ k) (SvcStopPending, 2)) = SvcStopped \<or> k = 30"
    using restart_waits_for_stop [OF l, of "(SvcRunning, 0)"] by auto
  moreover have "svc_restart slow_scm (SvcStopped, 0) = (Ok (), (SvcRunning, 0))"
    using restart_waits_for_stop [OF l, of "(SvcStopped, 0)"] by (simp add: scm_do_def) (simp add: slow_scm_def)
  ultimately show ?thesis using l by blast
qed

definition service_no_faults :: "unit service_faults" where
  "service_no_faults = \<lparr>sf_register = None, sf_report = (\<lambda>_. None), sf_runtime = False, sf_record = cs_no_faults, sf_now = None\<rparr>"

definition service_demo_env :: cmd_env where
  "service_demo_env = demo_cmd_env\<lparr>ce_read := (\<lambda>_. Some []), ce_toml := (\<lambda>_. Some (demo_config\<lparr>cf_chunk_target_size := None\<rparr>)),
     ce_limits := demo_limits\<rparr>"


end
