(* ===== verification/Bench_FanOut.thy ===== *)
theory Bench_FanOut
  imports Chunking "HOL-Library.Sublist"
begin

text \<open>
  The single-pass fan-out of the chunking benchmark, \<open>crates/busyncr-core/src/bench.rs\<close>: one reader
  broadcasts the blocks of a source to one chunker thread per candidate configuration over bounded channels.

  \<^item> A source is the list of what its successive \<open>read\<close> calls return; past the end of the list it is at its end.
  \<^item> \<open>ChannelReader\<close> and \<open>fan_out_chunks\<close> are functions. What a worker receives over its channel is the
    list of blocks sent before the senders are dropped.
  \<^item> That this does not depend on how the threads interleave is proved over \<open>fan_step\<close>, a step relation of the
    reader thread, the bounded queues and the workers: no schedule deadlocks, every schedule ends, and every
    worker that does not stop on its own has received all blocks in order.
\<close>

section \<open>Reading a source\<close>

datatype read_result = ReadOk bytes | ReadInterrupted | ReadErr

definition FAN_OUT_BLOCK_SIZE :: nat where "FAN_OUT_BLOCK_SIZE = 256 * 1024"
definition FAN_OUT_CHANNEL_DEPTH :: nat where "FAN_OUT_CHANNEL_DEPTH = 4"

text \<open>The loop for an empty list of configurations only counts.\<close>

fun count_source :: "u64 \<Rightarrow> read_result list \<Rightarrow> chunking_error + u64" where
  "count_source acc [] = Ok acc"
| "count_source acc (ReadOk bs # src) =
     (if bs = [] then Ok acc else count_source (acc + word_of_nat (length bs)) src)"
| "count_source acc (ReadInterrupted # src) = count_source acc src"
| "count_source acc (ReadErr # src) = Err ChunkingIo"

text \<open>The broadcasting loop: bytes read, blocks sent to every worker, and whether it ended on a read error.\<close>

fun broadcast_source :: "u64 \<Rightarrow> read_result list \<Rightarrow> u64 \<times> bytes list \<times> bool" where
  "broadcast_source acc [] = (acc, [], False)"
| "broadcast_source acc (ReadOk bs # src) =
     (if bs = [] then (acc, [], False)
      else case broadcast_source (acc + word_of_nat (length bs)) src of (n, blocks, err) \<Rightarrow> (n, bs # blocks, err))"
| "broadcast_source acc (ReadInterrupted # src) = broadcast_source acc src"
| "broadcast_source acc (ReadErr # src) = (acc, [], True)"

section \<open>The channel reader\<close>

record channel_reader =
  cr_rx :: "bytes list"
  cr_current :: "bytes option"
  cr_pos :: nat

text \<open>\<open>read\<close> into a buffer of \<open>n\<close> bytes: the bytes it copies to the front of the buffer.\<close>

function channel_read :: "nat \<Rightarrow> channel_reader \<Rightarrow> bytes \<times> channel_reader" where
  "channel_read n rd =
     (if n = 0 then ([], rd)
      else case cr_current rd of
          Some cur \<Rightarrow>
            (if cr_pos rd < length cur then
               let k = min n (length cur - cr_pos rd)
               in (take k (drop (cr_pos rd) cur), rd\<lparr>cr_pos := cr_pos rd + k\<rparr>)
             else (case cr_rx rd of
                 [] \<Rightarrow> ([], rd\<lparr>cr_current := None\<rparr>)
               | block # rx \<Rightarrow> channel_read n \<lparr>cr_rx = rx, cr_current = Some block, cr_pos = 0\<rparr>))
        | None \<Rightarrow>
            (case cr_rx rd of
               [] \<Rightarrow> ([], rd)
             | block # rx \<Rightarrow> channel_read n \<lparr>cr_rx = rx, cr_current = Some block, cr_pos = 0\<rparr>))"
  by pat_completeness auto
termination
  by (relation "measure (\<lambda>(n, rd). length (cr_rx rd))") auto

declare channel_read.simps [simp del]

definition new_channel_reader :: "bytes list \<Rightarrow> channel_reader" where
  "new_channel_reader blocks = \<lparr>cr_rx = blocks, cr_current = None, cr_pos = 0\<rparr>"

section \<open>The fan-out\<close>

record chunk_meta =
  cm_id :: chunk_id
  cm_len :: u64

record fan_out =
  fo_per_candidate :: "chunk_meta list list"
  fo_bytes_read :: u64

text \<open>Third-party code of the workers: the stream chunker over a channel reader, BLAKE3, and whether the
  chunker panics on a configuration and an input.\<close>

record fan_env =
  fe_cdc :: "channel_reader cdc_stream"
  fe_blake3 :: "bytes \<Rightarrow> hash32"
  fe_keyed :: "hash32 \<Rightarrow> bytes \<Rightarrow> hash32"
  fe_panics :: "chunker_config \<Rightarrow> channel_reader \<Rightarrow> bool"

definition meta_of :: "chunk \<Rightarrow> chunk_meta" where
  "meta_of c = \<lparr>cm_id = chunk_ident c, cm_len = word_of_nat (chunk_byte_len c)\<rparr>"

definition collect_metas :: "(chunking_error + chunk) list \<Rightarrow> chunking_error + chunk_meta list" where
  "collect_metas rs = collect_results (\<lambda>r. and_then r (\<lambda>c. Ok (meta_of c))) rs"

text \<open>A worker thread: \<open>None\<close> if it panicked.\<close>

definition fan_worker :: "fan_env \<Rightarrow> bytes list \<Rightarrow> chunker_config \<Rightarrow> (chunking_error + chunk_meta list) option" where
  "fan_worker E blocks cfg =
     (let rd = new_channel_reader blocks
      in if fe_panics E cfg rd then None
         else Some (collect_metas (chunk_reader (fe_cdc E) (fe_blake3 E) (fe_keyed E) rd cfg)))"

text \<open>The join loop, with its two accumulators.\<close>

fun join_workers :: "(chunking_error + chunk_meta list) option list \<Rightarrow> chunk_meta list list \<times> chunking_error option
    \<Rightarrow> chunk_meta list list \<times> chunking_error option" where
  "join_workers [] acc = acc"
| "join_workers (h # hs) (per, err) =
     (case h of
        Some (Ok chunks) \<Rightarrow> join_workers hs (per @ [chunks], err)
      | Some (Err e) \<Rightarrow> join_workers hs (per @ [[]], if err = None then Some e else err)
      | None \<Rightarrow> join_workers hs (per @ [[]],
          if err = None then Some (ChunkingInternal (map of_char ''chunker thread panicked'')) else err))"

definition fan_out_chunks :: "fan_env \<Rightarrow> read_result list \<Rightarrow> chunker_config list \<Rightarrow> chunking_error + fan_out" where
  "fan_out_chunks E src configs =
     (if configs = [] then
        and_then (count_source 0 src) (\<lambda>n. Ok \<lparr>fo_per_candidate = [], fo_bytes_read = n\<rparr>)
      else
        case broadcast_source 0 src of (bytes_read, blocks, read_err) \<Rightarrow>
        (case join_workers (map (fan_worker E blocks) configs) ([], None) of (per_candidate, worker_err) \<Rightarrow>
           if read_err then Err ChunkingIo
           else case worker_err of
               Some e \<Rightarrow> Err e
             | None \<Rightarrow> Ok \<lparr>fo_per_candidate = per_candidate, fo_bytes_read = bytes_read\<rparr>))"

section \<open>What a channel reader delivers\<close>

definition reader_bytes :: "channel_reader \<Rightarrow> bytes" where
  "reader_bytes rd = (case cr_current rd of None \<Rightarrow> [] | Some cur \<Rightarrow> drop (cr_pos rd) cur) @ concat (cr_rx rd)"

lemma reader_bytes_simps [simp]:
  "reader_bytes (new_channel_reader blocks) = concat blocks"
  "reader_bytes \<lparr>cr_rx = rx, cr_current = Some block, cr_pos = 0\<rparr> = block @ concat rx"
  by (simp_all add: reader_bytes_def new_channel_reader_def)

lemma channel_read_here:
  assumes "0 < n" and "cr_current rd = Some cur" and "cr_pos rd < length cur"
  shows "channel_read n rd = (take n (drop (cr_pos rd) cur), rd\<lparr>cr_pos := cr_pos rd + min n (length cur - cr_pos rd)\<rparr>)"
  using assms by (subst channel_read.simps) (simp add: Let_def min_def)

lemma channel_read_next:
  assumes "0 < n" and "\<forall>cur. cr_current rd = Some cur \<longrightarrow> length cur \<le> cr_pos rd" and "cr_rx rd = block # rx"
  shows "channel_read n rd = channel_read n \<lparr>cr_rx = rx, cr_current = Some block, cr_pos = 0\<rparr>"
  using assms by (subst channel_read.simps) (auto split: option.split dest: leD)

lemma channel_read_end:
  assumes "0 < n" and "\<forall>cur. cr_current rd = Some cur \<longrightarrow> length cur \<le> cr_pos rd" and "cr_rx rd = []"
  shows "channel_read n rd = ([], rd\<lparr>cr_current := None\<rparr>)"
  using assms by (cases rd) (subst channel_read.simps, auto split: option.split dest: leD)

lemma channel_read_split:
  assumes "0 < n"
  shows "channel_read n rd = (bs, rd') \<Longrightarrow> reader_bytes rd = bs @ reader_bytes rd' \<and> (bs = [] \<longrightarrow> reader_bytes rd = [])"
proof (induction "length (cr_rx rd)" arbitrary: rd rule: less_induct)
  case less
  show ?case
  proof (cases "\<exists>cur. cr_current rd = Some cur \<and> cr_pos rd < length cur")
    case True
    then obtain cur where c: "cr_current rd = Some cur" "cr_pos rd < length cur" by blast
    let ?k = "min n (length cur - cr_pos rd)"
    have e: "bs = take n (drop (cr_pos rd) cur)" "rd' = rd\<lparr>cr_pos := cr_pos rd + ?k\<rparr>"
      using less.prems channel_read_here [OF assms c] by simp_all
    have "bs = take ?k (drop (cr_pos rd) cur)" unfolding e(1) by (simp add: min_def)
    then have "drop (cr_pos rd) cur = bs @ drop (cr_pos rd + ?k) cur"
      by (metis add.commute append_take_drop_id drop_drop)
    then show ?thesis using c e assms by (auto simp: reader_bytes_def)
  next
    case False
    then have f: "\<forall>cur. cr_current rd = Some cur \<longrightarrow> length cur \<le> cr_pos rd" by auto
    then have rb: "reader_bytes rd = concat (cr_rx rd)" by (auto simp: reader_bytes_def split: option.split)
    show ?thesis
    proof (cases "cr_rx rd")
      case Nil
      then show ?thesis
        using less.prems channel_read_end [OF assms f Nil] rb by (auto simp: reader_bytes_def)
    next
      case (Cons block rx)
      let ?rd = "\<lparr>cr_rx = rx, cr_current = Some block, cr_pos = 0\<rparr>"
      have "channel_read n ?rd = (bs, rd')" using less.prems channel_read_next [OF assms f Cons] by simp
      moreover have "length (cr_rx ?rd) < length (cr_rx rd)" using Cons by simp
      moreover have "reader_bytes rd = reader_bytes ?rd" using rb Cons by simp
      ultimately show ?thesis using less.hyps [of ?rd] by metis
    qed
  qed
qed

lemma channel_read_shrinks:
  "channel_read n rd = (bs, rd') \<Longrightarrow> bs \<noteq> [] \<Longrightarrow> length (reader_bytes rd') < length (reader_bytes rd)"
  using channel_read_split [of n rd bs rd'] by (cases "n = 0") (auto simp: channel_read.simps [of 0])

text \<open>Draining a reader with a buffer of \<open>n\<close> bytes until \<open>read\<close> returns nothing.\<close>

function drain :: "nat \<Rightarrow> channel_reader \<Rightarrow> bytes" where
  "drain n rd = (case channel_read n rd of (bs, rd') \<Rightarrow> if bs = [] then [] else bs @ drain n rd')"
  by pat_completeness auto
termination
  by (relation "measure (\<lambda>(n, rd). length (reader_bytes rd))")
    (auto dest: channel_read_shrinks [OF sym])

declare drain.simps [simp del]

lemma drain_all: "0 < n \<Longrightarrow> drain n rd = reader_bytes rd"
proof (induction n rd rule: drain.induct)
  case (1 n rd)
  obtain bs rd' where r: "channel_read n rd = (bs, rd')" by force
  then show ?case
    using 1 channel_read_split [OF 1(2) r] by (subst drain.simps) (auto simp: r)
qed

section \<open>The fan-out as a concurrent system\<close>

text \<open>The reader thread is at its \<open>read\<close> (no pending block), in its sending loop (a pending block and the index of
  the next sender), or past its loop with the senders dropped. A worker is live until its thread ends and drops
  its receiver; \<open>stop j taken\<close> says that worker \<open>j\<close> ends on its own after the blocks it has taken. \<open>fs_sent\<close>
  records the blocks read so far.\<close>

record fan_state =
  fs_src :: "read_result list"
  fs_pending :: "(bytes \<times> nat) option"
  fs_dropped :: bool
  fs_err :: bool
  fs_queue :: "bytes list list"
  fs_taken :: "bytes list list"
  fs_live :: "bool list"
  fs_sent :: "bytes list"

definition fan_start :: "nat \<Rightarrow> read_result list \<Rightarrow> fan_state" where
  "fan_start n src = \<lparr>fs_src = src, fs_pending = None, fs_dropped = False, fs_err = False,
     fs_queue = replicate n [], fs_taken = replicate n [], fs_live = replicate n True, fs_sent = []\<rparr>"

definition fan_final :: "fan_state \<Rightarrow> bool" where
  "fan_final s \<longleftrightarrow> fs_dropped s \<and> True \<notin> set (fs_live s)"

definition reading :: "fan_state \<Rightarrow> bool" where
  "reading s \<longleftrightarrow> fs_pending s = None \<and> \<not> fs_dropped s"

inductive fan_step :: "(nat \<Rightarrow> bytes list \<Rightarrow> bool) \<Rightarrow> fan_state \<Rightarrow> fan_state \<Rightarrow> bool" for stop where
  read_block: "reading s \<Longrightarrow> fs_src s = ReadOk b # src \<Longrightarrow> b \<noteq> [] \<Longrightarrow>
    fan_step stop s (s\<lparr>fs_src := src, fs_pending := Some (b, 0), fs_sent := fs_sent s @ [b]\<rparr>)"
| read_eof: "reading s \<Longrightarrow> fs_src s = [] \<or> fs_src s = ReadOk [] # src \<Longrightarrow> fan_step stop s (s\<lparr>fs_dropped := True\<rparr>)"
| read_interrupted: "reading s \<Longrightarrow> fs_src s = ReadInterrupted # src \<Longrightarrow> fan_step stop s (s\<lparr>fs_src := src\<rparr>)"
| read_err: "reading s \<Longrightarrow> fs_src s = ReadErr # src \<Longrightarrow> fan_step stop s (s\<lparr>fs_dropped := True, fs_err := True\<rparr>)"
| send_queue: "fs_pending s = Some (b, i) \<Longrightarrow> i < length (fs_queue s) \<Longrightarrow> fs_live s ! i \<Longrightarrow>
    length (fs_queue s ! i) < FAN_OUT_CHANNEL_DEPTH \<Longrightarrow>
    fan_step stop s (s\<lparr>fs_queue := (fs_queue s)[i := fs_queue s ! i @ [b]], fs_pending := Some (b, Suc i)\<rparr>)"
| send_gone: "fs_pending s = Some (b, i) \<Longrightarrow> i < length (fs_queue s) \<Longrightarrow> \<not> fs_live s ! i \<Longrightarrow>
    fan_step stop s (s\<lparr>fs_pending := Some (b, Suc i)\<rparr>)"
| send_done: "fs_pending s = Some (b, length (fs_queue s)) \<Longrightarrow> fan_step stop s (s\<lparr>fs_pending := None\<rparr>)"
| recv: "j < length (fs_queue s) \<Longrightarrow> fs_live s ! j \<Longrightarrow> \<not> stop j (fs_taken s ! j) \<Longrightarrow> fs_queue s ! j = b # q \<Longrightarrow>
    fan_step stop s (s\<lparr>fs_queue := (fs_queue s)[j := q], fs_taken := (fs_taken s)[j := fs_taken s ! j @ [b]]\<rparr>)"
| stop_early: "j < length (fs_queue s) \<Longrightarrow> fs_live s ! j \<Longrightarrow> stop j (fs_taken s ! j) \<Longrightarrow>
    fan_step stop s (s\<lparr>fs_queue := (fs_queue s)[j := []], fs_live := (fs_live s)[j := False]\<rparr>)"
| stop_end: "j < length (fs_queue s) \<Longrightarrow> fs_live s ! j \<Longrightarrow> \<not> stop j (fs_taken s ! j) \<Longrightarrow> fs_queue s ! j = [] \<Longrightarrow>
    fs_dropped s \<Longrightarrow> fan_step stop s (s\<lparr>fs_live := (fs_live s)[j := False]\<rparr>)"

definition source_blocks :: "read_result list \<Rightarrow> bytes list" where
  "source_blocks src = fst (snd (broadcast_source 0 src))"

definition source_fails :: "read_result list \<Rightarrow> bool" where
  "source_fails src = snd (snd (broadcast_source 0 src))"

lemma broadcast_snd: "snd (broadcast_source acc src) = snd (broadcast_source acc' src)"
proof (induction acc src arbitrary: acc' rule: broadcast_source.induct)
  case (2 acc bs src)
  then have "bs \<noteq> [] \<Longrightarrow> snd (broadcast_source (acc + word_of_nat (length bs)) src) =
      snd (broadcast_source (acc' + word_of_nat (length bs)) src)" by blast
  then show ?case by (simp add: split_beta)
qed (simp_all only: broadcast_source.simps snd_conv)

lemma source_simps [simp]:
  "source_blocks [] = []" "source_fails [] = False"
  "source_blocks (ReadOk [] # src) = []" "source_fails (ReadOk [] # src) = False"
  "bs \<noteq> [] \<Longrightarrow> source_blocks (ReadOk bs # src) = bs # source_blocks src"
  "bs \<noteq> [] \<Longrightarrow> source_fails (ReadOk bs # src) = source_fails src"
  "source_blocks (ReadInterrupted # src) = source_blocks src"
  "source_fails (ReadInterrupted # src) = source_fails src"
  "source_blocks (ReadErr # src) = []" "source_fails (ReadErr # src) = True"
  using broadcast_snd [of "0 + word_of_nat (length bs)" src 0]
  by (simp_all add: source_blocks_def source_fails_def split_beta)

lemma broadcast_source_eq:
  "broadcast_source acc src =
     (acc + word_of_nat (length (concat (source_blocks src))), source_blocks src, source_fails src)"
  by (induction acc src rule: broadcast_source.induct) (auto simp: add.assoc)

subsection \<open>Invariant\<close>

text \<open>The blocks already offered to worker \<open>j\<close>.\<close>

definition offered :: "fan_state \<Rightarrow> nat \<Rightarrow> bytes list" where
  "offered s j = (case fs_pending s of
      Some (b, i) \<Rightarrow> if i \<le> j then butlast (fs_sent s) else fs_sent s | None \<Rightarrow> fs_sent s)"

definition worker_ok :: "(nat \<Rightarrow> bytes list \<Rightarrow> bool) \<Rightarrow> fan_state \<Rightarrow> nat \<Rightarrow> bool" where
  "worker_ok stop s j \<longleftrightarrow>
     length (fs_queue s ! j) \<le> FAN_OUT_CHANNEL_DEPTH \<and>
     (if fs_live s ! j then fs_taken s ! j @ fs_queue s ! j = offered s j
      else stop j (fs_taken s ! j) \<and> prefix (fs_taken s ! j) (fs_sent s) \<or>
           fs_dropped s \<and> fs_taken s ! j = fs_sent s)"

definition reader_ok :: "nat \<Rightarrow> read_result list \<Rightarrow> fan_state \<Rightarrow> bool" where
  "reader_ok n src s \<longleftrightarrow>
     length (fs_queue s) = n \<and> length (fs_taken s) = n \<and> length (fs_live s) = n \<and>
     (case fs_pending s of None \<Rightarrow> True
      | Some (b, i) \<Rightarrow> i \<le> n \<and> \<not> fs_dropped s \<and> (\<exists>bs. fs_sent s = bs @ [b])) \<and>
     (if fs_dropped s then fs_sent s = source_blocks src \<and> fs_err s = source_fails src
      else fs_sent s @ source_blocks (fs_src s) = source_blocks src \<and> source_fails (fs_src s) = source_fails src \<and>
           \<not> fs_err s)"

definition fan_inv :: "nat \<Rightarrow> read_result list \<Rightarrow> (nat \<Rightarrow> bytes list \<Rightarrow> bool) \<Rightarrow> fan_state \<Rightarrow> bool" where
  "fan_inv n src stop s \<longleftrightarrow> reader_ok n src s \<and> (\<forall>j < n. worker_ok stop s j)"

lemma reader_ok_step: "fan_step stop s s' \<Longrightarrow> reader_ok n src s \<Longrightarrow> reader_ok n src s'"
  by (induction rule: fan_step.induct) (auto simp: reader_ok_def reading_def split: if_splits option.splits)

lemma worker_ok_step:
  assumes "fan_step stop s s'" and "reader_ok n src s" and "worker_ok stop s j" and "j < n"
  shows "worker_ok stop s' j"
  using assms
proof (induction rule: fan_step.induct)
  case (send_gone s b i)
  then show ?case
    by (cases "i = j") (auto simp: worker_ok_def reader_ok_def offered_def split: if_splits)
next
  case (stop_early i s)
  have "prefix (fs_taken s ! j) (offered s j)" if "fs_live s ! j"
    using that stop_early.prems(2) by (auto simp: worker_ok_def intro: prefixI [OF sym])
  moreover have "prefix (offered s j) (fs_sent s)"
    by (auto simp: offered_def prefixeq_butlast split: option.split)
  moreover have "offered (s\<lparr>fs_queue := q, fs_live := l\<rparr>) j = offered s j" for q l
    by (simp add: offered_def split: option.split)
  ultimately show ?case
    using stop_early prefix_order.trans by (cases "i = j") (auto simp: worker_ok_def reader_ok_def)
qed (auto simp: worker_ok_def reader_ok_def reading_def offered_def nth_list_update butlast_append prefix_append
        split: if_splits option.splits)

lemma fan_inv_start: "fan_inv n src stop (fan_start n src)"
  by (simp add: fan_inv_def reader_ok_def worker_ok_def offered_def fan_start_def)

lemma fan_inv_steps: "(fan_step stop ^^ m) (fan_start n src) s \<Longrightarrow> fan_inv n src stop s"
proof (induction m arbitrary: s)
  case 0
  then show ?case using fan_inv_start by auto
next
  case (Suc m)
  then obtain t where "fan_inv n src stop t" "fan_step stop t s" by auto
  then show ?case unfolding fan_inv_def using reader_ok_step worker_ok_step by blast
qed

subsection \<open>Progress and termination\<close>

lemma worker_can_step:
  assumes "j < length (fs_queue s)" and "fs_live s ! j" and "fs_queue s ! j \<noteq> [] \<or> fs_dropped s"
  shows "\<exists>s'. fan_step stop s s'"
  using assms by (cases "fs_queue s ! j") (meson recv stop_early stop_end)+

lemma reader_can_step:
  assumes "reader_ok n src s" and "\<not> fs_dropped s"
  shows "\<exists>s'. fan_step stop s s'"
proof (cases "fs_pending s")
  case None
  then have r: "reading s" using assms(2) by (simp add: reading_def)
  show ?thesis
  proof (cases "fs_src s")
    case Nil
    then show ?thesis using read_eof [OF r] by blast
  next
    case (Cons x rest)
    then show ?thesis
      by (cases x) (metis r read_block read_eof read_interrupted read_err)+
  qed
next
  case (Some p)
  then obtain b i where p: "fs_pending s = Some (b, i)" by force
  then have "i \<le> length (fs_queue s)" using assms by (auto simp: reader_ok_def)
  then consider "i = length (fs_queue s)" | "i < length (fs_queue s)" "\<not> fs_live s ! i"
    | "i < length (fs_queue s)" "fs_live s ! i" by linarith
  then show ?thesis
  proof cases
    case 1
    then show ?thesis using send_done p by blast
  next
    case 2
    then show ?thesis using send_gone p by blast
  next
    case 3
    have "fs_queue s ! i \<noteq> []" if "\<not> length (fs_queue s ! i) < FAN_OUT_CHANNEL_DEPTH"
      using that by (auto simp: FAN_OUT_CHANNEL_DEPTH_def)
    then show ?thesis using send_queue [OF p 3] worker_can_step [OF 3] by blast
  qed
qed

lemma fan_progress:
  assumes "fan_inv n src stop s" and "\<not> fan_final s"
  shows "\<exists>s'. fan_step stop s s'"
proof (cases "fs_dropped s")
  case True
  then obtain j where "j < n" "fs_live s ! j"
    using assms by (auto simp: fan_final_def fan_inv_def reader_ok_def in_set_conv_nth)
  then show ?thesis using worker_can_step True assms(1) by (auto simp: fan_inv_def reader_ok_def)
next
  case False
  then show ?thesis using reader_can_step assms(1) by (auto simp: fan_inv_def)
qed

definition fan_measure :: "fan_state \<Rightarrow> nat" where
  "fan_measure s = (2 * length (fs_queue s) + 2) * length (fs_src s)
     + (case fs_pending s of None \<Rightarrow> 0 | Some (_, i) \<Rightarrow> 2 * (length (fs_queue s) - i) + 1)
     + sum_list (map length (fs_queue s)) + count_list (fs_live s) True + (if fs_dropped s then 0 else 1)"

lemma sum_list_length_update:
  "j < length xs \<Longrightarrow> sum_list (map length (xs[j := x])) + length (xs ! j) = sum_list (map length xs) + length x"
  using elem_le_sum_list [of j "map length xs"] by (simp add: map_update sum_list_update)

lemma count_list_update_False:
  "j < length bs \<Longrightarrow> bs ! j \<Longrightarrow> Suc (count_list (bs[j := False]) True) = count_list bs True"
  by (induction bs arbitrary: j) (auto simp: nth_Cons split: nat.splits)

lemma fan_measure_step:
  assumes "fan_step stop s s'" and "reader_ok n src s"
  shows "fan_measure s' < fan_measure s"
  using assms
proof (induction rule: fan_step.induct)
  case (send_queue s b i)
  then show ?case using sum_list_length_update [of i "fs_queue s" "fs_queue s ! i @ [b]"]
    by (simp add: fan_measure_def)
next
  case (recv j s b q)
  then show ?case using sum_list_length_update [of j "fs_queue s" q]
    by (simp add: fan_measure_def split: option.split)
next
  case (stop_early j s)
  then show ?case
    using sum_list_length_update [of j "fs_queue s" "[]"] count_list_update_False [of j "fs_live s"]
    by (simp add: fan_measure_def reader_ok_def split: option.split)
next
  case (stop_end j s)
  then show ?case using count_list_update_False [of j "fs_live s"] 
    by (simp add: fan_measure_def reader_ok_def split: option.split)
qed (auto simp: fan_measure_def reading_def reader_ok_def)

lemma fan_steps_bound: "(fan_step stop ^^ m) (fan_start n src) s \<Longrightarrow> m + fan_measure s \<le> fan_measure (fan_start n src)"
proof (induction m arbitrary: s)
  case (Suc m)
  then obtain t where t: "(fan_step stop ^^ m) (fan_start n src) t" "fan_step stop t s" by auto
  then have "fan_measure s < fan_measure t"
    using fan_inv_steps [OF t(1)] fan_measure_step [OF t(2)] by (auto simp: fan_inv_def)
  then show ?case using Suc.IH [OF t(1)] by simp
qed simp

lemma fan_measure_start: "fan_measure (fan_start n src) = (2 * n + 2) * length src + n + 1"
  by (simp add: fan_measure_def fan_start_def sum_list_replicate) (induction n; simp)

lemma fan_final_result:
  assumes i: "fan_inv n src stop s" and f: "fan_final s"
  shows "fs_err s = source_fails src \<and> length (fs_taken s) = n \<and>
    (\<forall>j < n. fs_taken s ! j = source_blocks src \<or>
      stop j (fs_taken s ! j) \<and> prefix (fs_taken s ! j) (source_blocks src))"
proof -
  have r: "fs_err s = source_fails src" "length (fs_taken s) = n" "length (fs_live s) = n"
    "fs_sent s = source_blocks src" "fs_dropped s"
    using i f by (auto simp: fan_inv_def reader_ok_def fan_final_def)
  have "\<not> fs_live s ! j" if "j < n" for j using f r(3) that by (metis fan_final_def nth_mem)
  then show ?thesis using i r by (auto simp: fan_inv_def worker_ok_def)
qed

text \<open>C31: Whatever the interleaving of the reader thread and the chunker threads over their bounded channels, no
  schedule gets stuck before the end, none has more than \<open>(2n+2)*reads + n + 1\<close> steps, and at the end every worker
  has received every block of the source in order, or stopped on its own after a prefix of them; no queue ever holds
  more than four blocks.\<close>

theorem fan_out_every_schedule:
  assumes "(fan_step stop ^^ m) (fan_start n src) s"
  shows "m \<le> (2 * n + 2) * length src + n + 1 \<and>
    (fan_final s \<or> (\<exists>s'. fan_step stop s s')) \<and>
    (\<forall>q \<in> set (fs_queue s). length q \<le> 4) \<and>
    (fan_final s \<longrightarrow> fs_err s = source_fails src \<and> length (fs_taken s) = n \<and>
      (\<forall>j < n. fs_taken s ! j = source_blocks src \<or>
        stop j (fs_taken s ! j) \<and> prefix (fs_taken s ! j) (source_blocks src)))"
proof -
  have i: "fan_inv n src stop s" using fan_inv_steps [OF assms] .
  have "m \<le> (2 * n + 2) * length src + n + 1"
    using fan_steps_bound [OF assms] fan_measure_start [of n src] by simp
  moreover have "fan_final s \<or> (\<exists>s'. fan_step stop s s')" using fan_progress [OF i] by blast
  moreover have "\<forall>q \<in> set (fs_queue s). length q \<le> 4"
    using i by (auto simp: fan_inv_def reader_ok_def worker_ok_def in_set_conv_nth FAN_OUT_CHANNEL_DEPTH_def)
  ultimately show ?thesis using fan_final_result [OF i] by blast
qed

section \<open>The fan-out and the standalone chunker\<close>

text \<open>What the code relies on in \<open>StreamCDC\<close>: its items depend on the bytes the reader delivers and on nothing else,
  whatever the sizes of its reads.\<close>

definition stream_by_content :: "read_result list cdc_stream \<Rightarrow> channel_reader cdc_stream \<Rightarrow> bool" where
  "stream_by_content cdc_src cdc_chan \<longleftrightarrow>
     (\<forall>src rd. \<not> source_fails src \<and> (\<forall>n > 0. drain n rd = concat (source_blocks src)) \<longrightarrow> cdc_chan rd = cdc_src src)"

lemma count_source_eq:
  "count_source acc src =
     (if source_fails src then Err ChunkingIo else Ok (acc + word_of_nat (length (concat (source_blocks src)))))"
  by (induction acc src rule: count_source.induct) (auto simp: add.assoc)

lemma join_workers_err: "snd (join_workers hs (per, Some e)) = Some e"
  by (induction hs arbitrary: per) (auto split: option.split sum.split)

definition joined :: "chunk_meta list list \<times> chunking_error option \<Rightarrow> chunking_error + chunk_meta list list" where
  "joined r = (case snd r of Some e \<Rightarrow> Err e | None \<Rightarrow> Ok (fst r))"

lemma joined_workers:
  "joined (join_workers (map (\<lambda>x. Some (f x)) xs) (per, None)) = and_then (collect_results f xs) (\<lambda>ys. Ok (per @ ys))"
proof (induction xs arbitrary: per)
  case (Cons x xs)
  then show ?case
  proof (cases "f x")
    case (Inr ys)
    have "and_then (and_then r (\<lambda>zs. Ok (ys # zs))) (\<lambda>zs. Ok (per @ zs)) = and_then r (\<lambda>zs. Ok ((per @ [ys]) @ zs))"
      for r :: "chunking_error + chunk_meta list list" by (cases r) simp_all
    then show ?thesis using Inr Cons [of "per @ [ys]"] by simp
  qed (simp add: joined_def join_workers_err)
qed (simp add: joined_def)

lemma fan_out_joined:
  "\<not> source_fails src \<Longrightarrow> configs \<noteq> [] \<Longrightarrow> fan_out_chunks E src configs =
     and_then (joined (join_workers (map (fan_worker E (source_blocks src)) configs) ([], None)))
       (\<lambda>per. Ok \<lparr>fo_per_candidate = per, fo_bytes_read = word_of_nat (length (concat (source_blocks src)))\<rparr>)"
  by (simp add: fan_out_chunks_def broadcast_source_eq joined_def split_beta split: option.split)

lemma fan_out_source_error: "source_fails src \<Longrightarrow> fan_out_chunks E src configs = Err ChunkingIo"
  by (cases "configs = []") (simp_all add: fan_out_chunks_def count_source_eq broadcast_source_eq split_beta)

lemma fan_out_no_configs:
  "\<not> source_fails src \<Longrightarrow> fan_out_chunks E src [] =
     Ok \<lparr>fo_per_candidate = [], fo_bytes_read = word_of_nat (length (concat (source_blocks src)))\<rparr>"
  by (simp add: fan_out_chunks_def count_source_eq)

text \<open>Chunking a source once for all candidates gives, for every candidate, the result of a standalone
  \<open>chunk_reader\<close> over the same source with that configuration (the first failing candidate's error if one fails),
  with the number of bytes read; a source that fails gives an I/O error.\<close>

theorem fan_out_standalone:
  assumes "stream_by_content cdc_src (fe_cdc E)" and "\<And>cfg rd. \<not> fe_panics E cfg rd"
  shows "fan_out_chunks E src configs =
    (if source_fails src then Err ChunkingIo
     else and_then (collect_results (\<lambda>cfg. collect_metas (chunk_reader cdc_src (fe_blake3 E) (fe_keyed E) src cfg)) configs)
       (\<lambda>per. Ok \<lparr>fo_per_candidate = per, fo_bytes_read = word_of_nat (length (concat (source_blocks src)))\<rparr>))"
proof -
  have "fan_worker E (source_blocks src) =
      (\<lambda>cfg. Some (collect_metas (chunk_reader cdc_src (fe_blake3 E) (fe_keyed E) src cfg)))" if "\<not> source_fails src"
  proof
    fix cfg
    have "fe_cdc E (new_channel_reader (source_blocks src)) = cdc_src src"
      using assms(1) that by (simp add: stream_by_content_def drain_all)
    then show "fan_worker E (source_blocks src) cfg =
        Some (collect_metas (chunk_reader cdc_src (fe_blake3 E) (fe_keyed E) src cfg))"
      using assms(2) by (simp add: fan_worker_def Let_def chunk_reader_def)
  qed
  moreover have "and_then r Ok = r" for r :: "chunking_error + chunk_meta list list" by (cases r) simp_all
  ultimately show ?thesis
    using fan_out_joined [of src configs E]
    by (cases "configs = []") (simp_all add: fan_out_source_error fan_out_no_configs joined_workers)
qed

section \<open>Witnesses\<close>

text \<open>One worker, one block: read, send, end of the sending loop, receive, end of the source, end of the worker.\<close>

definition demo_run :: "fan_state list" where
  "demo_run =
     (let s = fan_start 1 [ReadOk [7]]
      in [s, s\<lparr>fs_src := [], fs_pending := Some ([7], 0), fs_sent := [[7]]\<rparr>,
          s\<lparr>fs_src := [], fs_pending := Some ([7], 1), fs_sent := [[7]], fs_queue := [[[7]]]\<rparr>,
          s\<lparr>fs_src := [], fs_sent := [[7]], fs_queue := [[[7]]]\<rparr>,
          s\<lparr>fs_src := [], fs_sent := [[7]], fs_taken := [[[7]]]\<rparr>,
          s\<lparr>fs_src := [], fs_sent := [[7]], fs_taken := [[[7]]], fs_dropped := True\<rparr>,
          s\<lparr>fs_src := [], fs_sent := [[7]], fs_taken := [[[7]]], fs_dropped := True, fs_live := [False]\<rparr>])"

lemma demo_run_steps:
  "i < 6 \<Longrightarrow> fan_step (\<lambda>_ _. False) (demo_run ! i) (demo_run ! Suc i)"
proof -
  let ?S = "fan_step (\<lambda>_ _. False)"
  note d = demo_run_def Let_def fan_start_def reading_def FAN_OUT_CHANNEL_DEPTH_def
  have "?S (demo_run ! 0) (demo_run ! 1)"
    using read_block [of "demo_run ! 0" "[7]" "[]" "\<lambda>_ _. False"] by (simp add: d)
  moreover have "?S (demo_run ! 1) (demo_run ! 2)"
    using send_queue [of "demo_run ! 1" "[7]" 0 "\<lambda>_ _. False"] by (simp add: d)
  moreover have "?S (demo_run ! 2) (demo_run ! 3)"
    using send_done [of "demo_run ! 2" "[7]" "\<lambda>_ _. False"] by (simp add: d)
  moreover have "?S (demo_run ! 3) (demo_run ! 4)"
    using recv [of 0 "demo_run ! 3" "\<lambda>_ _. False" "[7]" "[]"] by (simp add: d)
  moreover have "?S (demo_run ! 4) (demo_run ! 5)"
    using read_eof [of "demo_run ! 4" "[]" "\<lambda>_ _. False"] by (simp add: d)
  moreover have "?S (demo_run ! 5) (demo_run ! 6)"
    using stop_end [of 0 "demo_run ! 5" "\<lambda>_ _. False"] by (simp add: d)
  moreover assume "i < 6"
  then have "i = 0 \<or> i = 1 \<or> i = 2 \<or> i = 3 \<or> i = 4 \<or> i = 5" by linarith
  ultimately show ?thesis by (elim disjE) (simp_all add: eval_nat_numeral)
qed

lemma demo_run_reaches: "i \<le> 6 \<Longrightarrow> (fan_step (\<lambda>_ _. False) ^^ i) (fan_start 1 [ReadOk [7]]) (demo_run ! i)"
proof (induction i)
  case 0
  then show ?case by (simp add: demo_run_def Let_def)
next
  case (Suc i)
  then show ?case using demo_run_steps [of i] by (auto intro: relpowp_Suc_I)
qed

theorem fan_out_every_schedule_witness:
  "(fan_step (\<lambda>_ _. False) ^^ 6) (fan_start 1 [ReadOk [7]]) (demo_run ! 6) \<and> fan_final (demo_run ! 6) \<and>
   (6 :: nat) \<le> (2 * 1 + 2) * 1 + 1 + 1 \<and> fs_taken (demo_run ! 6) ! 0 = source_blocks [ReadOk [7]]"
proof -
  have r: "(fan_step (\<lambda>_ _. False) ^^ 6) (fan_start 1 [ReadOk [7]]) (demo_run ! 6)"
    using demo_run_reaches by simp
  have f: "fan_final (demo_run ! 6)" by (simp add: demo_run_def Let_def fan_start_def fan_final_def)
  show ?thesis using fan_out_every_schedule [OF r] r f by auto
qed

definition demo_fan_env :: fan_env where
  "demo_fan_env = \<lparr>fe_cdc = (\<lambda>rd _ _ _. [CdcChunk 0 (drain 1 rd)]), fe_blake3 = (\<lambda>bs. word_of_nat (length bs)),
     fe_keyed = (\<lambda>k bs. k), fe_panics = (\<lambda>_ _. False)\<rparr>"

theorem fan_out_standalone_witness:
  "stream_by_content (\<lambda>src _ _ _. [CdcChunk 0 (concat (source_blocks src))]) (fe_cdc demo_fan_env) \<and>
   fan_out_chunks demo_fan_env [ReadOk [1, 2], ReadInterrupted, ReadOk [3]] [chunker_config_default] =
     Ok \<lparr>fo_per_candidate = [[\<lparr>cm_id = 3, cm_len = 3\<rparr>]], fo_bytes_read = 3\<rparr>"
proof -
  let ?cdc = "\<lambda>src _ _ _. [CdcChunk 0 (concat (source_blocks src))]"
  have l: "stream_by_content ?cdc (fe_cdc demo_fan_env)"
    by (simp add: stream_by_content_def demo_fan_env_def)
  have p: "\<And>cfg rd. \<not> fe_panics demo_fan_env cfg rd" by (simp add: demo_fan_env_def)
  show ?thesis
    using l fan_out_standalone [OF l p, of "[ReadOk [1, 2], ReadInterrupted, ReadOk [3]]" "[chunker_config_default]"]
    by (simp add: chunk_reader_def collect_metas_def meta_of_def chunk_byte_len_def demo_fan_env_def
        chunk_id_with_key_def chunk_id_of_def)
qed

end
