(* ===== verification/Bench.thy ===== *)
theory Bench
  imports Bench_FanOut Backup_Walk Retention "HOL-Library.Product_Lexorder"
begin

text \<open>
  The chunk-size benchmark of \<open>crates/busyncr-core/src/bench.rs\<close> around the fan-out of \<open>Bench_FanOut\<close>: the walk over
  the tree, the per-candidate report and the recommendation. Counters and sizes are \<open>u64\<close> and wrap as in a release
  build; ratios are the doubles of \<open>Compression\<close>.
\<close>

section \<open>Retention grid occupancy\<close>

definition RETENTION_TIERS :: "(u64 \<times> u64) list" where
  "RETENTION_TIERS = [(0, 3), (24, 24), (96, 96), (384, 384)]"

definition DEFAULT_PROJECTION_HORIZON_DAYS :: u64 where "DEFAULT_PROJECTION_HORIZON_DAYS = 365"

definition u64_saturating_mul :: "u64 \<Rightarrow> u64 \<Rightarrow> u64" where
  "u64_saturating_mul a b = word_of_nat (min (2 ^ 64 - 1) (unat a * unat b))"

definition u64_div_ceil :: "u64 \<Rightarrow> u64 \<Rightarrow> u64" where
  "u64_div_ceil a b = (if 0 < a mod b then a div b + 1 else a div b)"

text \<open>The loop over the tiers; the rest of the list is what \<open>get(i + 1)\<close> looks at.\<close>

fun count_cells :: "u64 \<Rightarrow> (u64 \<times> u64) list \<Rightarrow> u64 \<Rightarrow> u64" where
  "count_cells horizon_hours [] cells = cells"
| "count_cells horizon_hours ((start, width) # rest) cells =
     (let tier_end = (case rest of [] \<Rightarrow> - 1 | (next_start, _) # _ \<Rightarrow> next_start);
          upper = min tier_end horizon_hours
      in count_cells horizon_hours rest
           (if start < upper then cells + u64_div_ceil (upper - start) width else cells))"

definition steady_state_snapshots :: "u64 \<Rightarrow> u64" where
  "steady_state_snapshots horizon_days = count_cells (u64_saturating_mul horizon_days 24) RETENTION_TIERS 0"

section \<open>Data\<close>

datatype bench_error =
    BenchChunking bytes chunking_error
  | BenchIo fpath
  | NotADirectory fpath
  | BenchNonUtf8Path fpath
  | CandidateMismatch bytes nat nat

record file_chunking =
  fc_rel_path :: bytes
  fc_file_bytes :: u64
  fc_per_candidate :: "chunk_meta list list"

record baseline_overlap =
  bo_baseline_unique_chunks :: u64
  bo_shared_unique_chunks :: u64
  bo_overlap_percent :: f64

record candidate_report =
  cr_target_size :: u64
  cr_min_size :: u64
  cr_max_size :: u64
  cr_total_chunks :: u64
  cr_unique_chunks :: u64
  cr_total_bytes :: u64
  cr_unique_bytes :: u64
  cr_dedup_ratio :: f64
  cr_mean_chunk_size :: f64
  cr_median_chunk_size :: u64
  cr_p95_chunk_size :: u64
  cr_index_bytes :: u64
  cr_manifest_bytes :: u64
  cr_projected_bytes :: u64
  cr_baseline :: "baseline_overlap option"

record bench_report =
  bn_root :: bytes
  bn_baseline_root :: "bytes option"
  bn_files_scanned :: u64
  bn_total_bytes :: u64
  bn_snapshots_projected :: u64
  bn_candidates :: "candidate_report list"

section \<open>Chunking sources\<close>

fun chunk_sources :: "fan_env \<Rightarrow> (bytes \<times> read_result list) list \<Rightarrow> chunker_config list
    \<Rightarrow> bench_error + file_chunking list" where
  "chunk_sources E [] configs = Ok []"
| "chunk_sources E ((rel_path, reader) # sources) configs =
     and_then (map_err (\<lambda>e. case e of ChunkingIo \<Rightarrow> BenchIo (split_slash rel_path) | other \<Rightarrow> BenchChunking rel_path other)
         (fan_out_chunks E reader configs)) (\<lambda>fan.
       and_then (chunk_sources E sources configs) (\<lambda>out.
         Ok (\<lparr>fc_rel_path = rel_path, fc_file_bytes = fo_bytes_read fan, fc_per_candidate = fo_per_candidate fan\<rparr> # out)))"

section \<open>Walking the tree\<close>

datatype bn_site = BnReadDir fpath | BnEntry fpath | BnFileType fpath

definition strip_prefix :: "fpath \<Rightarrow> fpath \<Rightarrow> fpath option" where
  "strip_prefix rt path = (if take (length rt) path = rt then Some (drop (length rt) path) else None)"

definition bench_rel_path :: "fpath \<Rightarrow> fpath \<Rightarrow> bench_error + bytes" where
  "bench_rel_path rt path =
     (case strip_prefix rt path of
        None \<Rightarrow> Err (BenchNonUtf8Path path)
      | Some rel \<Rightarrow>
         and_then (collect_results (\<lambda>c. if utf8_valid c then Ok c else Err (BenchNonUtf8Path path)) rel)
           (\<lambda>parts. Ok (join_slash parts)))"

function bench_collect_files :: "(bn_site \<Rightarrow> bool) \<Rightarrow> fpath \<Rightarrow> fpath \<Rightarrow> (bytes \<times> fnode) list
    \<Rightarrow> bench_error + (bytes \<times> fpath) list"
  and bench_entries :: "(bn_site \<Rightarrow> bool) \<Rightarrow> fpath \<Rightarrow> fpath \<Rightarrow> (bytes \<times> fnode) list
    \<Rightarrow> bench_error + (bytes \<times> fpath) list" where
  "bench_collect_files F rt dir entries =
     (if F (BnReadDir dir) then Err (BenchIo dir) else bench_entries F rt dir entries)"
| "bench_entries F rt dir [] = Ok []"
| "bench_entries F rt dir ((nm, node) # rest) =
     (let path = dir @ [nm]
      in if F (BnEntry path) then Err (BenchIo dir)
         else if F (BnFileType path) then Err (BenchIo path)
         else and_then (case node of
                  OtherNode \<Rightarrow> Ok []
                | Directory es \<Rightarrow> bench_collect_files F rt path es
                | RegFile \<Rightarrow> and_then (bench_rel_path rt path) (\<lambda>rel. Ok [(rel, path)])) (\<lambda>here.
              and_then (bench_entries F rt dir rest) (\<lambda>there. Ok (here @ there))))"
  by pat_completeness auto
termination
  by (relation "measures [\<lambda>x. case x of Inl (F, rt, dir, es) \<Rightarrow> Suc (sum_list (map (\<lambda>(_, n). Suc (nsize n)) es))
        | Inr (F, rt, dir, es) \<Rightarrow> sum_list (map (\<lambda>(_, n). Suc (nsize n)) es)]") auto

declare bench_collect_files.simps [simp del]

text \<open>What opening a path yields: the results of reading the file, or a failure.\<close>

record bench_env =
  be_fan :: fan_env
  be_open :: "fpath \<Rightarrow> read_result list option"
  be_fails :: "bn_site \<Rightarrow> bool"

fun chunk_files :: "bench_env \<Rightarrow> chunker_config list \<Rightarrow> (bytes \<times> fpath) list \<Rightarrow> bench_error + file_chunking list" where
  "chunk_files E configs [] = Ok []"
| "chunk_files E configs ((rel_path, abs_path) # fs) =
     (case be_open E abs_path of
        None \<Rightarrow> Err (BenchIo abs_path)
      | Some src \<Rightarrow>
         and_then (map_err (\<lambda>e. case e of ChunkingIo \<Rightarrow> BenchIo abs_path | other \<Rightarrow> BenchChunking rel_path other)
             (fan_out_chunks (be_fan E) src configs)) (\<lambda>fan.
           and_then (chunk_files E configs fs) (\<lambda>out.
             Ok (\<lparr>fc_rel_path = rel_path, fc_file_bytes = fo_bytes_read fan,
                  fc_per_candidate = fo_per_candidate fan\<rparr> # out))))"

definition chunk_tree :: "bench_env \<Rightarrow> fpath \<times> fnode option \<Rightarrow> chunker_config list
    \<Rightarrow> bench_error + file_chunking list" where
  "chunk_tree E rt configs =
     (case snd rt of
        Some (Directory es) \<Rightarrow>
          and_then (bench_collect_files (be_fails E) (fst rt) (fst rt) es) (\<lambda>fs. chunk_files E configs (sort fs))
      | _ \<Rightarrow> Err (NotADirectory (fst rt)))"

section \<open>The report\<close>

definition u64_len :: "'a list \<Rightarrow> u64" where "u64_len xs = word_of_nat (length xs)"
definition f64_of_u64 :: "u64 \<Rightarrow> f64" where "f64_of_u64 w = f64_of_nat (unat w)"

definition nearest_rank :: "u64 list \<Rightarrow> u64 \<Rightarrow> u64" where
  "nearest_rank sorted_lens p =
     (if sorted_lens = [] then 0
      else let rank = max (u64_div_ceil (u64_len sorted_lens * p) 100) 1 in sorted_lens ! unat (rank - 1))"

definition unique_ids :: "file_chunking list \<Rightarrow> nat \<Rightarrow> chunk_id set" where
  "unique_ids fs ci = fold (\<lambda>f acc. fold (\<lambda>m acc. insert (cm_id m) acc) (fc_per_candidate f ! ci) acc) fs {}"

fun check_candidate_counts :: "file_chunking list \<Rightarrow> nat \<Rightarrow> bench_error + unit" where
  "check_candidate_counts [] expected = Ok ()"
| "check_candidate_counts (f # fs) expected =
     (if length (fc_per_candidate f) \<noteq> expected
      then Err (CandidateMismatch (fc_rel_path f) (length (fc_per_candidate f)) expected)
      else check_candidate_counts fs expected)"

record scan =
  sc_lens :: "u64 list"
  sc_unique :: "chunk_id set"
  sc_unique_bytes :: u64
  sc_manifest_bytes :: u64

definition scan_meta :: "chunk_meta \<Rightarrow> scan \<Rightarrow> scan" where
  "scan_meta m a =
     a\<lparr>sc_lens := sc_lens a @ [cm_len m], sc_unique := insert (cm_id m) (sc_unique a),
       sc_unique_bytes := (if cm_id m \<in> sc_unique a then sc_unique_bytes a else sc_unique_bytes a + cm_len m)\<rparr>"

definition scan_file :: "nat \<Rightarrow> file_chunking \<Rightarrow> scan \<Rightarrow> scan" where
  "scan_file ci f a =
     (let metas = fc_per_candidate f ! ci
      in fold scan_meta metas
           (a\<lparr>sc_manifest_bytes := sc_manifest_bytes a + (word_of_nat MANIFEST_FILE_FIXED_BYTES
                + u64_len (fc_rel_path f) + word_of_nat CHUNK_ID_LEN * u64_len metas)\<rparr>))"

definition scan_files :: "nat \<Rightarrow> file_chunking list \<Rightarrow> scan" where
  "scan_files ci fs = fold (scan_file ci) fs
     \<lparr>sc_lens = [], sc_unique = {}, sc_unique_bytes = 0, sc_manifest_bytes = word_of_nat MANIFEST_HEADER_BYTES\<rparr>"

definition overlap_of :: "chunk_id set \<Rightarrow> chunk_id set \<Rightarrow> baseline_overlap" where
  "overlap_of unique baseline_set =
     (let shared = word_of_nat (card (unique \<inter> baseline_set))
      in \<lparr>bo_baseline_unique_chunks = word_of_nat (card baseline_set),
          bo_shared_unique_chunks = shared,
          bo_overlap_percent = (if unique = {} then Fin 0
            else f64_mul (f64_div (f64_of_u64 shared) (f64_of_u64 (word_of_nat (card unique)))) (Fin 100))\<rparr>)"

definition candidate_of :: "file_chunking list \<Rightarrow> u64 \<Rightarrow> (bytes \<times> file_chunking list) option
    \<Rightarrow> nat \<times> chunker_config \<Rightarrow> candidate_report" where
  "candidate_of fs snapshots baseline = (\<lambda>(ci, cfg).
     let a = scan_files ci fs;
         total_chunks = u64_len (sc_lens a);
         total_bytes = sum_list (sc_lens a);
         lens = sort (sc_lens a);
         unique_len = word_of_nat (card (sc_unique a));
         index_bytes = unique_len * word_of_nat WIRE_SIZE
     in \<lparr>cr_target_size = word_of_nat (target_size cfg), cr_min_size = word_of_nat (min_size cfg),
         cr_max_size = word_of_nat (max_size cfg), cr_total_chunks = total_chunks, cr_unique_chunks = unique_len,
         cr_total_bytes = total_bytes, cr_unique_bytes = sc_unique_bytes a,
         cr_dedup_ratio = (if sc_unique_bytes a = 0 then Fin 1
           else f64_div (f64_of_u64 total_bytes) (f64_of_u64 (sc_unique_bytes a))),
         cr_mean_chunk_size = (if total_chunks = 0 then Fin 0
           else f64_div (f64_of_u64 total_bytes) (f64_of_u64 total_chunks)),
         cr_median_chunk_size = nearest_rank lens 50, cr_p95_chunk_size = nearest_rank lens 95,
         cr_index_bytes = index_bytes, cr_manifest_bytes = sc_manifest_bytes a,
         cr_projected_bytes = index_bytes + snapshots * sc_manifest_bytes a,
         cr_baseline = map_option (\<lambda>(_, bfs). overlap_of (sc_unique a) (unique_ids bfs ci)) baseline\<rparr>)"

definition build_report :: "bytes \<Rightarrow> file_chunking list \<Rightarrow> chunker_config list \<Rightarrow> u64
    \<Rightarrow> (bytes \<times> file_chunking list) option \<Rightarrow> bench_error + bench_report" where
  "build_report rt fs configs snapshots baseline =
     and_then (check_candidate_counts fs (length configs)) (\<lambda>_.
     and_then (case baseline of None \<Rightarrow> Ok () | Some (_, bfs) \<Rightarrow> check_candidate_counts bfs (length configs)) (\<lambda>_.
       Ok \<lparr>bn_root = rt, bn_baseline_root = map_option fst baseline, bn_files_scanned = u64_len fs,
           bn_total_bytes = sum_list (map fc_file_bytes fs), bn_snapshots_projected = snapshots,
           bn_candidates = map (candidate_of fs snapshots baseline) (enumerate 0 configs)\<rparr>))"

text \<open>\<open>min_by_key\<close> over (cost, target size): the first of the minimal elements.\<close>

fun min_by_key :: "('a \<Rightarrow> 'k::linorder) \<Rightarrow> 'a list \<Rightarrow> 'a option" where
  "min_by_key f [] = None"
| "min_by_key f (x # xs) =
     (case min_by_key f xs of None \<Rightarrow> Some x | Some y \<Rightarrow> if f y < f x then Some y else Some x)"

definition candidate_cost :: "candidate_report \<Rightarrow> u64 \<times> u64" where
  "candidate_cost c = (cr_unique_bytes c + cr_projected_bytes c, cr_target_size c)"

definition recommend :: "bench_report \<Rightarrow> u64 option" where
  "recommend report = map_option cr_target_size (min_by_key candidate_cost (bn_candidates report))"

end
