(* ===== verification/Progress.thy ===== *)
theory Progress
  imports Client_Commands Bench
begin

text \<open>
  Live progress, \<open>crates/busyncr-client/src/progress.rs\<close>: what the observer of a backup or restore writes to the standard error
  stream.

  \<^item> Instants are durations since some fixed moment. One tick reads the clock up to three times; \<open>readings\<close> holds them.
  \<^item> The JSON crate and the decimal printing of doubles are the record \<open>progress_fmt\<close>.
  \<^item> A tick returns what it wrote, \<open>None\<close> when it wrote nothing. Failed writes are ignored by the code and are not
    represented.
\<close>

section \<open>The reporter\<close>

definition MIN_INTERVAL :: duration where "MIN_INTERVAL = from_millis 150"

datatype progress_mode = QuietMode | JsonMode | TtyMode | PlainMode

record reporter =
  pg_mode :: progress_mode
  pg_start :: duration
  pg_last_render :: "duration option"
  pg_last_tty_len :: nat
  pg_seq :: u64

record readings =
  rd_check :: duration
  rd_mark :: duration
  rd_now :: duration

definition reporter_new :: "bool \<Rightarrow> bool \<Rightarrow> bool \<Rightarrow> duration \<Rightarrow> reporter" where
  "reporter_new quiet json is_terminal now =
     \<lparr>pg_mode = (if quiet then QuietMode else if json then JsonMode else if is_terminal then TtyMode else PlainMode),
      pg_start = now, pg_last_render = None, pg_last_tty_len = 0, pg_seq = 0\<rparr>"

definition should_render :: "bool \<Rightarrow> readings \<Rightarrow> reporter \<Rightarrow> bool \<times> reporter" where
  "should_render final_tick R p =
     (if final_tick then (True, p\<lparr>pg_last_render := Some (rd_mark R)\<rparr>)
      else case pg_last_render p of
          Some t \<Rightarrow>
            if rd_check R - t < MIN_INTERVAL then (False, p) else (True, p\<lparr>pg_last_render := Some (rd_mark R)\<rparr>)
        | None \<Rightarrow> (True, p\<lparr>pg_last_render := Some (rd_mark R)\<rparr>))"

definition mb_per_sec :: "u64 \<Rightarrow> duration \<Rightarrow> f64" where
  "mb_per_sec n elapsed =
     (let secs = as_secs_f64 elapsed
      in if secs \<le> Fin 0 then Fin 0 else f64_div (f64_div (f64_of_u64 n) secs) (Fin (1024 * 1024)))"

definition eta_secs :: "u64 \<Rightarrow> u64 \<Rightarrow> duration \<Rightarrow> f64 option" where
  "eta_secs total_n done_n elapsed =
     (if done_n = 0 \<or> total_n \<le> done_n then None
      else let secs = as_secs_f64 elapsed
           in if secs \<le> Fin 0 then None
              else let rate = f64_div (f64_of_u64 done_n) secs
                   in if rate \<le> Fin 0 then None else Some (f64_div (f64_of_u64 (total_n - done_n)) rate))"

section \<open>Lines and events\<close>

record backup_totals =
  bt_total_files :: u64
  bt_total_bytes :: u64

record restore_totals =
  rtl_total_files :: u64
  rtl_total_bytes :: u64

record backup_progress_event =
  pv_seq :: u64
  pv_elapsed_ms :: nat
  pv_files :: u64
  pv_total_files :: u64
  pv_chunks_hashed :: u64
  pv_chunks_to_ship :: u64
  pv_chunks_shipped :: u64
  pv_bytes_up :: u64
  pv_mb_per_sec :: f64
  pv_eta_secs :: "f64 option"

record restore_progress_event =
  rv_seq :: u64
  rv_elapsed_ms :: nat
  rv_files :: u64
  rv_total_files :: u64
  rv_chunks_fetched :: u64
  rv_bytes_down :: u64
  rv_total_bytes :: u64
  rv_mb_per_sec :: f64
  rv_eta_secs :: "f64 option"

record progress_fmt =
  pf_backup_json :: "backup_progress_event \<Rightarrow> bytes option"
  pf_restore_json :: "restore_progress_event \<Rightarrow> bytes option"
  pf_two_decimals :: "f64 \<Rightarrow> bytes"
  pf_display :: "f64 \<Rightarrow> bytes"

text \<open>\<open>f64::round\<close>, half away from zero.\<close>

definition f64_round_away :: "f64 \<Rightarrow> f64" where
  "f64_round_away x = (case x of Fin q \<Rightarrow> Fin (of_int (round_half_away q)) | _ \<Rightarrow> x)"

definition eta_suffix :: "progress_fmt \<Rightarrow> f64 option \<Rightarrow> bytes" where
  "eta_suffix P eta = (case eta of
      Some secs \<Rightarrow> ascii '', ETA ~'' @ pf_display P (f64_max (f64_round_away secs) (Fin 0)) @ ascii ''s''
    | None \<Rightarrow> [])"

definition emit_json :: "bytes option \<Rightarrow> bytes option" where
  "emit_json ev = map_option (\<lambda>line. line @ [0x0A]) ev"

definition emit_line :: "bytes \<Rightarrow> bool \<Rightarrow> reporter \<Rightarrow> bytes \<times> reporter" where
  "emit_line line final_tick p =
     (if pg_mode p = TtyMode
      then ([0x0D] @ line @ replicate (pg_last_tty_len p - length line) 0x20 @ (if final_tick then [0x0A] else []),
            p\<lparr>pg_last_tty_len := length line\<rparr>)
      else (line @ [0x0A], p))"

definition show_u64 :: "u64 \<Rightarrow> bytes" where "show_u64 w = decimal (unat w)"

definition backup_line :: "progress_fmt \<Rightarrow> backup_report \<Rightarrow> backup_totals \<Rightarrow> f64 \<Rightarrow> f64 option \<Rightarrow> bytes" where
  "backup_line P rep totals rate eta =
     ascii ''backup: '' @ show_u64 (br_files rep) @ ascii ''/'' @ show_u64 (bt_total_files totals) @ ascii '' files, '' @
     show_u64 (br_chunks_total rep) @ ascii '' chunks hashed, '' @ show_u64 (br_chunks_unique rep) @ ascii '' to ship, '' @
     show_u64 (br_chunks_uploaded rep) @ ascii '' shipped, '' @ show_u64 (br_upload_bytes rep) @ ascii '' bytes up, '' @
     pf_two_decimals P rate @ ascii '' MB/s'' @ eta_suffix P eta"

definition restore_line :: "progress_fmt \<Rightarrow> restore_report \<Rightarrow> restore_totals \<Rightarrow> f64 \<Rightarrow> f64 option \<Rightarrow> bytes" where
  "restore_line P rep totals rate eta =
     ascii ''restore: '' @ show_u64 (rr_files rep) @ ascii ''/'' @ show_u64 (rtl_total_files totals) @ ascii '' files, '' @
     show_u64 (rr_chunks_fetched rep) @ ascii '' chunks fetched, '' @ show_u64 (rr_bytes rep) @ ascii ''/'' @
     show_u64 (rtl_total_bytes totals) @ ascii '' bytes down, '' @
     pf_two_decimals P rate @ ascii '' MB/s'' @ eta_suffix P eta"

definition backup_tick :: "progress_fmt \<Rightarrow> readings \<Rightarrow> backup_report \<Rightarrow> backup_totals \<Rightarrow> bool \<Rightarrow> reporter \<Rightarrow> bytes option \<times> reporter" where
  "backup_tick P R rep totals final_tick p0 =
     (if pg_mode p0 = QuietMode then (None, p0)
      else case should_render final_tick R p0 of
          (False, p) \<Rightarrow> (None, p)
        | (True, p) \<Rightarrow>
           let elapsed = rd_now R - pg_start p;
               rate = mb_per_sec (br_upload_bytes rep) elapsed;
               eta = eta_secs (bt_total_files totals) (br_files rep) elapsed
           in if pg_mode p = JsonMode then
                (let p1 = p\<lparr>pg_seq := pg_seq p + 1\<rparr>
                 in (emit_json (pf_backup_json P
                       \<lparr>pv_seq = pg_seq p1, pv_elapsed_ms = as_millis elapsed, pv_files = br_files rep,
                        pv_total_files = bt_total_files totals, pv_chunks_hashed = br_chunks_total rep,
                        pv_chunks_to_ship = br_chunks_unique rep, pv_chunks_shipped = br_chunks_uploaded rep,
                        pv_bytes_up = br_upload_bytes rep, pv_mb_per_sec = rate, pv_eta_secs = eta\<rparr>), p1))
              else (case emit_line (backup_line P rep totals rate eta) final_tick p of (out, p1) \<Rightarrow> (Some out, p1)))"

definition restore_tick :: "progress_fmt \<Rightarrow> readings \<Rightarrow> restore_report \<Rightarrow> restore_totals \<Rightarrow> bool \<Rightarrow> reporter \<Rightarrow> bytes option \<times> reporter" where
  "restore_tick P R rep totals final_tick p0 =
     (if pg_mode p0 = QuietMode then (None, p0)
      else case should_render final_tick R p0 of
          (False, p) \<Rightarrow> (None, p)
        | (True, p) \<Rightarrow>
           let elapsed = rd_now R - pg_start p;
               rate = mb_per_sec (rr_bytes rep) elapsed;
               eta = eta_secs (rtl_total_bytes totals) (rr_bytes rep) elapsed
           in if pg_mode p = JsonMode then
                (let p1 = p\<lparr>pg_seq := pg_seq p + 1\<rparr>
                 in (emit_json (pf_restore_json P
                       \<lparr>rv_seq = pg_seq p1, rv_elapsed_ms = as_millis elapsed, rv_files = rr_files rep,
                        rv_total_files = rtl_total_files totals, rv_chunks_fetched = rr_chunks_fetched rep,
                        rv_bytes_down = rr_bytes rep, rv_total_bytes = rtl_total_bytes totals, rv_mb_per_sec = rate,
                        rv_eta_secs = eta\<rparr>), p1))
              else (case emit_line (restore_line P rep totals rate eta) final_tick p of (out, p1) \<Rightarrow> (Some out, p1)))"

definition reporter_finish :: "reporter \<Rightarrow> bytes option \<times> reporter" where
  "reporter_finish p =
     (if pg_mode p = TtyMode \<and> 0 < pg_last_tty_len p then (Some [0x0A], p\<lparr>pg_last_tty_len := 0\<rparr>) else (None, p))"

text \<open>The observer over a run's calls, each with its clock readings: what reached the stream, in order.\<close>

fun backup_stream :: "progress_fmt \<Rightarrow> backup_totals \<Rightarrow> ((backup_report \<times> bool) \<times> readings) list \<Rightarrow> reporter \<Rightarrow> bytes list \<times> reporter" where
  "backup_stream P totals [] p = ([], p)"
| "backup_stream P totals (((rep, fin), R) # calls) p =
     (case backup_tick P R rep totals fin p of (w, p1) \<Rightarrow>
      case backup_stream P totals calls p1 of (ws, p2) \<Rightarrow> (case w of None \<Rightarrow> ws | Some x \<Rightarrow> x # ws, p2))"

section \<open>What a backup shows\<close>

lemma seal_pending_log: "seal_pending E missing ps st = (r, st') \<Longrightarrow> bk_log st' = bk_log st"
proof (induction E missing ps st arbitrary: r st' rule: seal_pending.induct)
  case (2 E missing cid data rest st)
  then show ?case by (fastforce simp: Let_def split: if_splits prod.splits sum.splits)
qed simp

lemma flush_log: "flush E st = (r, st') \<Longrightarrow> bk_log st' = bk_log st"
  by (auto simp: flush_def upload_blobs_def dest!: seal_pending_log split: if_splits prod.splits sum.splits)

definition extends_log :: "('s, 'r) bk \<Rightarrow> ('s, 'r) bk \<Rightarrow> bool" where
  "extends_log st st' \<longleftrightarrow> (\<exists>lg. bk_log st' = bk_log st @ lg \<and> list_all (\<lambda>x. \<not> snd x) lg)"

lemma extends_log_refl: "bk_log st' = bk_log st \<Longrightarrow> extends_log st st'"
  by (simp add: extends_log_def)

lemma extends_log_trans: "extends_log st st1 \<Longrightarrow> extends_log st1 st2 \<Longrightarrow> extends_log st st2"
  by (auto simp: extends_log_def)

lemma extends_log_progress: "bk_log st1 = bk_log st \<Longrightarrow> extends_log st (bk_progress False st1)"
  by (simp add: extends_log_def bk_progress_def)

lemma take_chunk_log: "take_chunk E c st = (r, st') \<Longrightarrow> extends_log st st'"
  by (auto simp: take_chunk_def Let_def dest!: flush_log intro: extends_log_refl extends_log_progress
      split: if_splits prod.splits sum.splits)

lemma take_chunks_log: "take_chunks E cs ids len st = (r, st') \<Longrightarrow> extends_log st st'"
proof (induction E cs ids len st rule: take_chunks.induct)
  case (3 E c cs ids len st)
  then show ?case using take_chunk_log by (fastforce intro: extends_log_trans split: prod.splits sum.splits)
qed (auto intro: extends_log_refl)

lemma backup_file_log:
  assumes "backup_file E cfg ik spec st = (r, st')"
  shows "extends_log st st'"
proof (cases "b_open E (fs_abs spec)")
  case (Some o')
  then show ?thesis using assms take_chunks_log
    by (fastforce simp: backup_file_def Let_def intro: extends_log_refl extends_log_trans [OF _ extends_log_progress]
        split: option.splits prod.splits sum.splits)
qed (use assms in \<open>simp add: backup_file_def extends_log_refl\<close>)

lemma backup_files_log: "backup_files E cfg ik specs st = (r, st') \<Longrightarrow> extends_log st st'"
proof (induction specs arbitrary: st r)
  case (Cons spec specs)
  then show ?case using backup_file_log by (fastforce intro: extends_log_trans split: prod.splits sum.splits)
qed (simp add: extends_log_refl)

lemma run_backup_log:
  assumes "run_backup E dial F d req srv rng = (Ok rep, srv', rng', lg)"
  obtains lg0 obs where "lg = lg0 @ [(obs, True)]" "list_all (\<lambda>x. \<not> snd x) lg0"
    "rep = obs\<lparr>br_compression := br_compression rep, br_manifest_bytes := br_manifest_bytes rep\<rparr>"
proof -
  obtain k ik existing srv1 specs st where ses: "backup_session E req ik specs (session_start req k existing srv1 rng) = (Ok rep, st)"
    and lg: "lg = bk_log st"
    using assms by (auto simp: run_backup_def split: sum.splits prod.splits)
  define st0 where "st0 = session_start req k existing srv1 rng"
  have log0: "bk_log st0 = []" by (simp add: st0_def session_start_def)
  obtain entries st1 st2 where b: "backup_files E (rq_chunker req) ik specs st0 = (Ok entries, st1)"
    and f: "flush E st1 = (Ok (), st2)" and fin: "finish_backup E req entries (bk_progress True st2) = (Ok rep, st)"
    using ses by (auto simp: backup_session_def st0_def split: sum.splits prod.splits)
  obtain lg0 where lg0: "bk_log st1 = lg0" "list_all (\<lambda>x. \<not> snd x) lg0"
    using backup_files_log [OF b] log0 by (auto simp: extends_log_def)
  have "bk_log st = lg0 @ [(bk_report st2, True)]" and
    "rep = (bk_report st2)\<lparr>br_compression := br_compression rep, br_manifest_bytes := br_manifest_bytes rep\<rparr>"
    using fin flush_log [OF f] lg0(1) by (auto simp: finish_backup_def bk_progress_def Let_def split: sum.splits prod.splits)
  then show thesis using that lg0(2) lg by blast
qed

lemma backup_stream_append:
  "backup_stream P totals (xs @ ys) p =
     (case backup_stream P totals xs p of (ws, p1) \<Rightarrow> case backup_stream P totals ys p1 of (vs, p2) \<Rightarrow> (ws @ vs, p2))"
  by (induction xs arbitrary: p) (auto split: prod.splits option.splits)

text \<open>In JSON mode the sequence number counts the lines written.\<close>

lemma json_stream_seq:
  assumes "\<And>ev. \<exists>b. pf_backup_json P ev = Some b" and "pg_mode p = JsonMode" and "backup_stream P totals calls p = (ws, p')"
  shows "pg_mode p' = JsonMode \<and> pg_seq p' = pg_seq p + word_of_nat (length ws) \<and> length ws \<le> length calls \<and> pg_start p' = pg_start p"
  using assms(2,3)
proof (induction calls arbitrary: p ws)
  case (Cons c calls)
  obtain rep fin R where c: "c = ((rep, fin), R)" by (metis prod.exhaust)
  obtain w p1 where t: "backup_tick P R rep totals fin p = (w, p1)" by force
  obtain ws1 where s: "backup_stream P totals calls p1 = (ws1, p')" "ws = (case w of None \<Rightarrow> ws1 | Some x \<Rightarrow> x # ws1)"
    using Cons.prems(2) c t by (auto split: prod.splits)
  obtain js where "\<And>ev. pf_backup_json P ev = Some (js ev)" using assms(1) by metis
  then have "pg_mode p1 = JsonMode \<and> pg_start p1 = pg_start p \<and> pg_seq p1 = pg_seq p + (if w = None then 0 else 1)"
    using t Cons.prems(1) by (auto simp: backup_tick_def should_render_def emit_json_def Let_def split: if_splits option.splits)
  then show ?case using Cons.IH [OF _ s(1)] s(2) by (auto split: option.splits)
qed simp

text \<open>C26: The progress stream ends with the truth. In JSON mode, the last line of a successful backup carries exactly the counters of the
  report the command prints, whatever the clock did, its sequence number is the number of lines written, and nothing
  before it claimed to be final.\<close>

theorem final_progress_matches_report:
  assumes "run_backup E dial F d req srv rng = (Ok rep, srv', rng', lg)" and "length Rs = length lg"
    and "\<forall>ev. \<exists>b. pf_backup_json P ev = Some b"
  shows "\<exists>ev line. fst (backup_stream P totals (zip lg Rs) (reporter_new False True tty t0)) \<noteq> [] \<and>
    last (fst (backup_stream P totals (zip lg Rs) (reporter_new False True tty t0))) = line @ [0x0A] \<and> pf_backup_json P ev = Some line \<and>
    pv_seq ev = word_of_nat (length (fst (backup_stream P totals (zip lg Rs) (reporter_new False True tty t0)))) \<and>
    pv_files ev = br_files rep \<and> pv_chunks_hashed ev = br_chunks_total rep \<and> pv_chunks_to_ship ev = br_chunks_unique rep \<and>
    pv_chunks_shipped ev = br_chunks_uploaded rep \<and> pv_bytes_up ev = br_upload_bytes rep \<and>
    list_all (\<lambda>x. \<not> snd x) (butlast lg)"
proof -
  let ?p = "reporter_new False True tty t0"
  obtain lg0 obs where lg: "lg = lg0 @ [(obs, True)]" "list_all (\<lambda>x. \<not> snd x) lg0"
    and rep: "rep = obs\<lparr>br_compression := br_compression rep, br_manifest_bytes := br_manifest_bytes rep\<rparr>"
    by (rule run_backup_log [OF assms(1)])
  obtain Rs0 R where Rs: "Rs = Rs0 @ [R]" "length Rs0 = length lg0"
    using assms(2) lg(1) by (metis append_butlast_last_id length_append_singleton length_butlast length_0_conv nat.simps(3) diff_Suc_1)
  obtain ws p1 where s: "backup_stream P totals (zip lg0 Rs0) ?p = (ws, p1)" by force
  have p1: "pg_mode p1 = JsonMode" "pg_seq p1 = word_of_nat (length ws)" "length ws \<le> length lg0"
    using json_stream_seq [OF _ _ s] assms(3) Rs(2) by (auto simp: reporter_new_def)
  define elapsed where "elapsed = rd_now R - pg_start p1"
  define ev where "ev = \<lparr>pv_seq = pg_seq p1 + 1, pv_elapsed_ms = as_millis elapsed, pv_files = br_files obs,
      pv_total_files = bt_total_files totals, pv_chunks_hashed = br_chunks_total obs, pv_chunks_to_ship = br_chunks_unique obs,
      pv_chunks_shipped = br_chunks_uploaded obs, pv_bytes_up = br_upload_bytes obs,
      pv_mb_per_sec = mb_per_sec (br_upload_bytes obs) elapsed, pv_eta_secs = eta_secs (bt_total_files totals) (br_files obs) elapsed\<rparr>"
  obtain line where line: "pf_backup_json P ev = Some line" using assms(3) by blast
  have "fst (backup_tick P R obs totals True p1) = Some (line @ [0x0A])"
    using p1(1) line by (simp add: backup_tick_def should_render_def emit_json_def Let_def ev_def elapsed_def)
  then have out: "fst (backup_stream P totals (zip lg Rs) ?p) = ws @ [line @ [0x0A]]"
    using s Rs lg(1) by (auto simp: backup_stream_append split: prod.splits option.splits)
  have "pv_seq ev = word_of_nat (Suc (length ws))" by (simp add: ev_def p1(2))
  moreover have "br_files rep = br_files obs" "br_chunks_total rep = br_chunks_total obs" "br_chunks_unique rep = br_chunks_unique obs"
    "br_chunks_uploaded rep = br_chunks_uploaded obs" "br_upload_bytes rep = br_upload_bytes obs"
    by (subst rep, simp)+
  ultimately show ?thesis using out line lg by (intro exI [of _ ev] exI [of _ line]) (simp add: ev_def)
qed

text \<open>On a terminal, the newline of the last tick is followed by another one of \<open>finish\<close>.\<close>

lemma finish_repeats_newline:
  assumes "pg_mode p = TtyMode"
  shows "\<exists>text p1. backup_tick P R rep totals True p = (Some (0x0D # text @ [0x0A]), p1) \<and> fst (reporter_finish p1) = Some [0x0A]"
proof -
  have "length (backup_line P rep totals x y) \<noteq> 0" for x y by (simp add: backup_line_def ascii_def)
  then show ?thesis using assms
    by (simp add: backup_tick_def should_render_def emit_line_def reporter_finish_def Let_def flip: append_assoc)
qed

text \<open>Two renders that are not the last one are at least \<open>MIN_INTERVAL\<close> apart; in quiet mode nothing is written.\<close>

lemma renders_throttled:
  assumes "should_render fin R p = (True, p1)" and "should_render False R' p1 = (True, p2)"
  shows "MIN_INTERVAL \<le> rd_check R' - rd_mark R"
  using assms by (auto simp: should_render_def split: if_splits option.splits)

lemma quiet_writes_nothing:
  "pg_mode p = QuietMode \<Longrightarrow> backup_stream P totals calls p = ([], p)"
  by (induction calls arbitrary: p) (auto simp: backup_tick_def)

definition demo_fmt :: progress_fmt where
  "demo_fmt = \<lparr>pf_backup_json = (\<lambda>_. Some [0x7B, 0x7D]), pf_restore_json = (\<lambda>_. Some []), pf_two_decimals = (\<lambda>_. []), pf_display = (\<lambda>_. [])\<rparr>"

theorem final_progress_matches_report_witness:
  "\<exists>rep srv' lg. run_backup trip_env (\<lambda>_ _ _ _. True) cs_no_faults demo_keys trip_req trip_srv () = (Ok rep, srv', (), lg) \<and>
     last (fst (backup_stream demo_fmt \<lparr>bt_total_files = 1, bt_total_bytes = 8\<rparr>
       (zip lg (replicate (length lg) \<lparr>rd_check = 1, rd_mark = 1, rd_now = 1\<rparr>)) (reporter_new False True False 0))) = [0x7B, 0x7D, 0x0A]"
proof -
  obtain rep srv' lg where run: "run_backup trip_env (\<lambda>_ _ _ _. True) cs_no_faults demo_keys trip_req trip_srv () = (Ok rep, srv', (), lg)"
    using trip_run by blast
  have "\<forall>ev. \<exists>b. pf_backup_json demo_fmt ev = Some b" by (simp add: demo_fmt_def)
  from final_progress_matches_report [OF run _ this, of "replicate (length lg) \<lparr>rd_check = 1, rd_mark = 1, rd_now = 1\<rparr>"
      "\<lparr>bt_total_files = 1, bt_total_bytes = 8\<rparr>" False 0]
  show ?thesis using run by (auto simp: demo_fmt_def)
qed

end
