(* ===== verification/Policy_Bench.thy ===== *)
theory Policy_Bench
  imports Bench F64_Arith
begin

text \<open>
  The compression policy benchmark, \<open>crates/busyncr-core/src/policy_bench.rs\<close>: the five simulated policies over the
  real \<open>choose_codec\<close>, the projections of backup time, and the recommendation. Elapsed times are what the clock gave:
  they are arguments of the definitions (\<open>wall\<close>, \<open>io_time\<close> and the fields of the input records).
\<close>

section \<open>Rates\<close>

definition MIB :: f64 where "MIB = Fin (1024 * 1024)"
definition MIN_POSITIVE :: f64 where "MIN_POSITIVE = Fin (pow2 (- 1022))"

definition mbps :: "u64 \<Rightarrow> duration \<Rightarrow> f64" where
  "mbps n wall =
     (let secs = as_secs_f64 wall
      in if n = 0 \<or> secs \<le> Fin 0 then PosInf else f64_div (f64_div (f64_of_u64 n) MIB) secs)"

definition throughput_mbps :: "u64 \<Rightarrow> duration \<Rightarrow> f64" where "throughput_mbps n wall = mbps n wall"

definition seconds_for :: "u64 \<Rightarrow> f64 \<Rightarrow> f64" where
  "seconds_for n rate =
     (if n = 0 then Fin 0
      else if \<not> is_finite rate \<or> rate \<le> Fin 0 then Fin 0
      else f64_div (f64_div (f64_of_u64 n) MIB) rate)"

definition harmonic_rate :: "u32 \<Rightarrow> f64 list \<Rightarrow> f64" where
  "harmonic_rate threads rates =
     (let s = fold (\<lambda>x acc. f64_add acc x)
                (map (\<lambda>r. f64_div (Fin 1) r) (filter (\<lambda>r. is_finite r \<and> Fin 0 < r) rates)) (Fin 0)
      in if s \<le> Fin 0 then PosInf else f64_mul (f64_div (Fin 1) s) (f64_of_nat (unat (max threads 1))))"

section \<open>Policies\<close>

datatype policy_kind = RawOnly | Zstd3Always | Zstd3 | ProbeZstd3 | Zstd3Escalate

definition POLICY_ALL :: "policy_kind list" where
  "POLICY_ALL = [RawOnly, Zstd3Always, Zstd3, ProbeZstd3, Zstd3Escalate]"

fun policy_name :: "policy_kind \<Rightarrow> string" where
  "policy_name RawOnly = ''raw-only''"
| "policy_name Zstd3Always = ''zstd3-always''"
| "policy_name Zstd3 = ''zstd3''"
| "policy_name ProbeZstd3 = ''probe+zstd3''"
| "policy_name Zstd3Escalate = ''zstd3+escalate''"

definition policy_from_name :: "string \<Rightarrow> policy_kind option" where
  "policy_from_name nm = find (\<lambda>k. policy_name k = nm) POLICY_ALL"

fun policy_kind_config :: "policy_kind \<Rightarrow> policy_config" where
  "policy_kind_config RawOnly = policy_config_default\<lparr>keep_threshold := Fin 0\<rparr>"
| "policy_kind_config Zstd3Always = policy_config_default\<lparr>keep_threshold := PosInf\<rparr>"
| "policy_kind_config Zstd3 = policy_config_default"
| "policy_kind_config ProbeZstd3 = policy_config_default\<lparr>use_probe := True\<rparr>"
| "policy_kind_config Zstd3Escalate = policy_config_default\<lparr>escalate := True\<rparr>"

definition counters_default :: policy_counters where
  "counters_default = \<lparr>pc_raw = 0, pc_zstd3 = 0, pc_escalated = 0, pc_escalation_attempts = 0, pc_bytes_in = 0,
     pc_bytes_out = 0\<rparr>"

record policy_stored_stats =
  ps_chunk_count :: u64
  ps_bytes_in :: u64
  ps_bytes_out :: u64
  ps_framed_bytes :: u64
  ps_stored_bytes :: u64
  ps_ratio :: f64
  ps_raw_chunks :: u64
  ps_zstd3_chunks :: u64
  ps_escalated_chunks :: u64
  ps_escalation_attempts :: u64
  ps_wall :: duration

definition compress_mbps :: "policy_stored_stats \<Rightarrow> f64" where
  "compress_mbps st = mbps (ps_bytes_in st) (ps_wall st)"

definition run_policy :: "codecs \<Rightarrow> phase \<Rightarrow> policy_config \<Rightarrow> bytes list \<Rightarrow> policy_counters \<Rightarrow> policy_counters" where
  "run_policy Z phase cfg chunks c = fold (\<lambda>chunk c. snd (choose_codec Z chunk phase cfg c)) chunks c"

definition simulate_policy :: "codecs \<Rightarrow> bytes list \<Rightarrow> policy_kind \<Rightarrow> phase \<Rightarrow> duration \<Rightarrow> policy_stored_stats" where
  "simulate_policy Z chunks kind phase wall =
     (let c = run_policy Z phase (policy_kind_config kind) chunks counters_default;
          chunk_count = counters_total c;
          framed_bytes = pc_bytes_out c + chunk_count;
          stored_bytes = framed_bytes + chunk_count * word_of_nat BLOB_OVERHEAD
      in \<lparr>ps_chunk_count = chunk_count, ps_bytes_in = pc_bytes_in c, ps_bytes_out = pc_bytes_out c,
          ps_framed_bytes = framed_bytes, ps_stored_bytes = stored_bytes,
          ps_ratio = (if stored_bytes = 0 then Fin 1 else f64_div (f64_of_u64 (pc_bytes_in c)) (f64_of_u64 stored_bytes)),
          ps_raw_chunks = pc_raw c, ps_zstd3_chunks = pc_zstd3 c, ps_escalated_chunks = pc_escalated c,
          ps_escalation_attempts = pc_escalation_attempts c, ps_wall = wall\<rparr>)"

section \<open>Measurements\<close>

record stage_rates =
  sr_read_mbps :: f64
  sr_cdc_mbps :: f64
  sr_blake3_mbps :: f64
  sr_encrypt_mbps :: f64

text \<open>\<open>TimingReader\<close> over a source; \<open>elapsed\<close> is what the clock measured around the inner read. A failed read returns
  before either counter is touched.\<close>

record timing_reader =
  tr_inner :: "read_result list"
  tr_io_time :: duration
  tr_bytes :: u64

definition timing_reader_new :: "read_result list \<Rightarrow> timing_reader" where
  "timing_reader_new src = \<lparr>tr_inner = src, tr_io_time = 0, tr_bytes = 0\<rparr>"

definition timing_read :: "duration \<Rightarrow> timing_reader \<Rightarrow> read_result \<times> timing_reader" where
  "timing_read elapsed t =
     (case tr_inner t of
        [] \<Rightarrow> (ReadOk [], t\<lparr>tr_io_time := tr_io_time t + elapsed\<rparr>)
      | ReadOk bs # src \<Rightarrow> (ReadOk bs, \<lparr>tr_inner = src, tr_io_time = tr_io_time t + elapsed,
                                      tr_bytes = tr_bytes t + word_of_nat (length bs)\<rparr>)
      | r # src \<Rightarrow> (r, t\<lparr>tr_inner := src\<rparr>))"

definition measure_cdc_mbps :: "cdc_cuts \<Rightarrow> bytes \<Rightarrow> chunker_config \<Rightarrow> duration \<Rightarrow> f64" where
  "measure_cdc_mbps cdc data cfg elapsed =
     (if data = [] then PosInf
      else mbps (word_of_nat (sum_list (map snd (cdc (min_size cfg) (target_size cfg) (max_size cfg) data)))) elapsed)"

definition measure_blake3_mbps :: "bytes \<Rightarrow> duration \<Rightarrow> f64" where
  "measure_blake3_mbps data elapsed = (if data = [] then PosInf else mbps (u64_len data) elapsed)"

text \<open>The sixteen sealed buffers are discarded; the generator has advanced.\<close>

definition measure_encrypt_mbps :: "aead \<Rightarrow> 'r fill_bytes \<Rightarrow> duration \<Rightarrow> 'r \<Rightarrow> f64 \<times> 'r" where
  "measure_encrypt_mbps A fill elapsed rng =
     (case data_key_generate fill rng of (key, rng1) \<Rightarrow>
        (mbps (1024 * 1024 * 16) elapsed,
         ((\<lambda>r. snd (encrypt_chunk A fill key (chunk_id_from_bytes (replicate 32 0)) (replicate (1024 * 1024) 0xAB) r)) ^^ 16) rng1))"

section \<open>Chunking with bytes\<close>

record file_chunking_full =
  ff_rel_path :: bytes
  ff_chunks :: "chunk list"

record 'f pb_env =
  pb_open :: "fpath \<Rightarrow> 'f option"
  pb_cdc :: "'f cdc_stream"
  pb_blake3 :: "bytes \<Rightarrow> hash32"
  pb_keyed :: "hash32 \<Rightarrow> bytes \<Rightarrow> hash32"
  pb_io_time :: "fpath \<Rightarrow> duration"
  pb_fails :: "bn_site \<Rightarrow> bool"

fun chunk_files_full :: "'f pb_env \<Rightarrow> chunker_config \<Rightarrow> (bytes \<times> fpath) list
    \<Rightarrow> bench_error + (file_chunking_full list \<times> duration)" where
  "chunk_files_full E cfg [] = Ok ([], 0)"
| "chunk_files_full E cfg ((rel_path, abs_path) # fs) =
     (case pb_open E abs_path of
        None \<Rightarrow> Err (BenchIo abs_path)
      | Some src \<Rightarrow>
         and_then (collect_results
             (map_err (\<lambda>e. case e of ChunkingIo \<Rightarrow> BenchIo abs_path | other \<Rightarrow> BenchChunking rel_path other))
             (chunk_reader (pb_cdc E) (pb_blake3 E) (pb_keyed E) src cfg)) (\<lambda>chunks.
           and_then (chunk_files_full E cfg fs) (\<lambda>(out, io_time).
             Ok (\<lparr>ff_rel_path = rel_path, ff_chunks = chunks\<rparr> # out, pb_io_time E abs_path + io_time))))"

definition chunk_tree_with_bytes :: "'f pb_env \<Rightarrow> fpath \<times> fnode option \<Rightarrow> chunker_config
    \<Rightarrow> bench_error + (file_chunking_full list \<times> duration)" where
  "chunk_tree_with_bytes E rt cfg =
     (case snd rt of
        Some (Directory es) \<Rightarrow>
          and_then (bench_collect_files (pb_fails E) (fst rt) (fst rt) es) (\<lambda>fs. chunk_files_full E cfg (sort fs))
      | _ \<Rightarrow> Err (NotADirectory (fst rt)))"

section \<open>File classes\<close>

datatype file_class = DbSqlite | OfficeZip | Pdf | Image | TextCode | OtherClass

definition CLASS_ALL :: "file_class list" where
  "CLASS_ALL = [DbSqlite, OfficeZip, Pdf, Image, TextCode, OtherClass]"

fun class_label :: "file_class \<Rightarrow> string" where
  "class_label DbSqlite = ''db/sqlite''"
| "class_label OfficeZip = ''office-zip''"
| "class_label Pdf = ''pdf''"
| "class_label Image = ''image''"
| "class_label TextCode = ''text/code''"
| "class_label OtherClass = ''other''"

text \<open>\<open>rsplit_once\<close> on the last occurrence of a byte.\<close>

definition rsplit_once :: "byte \<Rightarrow> bytes \<Rightarrow> (bytes \<times> bytes) option" where
  "rsplit_once b bs =
     (let ext = rev (takeWhile (\<lambda>x. x \<noteq> b) (rev bs))
      in if b \<in> set bs then Some (take (length bs - length ext - 1) bs, ext) else None)"

definition to_ascii_lowercase :: "bytes \<Rightarrow> bytes" where
  "to_ascii_lowercase bs = map (\<lambda>b. if 0x41 \<le> b \<and> b \<le> 0x5A then b + 32 else b) bs"

definition class_of_extension :: "bytes \<Rightarrow> file_class" where
  "class_of_extension ext =
     (if ext \<in> set (map ascii [''db'', ''sqlite'', ''sqlite3'']) then DbSqlite
      else if ext \<in> set (map ascii [''docx'', ''xlsx'', ''pptx'', ''odt'', ''ods'', ''zip'', ''jar'']) then OfficeZip
      else if ext = ascii ''pdf'' then Pdf
      else if ext \<in> set (map ascii [''jpg'', ''jpeg'', ''png'', ''gif'', ''webp'', ''bmp'', ''tiff'']) then Image
      else if ext \<in> set (map ascii [''txt'', ''md'', ''rs'', ''py'', ''js'', ''ts'', ''c'', ''h'', ''cpp'', ''hpp'', ''json'',
          ''toml'', ''yaml'', ''yml'', ''csv'', ''log'', ''xml'', ''html'', ''css'', ''go'', ''java'', ''sql'']) then TextCode
      else OtherClass)"

definition classify :: "bytes \<Rightarrow> file_class" where
  "classify rel_path =
     (let file_name = last (split_slash rel_path)
      in case rsplit_once 0x2E file_name of
           None \<Rightarrow> OtherClass
         | Some (_, ext) \<Rightarrow> if ext = [] then OtherClass else class_of_extension (to_ascii_lowercase ext))"

record file_class_row =
  cl_class :: string
  cl_bytes_in :: u64
  cl_bytes_out :: u64
  cl_share :: f64

definition f64_of_i64 :: "i64 \<Rightarrow> f64" where "f64_of_i64 w = f64_round (of_int (sint w))"

definition class_step :: "codecs \<Rightarrow> policy_config \<Rightarrow> file_class \<times> bytes
    \<Rightarrow> (file_class \<times> u64 \<times> u64) list \<Rightarrow> (file_class \<times> u64 \<times> u64) list" where
  "class_step Z cfg = (\<lambda>(cl, data) per_class.
     let payload = snd (fst (choose_codec Z data InitialFull cfg counters_default));
         (bin, bout) = (case map_of per_class cl of Some e \<Rightarrow> e | None \<Rightarrow> (0, 0))
     in AList.update cl (bin + u64_len data, bout + u64_len payload) per_class)"

definition class_row :: "i64 \<Rightarrow> file_class \<Rightarrow> u64 \<times> u64 \<Rightarrow> file_class_row" where
  "class_row total_saved cl = (\<lambda>(bin, bout).
     \<lparr>cl_class = class_label cl, cl_bytes_in = bin, cl_bytes_out = bout,
      cl_share = (if 0 < sint total_saved
        then f64_mul (f64_div (f64_of_i64 (bin - bout)) (f64_of_i64 total_saved)) (Fin 100) else Fin 0)\<rparr>)"

definition file_class_diagnostics :: "codecs \<Rightarrow> (file_class \<times> bytes) list \<Rightarrow> policy_kind \<Rightarrow> file_class_row list" where
  "file_class_diagnostics Z chunks policy =
     (let per_class = fold (class_step Z (policy_kind_config policy)) chunks [];
          total_saved = sum_list (map (\<lambda>(_, bin, bout). bin - bout) per_class)
      in List.map_filter (\<lambda>cl. map_option (class_row total_saved cl) (map_of per_class cl)) CLASS_ALL)"

section \<open>Projections\<close>

record bandwidth_point =
  bp_net_mbit :: f64
  bp_seconds :: f64

definition bandwidth_point_at :: "f64 \<Rightarrow> u64 \<Rightarrow> f64 \<Rightarrow> bandwidth_point" where
  "bandwidth_point_at cpu_bound_seconds stored net_mbit =
     (let net_mbps_bytes = f64_max (f64_div net_mbit (Fin 8)) MIN_POSITIVE;
          transfer_seconds = f64_div (f64_div (f64_of_u64 stored) MIB) net_mbps_bytes
      in \<lparr>bp_net_mbit = net_mbit, bp_seconds = f64_max cpu_bound_seconds transfer_seconds\<rparr>)"

definition bandwidth_projection :: "f64 \<Rightarrow> u64 \<Rightarrow> f64 list \<Rightarrow> bandwidth_point list" where
  "bandwidth_projection cpu_bound_seconds stored net_mbps = map (bandwidth_point_at cpu_bound_seconds stored) net_mbps"

record speed_projection =
  sp_cpu_bound_seconds :: f64
  sp_at_bandwidth :: "bandwidth_point list"

datatype churn_source = Measured | Assumed f64

record incremental_projection =
  ip_source :: churn_source
  ip_delta :: policy_stored_stats
  ip_scan_seconds :: f64
  ip_cpu_bound_seconds :: f64
  ip_at_bandwidth :: "bandwidth_point list"

record policy_row =
  pr_policy :: string
  pr_stored :: policy_stored_stats
  pr_initial_backup :: speed_projection
  pr_incremental :: "incremental_projection option"
  pr_steady_state_bytes :: u64

text \<open>The inputs, with the elapsed time of every simulated run.\<close>

record build_inputs =
  bi_unique_chunks :: "bytes list"
  bi_delta_chunks :: "bytes list option"
  bi_assume_churn :: "f64 option"
  bi_total_bytes :: u64
  bi_stage_rates :: stage_rates
  bi_threads :: u32
  bi_net_mbps :: "f64 list"
  bi_bookkeeping_bytes :: u64
  bi_wall :: "policy_kind \<Rightarrow> phase \<Rightarrow> duration"

record compression_report =
  cp_policies :: "policy_row list"
  cp_stage_rates :: stage_rates
  cp_threads :: u32
  cp_net_mbps :: "f64 list"

text \<open>\<open>None\<close> where \<open>Duration::from_secs_f64\<close> panics.\<close>

definition scale_stats :: "policy_stored_stats \<Rightarrow> f64 \<Rightarrow> policy_stored_stats option" where
  "scale_stats st scale =
     (let scale_u64 = (\<lambda>v. f64_round_u64 (f64_mul (f64_of_u64 v) scale))
      in map_option (\<lambda>wall.
           \<lparr>ps_chunk_count = scale_u64 (ps_chunk_count st), ps_bytes_in = scale_u64 (ps_bytes_in st),
            ps_bytes_out = scale_u64 (ps_bytes_out st), ps_framed_bytes = scale_u64 (ps_framed_bytes st),
            ps_stored_bytes = scale_u64 (ps_stored_bytes st), ps_ratio = ps_ratio st,
            ps_raw_chunks = scale_u64 (ps_raw_chunks st), ps_zstd3_chunks = scale_u64 (ps_zstd3_chunks st),
            ps_escalated_chunks = scale_u64 (ps_escalated_chunks st),
            ps_escalation_attempts = scale_u64 (ps_escalation_attempts st), ps_wall = wall\<rparr>)
         (from_secs_f64 (f64_mul (as_secs_f64 (ps_wall st)) scale)))"

definition pipeline_rate :: "build_inputs \<Rightarrow> policy_stored_stats \<Rightarrow> f64" where
  "pipeline_rate I st =
     (let r = bi_stage_rates I
      in f64_min (sr_read_mbps r)
           (harmonic_rate (bi_threads I) [sr_cdc_mbps r, sr_blake3_mbps r, compress_mbps st, sr_encrypt_mbps r]))"

text \<open>The outer \<open>option\<close> is \<open>None\<close> on a panic, the inner one is the code's.\<close>

definition build_incremental :: "codecs \<Rightarrow> policy_kind \<Rightarrow> build_inputs \<Rightarrow> incremental_projection option option" where
  "build_incremental Z kind I =
     (let scan_seconds = seconds_for (bi_total_bytes I) (sr_read_mbps (bi_stage_rates I));
          finish = (\<lambda>delta src.
            let delta_cpu_bound = seconds_for (ps_bytes_in delta) (pipeline_rate I delta);
                cpu_bound = f64_add scan_seconds delta_cpu_bound
            in Some \<lparr>ip_source = src, ip_delta = delta, ip_scan_seconds = scan_seconds, ip_cpu_bound_seconds = cpu_bound,
                 ip_at_bandwidth = bandwidth_projection cpu_bound (ps_stored_bytes delta) (bi_net_mbps I)\<rparr>)
      in case bi_delta_chunks I of
           Some delta_chunks \<Rightarrow>
             Some (finish (simulate_policy Z delta_chunks kind Incremental (bi_wall I kind Incremental)) Measured)
         | None \<Rightarrow>
             (case bi_assume_churn I of
                None \<Rightarrow> Some None
              | Some percent \<Rightarrow>
                 let whole = simulate_policy Z (bi_unique_chunks I) kind Incremental (bi_wall I kind Incremental);
                     scale = f64_clamp (f64_div percent (Fin 100)) (Fin 0) (Fin 1)
                 in map_option (\<lambda>delta. finish delta (Assumed percent)) (scale_stats whole scale)))"

definition build_policy_row :: "codecs \<Rightarrow> policy_kind \<Rightarrow> build_inputs \<Rightarrow> policy_row option" where
  "build_policy_row Z kind I =
     (let stored = simulate_policy Z (bi_unique_chunks I) kind InitialFull (bi_wall I kind InitialFull);
          initial_cpu_bound = seconds_for (ps_bytes_in stored) (pipeline_rate I stored)
      in map_option (\<lambda>incremental.
           \<lparr>pr_policy = policy_name kind, pr_stored = stored,
            pr_initial_backup = \<lparr>sp_cpu_bound_seconds = initial_cpu_bound,
              sp_at_bandwidth = bandwidth_projection initial_cpu_bound (ps_stored_bytes stored) (bi_net_mbps I)\<rparr>,
            pr_incremental = incremental,
            pr_steady_state_bytes = ps_stored_bytes stored + bi_bookkeeping_bytes I\<rparr>)
         (build_incremental Z kind I))"

fun collect_options :: "'a option list \<Rightarrow> 'a list option" where
  "collect_options [] = Some []"
| "collect_options (x # xs) =
     (case x of None \<Rightarrow> None | Some y \<Rightarrow> map_option (\<lambda>ys. y # ys) (collect_options xs))"

definition build_compression_report :: "codecs \<Rightarrow> build_inputs \<Rightarrow> compression_report option" where
  "build_compression_report Z I =
     map_option (\<lambda>policies. \<lparr>cp_policies = policies, cp_stage_rates = bi_stage_rates I, cp_threads = bi_threads I,
         cp_net_mbps = bi_net_mbps I\<rparr>)
       (collect_options (map (\<lambda>kind. build_policy_row Z kind I) POLICY_ALL))"

definition recommend_policy :: "policy_row list \<Rightarrow> string option" where
  "recommend_policy rows =
     (case find (\<lambda>r. pr_policy r = policy_name Zstd3) rows of
        None \<Rightarrow> None
      | Some zstd3 \<Rightarrow>
         (let bound = f64_mul (sp_cpu_bound_seconds (pr_initial_backup zstd3)) (Fin (3 / 2))
          in map_option pr_policy (min_by_key pr_steady_state_bytes
               (filter (\<lambda>r. sp_cpu_bound_seconds (pr_initial_backup r) \<le> bound) rows))))"

end
