(* ===== verification/Bench_Props.thy ===== *)
theory Bench_Props
  imports Bench
begin

text \<open>
  Correctness of the chunk-size benchmark: the occupancy formula counts grid cells, the percentile is the nearest-rank
  percentile, the walk covers the tree, the projections are the sizes of the real encodings, the deduplicated figures
  count each chunk once, and the recommendation is the cheapest candidate.
\<close>

section \<open>Occupancy\<close>

text \<open>The reference: the cell of an age in hours, as (tier, cell counted from the start of the tier).\<close>

definition hour_cell :: "nat \<Rightarrow> nat \<times> nat" where
  "hour_cell h =
     (if h < 24 then (0, h div 3) else if h < 96 then (1, (h - 24) div 24)
      else if h < 384 then (2, (h - 96) div 96) else (3, (h - 384) div 384))"

definition nat_div_ceil :: "nat \<Rightarrow> nat \<Rightarrow> nat" where
  "nat_div_ceil a b = (a + b - 1) div b"

lemma nat_div_ceil_eq:
  assumes "0 < b"
  shows "nat_div_ceil a b = (if 0 < a mod b then a div b + 1 else a div b)"
proof -
  have "a + b - 1 = (a mod b + b - 1) + b * (a div b)" using assms by (simp add: mult.commute flip: minus_mod_eq_div_mult)
  then have "nat_div_ceil a b = (a mod b + b - 1) div b + a div b"
    using assms by (simp only: nat_div_ceil_def) (simp only: div_mult_self2)
  moreover have "(a mod b + b - 1) div b = 1" if "0 < a mod b"
    using that assms mod_less_divisor [OF assms, of a] div_nat_eqI [where q = 1] by simp
  ultimately show ?thesis using assms by simp
qed

lemma unat_u64_div_ceil: "0 < b \<Longrightarrow> unat (u64_div_ceil a b) = nat_div_ceil (unat a) (unat b)"
proof -
  assume b: "0 < b"
  let ?a = "unat a" and ?b = "unat b"
  have b': "0 < ?b" using b by (simp add: word_less_nat_alt)
  have "?a div ?b + 1 < 2 ^ 64" if "0 < ?a mod ?b"
  proof -
    have "?b \<noteq> 1" using that by (auto intro: Nat.gr0I)
    then have "?a div ?b \<le> ?a div 2" using b' by (intro div_le_mono2) auto
    then show ?thesis using unsigned_less [of a, where 'a = nat] by simp
  qed
  then have "unat (a div b + 1) = ?a div ?b + 1" if "0 < ?a mod ?b"
    using that by (simp add: unat_div unat_word_ariths)
  then show ?thesis
    using b' by (simp add: u64_div_ceil_def nat_div_ceil_eq unat_div unat_mod word_less_nat_alt)
qed

text \<open>The cells of a stretch of hours.\<close>

lemma card_cells: "0 < w \<Longrightarrow> card ((\<lambda>h. (i :: nat, (h - s) div w)) ` {s..<s + n}) = nat_div_ceil n w"
proof -
  assume w: "0 < w"
  have "(\<lambda>h. (i, (h - s) div w)) ` {s..<s + n} = Pair i ` (\<lambda>h. h div w) ` {0..<n}"
  proof -
    have "{s..<s + n} = (\<lambda>h. h + s) ` {0..<n}" by (simp add: image_add_atLeastLessThan' add.commute)
    then show ?thesis by (simp only: image_image) simp
  qed
  moreover have "(\<lambda>h. h div w) ` {0..<n} = {0..<nat_div_ceil n w}"
  proof (intro set_eqI iffI)
    fix q
    assume "q \<in> (\<lambda>h. h div w) ` {0..<n}"
    then obtain h where h: "q = h div w" "h < n" by auto
    then have "h div w \<le> (n - 1) div w" by (intro div_le_mono) simp
    moreover have "(n - 1) div w + 1 = nat_div_ceil n w"
      using h w div_add_self2 [of w "n - 1"] by (simp add: nat_div_ceil_def)
    ultimately show "q \<in> {0..<nat_div_ceil n w}" using h by simp
  next
    fix q
    assume "q \<in> {0..<nat_div_ceil n w}"
    then have "Suc q * w \<le> n + w - 1" using w by (simp add: nat_div_ceil_def less_eq_div_iff_mult_less_eq Suc_le_eq [symmetric])
    then have "q * w < n" using w by simp
    then show "q \<in> (\<lambda>h. h div w) ` {0..<n}" using w by (intro image_eqI [of _ _ "q * w"]) simp_all
  qed
  ultimately show ?thesis by (simp add: card_image inj_on_def)
qed

lemma tier_cells:
  assumes "0 < w" and "\<And>h. s \<le> h \<Longrightarrow> h < s + n \<Longrightarrow> hour_cell h = (i, (h - s) div w)"
  shows "card (hour_cell ` {s..<s + n}) = nat_div_ceil n w \<and> fst ` hour_cell ` {s..<s + n} \<subseteq> {i}"
proof -
  have "hour_cell ` {s..<s + n} = (\<lambda>h. (i, (h - s) div w)) ` {s..<s + n}"
    using assms(2) by (intro image_cong) auto
  then show ?thesis using card_cells [OF assms(1), of i s n] by auto
qed

lemma hour_cells_split:
  "hour_cell ` {0..<h} = hour_cell ` {0..<0 + min 24 h} \<union> hour_cell ` {24..<24 + (min 96 h - 24)} \<union>
     hour_cell ` {96..<96 + (min 384 h - 96)} \<union> hour_cell ` {384..<384 + (h - 384)}"
  unfolding image_Un [symmetric] by (rule arg_cong [where f = "image hour_cell"]) auto

lemma card_Un_tagged:
  fixes A B C D :: "(nat \<times> nat) set"
  assumes "finite A" "finite B" "finite C" "finite D"
    and t: "fst ` A \<subseteq> {0}" "fst ` B \<subseteq> {1}" "fst ` C \<subseteq> {2}" "fst ` D \<subseteq> {3}"
  shows "card (A \<union> B \<union> C \<union> D) = card A + card B + card C + card D"
proof -
  have "A \<inter> B = {}" "(A \<union> B) \<inter> C = {}" "(A \<union> B \<union> C) \<inter> D = {}" using t by fastforce+
  then show ?thesis using assms by (simp add: card_Un_disjoint)
qed

lemma card_hour_cells:
  "card (hour_cell ` {0..<h}) = nat_div_ceil (min 24 h) 3 + nat_div_ceil (min 96 h - 24) 24
     + nat_div_ceil (min 384 h - 96) 96 + nat_div_ceil (h - 384) 384"
proof -
  let ?A = "hour_cell ` {0..<0 + min 24 h}" and ?B = "hour_cell ` {24..<24 + (min 96 h - 24)}"
    and ?C = "hour_cell ` {96..<96 + (min 384 h - 96)}" and ?D = "hour_cell ` {384..<384 + (h - 384)}"
  have a: "card ?A = nat_div_ceil (min 24 h) 3 \<and> fst ` ?A \<subseteq> {0}"
    by (rule tier_cells) (auto simp: hour_cell_def)
  have b: "card ?B = nat_div_ceil (min 96 h - 24) 24 \<and> fst ` ?B \<subseteq> {1}"
    by (rule tier_cells) (auto simp: hour_cell_def)
  have c: "card ?C = nat_div_ceil (min 384 h - 96) 96 \<and> fst ` ?C \<subseteq> {2}"
    by (rule tier_cells) (auto simp: hour_cell_def)
  have d: "card ?D = nat_div_ceil (h - 384) 384 \<and> fst ` ?D \<subseteq> {3}"
    by (rule tier_cells) (auto simp: hour_cell_def)
  have "card (?A \<union> ?B \<union> ?C \<union> ?D) = card ?A + card ?B + card ?C + card ?D"
    by (rule card_Un_tagged) (rule finite_imageI finite_atLeastLessThan conjunct2 [OF a] conjunct2 [OF b]
        conjunct2 [OF c] conjunct2 [OF d])+
  then show ?thesis unfolding hour_cells_split [of h] using a b c d by (simp only:)
qed

text \<open>The contribution of one tier of the loop.\<close>

definition tier_count :: "u64 \<Rightarrow> u64 \<Rightarrow> u64 \<Rightarrow> u64 \<Rightarrow> u64" where
  "tier_count start width tier_end h =
     (if start < min tier_end h then u64_div_ceil (min tier_end h - start) width else 0)"

lemma max_u64: "unat (- 1 :: u64) = 2 ^ 64 - 1"
  by (simp add: unsigned_minus_1_eq_mask mask_eq_exp_minus_1)

lemma unat_min_u64: "unat (min a b :: u64) = min (unat a) (unat b)"
  by (simp add: min_def word_le_nat_alt)

lemma unat_tier_count:
  "0 < width \<Longrightarrow> unat (tier_count start width tier_end h) =
     nat_div_ceil (min (unat tier_end) (unat h) - unat start) (unat width)"
proof -
  assume w: "0 < width"
  then have w': "0 < unat width" by (simp add: word_less_nat_alt)
  define m where "m = min tier_end h"
  have m: "min (unat tier_end) (unat h) = unat m" by (simp add: m_def unat_min_u64)
  have "unat (m - start) = unat m - unat start" if "start < m" using that by (intro unat_sub less_imp_le)
  then show ?thesis
    unfolding tier_count_def m m_def [symmetric] using w w'
    by (auto simp: unat_u64_div_ceil word_less_nat_alt nat_div_ceil_def [of 0])
qed

lemma count_cells_Cons:
  "count_cells h ((start, width) # rest) cells = count_cells h rest
     (cells + tier_count start width (case rest of [] \<Rightarrow> - 1 | (next_start, _) # _ \<Rightarrow> next_start) h)"
  by (simp add: Let_def tier_count_def)

lemma count_cells_tiers:
  "count_cells h RETENTION_TIERS 0 =
     tier_count 0 3 24 h + tier_count 24 24 96 h + tier_count 96 96 384 h + tier_count 384 384 (- 1) h"
  by (simp add: RETENTION_TIERS_def count_cells_Cons del: count_cells.simps(2))

lemma steady_state_nat:
  assumes "24 * unat d < 2 ^ 64"
  shows "unat (steady_state_snapshots d) =
    nat_div_ceil (min 24 (24 * unat d)) 3 + nat_div_ceil (min 96 (24 * unat d) - 24) 24
     + nat_div_ceil (min 384 (24 * unat d) - 96) 96 + nat_div_ceil (24 * unat d - 384) 384"
proof -
  define h where "h = u64_saturating_mul d 24"
  have h: "unat h = 24 * unat d"
    using assms by (simp add: h_def u64_saturating_mul_def unat_of_nat min_absorb2 mult.commute [of _ 24] del: of_nat_mult)
  let ?a = "tier_count 0 3 24 h" and ?b = "tier_count 24 24 96 h"
    and ?c = "tier_count 96 96 384 h" and ?d = "tier_count 384 384 (- 1) h"
  have e: "unat ?a = nat_div_ceil (min 24 (unat h)) 3" "unat ?b = nat_div_ceil (min 96 (unat h) - 24) 24"
    "unat ?c = nat_div_ceil (min 384 (unat h) - 96) 96" "unat ?d = nat_div_ceil (unat h - 384) 384"
    using unsigned_less [of h, where 'a = nat] by (simp_all add: unat_tier_count max_u64 min_absorb2)
  have "unat ?a \<le> 8" "unat ?b \<le> 4" "unat ?c \<le> 4" "unat ?d \<le> 2 ^ 60"
    unfolding e using unsigned_less [of h, where 'a = nat]
    by (auto simp: nat_div_ceil_def intro!: div_le_mono [THEN order_trans])
  then have "unat (?a + ?b + ?c + ?d) = unat ?a + unat ?b + unat ?c + unat ?d"
    by (simp add: unat_word_ariths)
  then show ?thesis unfolding steady_state_snapshots_def h_def [symmetric] count_cells_tiers e h .
qed

text \<open>The projected number of snapshots is the number of distinct grid cells over the hours of the horizon,
  cells being counted from the start of their tier, and is 36 for the default horizon of one year.\<close>

theorem steady_state_counts_cells:
  assumes "24 * unat d < 2 ^ 64"
  shows "unat (steady_state_snapshots d) = card (hour_cell ` {0..<24 * unat d}) \<and>
    steady_state_snapshots DEFAULT_PROJECTION_HORIZON_DAYS = 36"
proof -
  have "unat (steady_state_snapshots 365) = 36" by (subst steady_state_nat) (simp_all add: nat_div_ceil_def)
  then have "steady_state_snapshots DEFAULT_PROJECTION_HORIZON_DAYS = 36"
    by (simp add: DEFAULT_PROJECTION_HORIZON_DAYS_def word_unat_eq_iff)
  then show ?thesis using steady_state_nat [OF assms] card_hour_cells [of "24 * unat d"] by (simp only:)
qed

section \<open>Percentiles\<close>

lemma sorted_count_le: "sorted xs \<Longrightarrow> i < length xs \<Longrightarrow> Suc i \<le> length (filter (\<lambda>x. x \<le> xs ! i) xs)"
proof -
  assume s: "sorted xs" "i < length xs"
  have "filter (\<lambda>x. x \<le> xs ! i) (take (Suc i) xs) = take (Suc i) xs"
    using s by (auto simp: filter_id_conv in_set_conv_nth sorted_nth_mono)
  then have "length (filter (\<lambda>x. x \<le> xs ! i) (take (Suc i) xs @ drop (Suc i) xs)) \<ge> Suc i"
    using s(2) by (simp only: filter_append length_append) simp
  then show ?thesis by simp
qed

lemma sorted_count_less: "sorted xs \<Longrightarrow> i < length xs \<Longrightarrow> length (filter (\<lambda>x. x < xs ! i) xs) \<le> i"
proof -
  assume s: "sorted xs" "i < length xs"
  have "xs ! i \<le> x" if "x \<in> set (drop i xs)" for x
    using that s by (auto simp: in_set_conv_nth sorted_nth_mono)
  then have "filter (\<lambda>x. x < xs ! i) (drop i xs) = []" by (auto simp: filter_empty_conv not_less)
  then have "length (filter (\<lambda>x. x < xs ! i) (take i xs @ drop i xs)) \<le> i"
    using length_filter_le [of "\<lambda>x. x < xs ! i" "take i xs"] by (simp only: filter_append length_append) simp
  then show ?thesis by simp
qed

lemma nat_div_ceil_bounds:
  assumes "0 < b"
  shows "a \<le> nat_div_ceil a b * b" and "0 < a \<Longrightarrow> (nat_div_ceil a b - 1) * b < a"
proof -
  define q r where "q = a div b" and "r = a mod b"
  have a: "a = q * b + r" and r: "r < b" using assms by (simp_all add: q_def r_def)
  have c: "nat_div_ceil a b = (if 0 < r then q + 1 else q)" using assms by (simp add: nat_div_ceil_eq q_def r_def)
  show "a \<le> nat_div_ceil a b * b" unfolding c using a r by simp
  show "(nat_div_ceil a b - 1) * b < a" if "0 < a"
    unfolding c using that a r assms by (cases q) (auto split: if_splits)
qed

text \<open>On a sorted list, \<open>nearest_rank\<close> is the \<open>p\<close>-th percentile: an element of the list such that at least \<open>p\<close>
  percent of the elements are not above it, and fewer than \<open>p\<close> percent are below it.\<close>

theorem nearest_rank_percentile:
  assumes "sorted xs" and "xs \<noteq> []" and "0 < p" and "p \<le> 100" and "length xs * 100 < 2 ^ 64"
  shows "nearest_rank xs p \<in> set xs \<and>
    unat p * length xs \<le> 100 * length (filter (\<lambda>x. x \<le> nearest_rank xs p) xs) \<and>
    100 * length (filter (\<lambda>x. x < nearest_rank xs p) xs) < unat p * length xs"
proof -
  let ?n = "length xs" and ?k = "nat_div_ceil (length xs * unat p) 100"
  have p: "0 < unat p" "unat p \<le> 100" using assms(3,4) by (simp_all add: word_less_nat_alt word_le_nat_alt)
  have n: "0 < ?n" using assms(2) by simp
  have np: "0 < ?n * unat p" using n p by simp
  have le: "?n * unat p \<le> ?n * 100" using p by simp
  moreover have "unat (u64_len xs * p) = ?n * unat p mod 2 ^ 64"
    using assms(5) by (simp add: u64_len_def unat_word_ariths unat_of_nat)
  moreover have "?n * unat p < 2 ^ 64" using le assms(5) by (rule le_less_trans)
  ultimately have "unat (u64_len xs * p) = ?n * unat p" by (simp only: mod_less)
  then have k: "unat (u64_div_ceil (u64_len xs * p) 100) = ?k" by (simp add: unat_u64_div_ceil)
  have b: "?n * unat p \<le> ?k * 100" "(?k - 1) * 100 < ?n * unat p"
    using nat_div_ceil_bounds [of 100 "?n * unat p"] np by simp_all
  have "1 \<le> k \<and> k \<le> l" if "0 < m" "m \<le> l * 100" "m \<le> k * 100" "(k - 1) * 100 < m" for m l k :: nat
    using that by linarith
  from this [OF np le b] have kn: "1 \<le> ?k" "?k \<le> ?n" by simp_all
  have "nearest_rank xs p = xs ! (?k - 1)"
    using k kn assms(2) by (simp add: nearest_rank_def Let_def max_def word_le_nat_alt unat_sub)
  moreover have i: "?k - 1 < ?n" using kn by simp
  moreover have "m \<le> 100 * c" if "m \<le> k * 100" "Suc (k - 1) \<le> c" "1 \<le> k" for m k c :: nat using that by simp
  from this [OF b(1) sorted_count_le [OF assms(1) i] kn(1)]
  have "unat p * ?n \<le> 100 * length (filter (\<lambda>x. x \<le> xs ! (?k - 1)) xs)" by (simp only: mult.commute)
  moreover have "100 * c < m" if "(k - 1) * 100 < m" "c \<le> k - 1" for m k c :: nat using that by simp
  from this [OF b(2) sorted_count_less [OF assms(1) i]]
  have "100 * length (filter (\<lambda>x. x < xs ! (?k - 1)) xs) < unat p * ?n" by (simp only: mult.commute)
  ultimately show ?thesis by (simp only: nth_mem simp_thms)
qed

section \<open>The walk\<close>

lemma strip_prefix_append [simp]: "strip_prefix rt (rt @ p) = Some p"
  by (simp add: strip_prefix_def)

lemma bench_collect_utf8: "collect_results (\<lambda>c. if utf8_valid c then Ok c else Err e) cs = Ok xs \<Longrightarrow> xs = cs"
  by (induction cs arbitrary: xs) (auto simp: and_then_Ok_iff split: if_splits)

lemma bench_rel_path_Ok: "bench_rel_path rt (rt @ p) = Ok rel \<Longrightarrow> rel = join_slash p"
  by (auto simp: bench_rel_path_def and_then_Ok_iff dest!: bench_collect_utf8)

lemma bench_walk_set:
  "bench_collect_files F rt (rt @ d) es = Ok out \<Longrightarrow> set out = (\<lambda>p. (join_slash (d @ p), rt @ d @ p)) ` {p. file_in es p}"
  "bench_entries F rt (rt @ d) es = Ok out \<Longrightarrow> set out = (\<lambda>p. (join_slash (d @ p), rt @ d @ p)) ` {p. file_in es p}"
proof (induction F rt "rt @ d" es and F rt "rt @ d" es arbitrary: d out and d out
    rule: bench_collect_files_bench_entries.induct)
  case (1 F rt es)
  then show ?case by (simp add: bench_collect_files.simps split: if_splits)
next
  case (2 F rt)
  then show ?case by simp
next
  case (3 F rt nm node rest)
  let ?path = "rt @ d @ [nm]"
  obtain here there where h: "(case node of OtherNode \<Rightarrow> Ok [] | Directory es \<Rightarrow> bench_collect_files F rt ?path es
      | RegFile \<Rightarrow> and_then (bench_rel_path rt ?path) (\<lambda>rel. Ok [(rel, ?path)])) = Ok here"
    and t: "bench_entries F rt (rt @ d) rest = Ok there" and s: "out = here @ there"
    and ok: "\<not> F (BnEntry ?path)" "\<not> F (BnFileType ?path)"
    using 3(3) by (auto simp: Let_def and_then_Ok_iff split: if_splits)
  let ?f = "\<lambda>p. (join_slash (d @ p), rt @ d @ p)"
  have "set there = ?f ` {p. file_in rest p}" using 3(2) [OF refl] ok t by simp
  moreover have "set here = ?f ` {p. node = RegFile \<and> p = [nm] \<or>
      (\<exists>es' p'. node = Directory es' \<and> p = nm # p' \<and> file_in es' p')}"
  proof (cases node)
    case (Directory es)
    then have "set here = (\<lambda>p. (join_slash ((d @ [nm]) @ p), rt @ (d @ [nm]) @ p)) ` {p. file_in es p}"
      using 3(1) [of "d @ [nm]" es here] ok h by simp
    also have "\<dots> = ?f ` ((#) nm ` {p. file_in es p})" by (simp add: image_image)
    finally show ?thesis using Directory by (simp add: image_def Collect_conj_eq [symmetric]) (auto simp: image_iff)
  next
    case RegFile
    then show ?thesis using h bench_rel_path_Ok [of rt "d @ [nm]"] by (auto simp: and_then_Ok_iff)
  next
    case OtherNode
    then show ?thesis using h by auto
  qed
  ultimately show ?case using s by (auto simp: file_in_Cons)
qed

lemma chunk_files_Ok:
  "chunk_files E configs fs = Ok out \<Longrightarrow>
     list_all2 (\<lambda>f r. \<exists>src fan. be_open E (snd f) = Some src \<and> fan_out_chunks (be_fan E) src configs = Ok fan \<and>
       r = \<lparr>fc_rel_path = fst f, fc_file_bytes = fo_bytes_read fan, fc_per_candidate = fo_per_candidate fan\<rparr>) fs out"
  by (induction E configs fs arbitrary: out rule: chunk_files.induct)
    (auto simp: and_then_Ok_iff split: option.splits)

lemma sorted_map_fst: "sorted xs \<Longrightarrow> sorted (map fst (xs :: ('a::linorder \<times> 'b::linorder) list))"
  by (induction xs) (auto simp: less_eq_prod_def)

text \<open>A benchmark of a tree measures every regular file below its root and nothing else, in the order of the
  relative paths, each with the fan-out of the bytes its own path opens to; entries that are neither files nor
  directories are left out, and a root that is not a directory is refused.\<close>

theorem chunk_tree_covers:
  "(chunk_tree E (rt, Some (Directory es)) configs = Ok out \<longrightarrow>
      sorted (map fc_rel_path out) \<and>
      set (map fc_rel_path out) = join_slash ` {p. file_in es p} \<and>
      (\<forall>p. file_in es p \<longrightarrow> (\<exists>r \<in> set out. \<exists>src fan. fc_rel_path r = join_slash p \<and> be_open E (rt @ p) = Some src \<and>
         fan_out_chunks (be_fan E) src configs = Ok fan \<and>
         fc_file_bytes r = fo_bytes_read fan \<and> fc_per_candidate r = fo_per_candidate fan))) \<and>
   (node \<notin> range (\<lambda>es. Some (Directory es)) \<longrightarrow> chunk_tree E (rt, node) configs = Err (NotADirectory rt))"
proof (intro conjI impI)
  assume "chunk_tree E (rt, Some (Directory es)) configs = Ok out"
  then obtain fs where fs: "bench_collect_files (be_fails E) rt rt es = Ok fs" "chunk_files E configs (sort fs) = Ok out"
    by (auto simp: chunk_tree_def and_then_Ok_iff)
  have st: "set fs = (\<lambda>p. (join_slash p, rt @ p)) ` {p. file_in es p}"
    using bench_walk_set(1) [of "be_fails E" rt "[]" es fs] fs(1) by simp
  note all = chunk_files_Ok [OF fs(2)]
  have rel: "map fc_rel_path out = map fst (sort fs)" using all by (induction rule: list_all2_induct) auto
  show "sorted (map fc_rel_path out)" unfolding rel by (intro sorted_map_fst sorted_sort)
  show "set (map fc_rel_path out) = join_slash ` {p. file_in es p}" unfolding rel using st by (auto simp: image_iff)
  show "\<forall>p. file_in es p \<longrightarrow> (\<exists>r \<in> set out. \<exists>src fan. fc_rel_path r = join_slash p \<and> be_open E (rt @ p) = Some src \<and>
      fan_out_chunks (be_fan E) src configs = Ok fan \<and>
      fc_file_bytes r = fo_bytes_read fan \<and> fc_per_candidate r = fo_per_candidate fan)"
  proof (intro allI impI)
    fix p assume "file_in es p"
    then have "(join_slash p, rt @ p) \<in> set (sort fs)" using st by auto
    then obtain i where i: "i < length (sort fs)" "sort fs ! i = (join_slash p, rt @ p)"
      unfolding in_set_conv_nth by blast
    then show "\<exists>r \<in> set out. \<exists>src fan. fc_rel_path r = join_slash p \<and> be_open E (rt @ p) = Some src \<and>
      fan_out_chunks (be_fan E) src configs = Ok fan \<and>
      fc_file_bytes r = fo_bytes_read fan \<and> fc_per_candidate r = fo_per_candidate fan"
      using list_all2_nthD [OF all i(1)] list_all2_lengthD [OF all] by (intro bexI [of _ "out ! i"]) auto
  qed
next
  assume "node \<notin> range (\<lambda>es. Some (Directory es))"
  then show "chunk_tree E (rt, node) configs = Err (NotADirectory rt)"
    by (auto simp: chunk_tree_def split: option.split fnode.split)
qed

section \<open>The report\<close>

definition candidate_metas :: "nat \<Rightarrow> file_chunking list \<Rightarrow> chunk_meta list" where
  "candidate_metas ci fs = concat (map (\<lambda>f. fc_per_candidate f ! ci) fs)"

lemma scan_meta_simps [simp]:
  "sc_lens (fold scan_meta ms a) = sc_lens a @ map cm_len ms"
  "sc_unique (fold scan_meta ms a) = sc_unique a \<union> cm_id ` set ms"
  "sc_manifest_bytes (fold scan_meta ms a) = sc_manifest_bytes a"
  by (induction ms arbitrary: a) (auto simp: scan_meta_def)

lemma fold_concat: "fold f (concat xss) a = fold (fold f) xss a"
  by (induction xss arbitrary: a) auto

lemma scan_files_eq:
  "fold (scan_file ci) fs a = (fold scan_meta (candidate_metas ci fs) a)\<lparr>sc_manifest_bytes := sc_manifest_bytes a +
     sum_list (map (\<lambda>f. word_of_nat (MANIFEST_FILE_FIXED_BYTES + length (fc_rel_path f)
       + CHUNK_ID_LEN * length (fc_per_candidate f ! ci))) fs)\<rparr>"
proof (induction fs arbitrary: a)
  case Nil
  then show ?case by (simp add: candidate_metas_def)
next
  case (Cons f fs)
  have m: "scan_meta m (a\<lparr>sc_manifest_bytes := x\<rparr>) = (scan_meta m a)\<lparr>sc_manifest_bytes := x\<rparr>" for m a x
    by (cases a) (simp add: scan_meta_def)
  have "fold scan_meta ms (a\<lparr>sc_manifest_bytes := x\<rparr>) = (fold scan_meta ms a)\<lparr>sc_manifest_bytes := x\<rparr>" for ms a x
    by (induction ms arbitrary: a) (simp_all add: m)
  then have "scan_file ci f a = (fold scan_meta (fc_per_candidate f ! ci) a)\<lparr>sc_manifest_bytes := sc_manifest_bytes a +
      word_of_nat (MANIFEST_FILE_FIXED_BYTES + length (fc_rel_path f) + CHUNK_ID_LEN * length (fc_per_candidate f ! ci))\<rparr>"
    and "\<And>ms a x. fold scan_meta ms (a\<lparr>sc_manifest_bytes := x\<rparr>) = (fold scan_meta ms a)\<lparr>sc_manifest_bytes := x\<rparr>"
    by (simp_all add: scan_file_def Let_def u64_len_def)
  then show ?case by (simp add: Cons candidate_metas_def add.assoc)
qed

lemma scan_files_simps [simp]:
  "sc_lens (scan_files ci fs) = map cm_len (candidate_metas ci fs)"
  "sc_unique (scan_files ci fs) = cm_id ` set (candidate_metas ci fs)"
  by (simp_all add: scan_files_def scan_files_eq)

lemma scan_unique_bytes:
  assumes "\<forall>m \<in> set ms. cm_len m = L (cm_id m)" and "finite (sc_unique a)"
  shows "sc_unique_bytes (fold scan_meta ms a) = sc_unique_bytes a + (\<Sum>x \<in> cm_id ` set ms - sc_unique a. L x)"
  using assms
proof (induction ms arbitrary: a)
  case (Cons m ms)
  let ?X = "cm_id ` set ms"
  have "insert (cm_id m) ?X - sc_unique a =
      (if cm_id m \<in> sc_unique a then ?X - sc_unique a else insert (cm_id m) (?X - insert (cm_id m) (sc_unique a)))" by auto
  then show ?case using Cons by (auto simp: scan_meta_def insert_absorb add.assoc)
qed simp

lemma fold_insert_ids: "fold (\<lambda>m. insert (cm_id m)) ms A = A \<union> cm_id ` set ms"
  by (induction ms arbitrary: A) auto

lemma unique_ids_eq: "unique_ids fs ci = cm_id ` set (candidate_metas ci fs)"
proof -
  have "fold (\<lambda>f acc. acc \<union> cm_id ` set (fc_per_candidate f ! ci)) fs A = A \<union> cm_id ` set (candidate_metas ci fs)" for A
    by (induction fs arbitrary: A) (auto simp: candidate_metas_def)
  then show ?thesis by (simp add: unique_ids_def fold_insert_ids)
qed

lemma build_report_Ok:
  assumes "build_report rt fs configs n baseline = Ok rep" and "ci < length configs"
  shows "bn_candidates rep ! ci = candidate_of fs n baseline (ci, configs ! ci)"
  using assms by (auto simp: build_report_def and_then_Ok_iff nth_enumerate_eq)

lemma sum_list_word_of_nat: "sum_list (map (\<lambda>x. word_of_nat (f x)) xs) = word_of_nat (sum_list (map f xs))"
  by (induction xs) simp_all

text \<open>C35: The projections of the report are the real sizes: for every candidate, the manifest figure is the length
  of the encoding of any manifest with the measured paths and chunks, the index figure is one index record per
  distinct chunk, and the bookkeeping figure adds one manifest per snapshot (all modulo the width of \<open>u64\<close>).\<close>

theorem report_projection_exact:
  assumes "build_report rt fs configs n baseline = Ok rep" and "ci < length configs" and "encode m = Ok bs"
    and "map (\<lambda>f. (fe_path f, fe_chunks f)) (files m) =
         map (\<lambda>f. (fc_rel_path f, map cm_id (fc_per_candidate f ! ci))) fs"
  shows "cr_manifest_bytes (bn_candidates rep ! ci) = word_of_nat (length bs) \<and>
    cr_index_bytes (bn_candidates rep ! ci) = word_of_nat (card (set (chunk_refs m)) * WIRE_SIZE) \<and>
    cr_projected_bytes (bn_candidates rep ! ci) =
      word_of_nat (card (set (chunk_refs m)) * WIRE_SIZE) + n * word_of_nat (length bs)"
proof -
  let ?w = "\<lambda>(p :: bytes, cs :: chunk_id list). MANIFEST_FILE_FIXED_BYTES + length p + CHUNK_ID_LEN * length cs"
  have "map (\<lambda>f. MANIFEST_FILE_FIXED_BYTES + length (fe_path f) + CHUNK_ID_LEN * length (fe_chunks f)) (files m) =
      map ?w (map (\<lambda>f. (fe_path f, fe_chunks f)) (files m))" by simp
  also have "\<dots> = map (\<lambda>f. MANIFEST_FILE_FIXED_BYTES + length (fc_rel_path f)
      + CHUNK_ID_LEN * length (fc_per_candidate f ! ci)) fs" unfolding assms(4) by simp
  finally have "encoded_len m = MANIFEST_HEADER_BYTES + sum_list (map (\<lambda>f. MANIFEST_FILE_FIXED_BYTES
      + length (fc_rel_path f) + CHUNK_ID_LEN * length (fc_per_candidate f ! ci)) fs)"
    unfolding encoded_len_def by (simp only:)
  moreover have "length bs = encoded_len m" using manifest_encoded_len assms(3) by blast
  ultimately have "sc_manifest_bytes (scan_files ci fs) = word_of_nat (length bs)"
    by (simp add: scan_files_def scan_files_eq sum_list_word_of_nat del: of_nat_add of_nat_mult) simp
  moreover have "map fe_chunks (files m) = map (\<lambda>f. map cm_id (fc_per_candidate f ! ci)) fs"
    using arg_cong [OF assms(4), of "map snd"] by (simp add: comp_def)
  then have "set (chunk_refs m) = cm_id ` set (candidate_metas ci fs)"
    by (simp add: chunk_refs_def candidate_metas_def image_Union image_image)
  ultimately show ?thesis
    unfolding build_report_Ok [OF assms(1,2)] by (simp add: candidate_of_def Let_def)
qed

text \<open>For every candidate the totals are those of the chunks of all files, the deduplicated figures count each
  distinct chunk once, and the baseline figures count the chunks of both trees.\<close>

theorem report_deduplicates:
  assumes "build_report rt fs configs n (Some (bl, bfs)) = Ok rep" and "ci < length configs"
    and "\<forall>m \<in> set (candidate_metas ci fs). cm_len m = L (cm_id m)"
  shows "cr_total_chunks (bn_candidates rep ! ci) = word_of_nat (length (candidate_metas ci fs)) \<and>
    cr_total_bytes (bn_candidates rep ! ci) = sum_list (map cm_len (candidate_metas ci fs)) \<and>
    cr_unique_chunks (bn_candidates rep ! ci) = word_of_nat (card (cm_id ` set (candidate_metas ci fs))) \<and>
    cr_unique_bytes (bn_candidates rep ! ci) = (\<Sum>x \<in> cm_id ` set (candidate_metas ci fs). L x) \<and>
    map_option bo_shared_unique_chunks (cr_baseline (bn_candidates rep ! ci)) =
      Some (word_of_nat (card (cm_id ` set (candidate_metas ci fs) \<inter> cm_id ` set (candidate_metas ci bfs))))"
proof -
  have "sc_unique_bytes (scan_files ci fs) = (\<Sum>x \<in> cm_id ` set (candidate_metas ci fs). L x)"
    by (simp add: scan_files_def scan_files_eq scan_unique_bytes [OF assms(3)])
  then show ?thesis
    unfolding build_report_Ok [OF assms(1,2)]
    by (simp add: candidate_of_def Let_def overlap_of_def u64_len_def unique_ids_eq)
qed

section \<open>The recommendation\<close>

lemma min_by_key_None [simp]: "min_by_key f xs = None \<longleftrightarrow> xs = []"
  by (cases xs) (auto split: option.split)

lemma min_by_key_Some:
  "min_by_key f xs = Some x \<Longrightarrow> x \<in> set xs \<and> (\<forall>y \<in> set xs. f x \<le> f y)"
  by (induction f xs arbitrary: x rule: min_by_key.induct)
    (auto split: option.splits if_splits simp: not_less intro: order_trans less_imp_le)

text \<open>The recommendation is the target size of a candidate whose storage plus bookkeeping cost is minimal, the
  smallest such target size; there is none exactly when there are no candidates.\<close>

theorem recommend_cheapest:
  "(recommend report = None \<longleftrightarrow> bn_candidates report = []) \<and>
   (recommend report = Some t \<longleftrightarrow> (\<exists>c \<in> set (bn_candidates report). cr_target_size c = t \<and>
     (\<forall>c' \<in> set (bn_candidates report). candidate_cost c \<le> candidate_cost c')))"
proof (intro conjI iffI)
  assume "recommend report = Some t"
  then show "\<exists>c \<in> set (bn_candidates report). cr_target_size c = t \<and>
     (\<forall>c' \<in> set (bn_candidates report). candidate_cost c \<le> candidate_cost c')"
    by (auto simp: recommend_def dest!: min_by_key_Some)
next
  assume "\<exists>c \<in> set (bn_candidates report). cr_target_size c = t \<and>
     (\<forall>c' \<in> set (bn_candidates report). candidate_cost c \<le> candidate_cost c')"
  then obtain c where c: "c \<in> set (bn_candidates report)" "cr_target_size c = t"
    "\<And>c'. c' \<in> set (bn_candidates report) \<Longrightarrow> candidate_cost c \<le> candidate_cost c'" by blast
  then obtain d where d: "min_by_key candidate_cost (bn_candidates report) = Some d"
    using min_by_key_None [of candidate_cost "bn_candidates report"] by fastforce
  then have "candidate_cost d = candidate_cost c" using c min_by_key_Some [OF d] by (metis order_antisym)
  then show "recommend report = Some t" using d c(2) by (simp add: recommend_def candidate_cost_def)
qed (simp_all add: recommend_def)

section \<open>Occupancy against the retention plan\<close>

text \<open>The retention plan aligns its cells to absolute time, so a window of one day can touch nine three-hour cells:
  nine snapshots of the last day, all kept, where the projection counts eight.\<close>

definition day_of_snapshots :: "(i64 \<times> nat) list" where
  "day_of_snapshots = map (\<lambda>k. (if k = 0 then 3600000 else 3599999 - 10800000 * word_of_nat k, k)) [0..<9]"

lemma occupancy_below_plan:
  "plan_keep (plan 3600000 day_of_snapshots default_grid) = [0..<9] \<and> steady_state_snapshots 1 = 8"
proof
  show "plan_keep (plan 3600000 day_of_snapshots default_grid) = [0..<9]"
    by (simp add: day_of_snapshots_def retention_eval upt_rec)
  have "unat (steady_state_snapshots 1) = 8" by (subst steady_state_nat) (simp_all add: nat_div_ceil_def)
  then show "steady_state_snapshots 1 = 8" by (simp add: word_unat_eq_iff)
qed

section \<open>Witnesses\<close>

theorem steady_state_counts_cells_witness:
  "24 * unat (2 :: u64) < 2 ^ 64 \<and> unat (steady_state_snapshots 2) = card (hour_cell ` {0..<24 * unat (2 :: u64)})"
  using steady_state_counts_cells [of 2] by simp

theorem nearest_rank_percentile_witness:
  "nearest_rank [1, 2, 3, 10] 50 \<in> set [1, 2, 3, 10] \<and>
   unat (50 :: u64) * 4 \<le> 100 * length (filter (\<lambda>x. x \<le> nearest_rank [1, 2, 3, 10] 50) [1, 2, 3, 10])"
  using nearest_rank_percentile [of "[1, 2, 3, 10]" 50] by simp

definition demo_bench_env :: bench_env where
  "demo_bench_env = \<lparr>be_fan = demo_fan_env, be_open = (\<lambda>_. Some [ReadOk [1, 2]]), be_fails = (\<lambda>_. False)\<rparr>"

definition demo_tree :: "(bytes \<times> fnode) list" where
  "demo_tree = [([0x62], RegFile), ([0x61], Directory [([0x78], RegFile)]), ([0x6C], OtherNode)]"

lemma demo_fan_out:
  "fan_out_chunks demo_fan_env [ReadOk [1, 2]] [chunker_config_default] =
     Ok \<lparr>fo_per_candidate = [[\<lparr>cm_id = 2, cm_len = 2\<rparr>]], fo_bytes_read = 2\<rparr>"
  by (simp add: fan_out_chunks_def fan_worker_def demo_fan_env_def Let_def chunk_reader_def collect_metas_def meta_of_def
      chunk_byte_len_def chunk_id_with_key_def chunk_id_of_def drain_all)

lemma demo_chunk_tree:
  "chunk_tree demo_bench_env ([], Some (Directory demo_tree)) [chunker_config_default] =
     Ok [\<lparr>fc_rel_path = [0x61, 0x2F, 0x78], fc_file_bytes = 2, fc_per_candidate = [[\<lparr>cm_id = 2, cm_len = 2\<rparr>]]\<rparr>,
         \<lparr>fc_rel_path = [0x62], fc_file_bytes = 2, fc_per_candidate = [[\<lparr>cm_id = 2, cm_len = 2\<rparr>]]\<rparr>]"
  by (simp add: chunk_tree_def demo_tree_def demo_bench_env_def bench_collect_files.simps bench_rel_path_def
      strip_prefix_def Let_def demo_fan_out slash_def less_eq_prod_def sort_key_def insort_key.simps)

theorem chunk_tree_covers_witness:
  "\<exists>out. chunk_tree demo_bench_env ([], Some (Directory demo_tree)) [chunker_config_default] = Ok out \<and>
     sorted (map fc_rel_path out) \<and> set (map fc_rel_path out) = join_slash ` {p. file_in demo_tree p}"
  using demo_chunk_tree chunk_tree_covers [of demo_bench_env "[]" demo_tree "[chunker_config_default]"] by blast

definition demo_files :: "file_chunking list" where
  "demo_files = [\<lparr>fc_rel_path = [0x62], fc_file_bytes = 4, fc_per_candidate = [[\<lparr>cm_id = 2, cm_len = 2\<rparr>, \<lparr>cm_id = 2, cm_len = 2\<rparr>]]\<rparr>]"

definition demo_bench_manifest :: manifest where
  "demo_bench_manifest = \<lparr>snapshot_id = 0, created_at = 0, files = [\<lparr>fe_path = [0x62], fe_size = 4, fe_mtime_secs = 0,
     fe_mtime_nanos = 0, fe_mode = 0, fe_chunks = [2, 2]\<rparr>]\<rparr>"

lemma demo_report: "\<exists>rep. build_report [] demo_files [chunker_config_default] 36 (Some ([], [])) = Ok rep"
  by (simp add: build_report_def demo_files_def)

theorem report_projection_exact_witness:
  "\<exists>rep bs. build_report [] demo_files [chunker_config_default] 36 (Some ([], [])) = Ok rep \<and>
     encode demo_bench_manifest = Ok bs \<and> cr_manifest_bytes (bn_candidates rep ! 0) = word_of_nat (length bs)"
proof -
  obtain rep where r: "build_report [] demo_files [chunker_config_default] 36 (Some ([], [])) = Ok rep"
    using demo_report by blast
  obtain bs where b: "encode demo_bench_manifest = Ok bs"
    by (simp add: encode_def encode_file_def fit_u32_def demo_bench_manifest_def)
  show ?thesis
    using r b report_projection_exact [OF r _ b, of 0] by (auto simp: demo_files_def demo_bench_manifest_def)
qed

theorem report_deduplicates_witness:
  "\<exists>rep. build_report [] demo_files [chunker_config_default] 36 (Some ([], [])) = Ok rep \<and>
     cr_total_bytes (bn_candidates rep ! 0) = 4 \<and> cr_unique_bytes (bn_candidates rep ! 0) = 2"
proof -
  obtain rep where r: "build_report [] demo_files [chunker_config_default] 36 (Some ([], [])) = Ok rep"
    using demo_report by blast
  have c: "candidate_metas 0 demo_files = [\<lparr>cm_id = 2, cm_len = 2\<rparr>, \<lparr>cm_id = 2, cm_len = 2\<rparr>]"
    by (simp add: candidate_metas_def demo_files_def)
  show ?thesis using r report_deduplicates [OF r, of 0 "\<lambda>_. 2"] unfolding c by auto
qed

theorem recommend_cheapest_witness:
  "\<exists>rep t. build_report [] demo_files [chunker_config_default] 36 (Some ([], [])) = Ok rep \<and> recommend rep = Some t \<and>
     (\<exists>c \<in> set (bn_candidates rep). cr_target_size c = t \<and>
       (\<forall>c' \<in> set (bn_candidates rep). candidate_cost c \<le> candidate_cost c'))"
proof -
  obtain rep where r: "build_report [] demo_files [chunker_config_default] 36 (Some ([], [])) = Ok rep"
    using demo_report by blast
  then have "bn_candidates rep \<noteq> []" by (auto simp: build_report_def demo_files_def)
  then obtain t where "recommend rep = Some t" using recommend_cheapest [of rep] by (cases "recommend rep") auto
  then show ?thesis using r recommend_cheapest [of rep t] by blast
qed

end
