(* ===== verification/Policy_Bench_Props.thy ===== *)
theory Policy_Bench_Props
  imports Policy_Bench Backup_Session Bench_Props
begin

text \<open>
  Correctness of the policy benchmark: the simulated stored bytes are the bytes a backup under that policy uploads,
  the two extreme policies do what their names say, the per-class rows account for every byte, projected times respect
  their floor and fall with the bandwidth, and the recommendation is the smallest store among the fast enough policies.
\<close>

section \<open>Simulation and pipeline\<close>

lemma choose_codec_counts:
  "counters_total (snd (choose_codec Z chunk phase cfg c)) = counters_total c + 1"
  "pc_bytes_in (snd (choose_codec Z chunk phase cfg c)) = pc_bytes_in c + word_of_nat (length chunk)"
  "pc_bytes_out (snd (choose_codec Z chunk phase cfg c)) =
     pc_bytes_out c + word_of_nat (length (snd (fst (choose_codec Z chunk phase cfg c))))"
proof -
  obtain codec payload c' where "choose_codec Z chunk phase cfg c = ((codec, payload), c')" by (metis prod.exhaust)
  from choose_codec_accounting [OF this] this
  show "counters_total (snd (choose_codec Z chunk phase cfg c)) = counters_total c + 1"
    "pc_bytes_in (snd (choose_codec Z chunk phase cfg c)) = pc_bytes_in c + word_of_nat (length chunk)"
    "pc_bytes_out (snd (choose_codec Z chunk phase cfg c)) =
       pc_bytes_out c + word_of_nat (length (snd (fst (choose_codec Z chunk phase cfg c))))"
    by simp_all
qed

lemma run_policy_simps [simp]:
  "run_policy Z phase cfg [] c = c"
  "run_policy Z phase cfg (chunk # chunks) c = run_policy Z phase cfg chunks (snd (choose_codec Z chunk phase cfg c))"
  by (simp_all add: run_policy_def)

lemma run_policy_total: "counters_total (run_policy Z phase cfg chunks c) = counters_total c + word_of_nat (length chunks)"
  by (induction chunks arbitrary: c) (simp_all add: choose_codec_counts)

lemma run_policy_bytes_in:
  "pc_bytes_in (run_policy Z phase cfg chunks c) = pc_bytes_in c + word_of_nat (sum_list (map length chunks))"
  by (induction chunks arbitrary: c) (simp_all add: choose_codec_counts)

text \<open>The choice itself does not look at the counters.\<close>

lemma choose_codec_counter_free: "fst (choose_codec Z chunk phase cfg c) = fst (choose_codec Z chunk phase cfg c')"
  by (auto simp: choose_codec_def Let_def store_raw_def store_zstd3_def store_escalated_def split: sum.split)

definition payload_of :: "codecs \<Rightarrow> phase \<Rightarrow> policy_config \<Rightarrow> bytes \<Rightarrow> bytes" where
  "payload_of Z phase cfg chunk = snd (fst (choose_codec Z chunk phase cfg counters_default))"

lemma run_policy_bytes_out:
  "pc_bytes_out (run_policy Z phase cfg chunks c) =
     pc_bytes_out c + word_of_nat (sum_list (map (\<lambda>d. length (payload_of Z phase cfg d)) chunks))"
proof (induction chunks arbitrary: c)
  case (Cons d chunks)
  have "snd (fst (choose_codec Z d phase cfg c)) = payload_of Z phase cfg d"
    unfolding payload_of_def using choose_codec_counter_free by metis
  then show ?case by (simp add: Cons choose_codec_counts)
qed simp

lemma counters_default_simps [simp]:
  "counters_total counters_default = 0" "pc_bytes_in counters_default = 0" "pc_bytes_out counters_default = 0"
  "pc_raw counters_default = 0" "pc_zstd3 counters_default = 0" "pc_escalated counters_default = 0"
  by (simp_all add: counters_default_def counters_total_def)

lemma simulate_stored_bytes:
  "ps_stored_bytes (simulate_policy Z chunks kind phase wall) =
     word_of_nat (sum_list (map (\<lambda>d. length (payload_of Z phase (policy_kind_config kind) d) + 1 + BLOB_OVERHEAD) chunks))"
proof -
  have "sum_list (map (\<lambda>d. f d + 1 + BLOB_OVERHEAD) chunks) = sum_list (map f chunks) + length chunks + length chunks * BLOB_OVERHEAD"
    for f :: "bytes \<Rightarrow> nat" by (induction chunks) simp_all
  then show ?thesis by (simp add: simulate_policy_def Let_def run_policy_bytes_out run_policy_total)
qed

lemma seal_pending_upload:
  assumes "pipeline_laws E" and "\<forall>x \<in> set pend. fst x \<in> missing"
  shows "seal_pending E missing pend st = (Ok bl, st') \<Longrightarrow>
    br_upload_bytes (bk_report st') = br_upload_bytes (bk_report st) + word_of_nat (sum_list
      (map (\<lambda>x. length (payload_of (b_codecs E) (bk_phase st) (bk_policy st) (snd x)) + 1 + BLOB_OVERHEAD) pend))"
  using assms(2)
proof (induction pend arbitrary: st bl)
  case (Cons x pend)
  obtain cid data where x: "x = (cid, data)" by (cases x)
  obtain codec payload cnt where c:
    "choose_codec (b_codecs E) data (bk_phase st) (bk_policy st) (bk_counters st) = ((codec, payload), cnt)"
    by (metis prod.exhaust)
  have m: "cid \<in> missing" using Cons.prems x by simp
  obtain ct rng where e: "encrypt_chunk (b_aead E) (b_fill E) (bk_key st) cid (frame codec payload) (bk_rng st) = (Ok ct, rng)"
    using Cons.prems(1) c m x by (auto split: prod.splits sum.splits)
  define st1 where "st1 = st\<lparr>bk_counters := cnt, bk_rng := rng,
    bk_report := (bk_report st)\<lparr>br_upload_bytes := br_upload_bytes (bk_report st) + word_of_nat (length ct),
      br_chunks_uploaded := br_chunks_uploaded (bk_report st) + 1\<rparr>\<rparr>"
  obtain bl' where r: "seal_pending E missing pend st1 = (Ok bl', st')"
    using Cons.prems(1) c e m x by (auto simp: Let_def st1_def split: prod.splits sum.splits)
  have "length ct = length (frame codec payload) + BLOB_OVERHEAD"
    using seal_open [of "b_aead E" "b_fill E"] assms(1) e by (auto simp: pipeline_laws_def encrypt_chunk_def)
  moreover have "payload = payload_of (b_codecs E) (bk_phase st) (bk_policy st) data"
    unfolding payload_of_def using choose_codec_counter_free c by (metis fst_conv snd_conv)
  ultimately have "br_upload_bytes (bk_report st1) = br_upload_bytes (bk_report st) + word_of_nat
      (length (payload_of (b_codecs E) (bk_phase st) (bk_policy st) data) + 1 + BLOB_OVERHEAD)"
    by (simp add: st1_def frame_def)
  then show ?case using Cons.IH [OF r] Cons.prems(2) x by (simp add: st1_def add.assoc)
qed simp

text \<open>C32: The simulated stored bytes are those of a backup: when the pipeline seals a batch of new chunks under one of
  the simulated policies, the bytes it queues for upload grow by exactly the figure \<open>simulate_policy\<close> reports for those
  chunks, policy, and phase.\<close>

theorem simulation_matches_backup:
  assumes "pipeline_laws E" and "\<forall>x \<in> set pend. fst x \<in> missing"
    and "bk_policy st = policy_kind_config kind" and "seal_pending E missing pend st = (Ok bl, st')"
  shows "br_upload_bytes (bk_report st') = br_upload_bytes (bk_report st) +
    ps_stored_bytes (simulate_policy (b_codecs E) (map snd pend) kind (bk_phase st) wall)"
  using seal_pending_upload [OF assms(1,2,4)] assms(3) by (simp add: simulate_stored_bytes comp_def)

section \<open>The extreme policies\<close>

text \<open>What the benchmark relies on in zstd: its output is never empty.\<close>

definition zstd_nonempty :: "codecs \<Rightarrow> bool" where
  "zstd_nonempty Z \<longleftrightarrow> (\<forall>data level c. zstd_encode_all Z data level = Ok c \<longrightarrow> c \<noteq> [])"

lemma raw_only_stores_raw:
  assumes "zstd_nonempty Z" and "length chunk < 2 ^ 53"
  shows "choose_codec Z chunk phase (policy_kind_config RawOnly) c = store_raw chunk
    (c\<lparr>pc_bytes_in := pc_bytes_in c + word_of_nat (length chunk)\<rparr>)"
proof -
  have "f64_mul (f64_of_nat (length chunk)) (Fin 0) < f64_of_nat (length z)"
    if "compress_zstd Z chunk l = Ok z" for z l
  proof -
    have "z \<noteq> []" using that assms(1) by (auto simp: compress_zstd_def zstd_nonempty_def)
    then show ?thesis using f64_of_nat_pos [of "length z"] f64_of_nat_exact [OF assms(2)] by simp
  qed
  then show ?thesis
    by (auto simp: choose_codec_def Let_def policy_config_default_def store_raw_def split: sum.split)
qed

lemma zstd_always_compresses:
  assumes "compress_zstd Z chunk DEFAULT_ZSTD_LEVEL = Ok z" and "chunk \<noteq> []"
  shows "choose_codec Z chunk phase (policy_kind_config Zstd3Always) c = store_zstd3 z
    (c\<lparr>pc_bytes_in := pc_bytes_in c + word_of_nat (length chunk)\<rparr>)"
proof -
  have "\<not> PosInf < f64_of_nat (length z)" using f64_of_nat_cases [of "length z"] by auto
  then show ?thesis
    using assms f64_mul_PosInf [of "length chunk"]
    by (simp add: choose_codec_def Let_def policy_config_default_def)
qed

text \<open>The two extreme policies do what their names say: \<open>raw-only\<close> stores every chunk raw, so that the store holds
  the plaintext and the fixed overhead per chunk; \<open>zstd3-always\<close> keeps the compressed form of every non-empty chunk that
  compresses, however long.\<close>

theorem extreme_policies:
  assumes "zstd_nonempty Z" and "\<forall>d \<in> set chunks. length d < 2 ^ 53"
  shows "ps_raw_chunks (simulate_policy Z chunks RawOnly phase wall) = word_of_nat (length chunks) \<and>
    ps_stored_bytes (simulate_policy Z chunks RawOnly phase wall) =
      word_of_nat (sum_list (map length chunks) + length chunks * (1 + BLOB_OVERHEAD)) \<and>
    (\<forall>d z c. d \<noteq> [] \<and> compress_zstd Z d DEFAULT_ZSTD_LEVEL = Ok z \<longrightarrow>
      fst (choose_codec Z d phase (policy_kind_config Zstd3Always) c) = (Zstd, z))"
proof (intro conjI allI impI)
  have "pc_raw (run_policy Z phase (policy_kind_config RawOnly) chunks c) = pc_raw c + word_of_nat (length chunks)" for c
    using assms(2)
    by (induction chunks arbitrary: c) (simp_all add: raw_only_stores_raw [OF assms(1)] store_raw_def del: policy_kind_config.simps)
  then show "ps_raw_chunks (simulate_policy Z chunks RawOnly phase wall) = word_of_nat (length chunks)"
    by (simp add: simulate_policy_def Let_def del: policy_kind_config.simps)
  have "map (\<lambda>d. length (payload_of Z phase (policy_kind_config RawOnly) d) + 1 + BLOB_OVERHEAD) chunks =
      map (\<lambda>d. length d + 1 + BLOB_OVERHEAD) chunks"
    using assms(2)
    by (simp add: payload_of_def raw_only_stores_raw [OF assms(1)] store_raw_def del: policy_kind_config.simps)
  moreover have "sum_list (map (\<lambda>d. length d + 1 + BLOB_OVERHEAD) ds) = sum_list (map length ds) + length ds * (1 + BLOB_OVERHEAD)"
    for ds :: "bytes list" by (induction ds) simp_all
  ultimately show "ps_stored_bytes (simulate_policy Z chunks RawOnly phase wall) =
      word_of_nat (sum_list (map length chunks) + length chunks * (1 + BLOB_OVERHEAD))"
    unfolding simulate_stored_bytes by (simp only:)
next
  fix d z c
  assume "d \<noteq> [] \<and> compress_zstd Z d DEFAULT_ZSTD_LEVEL = Ok z"
  then show "fst (choose_codec Z d phase (policy_kind_config Zstd3Always) c) = (Zstd, z)"
    using zstd_always_compresses [of Z d z phase c] by (simp add: store_zstd3_def del: policy_kind_config.simps)
qed

section \<open>Policy names\<close>

lemma policy_from_name_name: "policy_from_name (policy_name k) = Some k"
  by (cases k) (simp_all add: policy_from_name_def POLICY_ALL_def)

section \<open>Projected times\<close>

lemma f64_div_pos:
  assumes "0 < y" and "x \<noteq> NaN" and "Fin 0 \<le> x"
  shows "f64_div x (Fin y) \<noteq> NaN \<and> Fin 0 \<le> f64_div x (Fin y)"
  using assms f64_round_nonneg by (cases x) auto

lemma f64_of_u64_finite: obtains q where "f64_of_u64 n = Fin q" and "0 \<le> q" and "q \<le> pow2 64"
proof -
  have "of_nat (unat n) \<le> (of_nat (2 ^ 64) :: rat)"
    using unsigned_less [of n, where 'a = nat] unfolding of_nat_le_iff by simp
  then have "of_nat (unat n) \<le> pow2 64" by (simp add: pow2_def)
  then obtain x where "f64_round (of_nat (unat n)) = Fin x" "0 \<le> x" "x \<le> pow2 64"
    by (rule f64_round_pow2_bound [OF of_nat_0_le_iff]) simp_all
  then show thesis using that unfolding f64_of_u64_def f64_of_nat_def by blast
qed

lemma stored_mib: obtains q where "f64_div (f64_of_u64 n) MIB = Fin q" and "0 \<le> q"
proof -
  obtain x where x: "f64_of_u64 n = Fin x" "0 \<le> x" "x \<le> pow2 64" using f64_of_u64_finite .
  then have "x / (1024 * 1024) \<le> pow2 64" by (simp add: pos_divide_le_eq)
  then show thesis
    using f64_round_pow2_bound [of "x / (1024 * 1024)" 64] that x by (auto simp: MIB_def)
qed

lemma f64_div_antimono:
  assumes "0 < y" and "y \<le> y'" and "x \<noteq> NaN" and "Fin 0 \<le> x"
  shows "f64_div x (Fin y') \<le> f64_div x (Fin y)"
  using assms by (cases x) (auto intro!: f64_round_mono divide_left_mono)

lemma seconds_for_nonneg: "seconds_for n rate \<noteq> NaN \<and> Fin 0 \<le> seconds_for n rate"
proof -
  obtain q where "f64_div (f64_of_u64 n) MIB = Fin q" "0 \<le> q" using stored_mib .
  then show ?thesis
    using f64_div_pos [of _ "Fin q"] by (cases rate) (auto simp: seconds_for_def is_finite_def)
qed

definition net_rate :: "f64 \<Rightarrow> f64" where
  "net_rate net = f64_max (f64_div net (Fin 8)) MIN_POSITIVE"

lemma net_rate_cases: "net_rate net = PosInf \<or> (\<exists>r > 0. net_rate net = Fin r)"
  by (cases "f64_div net (Fin 8)")
    (auto simp: net_rate_def f64_max_def MIN_POSITIVE_def not_less intro: less_le_trans [OF pow2_pos])

lemma net_rate_mono: "net \<le> net' \<Longrightarrow> net_rate net \<le> net_rate net'"
proof -
  assume n: "net \<le> net'"
  have "f64_div net (Fin 8) \<le> f64_div net' (Fin 8)"
    using n by (cases net; cases net') (auto intro: f64_round_mono divide_right_mono)
  then show ?thesis unfolding net_rate_def by (rule f64_max_mono) (simp add: MIN_POSITIVE_def)
qed

lemma transfer_antimono:
  assumes "net \<le> net'" and "0 \<le> q"
  shows "f64_div (Fin q) (net_rate net') \<le> f64_div (Fin q) (net_rate net)"
  using net_rate_mono [OF assms(1)] net_rate_cases [of net] net_rate_cases [of net'] assms(2)
    f64_div_antimono [of _ _ "Fin q"] f64_round_nonneg by auto

text \<open>A projected time is never below the processing floor and never grows with the bandwidth, for every floor that
  is a number and every pair of bandwidths that compare, roundings included.\<close>

theorem bandwidth_projection_sound:
  assumes "i < length nets" and "j < length nets" and "nets ! i \<le> nets ! j" and "cpu \<noteq> NaN"
  shows "cpu \<le> bp_seconds (bandwidth_projection cpu stored nets ! i) \<and>
    bp_seconds (bandwidth_projection cpu stored nets ! j) \<le> bp_seconds (bandwidth_projection cpu stored nets ! i)"
proof -
  have s: "bp_seconds (bandwidth_projection cpu stored nets ! k) =
      f64_max cpu (f64_div (f64_div (f64_of_u64 stored) MIB) (net_rate (nets ! k)))" if "k < length nets" for k
    using that by (simp add: bandwidth_projection_def bandwidth_point_at_def net_rate_def Let_def)
  obtain q where q: "f64_div (f64_of_u64 stored) MIB = Fin q" "0 \<le> q" using stored_mib .
  show ?thesis
    unfolding s [OF assms(1)] s [OF assms(2)] q(1)
    using f64_max_ge(1) [OF assms(4)] f64_max_mono [of cpu cpu] transfer_antimono [OF assms(3) q(2)] assms(4) by simp
qed

section \<open>The report\<close>

lemma collect_options_Some: "collect_options xs = Some ys \<longleftrightarrow> xs = map Some ys"
  by (induction xs arbitrary: ys) (auto split: option.split)

lemma seconds_half_more: "seconds_for n rate \<le> f64_mul (seconds_for n rate) (Fin (3 / 2))"
proof -
  let ?s = "seconds_for n rate"
  have "?s = Fin 0 \<or> (\<exists>q. ?s = f64_round q) \<or> ?s = PosInf"
  proof -
    obtain q where "f64_div (f64_of_u64 n) MIB = Fin q" "0 \<le> q" using stored_mib .
    then show ?thesis by (cases rate) (auto simp: seconds_for_def is_finite_def)
  qed
  then consider "?s = PosInf" | x where "?s = Fin x" "is_double x"
    using f64_round_double seconds_for_nonneg [of n rate] by (cases ?s) (auto simp: is_double_def)
  then show ?thesis
  proof cases
    case 1
    then show ?thesis by simp
  next
    case (2 x)
    then have "x \<le> x * (3 / 2)" using seconds_for_nonneg [of n rate] by simp
    then show ?thesis using f64_round_ge_double [OF 2(2)] 2(1) by simp
  qed
qed

definition fast_enough :: "policy_row \<Rightarrow> policy_row \<Rightarrow> bool" where
  "fast_enough z r \<longleftrightarrow> sp_cpu_bound_seconds (pr_initial_backup r) \<le>
     f64_mul (sp_cpu_bound_seconds (pr_initial_backup z)) (Fin (3 / 2))"

lemma build_policy_row_fields:
  "build_policy_row Z kind I = Some r \<Longrightarrow> pr_policy r = policy_name kind \<and>
     (\<exists>n rate. sp_cpu_bound_seconds (pr_initial_backup r) = seconds_for n rate)"
  unfolding build_policy_row_def Let_def by clarsimp blast

lemma report_rows:
  assumes "build_compression_report Z I = Some rep"
  obtains a b c d e where "cp_policies rep = [a, b, c, d, e]" "build_policy_row Z RawOnly I = Some a"
    "build_policy_row Z Zstd3Always I = Some b" "build_policy_row Z Zstd3 I = Some c"
    "build_policy_row Z ProbeZstd3 I = Some d" "build_policy_row Z Zstd3Escalate I = Some e"
  using assms that
  by (auto simp: build_compression_report_def POLICY_ALL_def collect_options_Some split: option.splits)

text \<open>Every completed report has one row per policy in the fixed order and a recommendation: a policy that takes at
  most one and a half times as long as \<open>zstd3\<close>, with the smallest projected store among those that do.\<close>

theorem report_recommends:
  assumes "build_compression_report Z I = Some rep"
  shows "map pr_policy (cp_policies rep) = map policy_name POLICY_ALL \<and>
    (\<exists>z \<in> set (cp_policies rep). \<exists>r \<in> set (cp_policies rep). pr_policy z = policy_name Zstd3 \<and>
      recommend_policy (cp_policies rep) = Some (pr_policy r) \<and> fast_enough z r \<and>
      (\<forall>r' \<in> set (cp_policies rep). fast_enough z r' \<longrightarrow> pr_steady_state_bytes r \<le> pr_steady_state_bytes r'))"
proof -
  obtain a b c d e where rows: "cp_policies rep = [a, b, c, d, e]" and
    built: "build_policy_row Z RawOnly I = Some a"
    "build_policy_row Z Zstd3Always I = Some b" "build_policy_row Z Zstd3 I = Some c"
    "build_policy_row Z ProbeZstd3 I = Some d" "build_policy_row Z Zstd3Escalate I = Some e"
    using report_rows [OF assms] .
  note names = built [THEN build_policy_row_fields, THEN conjunct1]
  have f: "find (\<lambda>r. pr_policy r = policy_name Zstd3) (cp_policies rep) = Some c" by (simp add: rows names)
  let ?fast = "filter (fast_enough c) (cp_policies rep)"
  have "fast_enough c c"
    unfolding fast_enough_def using build_policy_row_fields [OF built(3)] seconds_half_more by metis
  then have "c \<in> set ?fast" by (simp add: rows)
  then obtain r where r: "min_by_key pr_steady_state_bytes ?fast = Some r"
    using min_by_key_None [of pr_steady_state_bytes ?fast] by (metis empty_iff empty_set not_Some_eq)
  moreover have "fast_enough c = (\<lambda>r. sp_cpu_bound_seconds (pr_initial_backup r) \<le>
      f64_mul (sp_cpu_bound_seconds (pr_initial_backup c)) (Fin (3 / 2)))" by (simp add: fun_eq_iff fast_enough_def)
  ultimately have "recommend_policy (cp_policies rep) = Some (pr_policy r)"
    unfolding recommend_policy_def f by (simp add: Let_def)
  moreover have "r \<in> set (cp_policies rep)" "fast_enough c r"
    "\<forall>r' \<in> set (cp_policies rep). fast_enough c r' \<longrightarrow> pr_steady_state_bytes r \<le> pr_steady_state_bytes r'"
    using min_by_key_Some [OF r] by simp_all
  moreover have "map pr_policy (cp_policies rep) = map policy_name POLICY_ALL" by (simp add: rows names POLICY_ALL_def)
  moreover have "c \<in> set (cp_policies rep)" by (simp add: rows)
  ultimately show ?thesis using names(3) by blast
qed

section \<open>When the report panics\<close>

lemma f64_mul_NaN [simp]: "f64_mul x NaN = NaN"
  by (cases x) simp_all

lemma clamp_unit: "x \<noteq> NaN \<Longrightarrow> \<exists>q. f64_clamp x (Fin 0) (Fin 1) = Fin q \<and> 0 \<le> q \<and> q \<le> 1"
  by (cases x) (auto simp: f64_clamp_def)

lemma scale_stats_total:
  assumes "ps_wall st < 2 ^ 62 * 10 ^ 9" and "0 \<le> q" and "q \<le> 1"
  shows "\<exists>r. scale_stats st (Fin q) = Some r"
proof -
  obtain x where x: "as_secs_f64 (ps_wall st) = Fin x" "0 \<le> x" "x \<le> pow2 63" using as_secs_bound [OF assms(1)] by auto
  have "x * q \<le> pow2 63" using mult_left_mono [OF assms(3) x(2)] x(3) by simp
  then obtain y where "f64_round (x * q) = Fin y" "0 \<le> y" "y \<le> pow2 63"
    using f64_round_pow2_bound [of "x * q" 63] x assms by auto
  then show ?thesis using from_secs_total [of y] x(1) by (auto simp: scale_stats_def Let_def)
qed

lemma wall_simulate [simp]: "ps_wall (simulate_policy Z chunks kind phase wall) = wall"
  by (simp add: simulate_policy_def Let_def)

definition churn_nan :: "build_inputs \<Rightarrow> bool" where
  "churn_nan I \<longleftrightarrow> bi_delta_chunks I = None \<and> bi_assume_churn I = Some NaN"

lemma build_incremental_total:
  assumes "\<not> churn_nan I" and "bi_wall I kind Incremental < 2 ^ 62 * 10 ^ 9"
  shows "\<exists>r. build_incremental Z kind I = Some r"
proof (cases "bi_delta_chunks I")
  case None
  show ?thesis
  proof (cases "bi_assume_churn I")
    case (Some percent)
    then have "f64_div percent (Fin 100) \<noteq> NaN" using assms(1) None by (cases percent) (auto simp: churn_nan_def)
    then obtain q where "f64_clamp (f64_div percent (Fin 100)) (Fin 0) (Fin 1) = Fin q" "0 \<le> q" "q \<le> 1"
      using clamp_unit by blast
    then show ?thesis
      using None Some scale_stats_total [of "simulate_policy Z (bi_unique_chunks I) kind Incremental
          (bi_wall I kind Incremental)" q] assms(2)
      by (auto simp: build_incremental_def Let_def)
  qed (simp add: None build_incremental_def)
qed (simp add: build_incremental_def Let_def)

lemma collect_options_total: "(\<And>x. x \<in> set xs \<Longrightarrow> x \<noteq> None) \<Longrightarrow> collect_options xs \<noteq> None"
  by (induction xs) (auto split: option.split)

lemma compression_report_exists:
  assumes "\<forall>kind. bi_wall I kind Incremental < 2 ^ 62 * 10 ^ 9" and "\<not> churn_nan I"
  shows "build_compression_report Z I \<noteq> None"
proof -
  have "build_policy_row Z kind I \<noteq> None" for kind
    using build_incremental_total [OF assms(2), of kind Z] assms(1) by (auto simp: build_policy_row_def Let_def)
  then have "collect_options (map (\<lambda>kind. build_policy_row Z kind I) POLICY_ALL) \<noteq> None"
    by (intro collect_options_total) auto
  then show ?thesis by (simp add: build_compression_report_def)
qed

text \<open>With measured times below \<open>2 ^ 62\<close> seconds the report is always produced, except for an assumed churn that is
  not a number (and no measured delta): then scaling the measured time panics.\<close>

theorem compression_report_total:
  assumes "\<forall>kind. bi_wall I kind Incremental < 2 ^ 62 * 10 ^ 9"
  shows "build_compression_report Z I = None \<longleftrightarrow> churn_nan I"
proof
  assume "build_compression_report Z I = None"
  then show "churn_nan I" using compression_report_exists [OF assms] by blast
next
  assume c: "churn_nan I"
  then have "build_policy_row Z RawOnly I = None"
    by (simp add: build_policy_row_def build_incremental_def churn_nan_def Let_def f64_clamp_def scale_stats_def
        from_secs_f64_def)
  then show "build_compression_report Z I = None" by (simp add: build_compression_report_def POLICY_ALL_def)
qed

section \<open>File classes\<close>

definition class_sum :: "(u64 \<times> u64 \<Rightarrow> u64) \<Rightarrow> (file_class \<times> u64 \<times> u64) list \<Rightarrow> u64" where
  "class_sum f al = (\<Sum>cl\<leftarrow>CLASS_ALL. case map_of al cl of None \<Rightarrow> 0 | Some e \<Rightarrow> f e)"

lemma class_sum_update:
  "class_sum f (AList.update cl e al) = class_sum f al + f e - (case map_of al cl of None \<Rightarrow> 0 | Some e \<Rightarrow> f e)"
  by (cases cl) (simp_all add: class_sum_def CLASS_ALL_def)

lemma class_sum_fold:
  "class_sum fst (fold (class_step Z cfg) chunks al) =
     class_sum fst al + word_of_nat (sum_list (map (\<lambda>x. length (snd x)) chunks))"
  "class_sum snd (fold (class_step Z cfg) chunks al) =
     class_sum snd al + word_of_nat (sum_list (map (\<lambda>x. length (payload_of Z InitialFull cfg (snd x))) chunks))"
  by (induction chunks arbitrary: al)
    (auto simp: class_step_def class_sum_update payload_of_def u64_len_def Let_def split: option.split)

lemma sum_map_filter: "sum_list (map g (List.map_filter h xs)) = (\<Sum>x\<leftarrow>xs. case h x of None \<Rightarrow> (0 :: u64) | Some y \<Rightarrow> g y)"
  by (induction xs) (auto simp: map_filter_simps split: option.split)

text \<open>The per-class rows account for every byte: their input bytes add up to those of all chunks, and their stored
  bytes to what the simulation of the same policy reports for all chunks together.\<close>

theorem class_rows_account:
  "sum_list (map cl_bytes_in (file_class_diagnostics Z chunks policy)) =
     ps_bytes_in (simulate_policy Z (map snd chunks) policy InitialFull wall) \<and>
   sum_list (map cl_bytes_out (file_class_diagnostics Z chunks policy)) =
     ps_bytes_out (simulate_policy Z (map snd chunks) policy InitialFull wall)"
proof -
  let ?per = "fold (class_step Z (policy_kind_config policy)) chunks []"
  have e: "class_sum f [] = 0" for f by (simp add: class_sum_def CLASS_ALL_def)
  have r: "cl_bytes_in (class_row t cl p) = fst p" "cl_bytes_out (class_row t cl p) = snd p" for t cl p
    by (simp_all add: class_row_def split_beta)
  have "(\<Sum>x\<leftarrow>CLASS_ALL. case map_option (class_row t x) (map_of ?per x) of None \<Rightarrow> 0 | Some y \<Rightarrow> cl_bytes_in y) =
      class_sum fst ?per" for t
    unfolding class_sum_def by (rule arg_cong [of _ _ sum_list]) (auto simp: r split: option.split)
  moreover have "(\<Sum>x\<leftarrow>CLASS_ALL. case map_option (class_row t x) (map_of ?per x) of None \<Rightarrow> 0 | Some y \<Rightarrow> cl_bytes_out y) =
      class_sum snd ?per" for t
    unfolding class_sum_def by (rule arg_cong [of _ _ sum_list]) (auto simp: r split: option.split)
  ultimately show ?thesis
    by (simp add: file_class_diagnostics_def Let_def sum_map_filter class_sum_fold e simulate_policy_def
        run_policy_bytes_in run_policy_bytes_out comp_def)
qed

section \<open>Witnesses\<close>

definition keep_codec :: codecs where
  "keep_codec = \<lparr>zstd_encode_all = (\<lambda>data _. Ok (0 # data)), zstd_decode_all = (\<lambda>c. Ok (tl c)), lz4_compress = (\<lambda>d. d)\<rparr>"

lemma keep_codec_laws: "zstd_laws keep_codec" "zstd_nonempty keep_codec"
  by (auto simp: zstd_laws_def zstd_nonempty_def keep_codec_def)

definition keep_env :: "(unit, unit, unit) bk_env" where
  "keep_env = \<lparr>b_stub = undefined, b_aead = tag_aead, b_fill = zero_fill, b_codecs = keep_codec, b_cdc = undefined,
     b_blake3 = undefined, b_keyed = undefined, b_open = undefined, b_walk_fails = undefined\<rparr>"

definition keep_session :: "(unit, unit) bk" where
  "keep_session = \<lparr>bk_srv = (), bk_rng = (), bk_key = 0, bk_phase = InitialFull, bk_policy = policy_kind_config RawOnly,
     bk_counters = counters_default, bk_report = undefined, bk_seen = {}, bk_pending = [], bk_pending_bytes = 0, bk_log = []\<rparr>"

lemma keep_seals: "\<exists>bl st'. seal_pending keep_env {1} [(1, [7, 7])] keep_session = (Ok bl, st')"
  by (simp add: raw_only_stores_raw [OF keep_codec_laws(2)] keep_env_def keep_session_def store_raw_def encrypt_chunk_def
      seal_def tag_aead_def zero_fill_def Let_def del: policy_kind_config.simps)

theorem simulation_matches_backup_witness:
  "\<exists>bl st'. seal_pending keep_env {1} [(1, [7, 7])] keep_session = (Ok bl, st') \<and>
     br_upload_bytes (bk_report st') = br_upload_bytes (bk_report keep_session) +
       ps_stored_bytes (simulate_policy keep_codec [[7, 7]] RawOnly InitialFull 0)"
proof -
  obtain bl st' where r: "seal_pending keep_env {1} [(1, [7, 7])] keep_session = (Ok bl, st')" using keep_seals by blast
  have l: "pipeline_laws keep_env" using tag_aead_laws keep_codec_laws by (simp add: pipeline_laws_def keep_env_def)
  have p: "bk_policy keep_session = policy_kind_config RawOnly" by (simp add: keep_session_def)
  have "bk_phase keep_session = InitialFull" "b_codecs keep_env = keep_codec" by (simp_all add: keep_session_def keep_env_def)
  then show ?thesis using r simulation_matches_backup [OF l _ p r, of 0] by auto
qed

theorem extreme_policies_witness:
  "zstd_nonempty keep_codec \<and> ps_raw_chunks (simulate_policy keep_codec [[7, 7]] RawOnly InitialFull 0) = 1"
  using keep_codec_laws(2) extreme_policies [of keep_codec "[[7, 7]]" InitialFull 0] by simp

theorem bandwidth_projection_sound_witness:
  "Fin 2 \<le> bp_seconds (bandwidth_projection (Fin 2) 1000 [Fin 10, Fin 100] ! 0) \<and>
   bp_seconds (bandwidth_projection (Fin 2) 1000 [Fin 10, Fin 100] ! 1) \<le>
     bp_seconds (bandwidth_projection (Fin 2) 1000 [Fin 10, Fin 100] ! 0)"
  using bandwidth_projection_sound [of 0 "[Fin 10, Fin 100]" 1 "Fin 2" 1000] by simp

definition demo_inputs :: "f64 option \<Rightarrow> build_inputs" where
  "demo_inputs churn = \<lparr>bi_unique_chunks = [[7, 7]], bi_delta_chunks = None, bi_assume_churn = churn, bi_total_bytes = 2,
     bi_stage_rates = \<lparr>sr_read_mbps = Fin 1, sr_cdc_mbps = Fin 1, sr_blake3_mbps = Fin 1, sr_encrypt_mbps = Fin 1\<rparr>,
     bi_threads = 1, bi_net_mbps = [Fin 10], bi_bookkeeping_bytes = 0, bi_wall = (\<lambda>_ _. 0)\<rparr>"

theorem compression_report_total_witness:
  "(\<forall>kind. bi_wall (demo_inputs (Some NaN)) kind Incremental < 2 ^ 62 * 10 ^ 9) \<and>
   build_compression_report keep_codec (demo_inputs (Some NaN)) = None"
  using compression_report_total [of "demo_inputs (Some NaN)" keep_codec] by (simp add: demo_inputs_def churn_nan_def)

lemma demo_report_exists: "\<exists>rep. build_compression_report keep_codec (demo_inputs (Some (Fin 50))) = Some rep"
proof -
  have "\<not> churn_nan (demo_inputs (Some (Fin 50)))" "\<forall>kind. bi_wall (demo_inputs (Some (Fin 50))) kind Incremental < 2 ^ 62 * 10 ^ 9"
    by (simp_all add: churn_nan_def demo_inputs_def)
  then show ?thesis using compression_report_exists [of "demo_inputs (Some (Fin 50))" keep_codec] by blast
qed

theorem report_recommends_witness:
  "\<exists>rep. build_compression_report keep_codec (demo_inputs (Some (Fin 50))) = Some rep \<and>
     recommend_policy (cp_policies rep) \<noteq> None"
  using demo_report_exists report_recommends [of keep_codec "demo_inputs (Some (Fin 50))"] by fastforce

end
