(* ===== verification/Bench_Command.thy ===== *)
theory Bench_Command
  imports Client_Config Policy_Bench_Props Bench_Props Restore_Session
begin

text \<open>
  The command \<open>bench-chunking\<close>, \<open>crates/busyncr-client/src/bench_cmd.rs\<close>: its arguments, the choice between the two ways to chunk the
  tree, and the assembly of both reports. Table rendering and the JSON text are left out: the result is what they print.

  \<^item> The fan-out and the pass that keeps the bytes see the same file system; \<open>bench_world\<close> holds both, with the chunker over a file.
  \<^item> The iteration order of a \<open>HashMap\<close> is the argument \<open>ho\<close>, the number of cores what the standard library answers.
  \<^item> \<open>None\<close> is a panic, in the projection of an assumed churn.
\<close>

section \<open>Arguments\<close>

record bench_args =
  ba_path :: "bytes \<times> fpath \<times> fnode option"
  ba_sizes :: "bytes list"
  ba_baseline :: "(bytes \<times> fpath \<times> fnode option) option"
  ba_snapshots :: "u64 option"
  ba_compression :: bool
  ba_threads :: "u32 option"
  ba_net_mbps :: "f64 list"
  ba_assume_churn :: "f64 option"

datatype bench_cmd_error = BcArgs bench_arg_error | BcOneSize nat | BcBench bench_error

section \<open>The compression section\<close>

definition file_chunking_meta :: "file_chunking_full \<Rightarrow> file_chunking" where
  "file_chunking_meta f =
     (let metas = map (\<lambda>c. \<lparr>cm_id = chunk_ident c, cm_len = word_of_nat (chunk_byte_len c)\<rparr>) (ff_chunks f)
      in \<lparr>fc_rel_path = ff_rel_path f, fc_file_bytes = sum_list (map cm_len metas), fc_per_candidate = [metas]\<rparr>)"

definition default_threads :: "nat option \<Rightarrow> u32" where
  "default_threads cores = (case cores of None \<Rightarrow> 1 | Some n \<Rightarrow> word_of_nat n)"

text \<open>The accumulators of the loop over files and chunks; the map of unique chunks lists its entries as they were added.\<close>

record comp_acc =
  ca_unique :: "(chunk_id \<times> bytes) list"
  ca_class_chunks :: "(file_class \<times> bytes) list"
  ca_total_bytes :: u64
  ca_all_bytes :: bytes

definition comp_step :: "file_class \<Rightarrow> chunk \<Rightarrow> comp_acc \<Rightarrow> comp_acc" where
  "comp_step cl c a =
     (let a1 = a\<lparr>ca_total_bytes := ca_total_bytes a + word_of_nat (chunk_byte_len c),
                 ca_all_bytes := ca_all_bytes a @ chunk_data c\<rparr>
      in if map_of (ca_unique a) (chunk_ident c) = None
         then a1\<lparr>ca_unique := ca_unique a @ [(chunk_ident c, chunk_data c)],
                 ca_class_chunks := ca_class_chunks a @ [(cl, chunk_data c)]\<rparr>
         else a1)"

definition comp_scan :: "file_chunking_full list \<Rightarrow> comp_acc" where
  "comp_scan full =
     fold (\<lambda>f a. fold (comp_step (classify (ff_rel_path f))) (ff_chunks f) a) full
       \<lparr>ca_unique = [], ca_class_chunks = [], ca_total_bytes = 0, ca_all_bytes = []\<rparr>"

definition delta_of :: "(chunk_id \<times> bytes) list \<Rightarrow> file_chunking list \<Rightarrow> bytes list" where
  "delta_of unique baseline =
     (let ids = concat (map (\<lambda>f. map cm_id (fc_per_candidate f ! 0)) baseline)
      in map snd (filter (\<lambda>(cid, _). cid \<notin> set ids) unique))"

text \<open>What the clock measured, and the third-party code of the microbenchmarks.\<close>

record 'r bench_measures =
  bm_cdc :: cdc_cuts
  bm_aead :: aead
  bm_fill :: "'r fill_bytes"
  bm_codecs :: codecs
  bm_cdc_time :: duration
  bm_blake3_time :: duration
  bm_encrypt_time :: duration
  bm_wall :: "policy_kind \<Rightarrow> phase \<Rightarrow> duration"
  bm_cores :: "nat option"

record compression_output =
  co_report :: compression_report
  co_recommended :: "string option"
  co_diagnostics :: "file_class_row list"

definition compression_inputs :: "'r bench_measures \<Rightarrow> ((chunk_id \<times> bytes) list \<Rightarrow> (chunk_id \<times> bytes) list) \<Rightarrow> chunker_config \<Rightarrow> bench_args
    \<Rightarrow> comp_acc \<Rightarrow> duration \<Rightarrow> u64 \<Rightarrow> file_chunking list option \<Rightarrow> f64 \<Rightarrow> build_inputs" where
  "compression_inputs M ho cfg args a io_time bookkeeping_bytes baseline_files encrypt_mbps =
     (let delta_chunks = map_option (delta_of (ho (ca_unique a))) baseline_files
      in \<lparr>bi_unique_chunks = map snd (ho (ca_unique a)), bi_delta_chunks = delta_chunks,
          bi_assume_churn = (if delta_chunks \<noteq> None then None else ba_assume_churn args),
          bi_total_bytes = ca_total_bytes a,
          bi_stage_rates = \<lparr>sr_read_mbps = throughput_mbps (ca_total_bytes a) io_time,
             sr_cdc_mbps = measure_cdc_mbps (bm_cdc M) (ca_all_bytes a) cfg (bm_cdc_time M),
             sr_blake3_mbps = measure_blake3_mbps (ca_all_bytes a) (bm_blake3_time M), sr_encrypt_mbps = encrypt_mbps\<rparr>,
          bi_threads = (case ba_threads args of None \<Rightarrow> default_threads (bm_cores M) | Some n \<Rightarrow> n),
          bi_net_mbps = ba_net_mbps args, bi_bookkeeping_bytes = bookkeeping_bytes, bi_wall = bm_wall M\<rparr>)"

definition build_compression :: "'r bench_measures \<Rightarrow> ((chunk_id \<times> bytes) list \<Rightarrow> (chunk_id \<times> bytes) list) \<Rightarrow> chunker_config \<Rightarrow> bench_args
    \<Rightarrow> file_chunking_full list \<Rightarrow> duration \<Rightarrow> u64 \<Rightarrow> file_chunking list option \<Rightarrow> 'r \<Rightarrow> compression_output option \<times> 'r" where
  "build_compression M ho cfg args full io_time bookkeeping_bytes baseline_files rng =
     (let a = comp_scan full
      in case measure_encrypt_mbps (bm_aead M) (bm_fill M) (bm_encrypt_time M) rng of
           (encrypt_mbps, rng1) \<Rightarrow>
             (map_option (\<lambda>report.
                let recommended = recommend_policy (cp_policies report)
                in \<lparr>co_report = report, co_recommended = recommended,
                    co_diagnostics = (case Option.bind recommended policy_from_name of
                       None \<Rightarrow> [] | Some kind \<Rightarrow> file_class_diagnostics (bm_codecs M) (ca_class_chunks a) kind)\<rparr>)
              (build_compression_report (bm_codecs M)
                (compression_inputs M ho cfg args a io_time bookkeeping_bytes baseline_files encrypt_mbps)), rng1))"

section \<open>The command\<close>

record bench_world =
  bw_limits :: cdc_limits
  bw_fan :: bench_env
  bw_cdc :: "read_result list cdc_stream"
  bw_io_time :: "fpath \<Rightarrow> duration"

definition pass_env :: "bench_world \<Rightarrow> read_result list pb_env" where
  "pass_env W = \<lparr>pb_open = be_open (bw_fan W), pb_cdc = bw_cdc W, pb_blake3 = fe_blake3 (be_fan (bw_fan W)),
     pb_keyed = fe_keyed (be_fan (bw_fan W)), pb_io_time = bw_io_time W, pb_fails = be_fails (bw_fan W)\<rparr>"

definition bench_files :: "bench_world \<Rightarrow> bench_args \<Rightarrow> chunker_config list
    \<Rightarrow> bench_cmd_error + (file_chunking list \<times> (file_chunking_full list \<times> duration) option)" where
  "bench_files W args configs =
     map_err BcBench
       (if ba_compression args
        then and_then (chunk_tree_with_bytes (pass_env W) (snd (ba_path args)) (configs ! 0)) (\<lambda>(full, io_time).
               Ok (map file_chunking_meta full, Some (full, io_time)))
        else and_then (chunk_tree (bw_fan W) (snd (ba_path args)) configs) (\<lambda>fs. Ok (fs, None)))"

definition bench_baseline :: "bench_world \<Rightarrow> bench_args \<Rightarrow> chunker_config list \<Rightarrow> bench_cmd_error + (bytes \<times> file_chunking list) option" where
  "bench_baseline W args configs =
     (case ba_baseline args of
        None \<Rightarrow> Ok None
      | Some (label, rt) \<Rightarrow> and_then (map_err BcBench (chunk_tree (bw_fan W) rt configs)) (\<lambda>fs. Ok (Some (label, fs))))"

definition bench_sizes :: "bench_world \<Rightarrow> bench_args \<Rightarrow> bench_cmd_error + chunker_config list" where
  "bench_sizes W args =
     and_then (map_err BcArgs (candidate_configs (bw_limits W) (ba_sizes args))) (\<lambda>configs.
       if ba_compression args \<and> length configs \<noteq> 1 then Err (BcOneSize (length configs)) else Ok configs)"

definition bench_report_of :: "bench_world \<Rightarrow> bench_args
    \<Rightarrow> bench_cmd_error + (chunker_config list \<times> bench_report \<times> (file_chunking_full list \<times> duration) option \<times> file_chunking list option)" where
  "bench_report_of W args =
     and_then (bench_sizes W args) (\<lambda>configs.
     and_then (bench_files W args configs) (\<lambda>(fs, source).
     and_then (bench_baseline W args configs) (\<lambda>baseline.
     and_then (map_err BcBench (build_report (fst (ba_path args)) fs configs
         (case ba_snapshots args of None \<Rightarrow> steady_state_snapshots DEFAULT_PROJECTION_HORIZON_DAYS | Some n \<Rightarrow> n) baseline)) (\<lambda>report.
       Ok (configs, report, source, map_option snd baseline)))))"

definition bench_run :: "bench_world \<Rightarrow> 'r bench_measures \<Rightarrow> ((chunk_id \<times> bytes) list \<Rightarrow> (chunk_id \<times> bytes) list) \<Rightarrow> bench_args \<Rightarrow> 'r
    \<Rightarrow> (bench_cmd_error + (bench_report \<times> u64 option \<times> compression_output option)) option \<times> 'r" where
  "bench_run W M ho args rng =
     (case bench_report_of W args of
        Err e \<Rightarrow> (Some (Err e), rng)
      | Ok (configs, report, None, _) \<Rightarrow> (Some (Ok (report, recommend report, None)), rng)
      | Ok (configs, report, Some (full, io_time), baseline_files) \<Rightarrow>
         (case build_compression M ho (configs ! 0) args full io_time (cr_projected_bytes (bn_candidates report ! 0)) baseline_files rng of
            (c, rng1) \<Rightarrow> (map_option (\<lambda>c. Ok (report, recommend report, Some c)) c, rng1)))"

section \<open>One pass for both reports\<close>

lemma collect_metas_Ok:
  "collect_metas rs = Ok metas \<Longrightarrow> \<exists>cs. rs = map Ok cs \<and> metas = map meta_of cs"
proof (induction rs arbitrary: metas)
  case (Cons r rs)
  then obtain c metas' where r: "r = Ok c" and m: "collect_metas rs = Ok metas'" "metas = meta_of c # metas'"
    by (cases r) (auto simp: collect_metas_def and_then_Ok_iff)
  obtain cs where "rs = map Ok cs" "metas' = map meta_of cs" using Cons.IH [OF m(1)] by blast
  then show ?case using r m(2) by (intro exI [of _ "c # cs"]) simp
qed (simp add: collect_metas_def)

lemma collect_results_map_Ok: "collect_results (map_err g) (map Ok cs) = Ok cs"
  by (induction cs) simp_all

lemma chunk_lens_sum:
  "word_of_nat (length (concat (map chunk_data cs))) = (sum_list (map (\<lambda>c. word_of_nat (chunk_byte_len c)) cs) :: u64)"
  by (induction cs) (simp_all add: chunk_byte_len_def)

definition bench_laws :: "bench_world \<Rightarrow> bool" where
  "bench_laws W \<longleftrightarrow> stream_by_content (bw_cdc W) (fe_cdc (be_fan (bw_fan W))) \<and> (\<forall>cfg rd. \<not> fe_panics (be_fan (bw_fan W)) cfg rd) \<and>
     cdc_reads (\<lambda>src. concat (source_blocks src)) (bw_cdc W)"

lemma one_candidate:
  assumes "bench_laws W" and "fan_out_chunks (be_fan (bw_fan W)) src [cfg] = Ok fan"
  obtains cs where "chunk_reader (bw_cdc W) (fe_blake3 (be_fan (bw_fan W))) (fe_keyed (be_fan (bw_fan W))) src cfg = map Ok cs"
    "fo_per_candidate fan = [map meta_of cs]" "fo_bytes_read fan = sum_list (map (\<lambda>c. word_of_nat (chunk_byte_len c)) cs)"
proof -
  let ?E = "be_fan (bw_fan W)"
  have laws: "stream_by_content (bw_cdc W) (fe_cdc ?E)" "\<And>cfg rd. \<not> fe_panics ?E cfg rd"
    "cdc_reads (\<lambda>src. concat (source_blocks src)) (bw_cdc W)" using assms(1) by (simp_all add: bench_laws_def)
  obtain metas where m: "collect_metas (chunk_reader (bw_cdc W) (fe_blake3 ?E) (fe_keyed ?E) src cfg) = Ok metas"
    and fan: "fan = \<lparr>fo_per_candidate = [metas], fo_bytes_read = word_of_nat (length (concat (source_blocks src)))\<rparr>"
    using assms(2) fan_out_standalone [OF laws(1,2), of src "[cfg]"] by (auto simp: and_then_Ok_iff split: if_splits)
  obtain cs where cs: "chunk_reader (bw_cdc W) (fe_blake3 ?E) (fe_keyed ?E) src cfg = map Ok cs" "metas = map meta_of cs"
    using collect_metas_Ok [OF m] by blast
  note items = chunk_stream_items [OF cs(1) [unfolded chunk_reader_def]]
  have "concat (map chunk_data cs) = concat (source_blocks src)"
    using laws(3) [unfolded cdc_reads_def, THEN spec, THEN spec, THEN spec, THEN spec, THEN mp, OF conjunct1 [OF items]]
      conjunct2 [OF items] by simp
  then have "word_of_nat (length (concat (source_blocks src))) = (sum_list (map (\<lambda>c. word_of_nat (chunk_byte_len c)) cs) :: u64)"
    using chunk_lens_sum [of cs] by simp
  then show thesis using that cs fan by simp
qed

lemma chunk_files_full_same:
  assumes "bench_laws W"
  shows "chunk_files (bw_fan W) [cfg] fs = Ok out \<Longrightarrow>
    \<exists>full t. chunk_files_full (pass_env W) cfg fs = Ok (full, t) \<and> map file_chunking_meta full = out"
proof (induction fs arbitrary: out)
  case (Cons f fs)
  obtain rel path where f: "f = (rel, path)" by force
  obtain src fan out' where src: "be_open (bw_fan W) path = Some src" and fan: "fan_out_chunks (be_fan (bw_fan W)) src [cfg] = Ok fan"
    and rest: "chunk_files (bw_fan W) [cfg] fs = Ok out'"
    and out: "out = \<lparr>fc_rel_path = rel, fc_file_bytes = fo_bytes_read fan, fc_per_candidate = fo_per_candidate fan\<rparr> # out'"
    using Cons.prems f by (auto simp: and_then_Ok_iff split: option.splits)
  obtain cs where cs: "chunk_reader (bw_cdc W) (fe_blake3 (be_fan (bw_fan W))) (fe_keyed (be_fan (bw_fan W))) src cfg = map Ok cs"
    "fo_per_candidate fan = [map meta_of cs]" "fo_bytes_read fan = sum_list (map (\<lambda>c. word_of_nat (chunk_byte_len c)) cs)"
    by (rule one_candidate [OF assms fan])
  obtain full t where full: "chunk_files_full (pass_env W) cfg fs = Ok (full, t)" "map file_chunking_meta full = out'"
    using Cons.IH [OF rest] by blast
  have "chunk_files_full (pass_env W) cfg (f # fs) = Ok (\<lparr>ff_rel_path = rel, ff_chunks = cs\<rparr> # full, bw_io_time W path + t)"
    using full(1) src cs(1) f by (simp add: pass_env_def collect_results_map_Ok)
  moreover have "file_chunking_meta \<lparr>ff_rel_path = rel, ff_chunks = cs\<rparr> =
      \<lparr>fc_rel_path = rel, fc_file_bytes = fo_bytes_read fan, fc_per_candidate = fo_per_candidate fan\<rparr>"
    by (simp add: file_chunking_meta_def cs(2,3) meta_of_def comp_def)
  ultimately show ?case using full(2) out by auto
qed simp

text \<open>C27: Asking for the compression simulation changes nothing in the size report: the pass that keeps the chunk bytes yields, for one
  candidate, exactly the report of the fan-out that discards them, baseline figures included.\<close>

theorem compression_same_report:
  assumes "bench_laws W" and "bench_report_of W (args\<lparr>ba_compression := False\<rparr>) = Ok (configs, report, None, bl)" and "length configs = 1"
  shows "\<exists>full t. bench_report_of W (args\<lparr>ba_compression := True\<rparr>) = Ok (configs, report, Some (full, t), bl)"
proof -
  obtain cfg where cfg: "configs = [cfg]" using assms(3) by (auto simp: length_Suc_conv)
  obtain fs base where c: "map_err BcArgs (candidate_configs (bw_limits W) (ba_sizes args)) = Ok configs"
    and fs: "chunk_tree (bw_fan W) (snd (ba_path args)) configs = Ok fs"
    and base: "bench_baseline W (args\<lparr>ba_compression := False\<rparr>) configs = Ok base"
    and rep: "build_report (fst (ba_path args)) fs configs
       (case ba_snapshots args of None \<Rightarrow> steady_state_snapshots DEFAULT_PROJECTION_HORIZON_DAYS | Some n \<Rightarrow> n) base = Ok report"
    and bl: "bl = map_option snd base"
    using assms(2) by (auto simp: bench_report_of_def bench_sizes_def bench_files_def and_then_Ok_iff)
  obtain full t where full: "chunk_tree_with_bytes (pass_env W) (snd (ba_path args)) cfg = Ok (full, t)" "map file_chunking_meta full = fs"
    using fs chunk_files_full_same [OF assms(1), of cfg]
    by (fastforce simp: cfg chunk_tree_def chunk_tree_with_bytes_def pass_env_def and_then_Ok_iff split: option.splits fnode.splits)
  have "bench_baseline W (args\<lparr>ba_compression := True\<rparr>) configs = Ok base" using base by (simp add: bench_baseline_def)
  then show ?thesis using c full rep bl
    by (simp add: bench_report_of_def bench_sizes_def bench_files_def cfg)
qed

section \<open>The simulated chunks\<close>

abbreviation all_chunks :: "file_chunking_full list \<Rightarrow> chunk list" where
  "all_chunks full \<equiv> concat (map ff_chunks full)"

lemma comp_step_facts:
  "ca_total_bytes (comp_step cl c a) = ca_total_bytes a + word_of_nat (chunk_byte_len c)"
  "ca_all_bytes (comp_step cl c a) = ca_all_bytes a @ chunk_data c"
  "fst ` set (ca_unique (comp_step cl c a)) = insert (chunk_ident c) (fst ` set (ca_unique a))"
  "distinct (map fst (ca_unique a)) \<Longrightarrow> distinct (map fst (ca_unique (comp_step cl c a)))"
  "set (ca_unique (comp_step cl c a)) \<subseteq> insert (chunk_ident c, chunk_data c) (set (ca_unique a))"
  by (auto simp: comp_step_def Let_def map_of_eq_None_iff image_iff)

text \<open>The two loops as one, over the chunks with the class of their file.\<close>

definition tagged :: "file_chunking_full list \<Rightarrow> (file_class \<times> chunk) list" where
  "tagged full = concat (map (\<lambda>f. map (Pair (classify (ff_rel_path f))) (ff_chunks f)) full)"

lemma map_snd_tagged: "map snd (tagged full) = all_chunks full"
  by (induction full) (simp_all add: tagged_def comp_def)

lemma comp_scan_tagged:
  "comp_scan full = fold (case_prod comp_step) (tagged full) \<lparr>ca_unique = [], ca_class_chunks = [], ca_total_bytes = 0, ca_all_bytes = []\<rparr>"
proof -
  have "fold (comp_step cl) cs a = fold (case_prod comp_step) (map (Pair cl) cs) a" for cl cs a
    by (induction cs arbitrary: a) simp_all
  then have "fold (\<lambda>f a. fold (comp_step (classify (ff_rel_path f))) (ff_chunks f) a) full a = fold (case_prod comp_step) (tagged full) a" for a
    by (induction full arbitrary: a) (simp_all add: tagged_def)
  then show ?thesis by (simp add: comp_scan_def)
qed

lemma fold_comp_step:
  shows "ca_total_bytes (fold (case_prod comp_step) ps a) = ca_total_bytes a + sum_list (map (\<lambda>c. word_of_nat (chunk_byte_len c)) (map snd ps))"
    and "ca_all_bytes (fold (case_prod comp_step) ps a) = ca_all_bytes a @ concat (map chunk_data (map snd ps))"
    and "fst ` set (ca_unique (fold (case_prod comp_step) ps a)) = fst ` set (ca_unique a) \<union> chunk_ident ` set (map snd ps)"
    and "distinct (map fst (ca_unique a)) \<Longrightarrow> distinct (map fst (ca_unique (fold (case_prod comp_step) ps a)))"
    and "set (ca_unique (fold (case_prod comp_step) ps a)) \<subseteq> set (ca_unique a) \<union> (\<lambda>c. (chunk_ident c, chunk_data c)) ` set (map snd ps)"
proof (induction ps arbitrary: a)
  case (Cons p ps)
  { case 1 show ?case using Cons(1) by (simp add: split_beta add.assoc comp_step_facts) }
  { case 2 show ?case using Cons(2) by (simp add: split_beta comp_step_facts) }
  { case 3 show ?case using Cons(3) by (simp add: split_beta comp_step_facts) }
  { case 4 then show ?case using Cons(4) by (simp add: split_beta comp_step_facts) }
  { case 5 show ?case using Cons(5) [of "comp_step (fst p) (snd p) a"] comp_step_facts(5) [where cl = "fst p" and c = "snd p" and a = a]
      by (auto simp: split_beta) }
qed simp_all

lemma comp_scan_spec:
  "ca_total_bytes (comp_scan full) = sum_list (map (\<lambda>c. word_of_nat (chunk_byte_len c)) (all_chunks full))"
  "fst ` set (ca_unique (comp_scan full)) = chunk_ident ` set (all_chunks full)"
  "distinct (map fst (ca_unique (comp_scan full)))"
  "set (ca_unique (comp_scan full)) \<subseteq> (\<lambda>c. (chunk_ident c, chunk_data c)) ` set (all_chunks full)"
  using fold_comp_step [where ps = "tagged full" and a = "\<lparr>ca_unique = [], ca_class_chunks = [], ca_total_bytes = 0, ca_all_bytes = []\<rparr>"]
  unfolding comp_scan_tagged map_snd_tagged by simp_all

lemma candidate_metas_full: "candidate_metas 0 (map file_chunking_meta full) = map meta_of (all_chunks full)"
  by (induction full) (simp_all add: candidate_metas_def file_chunking_meta_def meta_of_def Let_def)

lemma delta_of_count:
  assumes "distinct (map fst xs)"
  shows "length (delta_of xs bfs) + card (fst ` set xs \<inter> cm_id ` set (candidate_metas 0 bfs)) = card (fst ` set xs)"
proof -
  define B where "B = cm_id ` set (candidate_metas 0 bfs)"
  have "set (concat (map (\<lambda>f. map cm_id (fc_per_candidate f ! 0)) bfs)) = B" by (auto simp: B_def candidate_metas_def)
  then have "delta_of xs bfs = map snd (filter (\<lambda>x. fst x \<notin> B) xs)" by (simp add: delta_of_def Let_def case_prod_unfold)
  moreover have "card (fst ` set (filter (\<lambda>x. fst x \<notin> B) xs)) = length (filter (\<lambda>x. fst x \<notin> B) xs)"
    using distinct_card [of "map fst (filter (\<lambda>x. fst x \<notin> B) xs)"] distinct_map_filter [OF assms, of "\<lambda>x. fst x \<notin> B"] by simp
  moreover have "fst ` set (filter (\<lambda>x. fst x \<notin> B) xs) = fst ` set xs - B" by auto
  moreover have "card (fst ` set xs - B) + card (fst ` set xs \<inter> B) = card (fst ` set xs)"
    by (metis List.finite_set card_Diff_subset_Int card_mono finite_Int finite_imageI inf_le1 le_add_diff_inverse2)
  ultimately show ?thesis by (simp add: B_def)
qed


section \<open>Witnesses\<close>

definition demo_world :: bench_world where
  "demo_world = \<lparr>bw_limits = demo_limits, bw_fan = demo_bench_env, bw_cdc = (\<lambda>src _ _ _. [CdcChunk 0 (concat (source_blocks src))]),
     bw_io_time = (\<lambda>_. 1)\<rparr>"

lemma demo_world_laws: "bench_laws demo_world"
  by (simp add: bench_laws_def demo_world_def demo_bench_env_def demo_fan_env_def stream_by_content_def cdc_reads_def)

definition demo_bench_args :: bench_args where
  "demo_bench_args = \<lparr>ba_path = ([], [], Some (Directory demo_tree)), ba_sizes = [size_label 4096], ba_baseline = None, ba_snapshots = None,
     ba_compression = False, ba_threads = None, ba_net_mbps = [], ba_assume_churn = None\<rparr>"

lemma demo_sizes: "candidate_configs demo_limits [size_label 4096] = Ok [\<lparr>min_size = 1024, target_size = 4096, max_size = 16384\<rparr>]"
proof -
  have "bench_parse_size (size_label 4096) = Ok 4096" using parse_size_label [of 4096] by (simp add: parse_size_iff(2))
  then show ?thesis
    by (simp add: candidate_configs_def chunker_config_with_target_def chunker_config_new_def demo_limits_def usize_saturating_mul_def)
qed

lemma demo_fan_any:
  "fan_out_chunks demo_fan_env [ReadOk [1, 2]] [cfg] = Ok \<lparr>fo_per_candidate = [[\<lparr>cm_id = 2, cm_len = 2\<rparr>]], fo_bytes_read = 2\<rparr>"
  by (simp add: fan_out_chunks_def fan_worker_def demo_fan_env_def Let_def chunk_reader_def collect_metas_def meta_of_def
      chunk_byte_len_def chunk_id_with_key_def chunk_id_of_def drain_all)

theorem compression_same_report_witness:
  "\<exists>configs report full t. bench_report_of demo_world (demo_bench_args\<lparr>ba_compression := False\<rparr>) = Ok (configs, report, None, None) \<and>
     bench_report_of demo_world (demo_bench_args\<lparr>ba_compression := True\<rparr>) = Ok (configs, report, Some (full, t), None)"
proof -
  let ?cfg = "\<lparr>min_size = 1024, target_size = 4096, max_size = 16384\<rparr>"
  have "\<exists>fs. chunk_tree demo_bench_env ([], Some (Directory demo_tree)) [?cfg] = Ok fs \<and> list_all (\<lambda>f. length (fc_per_candidate f) = 1) fs"
    by (simp add: chunk_tree_def demo_tree_def demo_bench_env_def bench_collect_files.simps bench_rel_path_def
        strip_prefix_def Let_def demo_fan_any slash_def less_eq_prod_def sort_key_def insort_key.simps)
  then obtain fs where fs: "chunk_tree demo_bench_env ([], Some (Directory demo_tree)) [?cfg] = Ok fs" "list_all (\<lambda>f. length (fc_per_candidate f) = 1) fs"
    by blast
  have "check_candidate_counts fs 1 = Ok ()" using fs(2) by (induction fs) simp_all
  then obtain report where r: "bench_report_of demo_world (demo_bench_args\<lparr>ba_compression := False\<rparr>) = Ok ([?cfg], report, None, None)"
    using fs(1) by (simp add: bench_report_of_def bench_sizes_def bench_files_def bench_baseline_def demo_world_def demo_bench_args_def
        demo_sizes build_report_def)
  then show ?thesis using compression_same_report [OF demo_world_laws r] by auto
qed

definition demo_full :: "file_chunking_full list" where
  "demo_full = [\<lparr>ff_rel_path = [0x62], ff_chunks = [\<lparr>chunk_ident = 2, chunk_offset = 0, chunk_data = [1, 2]\<rparr>,
     \<lparr>chunk_ident = 2, chunk_offset = 2, chunk_data = [1, 2]\<rparr>]\<rparr>]"


end
