(* ===== verification/Spec2Isabelle.thy ===== *)
theory Spec2Isabelle
  imports Identity_Codec Client_Keys Daemon_Commands Windows_Service Progress Bench_Command
begin

text \<open>
  \<^bold>\<open>busyncr\<close> is a backup system: a client cuts files into content-defined chunks, compresses and encrypts them, and
  sends them with an encrypted manifest to a daemon, which deduplicates and reference-counts them, prunes old
  snapshots on a retention grid and collects unreferenced chunks. This development models the Rust crates
  under \<open>src/crates\<close> and proves what makes them correct. Types keep the width of the source (\<open>u64\<close> is
  \<open>64 word\<close>), every \<open>Result\<close> is a sum whose left summand is the error, and every file system, database and RPC
  call that can fail is an explicit fault, so the theorems cover the error paths too.

  \<^bold>\<open>The program's parts and their theories\<close>, in the order of the imports:

  \<^descr>[Busyncr\_Prelude] shared types, results, machine integers, byte strings, UTF-8, and the locale
    \<open>inductive_invariant\<close> every reachability proof uses.
  \<^descr>[Retention] \<open>busyncr-core/src/retention.rs\<close>: tiers, cells, \<open>plan\<close>, the default grid. \<open>plan\<close> is equivalent to the
    declarative reading of the grid.
  \<^descr>[Chunking] \<open>chunking.rs\<close> and \<open>index.rs\<close> of the core: chunk identities, the chunker's configuration and its two front
    ends, the index record.
  \<^descr>[Manifest] \<open>manifest.rs\<close>: the wire format, its round trips and its rejection of damaged input.
  \<^descr>[Crypto] \<open>crypto.rs\<close>: sealing and opening of chunks and manifests, keyfiles.
  \<^descr>[Compression] \<open>compression.rs\<close>: framing, the policy with its double-precision comparisons (\<open>f64\<close> is
    modelled with rounding, infinities and NaN), its counters.
  \<^descr>[Store, Store\_Refs, Store\_GC, Store\_System] \<open>busyncr-daemon/src/store.rs\<close>: the definitions and single operations;
    snapshots and the invariant \<open>store_inv\<close>; garbage collection; the transition system of all operations,
    restarts and faults, whose reachable states satisfy the invariant (interpretation \<open>store_sys\<close>).
  \<^descr>[Identity, Identity\_Codec, Identity\_Registry] \<open>identity.rs\<close>: the certificate authority, enrollment tokens, the
    client registry; PEM and base64 decoding; the life of a token and of a client's certificate.
  \<^descr>[Service, Service\_Props] \<open>service.rs\<close>: authentication and the seven handlers; refusal of strangers, the daemon as
    a transition system over the store, and the contract \<open>blob_server\<close> uploads satisfy.
  \<^descr>[Client\_State, Client\_Keys] \<open>busyncr-client/src/enroll.rs\<close> and \<open>keys.rs\<close>: the client's state directory and
    keyfiles; no command destroys a key.
  \<^descr>[Backup, Backup\_Walk, Backup\_Session] \<open>backup.rs\<close>: the pipeline; the walk is exact; the session invariant and what
    a run leaves on any server that keeps the contract \<open>backup_server\<close>.
  \<^descr>[Restore, Restore\_Props, Restore\_Session] \<open>restore.rs\<close>: the pipeline; what it writes under arbitrary answers and faults;
    and that it succeeds and mirrors the source against the contract \<open>restore_server\<close>.
  \<^descr>[Roundtrip] the daemon of \<open>Service\<close> behind the client stub keeps both contracts (interpretation
    \<open>daemon_server\<close>), hence backup followed by restore gives the source tree back.

  \<^descr>[Bench\_FanOut, Bench, Bench\_Props] \<open>bench.rs\<close> of the core: one reader feeding a chunker thread per candidate over
    bounded channels, as functions and as a step relation of which every schedule ends with the same blocks; the walk, the
    report and the recommendation of the cheapest candidate.
  \<^descr>[F64\_Arith, Policy\_Bench, Policy\_Bench\_Props] \<open>policy_bench.rs\<close>: the simulated compression policies store what a backup
    would upload; projections and the recommendation.
  \<^descr>[Scheduler] \<open>scheduler.rs\<close> of the core and \<open>run.rs\<close> of the client: the jittered delay and the loop of backups on it.
  \<^descr>[Client\_Config] \<open>config.rs\<close> of the client and the parsers of sizes and intervals: what they accept and how they print back
    (locale \<open>unit_split\<close>, interpreted for sizes and for intervals); the settings the service starts with.
  \<^descr>[Calendar] the dates of \<open>snapshots.rs\<close> against the Gregorian calendar.
  \<^descr>[Client\_Commands] \<open>main.rs\<close>, \<open>snapshots.rs\<close>, \<open>status.rs\<close>: each command as the composition of the operations above.
  \<^descr>[Daemon\_Commands] \<open>main.rs\<close> and \<open>config.rs\<close> of the daemon, the prune timer: the store root under any sequence of commands and
    serving sessions (interpretation \<open>daemon_life\<close>).
  \<^descr>[Windows\_Service] \<open>service.rs\<close> of the client: installing, starting, stopping and removing the service, and its entry point.
  \<^descr>[Progress] \<open>progress.rs\<close>: when a progress line is written and what it says.
  \<^descr>[Bench\_Command] \<open>bench_cmd.rs\<close>: the benchmark command over both benchmarks.

  \<^bold>\<open>How state and operations correspond.\<close> A \<open>store\<close> is the redb tables and the object directory of \<open>ChunkStore\<close>;
  each method of \<open>ChunkStore\<close> is the definition of the same name, taking the interface of redb (\<open>redb\<close>) and the
  faults of this call. A \<open>service\<close> is \<open>BusyncrService\<close> with the identity directory; \<open>handle\<close> dispatches to the
  handler of each RPC. A \<open>bk\<close> is a \<open>Session\<close> with the locals of \<open>run_backup_with_progress\<close>; \<open>rs\<close> is the same for a restore. A
  transaction that fails before its commit leaves the tables as they were, one that commits has happened.

  \<^bold>\<open>Third-party code\<close> is a parameter: redb (\<open>redb_laws\<close>: a sorted key-value table), the AEAD
  (\<open>aead_laws\<close>: opening inverts sealing), Argon2id, the random generator (\<open>fill_laws\<close>: as many bytes as asked for), zstd and lz4 (\<open>zstd_laws\<close>:
  decompression inverts compression), FastCDC (cut points or items; \<open>cdc_reads\<close>: the chunks make up the content),
  BLAKE3 plain and keyed (no law; where a result needs distinct identities it assumes the keyed hash is injective on the
  chunks of that run), rcgen (\<open>rcgen_laws\<close>), toml (\<open>toml_laws\<close>, \<open>record_toml_laws\<close>, \<open>config_toml_laws\<close>: parsing inverts
  printing), ULIDs (\<open>ulid_laws\<close>: identifiers order as their timestamps), the range sampler of the random generator
  (\<open>range_laws\<close>: the number lies in the range), the service control manager (\<open>scm_laws\<close>), TLS dialling. The benchmarks add
  \<open>stream_by_content\<close> (a chunker sees the bytes and not how they arrive) and \<open>zstd_nonempty\<close> (a frame is not empty).
  Each law is shown to be satisfiable by a concrete instance in a witness.

  \<^bold>\<open>Bounds and guards.\<close> The transition system of the store assumes that reference counts stay below \<open>2 ^ 64\<close> and
  that a failing rename does not meet a left-over object file with other content; the theorem
  \<open>put_chunk_over_leftover\<close> shows what happens otherwise. All recursion is structural or has a
  termination proof; there is no fuel. Times are bounded only where the
  statement says so: intervals of the scheduler below \<open>2 ^ 61\<close> seconds, measured times below \<open>2 ^ 62\<close> seconds; a calendar date is
  computed for fewer than \<open>2 ^ 38\<close> days, which is every date a \<open>u64\<close> of milliseconds can denote.

  \<^bold>\<open>Not modelled.\<close> What is left is code whose work is done by a library or by the operating system: the argument parser of both
  binaries (derived by clap), the rendering of tables and JSON reports, the signal futures, the listeners with their TLS
  configuration, the Win32 event log, the generated wire protocol, the Windows branches of \<open>file_mode\<close>, \<open>set_mode\<close> and
  \<open>sanitize_path\<close>, and the texts of error messages. Concurrency is represented by interleaving whole store operations, by
  the split of \<open>gc\<close> into its transaction and its unlinks (\<open>gc_put_race\<close>), and by the step relation of the fan-out.
\<close>

end
